(* ===== verification/Py_Prelude.thy ===== *)
theory Py_Prelude
  imports Main "HOL-Library.Word"
begin

text \<open>
  Shared vocabulary of the development: the Python values the components exchange, the
  exceptions they raise, and the facts about byte strings, prefixes and association lists
  that more than one component needs.

  Conventions. A Python \<^verbatim>\<open>bytes\<close> value is a list of 8-bit words. A Python \<^verbatim>\<open>str\<close> is a
  \<^verbatim>\<open>string\<close> whose characters are the UTF-8 code units of the text, so \<^verbatim>\<open>str.encode("utf8")\<close>
  is \<open>str_encode\<close> and no information is lost. Python integers are \<open>int\<close>, or \<open>nat\<close> where the
  code never makes them negative. A dictionary whose order is observable is an association
  list in insertion order, any other one is a map. An exception is a value of \<open>py_error\<close>.
  Logging calls are not modelled anywhere.
\<close>

unbundle bit_operations_syntax

subsection \<open>Values and exceptions\<close>

type_synonym bytes = "8 word list"

datatype py_error =
    TypeError | ValueError | KeyError | IndexError | AttributeError | NameError
  | StructError | AssertionError | RuntimeError | OSError | EOFError
  | UnicodeError | ImportError | InvalidCompression | InvalidPacketEncoding | OtherError

definition str_encode :: "string \<Rightarrow> bytes" where
  "str_encode s = map (\<lambda>c. of_nat (of_char c)) s"

definition bytes_chars :: "bytes \<Rightarrow> string" where
  "bytes_chars b = map (\<lambda>w. char_of (unat w)) b"

lemma length_str_encode [simp]: "length (str_encode s) = length s"
  by (simp add: str_encode_def)

lemma map_sum_eq_Inr [simp]: "map_sum f g x = Inr y \<longleftrightarrow> (\<exists>z. x = Inr z \<and> y = g z)"
  by (cases x) auto

lemma map_sum_eq_Inl [simp]: "map_sum f g x = Inl y \<longleftrightarrow> (\<exists>z. x = Inl z \<and> y = f z)"
  by (cases x) auto

named_theorems bytes_simps
named_theorems dict_simps

subsection \<open>Big- and little-endian integers\<close>

fun be_bytes :: "nat \<Rightarrow> nat \<Rightarrow> bytes" where
  "be_bytes 0 v = []"
| "be_bytes (Suc n) v = be_bytes n (v div 256) @ [of_nat v]"

definition be_val :: "bytes \<Rightarrow> nat" where
  "be_val bs = foldl (\<lambda>a b. a * 256 + unat b) 0 bs"

fun le_val :: "bytes \<Rightarrow> nat" where
  "le_val [] = 0"
| "le_val (b # bs) = unat b + 256 * le_val bs"

fun le_bytes :: "nat \<Rightarrow> nat \<Rightarrow> bytes" where
  "le_bytes 0 v = []"
| "le_bytes (Suc n) v = of_nat v # le_bytes n (v div 256)"

lemma unat_byte_lt [simp]: "unat (b :: 8 word) < 256"
  using unsigned_less [of b] by simp

lemma unat_of_nat_byte [simp]: "unat (of_nat v :: 8 word) = v mod 256"
  by (simp add: unat_of_nat)

lemma bytes_chars_encode: "bytes_chars (str_encode s) = s"
  by (simp add: bytes_chars_def str_encode_def map_idI of_char_mod_256)

lemma of_nat_mod_byte [simp]: "(of_nat (v mod 256) :: 8 word) = of_nat v"
  by (metis of_nat_unat ucast_id unat_of_nat_byte)

lemma byte_256 [simp]: "(256 :: 8 word) = 0"
  by (simp add: word_unat_eq_iff)

lemma of_nat_add_256 [simp]: "(of_nat (a * 256 + unat (b :: 8 word)) :: 8 word) = b"
  by simp

lemma length_be_bytes [simp]: "length (be_bytes n v) = n"
  by (induction n arbitrary: v) auto

lemma length_le_bytes [simp]: "length (le_bytes n v) = n"
  by (induction n arbitrary: v) auto

lemma be_val_Nil [simp]: "be_val [] = 0"
  by (simp add: be_val_def)

lemma be_val_snoc [simp]: "be_val (bs @ [b]) = be_val bs * 256 + unat b"
  by (simp add: be_val_def)

lemma be_val_single [simp]: "be_val [b] = unat b"
  by (simp add: be_val_def)

lemma be_val_be_bytes: "be_val (be_bytes n v) = v mod 256 ^ n"
proof (induction n arbitrary: v)
  case (Suc n)
  have "v mod 256 ^ Suc n = (v div 256) mod 256 ^ n * 256 + v mod 256"
    by (simp add: mod_mult2_eq)
  then show ?case by (simp add: Suc)
qed simp

lemma be_bytes_be_val: "be_bytes (length bs) (be_val bs) = bs"
proof (induction bs rule: rev_induct)
  case (snoc b bs)
  have "(be_val bs * 256 + unat b) div 256 = be_val bs"
    by simp
  then show ?case by (simp add: snoc)
qed simp

lemma be_val_bound: "be_val bs < 256 ^ length bs"
proof -
  have "be_val bs = be_val (be_bytes (length bs) (be_val bs))"
    by (simp add: be_bytes_be_val)
  also have "\<dots> < 256 ^ length bs"
    by (simp only: be_val_be_bytes) simp
  finally show ?thesis .
qed

lemma le_val_le_bytes: "le_val (le_bytes n v) = v mod 256 ^ n"
proof (induction n arbitrary: v)
  case (Suc n)
  then show ?case by (simp add: mod_mult2_eq)
qed simp

lemma le_val_bound: "le_val bs < 256 ^ length bs"
proof (induction bs)
  case (Cons b bs)
  then have "le_val bs + 1 \<le> 256 ^ length bs" by simp
  then have "256 * le_val bs + 256 \<le> 256 * 256 ^ length bs" by simp
  moreover have "unat b < 256" by (rule unat_byte_lt)
  ultimately have "unat b + 256 * le_val bs < 256 * 256 ^ length bs" by linarith
  then show ?case by simp
qed simp

subsection \<open>Prefixes, suffixes and searching\<close>

definition startswith :: "'a list \<Rightarrow> 'a list \<Rightarrow> bool" where
  "startswith s p = (take (length p) s = p)"

definition endswith :: "'a list \<Rightarrow> 'a list \<Rightarrow> bool" where
  "endswith s p = (length p \<le> length s \<and> drop (length s - length p) s = p)"

lemma startswith_append [simp]: "startswith (p @ s) p"
  by (simp add: startswith_def)

lemma startswith_iff: "startswith s p \<longleftrightarrow> (\<exists>r. s = p @ r)"
  by (metis append_take_drop_id startswith_append startswith_def)

lemma endswith_append [simp]: "endswith (s @ p) p"
  by (simp add: endswith_def)

text \<open>\<^verbatim>\<open>s.find(x, start)\<close> for a single byte or character.\<close>

function find_from :: "'a \<Rightarrow> 'a list \<Rightarrow> nat \<Rightarrow> nat option" where
  "find_from x xs i =
     (if i < length xs then (if xs ! i = x then Some i else find_from x xs (Suc i)) else None)"
  by pat_completeness auto
termination by (relation "measure (\<lambda>(x, xs, i). length xs - i)") auto

declare find_from.simps [simp del]

lemma find_from_Some:
  "find_from x xs i = Some p \<Longrightarrow> i \<le> p \<and> p < length xs \<and> xs ! p = x \<and> (\<forall>j. i \<le> j \<and> j < p \<longrightarrow> xs ! j \<noteq> x)"
proof (induction x xs i rule: find_from.induct)
  case (1 x xs i)
  from "1.prems" have i: "i < length xs"
    by (subst (asm) find_from.simps) (auto split: if_splits)
  show ?case
  proof (cases "xs ! i = x")
    case True
    with i "1.prems" show ?thesis by (subst (asm) find_from.simps) auto
  next
    case False
    with i "1.prems" have "find_from x xs (Suc i) = Some p"
      by (subst (asm) find_from.simps) auto
    from "1.IH" [OF i False this] False show ?thesis
      by (metis Suc_leD le_antisym not_less_eq_eq)
  qed
qed

lemma find_from_None: "find_from x xs i = None \<Longrightarrow> i \<le> j \<Longrightarrow> j < length xs \<Longrightarrow> xs ! j \<noteq> x"
proof (induction x xs i rule: find_from.induct)
  case (1 x xs i)
  have i: "i < length xs" using "1.prems"(2,3) by simp
  with "1.prems"(1) have ne: "xs ! i \<noteq> x" and nx: "find_from x xs (Suc i) = None"
    by (subst (asm) find_from.simps, simp split: if_splits)+
  show ?case
  proof (cases "j = i")
    case False
    then have "Suc i \<le> j" using "1.prems"(2) by simp
    from "1.IH" [OF i ne nx this "1.prems"(3)] show ?thesis .
  qed (use ne in simp)
qed

subsection \<open>ASCII case folding and white space\<close>

definition lower_char :: "char \<Rightarrow> char" where
  "lower_char c = (if 65 \<le> (of_char c :: nat) \<and> (of_char c :: nat) \<le> 90
                   then char_of ((of_char c :: nat) + 32) else c)"

definition str_lower :: "string \<Rightarrow> string" where
  "str_lower s = map lower_char s"

definition is_space :: "char \<Rightarrow> bool" where
  "is_space c = (c = CHR '' '' \<or> c = CHR 0x09 \<or> c = CHR 0x0A \<or> c = CHR 0x0B \<or> c = CHR 0x0C \<or> c = CHR 0x0D
     \<or> c = CHR 0x1C \<or> c = CHR 0x1D \<or> c = CHR 0x1E \<or> c = CHR 0x1F)"

definition str_strip :: "string \<Rightarrow> string" where
  "str_strip s = rev (dropWhile is_space (rev (dropWhile is_space s)))"

lemma length_str_lower [simp]: "length (str_lower s) = length s"
  by (simp add: str_lower_def)

subsection \<open>Association lists in insertion order: Python dictionaries\<close>

text \<open>
  \<open>dict_set\<close> keeps the position of an existing key, as Python's assignment does, and
  \<open>dict_pop\<close> removes it. The lookup is the library's \<open>map_of\<close>.
\<close>

fun dict_set :: "'k \<Rightarrow> 'v \<Rightarrow> ('k \<times> 'v) list \<Rightarrow> ('k \<times> 'v) list" where
  "dict_set k v [] = [(k, v)]"
| "dict_set k v ((k', v') # d) = (if k' = k then (k, v) # d else (k', v') # dict_set k v d)"

definition dict_pop :: "'k \<Rightarrow> ('k \<times> 'v) list \<Rightarrow> ('k \<times> 'v) list" where
  "dict_pop k d = filter (\<lambda>(k', _). k' \<noteq> k) d"

lemma map_of_dict_set [simp, dict_simps]: "map_of (dict_set k v d) = (map_of d)(k \<mapsto> v)"
  by (induction k v d rule: dict_set.induct) (auto simp: fun_eq_iff)

lemma map_of_dict_pop [simp, dict_simps]: "map_of (dict_pop k d) = (map_of d)(k := None)"
  unfolding dict_pop_def by (induction d) (auto simp: fun_eq_iff)

lemma dict_set_new: "map_of d k = None \<Longrightarrow> dict_set k v d = d @ [(k, v)]"
  by (induction k v d rule: dict_set.induct) (auto split: if_splits)

lemma keys_dict_set [dict_simps]: "fst ` set (dict_set k v d) = insert k (fst ` set d)"
  by (induction k v d rule: dict_set.induct) auto

lemma keys_dict_pop [dict_simps]: "fst ` set (dict_pop k d) = fst ` set d - {k}"
  unfolding dict_pop_def by auto

lemma distinct_dict_set [simp]: "distinct (map fst d) \<Longrightarrow> distinct (map fst (dict_set k v d))"
proof (induction k v d rule: dict_set.induct)
  case (2 k v k' v' d)
  have "fst ` set (dict_set k v d) = insert k (fst ` set d)"
    by (rule keys_dict_set)
  with 2 show ?case by auto
qed simp

lemma distinct_dict_pop [simp]: "distinct (map fst d) \<Longrightarrow> distinct (map fst (dict_pop k d))"
  unfolding dict_pop_def by (induction d) auto

lemma length_dict_set: "length (dict_set k v d) = (if map_of d k = None then Suc (length d) else length d)"
  by (induction k v d rule: dict_set.induct) auto

subsection \<open>Python slices\<close>

text \<open>
  \<^verbatim>\<open>xs[i:j]\<close> with integer bounds: a negative bound counts from the end, and a bound beyond
  an end is clipped to it; slicing never raises.
\<close>

definition slice_index :: "nat \<Rightarrow> int \<Rightarrow> nat" where
  "slice_index n i = (if i < 0 then nat (int n + i) else min n (nat i))"

definition py_slice :: "'a list \<Rightarrow> int \<Rightarrow> int \<Rightarrow> 'a list" where
  "py_slice xs i j =
     (let a = slice_index (length xs) i; b = slice_index (length xs) j in take (b - a) (drop a xs))"

definition slice_to :: "'a list \<Rightarrow> int \<Rightarrow> 'a list" where
  "slice_to xs j = take (slice_index (length xs) j) xs"

definition slice_from :: "'a list \<Rightarrow> int \<Rightarrow> 'a list" where
  "slice_from xs i = drop (slice_index (length xs) i) xs"

lemma slice_index_le [simp]: "slice_index n i \<le> n"
  by (auto simp: slice_index_def)

lemma slice_to_from [simp]: "slice_to xs k @ slice_from xs k = xs"
  by (simp add: slice_to_def slice_from_def)

lemma slice_to_nonneg: "0 \<le> k \<Longrightarrow> slice_to xs k = take (nat k) xs"
  by (simp add: slice_to_def slice_index_def min_def)

lemma slice_from_nonneg: "0 \<le> k \<Longrightarrow> slice_from xs k = drop (nat k) xs"
  by (simp add: slice_from_def slice_index_def min_def)

lemma py_slice_nonneg:
  "0 \<le> i \<Longrightarrow> i \<le> j \<Longrightarrow> j \<le> int (length xs) \<Longrightarrow> py_slice xs i j = take (nat (j - i)) (drop (nat i) xs)"
  by (auto simp: py_slice_def slice_index_def Let_def min_def nat_diff_distrib)

subsection \<open>Splitting a stream into segments\<close>

lemma take_drop_append:
  assumes "n \<le> length xs"
  shows "take n (xs @ ys) = take n xs" and "drop n (xs @ ys) = drop n xs @ ys"
  using assms by simp_all

lemma nth_take_drop_split: "i < n \<Longrightarrow> take n xs ! i = xs ! i"
  by simp

end
