(* ===== verification/Packet_Header.thy ===== *)
theory Packet_Header
  imports Py_Prelude
begin

text \<open>
  The 8-byte packet header of \<^verbatim>\<open>xpra/net/protocol/header.py\<close>: the flag constants, packing and
  unpacking (\<^verbatim>\<open>struct "!BBBBL"\<close>, network byte order) and the scan for the first plausible
  header in a buffer that starts with noise. Header fields are non-negative in the code and
  are naturals here; \<^verbatim>\<open>struct.pack\<close> raises where a field exceeds its width.
\<close>

subsection \<open>Constants\<close>

definition FLAGS_BENCODE :: nat where "FLAGS_BENCODE = 0x0"
definition FLAGS_RENCODE :: nat where "FLAGS_RENCODE = 0x1"
definition FLAGS_YAML :: nat where "FLAGS_YAML = 0x4"
definition FLAGS_RENCODEPLUS :: nat where "FLAGS_RENCODEPLUS = 0x10"
definition FLAGS_FLUSH :: nat where "FLAGS_FLUSH = 0x8"
definition FLAGS_CIPHER :: nat where "FLAGS_CIPHER = 0x2"
definition LZ4_FLAG :: nat where "LZ4_FLAG = 0x10"
definition BROTLI_FLAG :: nat where "BROTLI_FLAG = 0x40"
definition FLAGS_NOHEADER :: nat where "FLAGS_NOHEADER = 0x10000"
definition HEADER_SIZE :: nat where "HEADER_SIZE = 8"

lemmas flag_defs = FLAGS_BENCODE_def FLAGS_RENCODE_def FLAGS_YAML_def FLAGS_RENCODEPLUS_def
  FLAGS_FLUSH_def FLAGS_CIPHER_def LZ4_FLAG_def BROTLI_FLAG_def FLAGS_NOHEADER_def

text \<open>Type of an unpacked header: magic byte, protocol flags, compression level, packet index, data size.\<close>

type_synonym header = "8 word \<times> nat \<times> nat \<times> nat \<times> nat"

subsection \<open>Packing and unpacking\<close>

definition pack_header :: "nat \<Rightarrow> nat \<Rightarrow> nat \<Rightarrow> nat \<Rightarrow> py_error + bytes" where
  "pack_header proto_flags level index payload_size =
     (if proto_flags < 256 \<and> level < 256 \<and> index < 256 \<and> payload_size < 2 ^ 32
      then Inr ([80, of_nat proto_flags, of_nat level, of_nat index] @ be_bytes 4 payload_size)
      else Inl StructError)"

definition unpack_header :: "bytes \<Rightarrow> py_error + header" where
  "unpack_header buf =
     (if length buf < HEADER_SIZE then Inl StructError
      else Inr (buf ! 0, unat (buf ! 1), unat (buf ! 2), unat (buf ! 3), be_val (take 4 (drop 4 buf))))"

subsection \<open>Scanning for a header\<close>

text \<open>The check the scan makes of the 8 bytes at a candidate position.\<close>

definition header_flags_valid :: "nat \<Rightarrow> nat \<Rightarrow> bool" where
  "header_flags_valid pflags compress =
     ((compress = 0 \<or> compress AND 0xf > 0) \<and>
      (let encoder_flag = pflags AND (FLAGS_RENCODE OR FLAGS_YAML OR FLAGS_RENCODEPLUS);
           n_flags_set = length (filter (\<lambda>flag. encoder_flag AND flag \<noteq> 0)
                                   [FLAGS_RENCODE, FLAGS_YAML, FLAGS_RENCODEPLUS])
       in encoder_flag = 0 \<or> n_flags_set = 1))"

definition header_acceptable :: "nat \<Rightarrow> nat \<Rightarrow> bytes \<Rightarrow> bool" where
  "header_acceptable index max_data_size buf =
     (case unpack_header buf of
        Inl _ \<Rightarrow> False
      | Inr (pchar, pflags, compress, packet_index, data_size) \<Rightarrow>
          pchar = 80 \<and> packet_index = index \<and> data_size < max_data_size
          \<and> header_flags_valid pflags compress)"

function find_xpra_header_from :: "bytes \<Rightarrow> nat \<Rightarrow> nat \<Rightarrow> nat \<Rightarrow> int" where
  "find_xpra_header_from data index max_data_size start =
     (case find_from 80 data start of
        None \<Rightarrow> -1
      | Some pos \<Rightarrow>
          if length data < pos + 8 then -1
          else if header_acceptable index max_data_size (take 8 (drop pos data)) then int pos
          else find_xpra_header_from data index max_data_size (pos + 1))"
  by pat_completeness auto
termination
  by (relation "measure (\<lambda>(data, index, m, start). length data - start)")
     (auto dest!: find_from_Some)

declare find_xpra_header_from.simps [simp del]

definition find_xpra_header :: "bytes \<Rightarrow> nat \<Rightarrow> nat \<Rightarrow> int" where
  "find_xpra_header data index max_data_size = find_xpra_header_from data index max_data_size 0"

subsection \<open>Lemmas: the codec\<close>

lemma length_pack_header [bytes_simps]: "pack_header f l i s = Inr h \<Longrightarrow> length h = 8"
  by (auto simp: pack_header_def split: if_splits)

lemma pack_header_bounds:
  "pack_header f l i s = Inr h \<Longrightarrow> f < 256 \<and> l < 256 \<and> i < 256 \<and> s < 4294967296"
  by (auto simp: pack_header_def split: if_splits)

lemma pack_header_magic: "pack_header f l i s = Inr h \<Longrightarrow> h ! 0 = 80"
  by (auto simp: pack_header_def split: if_splits)

lemma unpack_pack_append:
  assumes "pack_header f l i s = Inr h"
  shows "unpack_header (h @ rest) = Inr (80, f, l, i, s)"
  using assms
  by (auto simp: pack_header_def unpack_header_def HEADER_SIZE_def be_val_be_bytes split: if_splits)

lemma unpack_header_take: "8 \<le> length buf \<Longrightarrow> unpack_header (take 8 buf) = unpack_header buf"
  by (simp add: unpack_header_def HEADER_SIZE_def drop_take)

lemma unpack_header_ok: "8 \<le> length buf \<Longrightarrow> \<exists>h. unpack_header buf = Inr h"
  by (auto simp: unpack_header_def HEADER_SIZE_def)

lemma unpack_header_bounds:
  "unpack_header buf = Inr (c, f, l, i, s) \<Longrightarrow> f < 256 \<and> l < 256 \<and> i < 256 \<and> s < 2 ^ 32"
  using be_val_bound [of "take 4 (drop 4 buf)"]
  by (auto simp: unpack_header_def HEADER_SIZE_def split: if_splits)

lemma header_acceptable_magic:
  "header_acceptable index m (take 8 (drop p data)) \<Longrightarrow> p + 8 \<le> length data \<Longrightarrow> data ! p = 80"
  by (auto simp: header_acceptable_def unpack_header_def split: if_splits)

lemma header_acceptable_length:
  "header_acceptable index m buf \<Longrightarrow> 8 \<le> length buf"
  by (auto simp: header_acceptable_def unpack_header_def HEADER_SIZE_def split: if_splits)

subsection \<open>Lemmas: the scan finds the least acceptable position\<close>

lemma find_xpra_header_from_Some:
  assumes "find_xpra_header_from data index m start = r" and "0 \<le> r"
  shows "start \<le> nat r \<and> nat r + 8 \<le> length data
    \<and> header_acceptable index m (take 8 (drop (nat r) data))
    \<and> (\<forall>q. start \<le> q \<and> q < nat r \<longrightarrow> \<not> header_acceptable index m (take 8 (drop q data)))"
  using assms
proof (induction data index m start arbitrary: r rule: find_xpra_header_from.induct)
  case (1 data index m start)
  from "1.prems" obtain pos where pos: "find_from 80 data start = Some pos"
    by (subst (asm) find_xpra_header_from.simps) (auto split: option.splits)
  with "1.prems" have len: "\<not> length data < pos + 8"
    by (subst (asm) find_xpra_header_from.simps) (auto split: if_splits)
  have before: "\<not> header_acceptable index m (take 8 (drop q data))" if "start \<le> q" "q < pos" for q
  proof
    assume "header_acceptable index m (take 8 (drop q data))"
    then have "data ! q = 80" using that len by (intro header_acceptable_magic) auto
    with find_from_Some [OF pos] that show False by auto
  qed
  show ?case
  proof (cases "header_acceptable index m (take 8 (drop pos data))")
    case True
    with "1.prems" pos len have "r = int pos"
      by (subst (asm) find_xpra_header_from.simps) auto
    with True before find_from_Some [OF pos] len show ?thesis by auto
  next
    case False
    with "1.prems" pos len have "find_xpra_header_from data index m (pos + 1) = r"
      by (subst (asm) find_xpra_header_from.simps) auto
    from "1.IH" [OF pos len False this "1.prems"(2)] before False find_from_Some [OF pos]
    show ?thesis
      by (metis One_nat_def Suc_leD add.right_neutral add_Suc_right le_antisym le_trans nat_le_linear
          not_less_eq_eq linorder_not_le)
  qed
qed

lemma find_xpra_header_from_None:
  assumes "find_xpra_header_from data index m start < 0" and "start \<le> q"
  shows "\<not> header_acceptable index m (take 8 (drop q data))"
  using assms
proof (induction data index m start rule: find_xpra_header_from.induct)
  case (1 data index m start)
  show ?case
  proof
    assume acc: "header_acceptable index m (take 8 (drop q data))"
    then have q8: "q + 8 \<le> length data" using header_acceptable_length [OF acc] by simp
    with acc have q80: "data ! q = 80" by (intro header_acceptable_magic)
    from find_from_None [of 80 data start q] q80 q8 "1.prems"(2)
    obtain pos where pos: "find_from 80 data start = Some pos" by (cases "find_from 80 data start") auto
    have le: "pos \<le> q"
      using find_from_Some [OF pos] q80 "1.prems"(2) by (meson linorder_not_le)
    then have len: "\<not> length data < pos + 8" using q8 by simp
    from "1.prems"(1) pos len have na: "\<not> header_acceptable index m (take 8 (drop pos data))"
      and rec: "find_xpra_header_from data index m (pos + 1) < 0"
      by (subst (asm) find_xpra_header_from.simps, simp split: if_splits)+
    have "pos + 1 \<le> q" using le na acc by (cases "pos = q") auto
    from "1.IH" [OF pos len na rec this] acc show False by simp
  qed
qed

subsection \<open>Interface: a fixed-size header codec\<close>

text \<open>
  What the framing layer relies on: a packed header has the fixed size, and unpacking any
  buffer that starts with it returns its fields.
\<close>

locale header_codec =
  fixes pack :: "'h \<Rightarrow> py_error + bytes"
    and unpack :: "bytes \<Rightarrow> py_error + 'h"
    and hsize :: nat
  assumes pack_size: "pack h = Inr b \<Longrightarrow> length b = hsize"
    and unpack_pack: "pack h = Inr b \<Longrightarrow> unpack (b @ rest) = Inr h"
    and unpack_total: "hsize \<le> length b \<Longrightarrow> \<exists>h. unpack b = Inr h"
    and unpack_take: "hsize \<le> length b \<Longrightarrow> unpack (take hsize b) = unpack b"
begin

lemma unpack_prefix:
  assumes "hsize \<le> length b"
  shows "unpack (b @ rest) = unpack b"
proof -
  have "unpack (b @ rest) = unpack (take hsize (b @ rest))"
    using assms by (simp only: unpack_take length_append trans_le_add1)
  then show ?thesis using assms by (simp add: unpack_take)
qed

lemma pack_inj:
  assumes "pack h = Inr b" and "pack h' = Inr b"
  shows "h = h'"
  using unpack_pack [OF assms(1), of "[]"] unpack_pack [OF assms(2), of "[]"] by simp

end

text \<open>The header of the code, with its magic byte fixed: what \<^verbatim>\<open>pack_header\<close> writes.\<close>

definition pack_fields :: "nat \<times> nat \<times> nat \<times> nat \<Rightarrow> py_error + bytes" where
  "pack_fields h = (case h of (f, l, i, s) \<Rightarrow> pack_header f l i s)"

definition unpack_fields :: "bytes \<Rightarrow> py_error + (nat \<times> nat \<times> nat \<times> nat)" where
  "unpack_fields buf = map_sum id snd (unpack_header buf)"

interpretation xpra_header: header_codec pack_fields unpack_fields HEADER_SIZE
proof unfold_locales
  fix h b assume "pack_fields h = Inr b"
  then show "length b = HEADER_SIZE"
    by (cases h) (auto simp: pack_fields_def HEADER_SIZE_def dest: length_pack_header)
next
  fix h b rest assume "pack_fields h = Inr b"
  then show "unpack_fields (b @ rest) = Inr h"
    by (cases h) (auto simp: pack_fields_def unpack_fields_def unpack_pack_append)
next
  fix b :: bytes assume "HEADER_SIZE \<le> length b"
  then show "\<exists>h. unpack_fields b = Inr h"
    by (auto simp: unpack_fields_def unpack_header_def)
next
  fix b :: bytes assume "HEADER_SIZE \<le> length b"
  then show "unpack_fields (take HEADER_SIZE b) = unpack_fields b"
    by (simp add: unpack_fields_def HEADER_SIZE_def unpack_header_take)
qed

end
