(* ===== verification/Mmap_Ring.thy ===== *)
theory Mmap_Ring
  imports Py_Prelude
begin

text \<open>
  The shared-memory transfer area of \<^verbatim>\<open>xpra/net/mmap/io.py\<close>, \<^verbatim>\<open>common.py\<close> and \<^verbatim>\<open>objects.py\<close>:
  the size checks, the verification token, and the ring buffer the server writes pixel data
  to (\<^verbatim>\<open>mmap_write\<close>) and the client reads (\<^verbatim>\<open>mmap_read\<close>). The two 32-bit positions at the
  start of the area are fields of the record, kept at their width; \<open>mem\<close> is the whole file,
  whose first 8 bytes are the (separately modelled) positions. Creating and unlinking the
  file is not modelled.
\<close>

subsection \<open>Sizes and the token\<close>

definition roundup :: "int \<Rightarrow> int \<Rightarrow> int" where
  "roundup n m = (n + m - 1) AND (NOT (m - 1))"

definition validate_size :: "int \<Rightarrow> py_error option" where
  "validate_size sz =
     (if sz < 64 * 1024 * 1024 then Some ValueError
      else if sz > 16 * 1024 * 1024 * 1024 then Some ValueError
      else None)"

fun poke_token :: "bytes \<Rightarrow> nat \<Rightarrow> nat \<Rightarrow> nat \<Rightarrow> py_error + (bytes \<times> nat)" where
  "poke_token area v i 0 = Inr (area, v)"
| "poke_token area v i (Suc n) =
     (if i < length area then poke_token (area[i := of_nat (v mod 256)]) (v div 256) (Suc i) n
      else Inl ValueError)"

definition write_mmap_token :: "bytes \<Rightarrow> nat \<Rightarrow> nat \<Rightarrow> nat \<Rightarrow> py_error + bytes" where
  "write_mmap_token area token index count =
     (if count = 0 then Inl AssertionError
      else case poke_token area token index count of
        Inl e \<Rightarrow> Inl e
      | Inr (area', v) \<Rightarrow> if v = 0 then Inr area' else Inl AssertionError)"

fun peek_token :: "bytes \<Rightarrow> nat \<Rightarrow> nat \<Rightarrow> nat \<Rightarrow> py_error + nat" where
  "peek_token area v index 0 = Inr v"
| "peek_token area v index (Suc n) =
     (if index + n < length area then peek_token area (v * 256 + unat (area ! (index + n))) index n
      else Inl ValueError)"

definition read_mmap_token :: "bytes \<Rightarrow> nat \<Rightarrow> nat \<Rightarrow> py_error + nat" where
  "read_mmap_token area index count =
     (if count = 0 then Inl AssertionError else peek_token area 0 index count)"

subsection \<open>The ring buffer\<close>

record mmap_area =
  data_start :: "32 word"
  data_end :: "32 word"
  mem :: bytes

type_synonym chunk = "int \<times> int"

text \<open>\<^verbatim>\<open>mmap_area.seek(pos)\<close> then \<^verbatim>\<open>mmap_area.write(data)\<close>: raises outside the file.\<close>

definition seek_write :: "int \<Rightarrow> bytes \<Rightarrow> bytes \<Rightarrow> py_error + bytes" where
  "seek_write pos data area =
     (if pos < 0 \<or> pos + int (length data) > int (length area) then Inl ValueError
      else Inr (take (nat pos) area @ data @ drop (nat pos + length data) area))"

definition ring_start :: "mmap_area \<Rightarrow> int" where
  "ring_start a = max 8 (uint (data_start a))"

definition ring_end :: "mmap_area \<Rightarrow> int" where
  "ring_end a = max 8 (uint (data_end a))"

text \<open>The available space and the first contiguous chunk, as \<^verbatim>\<open>mmap_write\<close> computes them.\<close>

definition ring_space :: "mmap_area \<Rightarrow> int \<Rightarrow> int \<times> int" where
  "ring_space a mmap_size =
     (let start = ring_start a; end = ring_end a
      in if end < start then (start - end, start - end)
         else (mmap_size - end + (start - 8), mmap_size - end))"

definition mmap_write :: "bool \<Rightarrow> mmap_area \<Rightarrow> int \<Rightarrow> bytes \<Rightarrow> py_error + (mmap_area \<times> chunk list)" where
  "mmap_write always_wrap a mmap_size data =
     (let sz = int (length data)
      in if sz > mmap_size - 8 then Inr (a, [])
      else
        (let start = ring_start a; end = ring_end a; (available, chunk) = ring_space a mmap_size
         in if sz > available then Inr (a, [])
         else if sz < chunk then
           map_sum id (\<lambda>m. (a\<lparr>mem := m, data_end := word_of_int (end + sz)\<rparr>, [(end, sz)]))
             (seek_write end data (mem a))
         else if \<not> always_wrap \<and> 2 * available \<ge> mmap_size \<and> available \<ge> sz * 3 \<and> sz < start - 8 then
           map_sum id (\<lambda>m. (a\<lparr>mem := m, data_end := word_of_int (8 + sz)\<rparr>, [(8, sz)]))
             (seek_write 8 data (mem a))
         else
           (case seek_write end (slice_to data chunk) (mem a) of
              Inl e \<Rightarrow> Inl e
            | Inr m1 \<Rightarrow>
                map_sum id (\<lambda>m. (a\<lparr>mem := m, data_end := word_of_int (8 + (sz - chunk))\<rparr>,
                                  [(end, chunk), (8, sz - chunk)]))
                  (seek_write 8 (slice_from data chunk) m1))))"

text \<open>
  Reading: a single chunk is handed out as a view with a callback that moves \<^verbatim>\<open>data_start\<close>
  once the buffer has been used; several chunks are copied and freed at once. The third
  component is the position the callback will store (\<open>None\<close> is the \<^verbatim>\<open>noop\<close> callback).
\<close>

definition mmap_read :: "mmap_area \<Rightarrow> chunk list \<Rightarrow> bytes \<times> mmap_area \<times> int option" where
  "mmap_read a descr_data =
     (case descr_data of
        [(offset, len)] \<Rightarrow> (py_slice (mem a) offset (offset + len), a, Some (offset + len))
      | _ \<Rightarrow>
          (let data = concat (map (\<lambda>(offset, len). py_slice (mem a) offset (offset + len)) descr_data);
               end = foldl (\<lambda>_ (offset, len). offset + len) (uint (data_start a)) descr_data
           in (data, a\<lparr>data_start := word_of_int end\<rparr>, None)))"

definition free_mem :: "int option \<Rightarrow> mmap_area \<Rightarrow> mmap_area" where
  "free_mem cb a = (case cb of None \<Rightarrow> a | Some end \<Rightarrow> a\<lparr>data_start := word_of_int end\<rparr>)"

definition mmap_free_size :: "mmap_area \<Rightarrow> int \<Rightarrow> int" where
  "mmap_free_size a mmap_size =
     (let start = ring_start a; end = min mmap_size (ring_end a)
      in if end < start then start - end else (start - 8) + (mmap_size - end))"

subsection \<open>Memory lemmas\<close>

lemma length_seek_write: "seek_write p d m = Inr m' \<Longrightarrow> length m' = length m"
  by (auto simp: seek_write_def split: if_splits)

lemma seek_write_ok:
  "0 \<le> p \<Longrightarrow> p + int (length d) \<le> int (length m) \<Longrightarrow>
   seek_write p d m = Inr (take (nat p) m @ d @ drop (nat p + length d) m)"
  by (simp add: seek_write_def)

lemma slice_written:
  assumes "seek_write p d m = Inr m'"
  shows "py_slice m' p (p + int (length d)) = d"
proof -
  from assms have p: "0 \<le> p" "p + int (length d) \<le> int (length m)"
    and m': "m' = take (nat p) m @ d @ drop (nat p + length d) m"
    by (auto simp: seek_write_def split: if_splits)
  have "py_slice m' p (p + int (length d)) = take (length d) (drop (nat p) m')"
    using p length_seek_write [OF assms] by (subst py_slice_nonneg) auto
  also have "\<dots> = d" using p by (simp add: m')
  finally show ?thesis .
qed

lemma slice_unwritten:
  assumes w: "seek_write p d m = Inr m'" and o: "0 \<le> off" "0 \<le> l" "off + l \<le> int (length m)"
    and dis: "off + l \<le> p \<or> p + int (length d) \<le> off"
  shows "py_slice m' off (off + l) = py_slice m off (off + l)"
proof -
  from w have p: "0 \<le> p" "p + int (length d) \<le> int (length m)"
    and m': "m' = take (nat p) m @ d @ drop (nat p + length d) m"
    by (auto simp: seek_write_def split: if_splits)
  have s: "py_slice x off (off + l) = take (nat l) (drop (nat off) x)" if "length x = length m" for x :: bytes
    using o that by (subst py_slice_nonneg) auto
  have "take (nat l) (drop (nat off) m') = take (nat l) (drop (nat off) m)"
  proof (rule nth_equalityI)
    show "length (take (nat l) (drop (nat off) m')) = length (take (nat l) (drop (nat off) m))"
      using length_seek_write [OF w] by simp
    fix i assume "i < length (take (nat l) (drop (nat off) m'))"
    then have i: "i < nat l" "nat off + i < length m"
      using length_seek_write [OF w] by auto
    have "m' ! (nat off + i) = m ! (nat off + i)"
    proof (cases "off + l \<le> p")
      case True
      then have "nat off + i < nat p" using i o by linarith
      then show ?thesis using p by (simp add: m' nth_append)
    next
      case False
      then have ge: "nat p + length d \<le> nat off + i" using dis o p by linarith
      then have "\<not> nat off + i < nat p" "\<not> nat off + i - nat p < length d"
        "nat p + length d + (nat off + i - nat p - length d) = nat off + i" by linarith+
      then show ?thesis using p i by (simp add: m' nth_append)
    qed
    then show "take (nat l) (drop (nat off) m') ! i = take (nat l) (drop (nat off) m) ! i"
      using i length_seek_write [OF w] by simp
  qed
  then show ?thesis using length_seek_write [OF w] by (simp add: s)
qed

subsection \<open>The layout of the unread data\<close>

text \<open>
  \<open>chunks_in lo cs hi\<close>: the chunks lie between the two positions, in order and without
  overlap. \<open>ring_layout\<close> states where the unread chunks are: between start and end or, once
  the writer has wrapped around, from start to the top followed by the bottom up to end.
\<close>

fun chunks_in :: "int \<Rightarrow> chunk list \<Rightarrow> int \<Rightarrow> bool" where
  "chunks_in lo [] hi = (lo \<le> hi)"
| "chunks_in lo ((off, l) # cs) hi = (lo \<le> off \<and> 0 \<le> l \<and> chunks_in (off + l) cs hi)"

fun last_end :: "int \<Rightarrow> chunk list \<Rightarrow> int" where
  "last_end lo [] = lo"
| "last_end lo ((off, l) # cs) = last_end (off + l) cs"

definition ring_layout :: "int \<Rightarrow> int \<Rightarrow> int \<Rightarrow> chunk list \<Rightarrow> bool" where
  "ring_layout sz s e cs =
     (if e < s then (\<exists>as bs. cs = as @ bs \<and> chunks_in s as sz \<and> chunks_in 8 bs e)
      else chunks_in s cs e)"

definition chunk_data :: "bytes \<Rightarrow> chunk list \<Rightarrow> bytes" where
  "chunk_data m cs = concat (map (\<lambda>(off, l). py_slice m off (off + l)) cs)"

definition ring_inv :: "int \<Rightarrow> mmap_area \<Rightarrow> (chunk list \<times> bytes) list \<Rightarrow> bool" where
  "ring_inv sz a q \<longleftrightarrow>
     sz < 2 ^ 32 \<and> int (length (mem a)) = sz \<and> ring_start a < sz \<and> ring_end a < sz
     \<and> ring_layout sz (ring_start a) (ring_end a) (concat (map fst q))
     \<and> (\<forall>(cs, d) \<in> set q. cs \<noteq> [] \<and> last_end 0 cs < sz \<and> chunk_data (mem a) cs = d)"

lemma ring_layout_wrappedI:
  "chunks_in s as sz \<Longrightarrow> chunks_in 8 bs e \<Longrightarrow> e < s \<Longrightarrow> ring_layout sz s e (as @ bs)"
  by (auto simp: ring_layout_def)

lemma chunks_in_le: "chunks_in lo cs hi \<Longrightarrow> lo \<le> last_end lo cs \<and> last_end lo cs \<le> hi"
  by (induction lo cs hi rule: chunks_in.induct) auto

lemma chunks_in_append:
  "chunks_in lo (xs @ ys) hi \<longleftrightarrow> chunks_in lo xs (last_end lo xs) \<and> chunks_in (last_end lo xs) ys hi"
proof (induction xs arbitrary: lo)
  case (Cons x xs)
  then show ?case by (cases x) auto
qed simp

lemma chunks_in_mono: "chunks_in lo cs hi \<Longrightarrow> hi \<le> hi' \<Longrightarrow> chunks_in lo cs hi'"
  by (induction lo cs hi rule: chunks_in.induct) auto

lemma chunks_in_snoc:
  "chunks_in lo cs hi \<Longrightarrow> hi \<le> off \<Longrightarrow> 0 \<le> l \<Longrightarrow> off + l \<le> hi' \<Longrightarrow> chunks_in lo (cs @ [(off, l)]) hi'"
  by (induction lo cs hi rule: chunks_in.induct) auto

lemma chunks_in_mem:
  "chunks_in lo cs hi \<Longrightarrow> (off, l) \<in> set cs \<Longrightarrow> lo \<le> off \<and> 0 \<le> l \<and> off + l \<le> hi"
proof (induction lo cs hi rule: chunks_in.induct)
  case (2 lo o' l' cs hi)
  then show ?case using chunks_in_le [of "o' + l'" cs hi] by auto
qed simp

lemma last_end_append: "last_end lo (xs @ ys) = last_end (last_end lo xs) ys"
proof (induction xs arbitrary: lo)
  case (Cons x xs)
  then show ?case by (cases x) simp
qed simp

lemma last_end_any: "cs \<noteq> [] \<Longrightarrow> last_end lo cs = last_end lo' cs"
  by (cases cs) (auto simp: last_end.simps)

lemma foldl_last_end: "foldl (\<lambda>_ (offset, len). offset + len) lo cs = last_end lo cs"
  by (induction lo cs rule: last_end.induct) auto

lemma ring_start_ge: "8 \<le> ring_start a" and ring_end_ge: "8 \<le> ring_end a"
  by (simp_all add: ring_start_def ring_end_def)

text \<open>Where an unread chunk can be, relative to the two positions.\<close>

lemma ring_layout_mem:
  assumes "ring_layout sz s e cs" and "(off, l) \<in> set cs" and "8 \<le> s" and "e < sz"
  shows "8 \<le> off \<and> 0 \<le> l \<and> off + l \<le> sz \<and>
    (if e < s then s \<le> off \<or> off + l \<le> e else s \<le> off \<and> off + l \<le> e)"
proof (cases "e < s")
  case True
  with assms(1) obtain as bs where cs: "cs = as @ bs" "chunks_in s as sz" "chunks_in 8 bs e"
    by (auto simp: ring_layout_def)
  from cs(1) assms(2) consider "(off, l) \<in> set as" | "(off, l) \<in> set bs" by auto
  then show ?thesis
  proof cases
    case 1
    from chunks_in_mem [OF cs(2) this] show ?thesis using assms True by auto
  next
    case 2
    from chunks_in_mem [OF cs(3) this] show ?thesis using assms True by auto
  qed
next
  case False
  with assms(1) have "chunks_in s cs e" by (simp add: ring_layout_def)
  from chunks_in_mem [OF this assms(2)] show ?thesis using assms False by auto
qed

text \<open>Writing outside the unread region keeps every unread chunk.\<close>

lemma chunk_data_unwritten:
  assumes "seek_write p d m = Inr m'"
    and "\<forall>(off, l) \<in> set cs. 0 \<le> off \<and> 0 \<le> l \<and> off + l \<le> int (length m)
           \<and> (off + l \<le> p \<or> p + int (length d) \<le> off)"
  shows "chunk_data m' cs = chunk_data m cs"
proof -
  have "py_slice m' off (off + l) = py_slice m off (off + l)" if "(off, l) \<in> set cs" for off l
    using assms(2) that by (intro slice_unwritten [OF assms(1)]) auto
  then have "map (\<lambda>(off, l). py_slice m' off (off + l)) cs = map (\<lambda>(off, l). py_slice m off (off + l)) cs"
    by (intro map_cong) auto
  then show ?thesis by (simp only: chunk_data_def)
qed

subsection \<open>Writing and reading keep the invariant\<close>

lemma ring_space_eq:
  "ring_space a sz =
     (if ring_end a < ring_start a then (ring_start a - ring_end a, ring_start a - ring_end a)
      else (sz - ring_end a + (ring_start a - 8), sz - ring_end a))"
  by (simp add: ring_space_def Let_def)

text \<open>The three ways an accepted write proceeds.\<close>

lemma mmap_write_cases:
  assumes "mmap_write aw a sz d = Inr (a', chs)" and "chs \<noteq> []"
  obtains (first) m where "int (length d) < snd (ring_space a sz)"
      "seek_write (ring_end a) d (mem a) = Inr m"
      "a' = a\<lparr>mem := m, data_end := word_of_int (ring_end a + int (length d))\<rparr>"
      "chs = [(ring_end a, int (length d))]"
  | (restart) m where "snd (ring_space a sz) \<le> int (length d)" "3 * int (length d) \<le> fst (ring_space a sz)"
      "int (length d) < ring_start a - 8"
      "seek_write 8 d (mem a) = Inr m"
      "a' = a\<lparr>mem := m, data_end := word_of_int (8 + int (length d))\<rparr>"
      "chs = [(8, int (length d))]"
  | (split) m1 m chunk where "chunk = snd (ring_space a sz)" "chunk \<le> int (length d)"
      "seek_write (ring_end a) (slice_to d chunk) (mem a) = Inr m1"
      "seek_write 8 (slice_from d chunk) m1 = Inr m"
      "a' = a\<lparr>mem := m, data_end := word_of_int (8 + (int (length d) - chunk))\<rparr>"
      "chs = [(ring_end a, chunk), (8, int (length d) - chunk)]"
proof -
  obtain av ch where sp: "ring_space a sz = (av, ch)" by fastforce
  note w = assms(1) [unfolded mmap_write_def Let_def sp prod.case]
  from w assms(2) have big: "\<not> sz - 8 < int (length d)" and av: "\<not> av < int (length d)"
    by (auto split: if_splits)
  show thesis
  proof (cases "int (length d) < ch")
    case True
    with w big av show thesis by (auto simp: sp simp del: wi_hom_syms intro!: first)
  next
    case nfit: False
    show thesis
    proof (cases "\<not> aw \<and> sz \<le> 2 * av \<and> int (length d) * 3 \<le> av \<and> int (length d) < ring_start a - 8")
      case True
      with w big av nfit show thesis by (auto simp: sp simp del: wi_hom_syms intro!: restart)
    next
      case False
      with w big av nfit show thesis
        by (auto simp: sp split: sum.splits intro!: split)
    qed
  qed
qed

text \<open>A write strictly smaller than the free space keeps the unread data and appends its own.\<close>

lemma ring_pending_kept:
  assumes inv: "ring_inv sz a q" and w: "seek_write p d (mem a) = Inr m"
    and out: "(if ring_end a < ring_start a then ring_end a \<le> p \<and> p + int (length d) \<le> ring_start a
       else ring_end a \<le> p \<or> 8 \<le> p \<and> p + int (length d) \<le> ring_start a)"
    and mem: "(cs, x) \<in> set q"
  shows "chunk_data m cs = x"
proof -
  have sz: "int (length (mem a)) = sz" "ring_end a < sz"
    and lay: "ring_layout sz (ring_start a) (ring_end a) (concat (map fst q))"
    and x: "chunk_data (mem a) cs = x"
    using inv mem by (auto simp: ring_inv_def)
  have "chunk_data m cs = chunk_data (mem a) cs"
  proof (rule chunk_data_unwritten [OF w], safe)
    fix off l assume "(off, l) \<in> set cs"
    then have "(off, l) \<in> set (concat (map fst q))" using mem by force
    from ring_layout_mem [OF lay this ring_start_ge sz(2)] sz out
    show "0 \<le> off" "0 \<le> l" "off + l \<le> int (length (mem a))"
      "\<not> p + int (length d) \<le> off \<Longrightarrow> off + l \<le> p"
      by (auto split: if_splits)
  qed
  with x show ?thesis by simp
qed

lemma ring_end_store:
  "0 \<le> e \<Longrightarrow> e < 2 ^ 32 \<Longrightarrow> ring_end (a\<lparr>mem := m, data_end := word_of_int e\<rparr>) = max 8 e"
  by (simp add: ring_end_def uint_word_of_int)

lemma ring_start_store:
  "0 \<le> e \<Longrightarrow> e < 2 ^ 32 \<Longrightarrow> ring_start (a\<lparr>data_start := word_of_int e\<rparr>) = max 8 e"
  by (simp add: ring_start_def uint_word_of_int)

lemma ring_start_frame [simp]: "ring_start (a\<lparr>mem := m, data_end := e\<rparr>) = ring_start a"
  by (simp add: ring_start_def)

lemma ring_end_frame [simp]: "ring_end (a\<lparr>data_start := e\<rparr>) = ring_end a"
  by (simp add: ring_end_def)

lemma chunk_data_single: "seek_write p d m = Inr m' \<Longrightarrow> chunk_data m' [(p, int (length d))] = d"
  by (simp add: chunk_data_def slice_written)

lemma ring_invI:
  assumes inv: "ring_inv sz a q" and len: "length m = length (mem a)"
    and e: "8 \<le> e" "e < sz" and cs: "cs \<noteq> []" "last_end 0 cs < sz" "chunk_data m cs = d"
    and old: "\<And>c x. (c, x) \<in> set q \<Longrightarrow> chunk_data m c = x"
    and lay: "ring_layout sz (ring_start a) e (concat (map fst q) @ cs)"
  shows "ring_inv sz (a\<lparr>mem := m, data_end := word_of_int e\<rparr>) (q @ [(cs, d)])"
proof -
  have "sz < 2 ^ 32" using inv by (simp add: ring_inv_def)
  with e have "ring_end (a\<lparr>mem := m, data_end := word_of_int e\<rparr>) = e"
    by (subst ring_end_store) auto
  then show ?thesis
    using inv len e cs old lay by (auto simp: ring_inv_def)
qed

lemma ring_write_first:
  assumes inv: "ring_inv sz a q" and fit: "int (length d) < snd (ring_space a sz)"
    and w: "seek_write (ring_end a) d (mem a) = Inr m"
  shows "ring_inv sz (a\<lparr>mem := m, data_end := word_of_int (ring_end a + int (length d))\<rparr>)
           (q @ [([(ring_end a, int (length d))], d)])"
proof (rule ring_invI [OF inv length_seek_write [OF w]])
  let ?S = "ring_start a" and ?E = "ring_end a"
  have sz: "?E < sz" "?S < sz" and lay: "ring_layout sz ?S ?E (concat (map fst q))"
    using inv by (auto simp: ring_inv_def)
  show "8 \<le> ?E + int (length d)" using ring_end_ge [of a] by simp
  show "?E + int (length d) < sz" using fit sz by (auto simp: ring_space_eq split: if_splits)
  show "chunk_data m [(?E, int (length d))] = d" by (rule chunk_data_single [OF w])
  show "chunk_data m c = x" if "(c, x) \<in> set q" for c x
    using fit by (intro ring_pending_kept [OF inv w _ that]) (auto simp: ring_space_eq split: if_splits)
  show "ring_layout sz ?S (?E + int (length d)) (concat (map fst q) @ [(?E, int (length d))])"
  proof (cases "?E < ?S")
    case True
    with lay obtain as bs where cs: "concat (map fst q) = as @ bs" "chunks_in ?S as sz" "chunks_in 8 bs ?E"
      by (auto simp: ring_layout_def)
    have "chunks_in 8 (bs @ [(?E, int (length d))]) (?E + int (length d))"
      by (rule chunks_in_snoc [OF cs(3)]) auto
    moreover have "?E + int (length d) < ?S" using fit True by (simp add: ring_space_eq)
    ultimately show ?thesis using cs by (auto simp: ring_layout_def)
  next
    case False
    with lay have "chunks_in ?S (concat (map fst q)) ?E" by (simp add: ring_layout_def)
    then have "chunks_in ?S (concat (map fst q) @ [(?E, int (length d))]) (?E + int (length d))"
      by (rule chunks_in_snoc) auto
    with False show ?thesis by (simp add: ring_layout_def)
  qed
  show "last_end 0 [(?E, int (length d))] < sz"
    using fit sz by (auto simp: ring_space_eq split: if_splits)
qed auto

lemma ring_write_restart:
  assumes inv: "ring_inv sz a q" and fit: "snd (ring_space a sz) \<le> int (length d)"
    "3 * int (length d) \<le> fst (ring_space a sz)" "int (length d) < ring_start a - 8"
    and w: "seek_write 8 d (mem a) = Inr m"
  shows "ring_inv sz (a\<lparr>mem := m, data_end := word_of_int (8 + int (length d))\<rparr>)
           (q @ [([(8, int (length d))], d)])"
proof (rule ring_invI [OF inv length_seek_write [OF w]])
  let ?S = "ring_start a" and ?E = "ring_end a"
  have sz: "?E < sz" "?S < sz" and lay: "ring_layout sz ?S ?E (concat (map fst q))"
    using inv by (auto simp: ring_inv_def)
  have unwrapped: "?S \<le> ?E" using fit by (auto simp: ring_space_eq split: if_splits)
  show "8 \<le> 8 + int (length d)" by simp
  show "8 + int (length d) < sz" using fit sz by simp
  show "chunk_data m [(8, int (length d))] = d" by (rule chunk_data_single [OF w])
  show "chunk_data m c = x" if "(c, x) \<in> set q" for c x
    using fit unwrapped by (intro ring_pending_kept [OF inv w _ that]) auto
  have "chunks_in ?S (concat (map fst q)) sz"
    using lay unwrapped sz chunks_in_mono [of ?S _ ?E sz] by (simp add: ring_layout_def)
  then show "ring_layout sz ?S (8 + int (length d)) (concat (map fst q) @ [(8, int (length d))])"
    using fit by (intro ring_layout_wrappedI) auto
  show "last_end 0 [(8, int (length d))] < sz" using fit sz by simp
qed auto

lemma ring_write_split:
  assumes inv: "ring_inv sz a q" and ch: "chunk = snd (ring_space a sz)" "chunk \<le> int (length d)"
    and fit: "int (length d) < fst (ring_space a sz)"
    and w1: "seek_write (ring_end a) (slice_to d chunk) (mem a) = Inr m1"
    and w2: "seek_write 8 (slice_from d chunk) m1 = Inr m"
  shows "ring_inv sz (a\<lparr>mem := m, data_end := word_of_int (8 + (int (length d) - chunk))\<rparr>)
           (q @ [([(ring_end a, chunk), (8, int (length d) - chunk)], d)])"
proof -
  let ?S = "ring_start a" and ?E = "ring_end a" and ?n = "int (length d)"
  have sz: "?E < sz" "?S < sz" "int (length (mem a)) = sz"
    and lay: "ring_layout sz ?S ?E (concat (map fst q))"
    using inv by (auto simp: ring_inv_def)
  have unwrapped: "?S \<le> ?E" and c: "chunk = sz - ?E" and n: "?n < chunk + ?S - 8"
    using fit ch by (auto simp: ring_space_eq split: if_splits)
  have chpos: "0 < chunk" using c sz by simp
  have l1: "int (length (slice_to d chunk)) = chunk" and l2: "int (length (slice_from d chunk)) = ?n - chunk"
    using chpos ch(2) by (auto simp: slice_to_nonneg slice_from_nonneg)
  have len1: "length m1 = length (mem a)" by (rule length_seek_write [OF w1])
  let ?a1 = "a\<lparr>mem := m1\<rparr>"
  have old1: "chunk_data m1 cs = x" if "(cs, x) \<in> set q" for cs x
    using unwrapped by (intro ring_pending_kept [OF inv w1 _ that]) auto
  have inv1: "ring_inv sz ?a1 q"
    using inv len1 by (auto simp: ring_inv_def ring_start_def ring_end_def old1)
  have s1: "py_slice m1 ?E (?E + chunk) = slice_to d chunk"
    using slice_written [OF w1] l1 by simp
  have s2: "py_slice m ?E (?E + chunk) = slice_to d chunk"
  proof -
    have "py_slice m ?E (?E + chunk) = py_slice m1 ?E (?E + chunk)"
      using c chpos unwrapped n l2 len1 sz ring_end_ge [of a]
      by (intro slice_unwritten [OF w2]) auto
    then show ?thesis by (simp only: s1)
  qed
  have s3: "py_slice m 8 (8 + (?n - chunk)) = slice_from d chunk"
    using slice_written [OF w2] l2 by simp
  have "ring_inv sz (?a1\<lparr>mem := m, data_end := word_of_int (8 + (?n - chunk))\<rparr>)
      (q @ [([(?E, chunk), (8, ?n - chunk)], d)])"
  proof (rule ring_invI [OF inv1])
    show "length m = length (mem ?a1)" using length_seek_write [OF w2] by simp
    show "8 \<le> 8 + (?n - chunk)" using ch by simp
    show "8 + (?n - chunk) < sz" using n sz by simp
    show "chunk_data m [(?E, chunk), (8, ?n - chunk)] = d"
      by (simp add: chunk_data_def s2 s3)
    show "chunk_data m cs = x" if "(cs, x) \<in> set q" for cs x
      using w2 unwrapped n l2
      by (intro ring_pending_kept [OF inv1 _ _ that]) (auto simp: ring_start_def ring_end_def)
    have "chunks_in ?S (concat (map fst q)) ?E"
      using lay unwrapped by (simp add: ring_layout_def)
    then have "chunks_in ?S (concat (map fst q) @ [(?E, chunk)]) sz"
      using c chpos by (intro chunks_in_snoc) auto
    then have "ring_layout sz ?S (8 + (?n - chunk))
        ((concat (map fst q) @ [(?E, chunk)]) @ [(8, ?n - chunk)])"
      using n ch by (intro ring_layout_wrappedI) auto
    then show "ring_layout sz (ring_start ?a1) (8 + (?n - chunk))
        (concat (map fst q) @ [(?E, chunk), (8, ?n - chunk)])"
      by (simp add: ring_start_def)
    show "last_end 0 [(?E, chunk), (8, ?n - chunk)] < sz" using n sz by simp
  qed auto
  then show ?thesis by simp
qed

lemma ring_write_inv:
  assumes "ring_inv sz a q" and w: "mmap_write aw a sz d = Inr (a', chs)" and "chs \<noteq> []"
    and "int (length d) < fst (ring_space a sz)"
  shows "ring_inv sz a' (q @ [(chs, d)])"
  using w assms(3)
proof (cases rule: mmap_write_cases)
  case (first m)
  then show ?thesis using ring_write_first [OF assms(1)] by simp
next
  case (restart m)
  then show ?thesis using ring_write_restart [OF assms(1)] by simp
next
  case (split m1 m chunk)
  then show ?thesis using ring_write_split [OF assms(1)] assms(4) by simp
qed

text \<open>Reading the oldest transfer returns what was written and frees exactly its space.\<close>

lemma mmap_read_eq:
  "cs \<noteq> [] \<Longrightarrow> mmap_read a cs = (d, a', cb) \<Longrightarrow>
   d = chunk_data (mem a) cs \<and> free_mem cb a' = a\<lparr>data_start := word_of_int (last_end 0 cs)\<rparr>"
proof -
  assume ne: "cs \<noteq> []" and r: "mmap_read a cs = (d, a', cb)"
  show ?thesis
  proof (cases "tl cs = []")
    case True
    with ne obtain off l where "cs = [(off, l)]" by (cases cs) auto
    with r show ?thesis by (auto simp: mmap_read_def free_mem_def chunk_data_def)
  next
    case False
    with ne obtain c1 c2 cs' where cs: "cs = c1 # c2 # cs'" by (metis list.exhaust_sel)
    have "foldl (\<lambda>_ (offset, len). offset + len) (uint (data_start a)) cs = last_end 0 cs"
      using last_end_any [OF ne] by (simp add: foldl_last_end)
    with r cs show ?thesis
      by (auto simp: mmap_read_def free_mem_def chunk_data_def Let_def)
  qed
qed

lemma ring_layout_read:
  assumes "ring_layout sz s e (cs @ rest)" and "cs \<noteq> []" and "8 \<le> s"
  shows "ring_layout sz (last_end 0 cs) e rest \<and> 8 \<le> last_end 0 cs"
proof (cases "e < s")
  case True
  with assms(1) obtain as bs where eq: "cs @ rest = as @ bs" and as: "chunks_in s as sz" and bs: "chunks_in 8 bs e"
    by (auto simp: ring_layout_def)
  from eq obtain us where "cs = as @ us \<and> us @ rest = bs \<or> cs @ us = as \<and> rest = us @ bs"
    by (auto simp: append_eq_append_conv2)
  then consider (in_as) "as = cs @ us" "rest = us @ bs"
    | (in_bs) "cs = as @ us" "bs = us @ rest" "us \<noteq> []"
    by (cases "us = []") auto
  then show ?thesis
  proof cases
    case in_as
    with as have c: "chunks_in s cs (last_end s cs)" "chunks_in (last_end s cs) us sz"
      by (auto simp: chunks_in_append)
    have l: "last_end 0 cs = last_end s cs" by (rule last_end_any [OF assms(2)])
    have le: "s \<le> last_end s cs" using chunks_in_le [OF c(1)] by simp
    with c(2) bs True have "ring_layout sz (last_end s cs) e (us @ bs)"
      by (intro ring_layout_wrappedI) auto
    with le assms(3) in_as show ?thesis by (simp add: l)
  next
    case in_bs
    with bs have c: "chunks_in 8 us (last_end 8 us)" "chunks_in (last_end 8 us) rest e"
      by (auto simp: chunks_in_append)
    have "last_end 0 cs = last_end 8 us"
      using in_bs last_end_any [of us] by (simp add: last_end_append)
    with c chunks_in_le [OF c(1)] chunks_in_le [OF c(2)] show ?thesis by (auto simp: ring_layout_def)
  qed
next
  case False
  with assms(1) have c: "chunks_in s cs (last_end s cs)" "chunks_in (last_end s cs) rest e"
    by (auto simp: ring_layout_def chunks_in_append)
  have l: "last_end 0 cs = last_end s cs" by (rule last_end_any [OF assms(2)])
  from chunks_in_le [OF c(1)] chunks_in_le [OF c(2)] c(2) assms(3) show ?thesis
    by (auto simp: ring_layout_def l)
qed

lemma ring_read_inv:
  assumes inv: "ring_inv sz a ((cs, d) # q)" and r: "mmap_read a cs = (d', a', cb)"
  shows "d' = d \<and> ring_inv sz (free_mem cb a') q"
proof -
  have cs: "cs \<noteq> []" "last_end 0 cs < sz" "chunk_data (mem a) cs = d" and sz: "sz < 2 ^ 32"
    and lay: "ring_layout sz (ring_start a) (ring_end a) (cs @ concat (map fst q))"
    using inv by (auto simp: ring_inv_def)
  from mmap_read_eq [OF cs(1) r] have d: "d' = d" and f: "free_mem cb a' = a\<lparr>data_start := word_of_int (last_end 0 cs)\<rparr>"
    using cs by auto
  from ring_layout_read [OF lay cs(1) ring_start_ge]
  have lay': "ring_layout sz (last_end 0 cs) (ring_end a) (concat (map fst q))" and ge: "8 \<le> last_end 0 cs"
    by auto
  have "ring_start (free_mem cb a') = last_end 0 cs"
    using ge cs sz by (simp add: f ring_start_store)
  then show ?thesis
    using inv lay' cs d by (auto simp: f ring_inv_def)
qed

subsection \<open>Interface: a first-in first-out store of byte strings\<close>

text \<open>
  The client of the ring (the encoder on one side, the paint code on the other) relies on a
  queue discipline: every accepted transfer gets a handle, handles are redeemed in order, and
  a handle returns the data it was given for. \<open>fifo_run\<close> is a schedule of such calls; it
  returns the final store, the handles in flight, the accepted and the delivered data.
\<close>

datatype 'd fifo_op = Put 'd | Get

fun fifo_run :: "('s \<Rightarrow> 'd \<Rightarrow> ('s \<times> 'h) option) \<Rightarrow> ('s \<Rightarrow> 'h \<Rightarrow> 'd \<times> 's) \<Rightarrow> 's \<Rightarrow> 'h list
    \<Rightarrow> 'd fifo_op list \<Rightarrow> 's \<times> 'h list \<times> 'd list \<times> 'd list" where
  "fifo_run put get s q [] = (s, q, [], [])"
| "fifo_run put get s q (Put d # ops) =
     (case put s d of
        None \<Rightarrow> fifo_run put get s q ops
      | Some (s', h) \<Rightarrow>
          (case fifo_run put get s' (q @ [h]) ops of (s'', q', acc, del) \<Rightarrow> (s'', q', d # acc, del)))"
| "fifo_run put get s q (Get # ops) =
     (case q of
        [] \<Rightarrow> fifo_run put get s q ops
      | h # hs \<Rightarrow>
          (case get s h of (d, s') \<Rightarrow>
             (case fifo_run put get s' hs ops of (s'', q', acc, del) \<Rightarrow> (s'', q', acc, d # del))))"

text \<open>A side condition on every accepted \<open>Put\<close> of a schedule.\<close>

fun fifo_all_ok :: "('s \<Rightarrow> 'd \<Rightarrow> ('s \<times> 'h) option) \<Rightarrow> ('s \<Rightarrow> 'h \<Rightarrow> 'd \<times> 's) \<Rightarrow> ('s \<Rightarrow> 'd \<Rightarrow> bool) \<Rightarrow> 's
    \<Rightarrow> 'h list \<Rightarrow> 'd fifo_op list \<Rightarrow> bool" where
  "fifo_all_ok put get ok s q [] = True"
| "fifo_all_ok put get ok s q (Put d # ops) =
     (case put s d of
        None \<Rightarrow> fifo_all_ok put get ok s q ops
      | Some (s', h) \<Rightarrow> ok s d \<and> fifo_all_ok put get ok s' (q @ [h]) ops)"
| "fifo_all_ok put get ok s q (Get # ops) =
     (case q of
        [] \<Rightarrow> fifo_all_ok put get ok s q ops
      | h # hs \<Rightarrow> (case get s h of (d, s') \<Rightarrow> fifo_all_ok put get ok s' hs ops))"

locale fifo_store =
  fixes put :: "'s \<Rightarrow> 'd \<Rightarrow> ('s \<times> 'h) option"
    and get :: "'s \<Rightarrow> 'h \<Rightarrow> 'd \<times> 's"
    and ok :: "'s \<Rightarrow> 'd \<Rightarrow> bool"
    and inv :: "'s \<Rightarrow> ('h \<times> 'd) list \<Rightarrow> bool"
  assumes put_inv: "inv s q \<Longrightarrow> put s d = Some (s', h) \<Longrightarrow> ok s d \<Longrightarrow> inv s' (q @ [(h, d)])"
    and get_inv: "inv s ((h, d) # q) \<Longrightarrow> get s h = (d', s') \<Longrightarrow> d' = d \<and> inv s' q"
begin

lemma run_in_order:
  assumes "inv s q" and "fifo_all_ok put get ok s (map fst q) ops"
    and "fifo_run put get s (map fst q) ops = (s', hs, acc, del)"
  shows "\<exists>q'. inv s' q' \<and> map fst q' = hs \<and> map snd q @ acc = del @ map snd q'"
  using assms
proof (induction ops arbitrary: s q acc del)
  case Nil
  then show ?case by auto
next
  case (Cons x ops)
  show ?case
  proof (cases x)
    case (Put d)
    show ?thesis
    proof (cases "put s d")
      case None
      with Put Cons.prems show ?thesis by (intro Cons.IH [of s q]) auto
    next
      case (Some r)
      obtain s1 h where r: "r = (s1, h)" by (cases r)
      obtain s2 q2 acc2 del2 where run: "fifo_run put get s1 (map fst q @ [h]) ops = (s2, q2, acc2, del2)"
        by (cases "fifo_run put get s1 (map fst q @ [h]) ops")
      from Cons.prems Put Some r run have ok: "ok s d" "fifo_all_ok put get ok s1 (map fst q @ [h]) ops"
        and eq: "s' = s2" "hs = q2" "acc = d # acc2" "del = del2" by auto
      have "inv s1 (q @ [(h, d)])"
        using Cons.prems(1) Some r ok by (intro put_inv) auto
      from Cons.IH [OF this] ok run show ?thesis by (auto simp: eq)
    qed
  next
    case Get
    show ?thesis
    proof (cases q)
      case Nil
      with Get Cons.prems show ?thesis by (intro Cons.IH [of s q]) auto
    next
      case (Cons p q1)
      obtain h d where p: "p = (h, d)" by (cases p)
      obtain d' s1 where g: "get s h = (d', s1)" by (cases "get s h")
      have gi: "d' = d \<and> inv s1 q1"
        using get_inv [OF _ g] Cons.prems(1) Cons p by simp
      obtain s2 q2 acc2 del2 where run: "fifo_run put get s1 (map fst q1) ops = (s2, q2, acc2, del2)"
        by (cases "fifo_run put get s1 (map fst q1) ops")
      from Cons.prems Get Cons p g run have ok: "fifo_all_ok put get ok s1 (map fst q1) ops"
        and eq: "s' = s2" "hs = q2" "acc = acc2" "del = d' # del2" by auto
      from Cons.IH [of s1 q1] gi ok run eq Cons p show ?thesis by auto
    qed
  qed
qed

end

text \<open>The ring as such a store: \<^verbatim>\<open>mmap_write\<close> with an empty chunk list is a refusal.\<close>

definition mmap_put :: "bool \<Rightarrow> int \<Rightarrow> mmap_area \<Rightarrow> bytes \<Rightarrow> (mmap_area \<times> chunk list) option" where
  "mmap_put always_wrap sz a d =
     (case mmap_write always_wrap a sz d of
        Inl _ \<Rightarrow> None
      | Inr (a', chunks) \<Rightarrow> if chunks = [] then None else Some (a', chunks))"

definition mmap_get :: "mmap_area \<Rightarrow> chunk list \<Rightarrow> bytes \<times> mmap_area" where
  "mmap_get a chunks = (case mmap_read a chunks of (d, a', cb) \<Rightarrow> (d, free_mem cb a'))"

definition mmap_not_exact :: "int \<Rightarrow> mmap_area \<Rightarrow> bytes \<Rightarrow> bool" where
  "mmap_not_exact sz a d = (int (length d) \<noteq> fst (ring_space a sz))"

lemma mmap_write_fits:
  "mmap_write aw a sz d = Inr (a', chs) \<Longrightarrow> chs \<noteq> [] \<Longrightarrow> int (length d) \<le> fst (ring_space a sz)"
  by (auto simp: mmap_write_def Let_def split: if_splits prod.splits)

interpretation mmap_fifo: fifo_store "mmap_put aw sz" mmap_get "mmap_not_exact sz" "ring_inv sz" for aw sz
proof unfold_locales
  fix a q d a' h
  assume "ring_inv sz a q" and p: "mmap_put aw sz a d = Some (a', h)" and "mmap_not_exact sz a d"
  moreover from p have w: "mmap_write aw a sz d = Inr (a', h)" "h \<noteq> []"
    by (auto simp: mmap_put_def split: sum.splits if_splits)
  ultimately show "ring_inv sz a' (q @ [(h, d)])"
    using mmap_write_fits [OF w] by (intro ring_write_inv) (auto simp: mmap_not_exact_def)
next
  fix a h d q d' a'
  assume "ring_inv sz a ((h, d) # q)" and "mmap_get a h = (d', a')"
  then show "d' = d \<and> ring_inv sz a' q"
    by (auto simp: mmap_get_def split: prod.splits dest: ring_read_inv)
qed

subsection \<open>Lemmas for the token\<close>

lemma le_val_append: "le_val (xs @ ys) = le_val xs + 256 ^ length xs * le_val ys"
  by (induction xs) (auto simp: algebra_simps)

lemma poke_token_eq:
  "poke_token area v i n = Inr (area', v') \<Longrightarrow>
   area' = take i area @ le_bytes n v @ drop (i + n) area \<and> v' = v div 256 ^ n
   \<and> (n = 0 \<or> i + n \<le> length area)"
proof (induction n arbitrary: area v i)
  case (Suc n)
  from Suc.prems have i: "i < length area"
    and rec: "poke_token (area[i := of_nat v]) (v div 256) (Suc i) n = Inr (area', v')"
    by (auto split: if_splits)
  from Suc.IH [OF rec] i show ?case
    by (auto simp: take_Suc_conv_app_nth div_mult2_eq)
qed simp

lemma peek_token_eq:
  "index + n \<le> length area \<Longrightarrow>
   peek_token area v index n = Inr (v * 256 ^ n + le_val (take n (drop index area)))"
proof (induction n arbitrary: v)
  case (Suc n)
  have "take (Suc n) (drop index area) = take n (drop index area) @ [area ! (index + n)]"
    using Suc.prems by (simp add: take_Suc_conv_app_nth)
  with Suc show ?case by (simp add: le_val_append algebra_simps)
qed simp

subsection \<open>Properties\<close>

definition mmap_fresh :: "nat \<Rightarrow> mmap_area" where
  "mmap_fresh n = \<lparr>data_start = 0, data_end = 0, mem = replicate n 0\<rparr>"

lemma ring_inv_fresh: "8 < n \<Longrightarrow> n < 2 ^ 32 \<Longrightarrow> ring_inv (int n) (mmap_fresh n) []"
  by (simp add: ring_inv_def mmap_fresh_def ring_start_def ring_end_def ring_layout_def)

text \<open>
  C4: whatever the interleaving of writes and reads on a freshly created area smaller than
  4GB, as long as no accepted write fills the free space exactly, the client reads the
  accepted transfers complete, unmodified and in the order they were written; the transfers
  not read yet are the ones whose chunks are still in flight.
\<close>

theorem mmap_transfers_in_order:
  assumes "8 < n" and "n < 2 ^ 32"
    and "fifo_all_ok (mmap_put aw (int n)) mmap_get (mmap_not_exact (int n)) (mmap_fresh n) [] ops"
    and "fifo_run (mmap_put aw (int n)) mmap_get (mmap_fresh n) [] ops = (a', hs, accepted, delivered)"
  shows "delivered = take (length delivered) accepted \<and> length accepted = length delivered + length hs"
proof -
  from mmap_fifo.run_in_order [OF ring_inv_fresh [OF assms(1,2)], of aw ops] assms(3,4)
  obtain q' where "map fst q' = hs" and "accepted = delivered @ map snd q'" by fastforce
  then show ?thesis by auto
qed

theorem mmap_transfers_in_order_witness:
  "fifo_all_ok (mmap_put False 20) mmap_get (mmap_not_exact 20) (mmap_fresh 20) []
     [Put [1, 2, 3, 4, 5, 6, 7], Get, Put [8, 9, 10, 11, 12, 13, 14], Get]
   \<and> snd (snd (fifo_run (mmap_put False 20) mmap_get (mmap_fresh 20) []
       [Put [1, 2, 3, 4, 5, 6, 7], Get, Put [8, 9, 10, 11, 12, 13, 14], Get]))
     = ([[1, 2, 3, 4, 5, 6, 7], [8, 9, 10, 11, 12, 13, 14]],
        [[1, 2, 3, 4, 5, 6, 7], [8, 9, 10, 11, 12, 13, 14]])"
proof -
  let ?ops = "[Put [1, 2, 3, 4, 5, 6, 7], Get, Put [8, 9, 10, 11, 12, 13, 14], Get] :: bytes fifo_op list"
  have ok: "fifo_all_ok (mmap_put False (int 20)) mmap_get (mmap_not_exact (int 20)) (mmap_fresh 20) [] ?ops"
    by code_simp
  obtain a' hs acc del where run:
    "fifo_run (mmap_put False (int 20)) mmap_get (mmap_fresh 20) [] ?ops = (a', hs, acc, del)"
    by (cases "fifo_run (mmap_put False (int 20)) mmap_get (mmap_fresh 20) [] ?ops")
  have "snd (snd (fifo_run (mmap_put False (int 20)) mmap_get (mmap_fresh 20) [] ?ops))
     = ([[1, 2, 3, 4, 5, 6, 7], [8, 9, 10, 11, 12, 13, 14]],
        [[1, 2, 3, 4, 5, 6, 7], [8, 9, 10, 11, 12, 13, 14]])"
    by code_simp
  with mmap_transfers_in_order [OF _ _ ok run] ok show ?thesis by simp
qed

text \<open>
  C28: on a well-formed area \<^verbatim>\<open>mmap_write\<close> never raises, and it accepts the data exactly when
  the data fits the area (all but the 8 control bytes) and the free space.
\<close>

theorem mmap_write_accepts_iff_fits:
  assumes "ring_inv sz a q"
  shows "\<exists>a' chunks. mmap_write aw a sz d = Inr (a', chunks)
    \<and> (chunks \<noteq> [] \<longleftrightarrow> int (length d) \<le> min (sz - 8) (fst (ring_space a sz)))"
proof -
  have b: "8 \<le> ring_start a" "8 \<le> ring_end a" "ring_start a < sz" "ring_end a < sz" "int (length (mem a)) = sz"
    using assms ring_start_ge ring_end_ge by (auto simp: ring_inv_def)
  obtain av ch where sp: "ring_space a sz = (av, ch)" by fastforce
  have ch: "0 \<le> ch" "ring_end a + ch \<le> sz" "av \<le> ch + (ring_start a - 8)" using b sp by (auto simp: ring_space_eq split: if_splits)
  show ?thesis
  proof (cases "int (length d) \<le> sz - 8 \<and> int (length d) \<le> av")
    case False
    then show ?thesis by (auto simp: mmap_write_def Let_def sp)
  next
    case True
    consider "int (length d) < ch" | "ch \<le> int (length d)" by linarith
    then show ?thesis
    proof cases
      case 1
      then show ?thesis using True b ch by (simp add: mmap_write_def Let_def sp seek_write_ok)
    next
      case 2
      obtain m1 where m1: "seek_write (ring_end a) (slice_to d ch) (mem a) = Inr m1"
        using b ch 2 by (simp add: slice_to_nonneg seek_write_ok)
      obtain m2 where "seek_write 8 (slice_from d ch) m1 = Inr m2"
        using b ch 2 True length_seek_write [OF m1] by (simp add: slice_from_nonneg seek_write_ok)
      moreover obtain m3 where "seek_write 8 d (mem a) = Inr m3"
        using b True by (simp add: seek_write_ok)
      ultimately show ?thesis using True b ch 2 m1 by (simp add: mmap_write_def Let_def sp)
    qed
  qed
qed

theorem mmap_write_accepts_iff_fits_witness:
  "\<exists>a' chunks. mmap_write False (mmap_fresh 20) 20 [1, 2] = Inr (a', chunks) \<and> chunks \<noteq> []"
proof -
  have inv: "ring_inv 20 (mmap_fresh 20) []" using ring_inv_fresh [of 20] by simp
  have "fst (ring_space (mmap_fresh 20) 20) = 12" by code_simp
  with mmap_write_accepts_iff_fits [OF inv, of False "[1, 2]"] show ?thesis by auto
qed

text \<open>
  A write that fills the free space exactly is accepted but leaves the positions as if
  its data did not count: before the wrap-around the area is then reported entirely free
  although it holds unread data, after it everything below the reader's position is.
\<close>

theorem mmap_exact_fill_reported_free:
  assumes "ring_inv sz a q" and "mmap_write aw a sz d = Inr (a', chunks)" and "chunks \<noteq> []"
    and "int (length d) = fst (ring_space a sz)"
  shows "mmap_free_size a' sz = (if ring_end a < ring_start a then ring_start a - 8 else sz - 8)"
  using assms(2,3)
proof (cases rule: mmap_write_cases)
  case (first m)
  then show ?thesis using assms(1,4) ring_start_ge [of a]
    by (auto simp: ring_space_eq ring_inv_def split: if_splits)
next
  case (restart m)
  then show ?thesis using assms(1,4) ring_start_ge [of a]
    by (auto simp: ring_space_eq ring_inv_def split: if_splits)
next
  case (split m1 m chunk)
  have b: "8 \<le> ring_start a" "8 \<le> ring_end a" "ring_start a < sz" "ring_end a < sz" "sz < 2 ^ 32"
    using assms(1) ring_start_ge ring_end_ge by (auto simp: ring_inv_def)
  let ?e = "8 + (int (length d) - chunk)"
  have e: "?e = (if ring_end a < ring_start a then 8 else ring_start a)"
    using split(1) assms(4) by (auto simp: ring_space_eq)
  have "ring_end a' = ?e"
    using b e by (simp only: split(5), subst ring_end_store) auto
  then show ?thesis using b e split(5) by (auto simp: mmap_free_size_def Let_def ring_start_def)
qed

theorem mmap_exact_fill_reported_free_witness:
  "\<exists>a' chunks. mmap_write False (mmap_fresh 16) 16 [1, 2, 3, 4, 5, 6, 7, 8] = Inr (a', chunks)
     \<and> mmap_free_size a' 16 = 8"
proof -
  have inv: "ring_inv 16 (mmap_fresh 16) []" using ring_inv_fresh [of 16] by simp
  have w: "mmap_write False (mmap_fresh 16) 16 [1, 2, 3, 4, 5, 6, 7, 8] =
      Inr (\<lparr>data_start = 0, data_end = 8, mem = replicate 8 0 @ [1, 2, 3, 4, 5, 6, 7, 8]\<rparr>, [(8, 8), (8, 0)])"
    by code_simp
  have sp: "int (length ([1, 2, 3, 4, 5, 6, 7, 8] :: bytes)) = fst (ring_space (mmap_fresh 16) 16)"
    "\<not> ring_end (mmap_fresh 16) < ring_start (mmap_fresh 16)"
    by code_simp+
  from mmap_exact_fill_reported_free [OF inv w _ sp(1)] sp(2) w show ?thesis by auto
qed


text \<open>
  A token written by one side is read back unchanged by the other: whenever
  \<^verbatim>\<open>write_mmap_token\<close> succeeds, \<^verbatim>\<open>read_mmap_token\<close> at the same place returns the token.
\<close>

theorem mmap_token_roundtrip:
  assumes "write_mmap_token area token index count = Inr area'"
  shows "read_mmap_token area' index count = Inr token"
proof -
  from assms obtain v where c: "count \<noteq> 0" and p: "poke_token area token index count = Inr (area', v)" and v: "v = 0"
    by (auto simp: write_mmap_token_def split: if_splits sum.splits)
  from poke_token_eq [OF p] c v have le: "index + count \<le> length area"
    and a': "area' = take index area @ le_bytes count token @ drop (index + count) area"
    and small: "token div 256 ^ count = 0" by auto
  have "token < 256 ^ count" using small by (simp add: div_eq_0_iff)
  moreover have "take count (drop index area') = le_bytes count token"
    using le by (simp add: a')
  ultimately show ?thesis
    using c le by (simp add: read_mmap_token_def peek_token_eq a' le_val_le_bytes)
qed

theorem mmap_token_roundtrip_witness:
  "\<exists>area'. write_mmap_token [0, 0, 0, 0] 258 1 2 = Inr area' \<and> read_mmap_token area' 1 2 = Inr 258"
proof -
  have w: "write_mmap_token [0, 0, 0, 0] 258 1 2 = Inr [0, 2, 1, 0]" by code_simp
  from mmap_token_roundtrip [OF w] w show ?thesis by blast
qed

end
