(* ===== verification/Net_Packet.thy ===== *)
theory Net_Packet
  imports Py_Prelude
begin

text \<open>
  The packet values and the accessors of the class \<^verbatim>\<open>Packet\<close> in \<^verbatim>\<open>xpra/net/common.py\<close>: a
  packet is the list of its elements, the first being its type. Every accessor converts one
  element and raises where the element is missing, has the wrong type or is out of range.
  Tuples and lists are not distinguished. A float is the word of its IEEE 754 double. The text that
  \<^verbatim>\<open>str()\<close> gives for floats, bytes and containers (their \<^verbatim>\<open>repr\<close>) is a parameter \<open>rep\<close> of the
  accessors that may need it.
\<close>

subsection \<open>Values\<close>

datatype pval =
    PNone
  | PInt int
  | PBool bool
  | PStr string
  | PBytes bytes
  | PList "pval list"
  | PDict "(pval \<times> pval) list"
  | PFloat "64 word"

type_synonym packet = "pval list"

text \<open>\<^verbatim>\<open>bool(v)\<close>: empty containers, zero and \<^verbatim>\<open>None\<close> are false.\<close>

fun py_bool :: "pval \<Rightarrow> bool" where
  "py_bool PNone = False"
| "py_bool (PInt i) = (i \<noteq> 0)"
| "py_bool (PBool b) = b"
| "py_bool (PStr s) = (s \<noteq> [])"
| "py_bool (PBytes b) = (b \<noteq> [])"
| "py_bool (PList xs) = (xs \<noteq> [])"
| "py_bool (PDict d) = (d \<noteq> [])"
| "py_bool (PFloat w) = (w AND mask 63 \<noteq> 0)"

text \<open>
  \<^verbatim>\<open>int(f)\<close> rounds towards zero. A float is its IEEE 754 double: a sign, 11 bits of exponent and
  52 of fraction; infinities and NaN have the largest exponent and raise.
\<close>

definition float_trunc :: "64 word \<Rightarrow> py_error + int" where
  "float_trunc w =
     (let n = unat w; e = (n div 2 ^ 52) mod 2 ^ 11; f = n mod 2 ^ 52;
          m = (if e = 0 then f else 2 ^ 52 + f); ex = max e 1;
          a = (if 1075 \<le> ex then m * 2 ^ (ex - 1075) else m div 2 ^ (1075 - ex))
      in if e = 2047 then Inl (if f = 0 then OtherError else ValueError)
         else Inr (if 2 ^ 63 \<le> n then - int a else int a))"

text \<open>\<^verbatim>\<open>str(i)\<close> and \<^verbatim>\<open>int(s)\<close> for decimal numerals (white space around, one sign, digits).\<close>

definition digit_char :: "nat \<Rightarrow> char" where
  "digit_char d = char_of (48 + d)"

fun show_nat :: "nat \<Rightarrow> string" where
  "show_nat n = (if n < 10 then [digit_char n] else show_nat (n div 10) @ [digit_char (n mod 10)])"

declare show_nat.simps [simp del]

definition show_int :: "int \<Rightarrow> string" where
  "show_int i = (if i < 0 then CHR ''-'' # show_nat (nat (- i)) else show_nat (nat i))"

definition digit_val :: "char \<Rightarrow> nat option" where
  "digit_val c = (let n = of_char c in if 48 \<le> n \<and> n \<le> 57 then Some (n - 48) else None)"

fun read_digits :: "nat \<Rightarrow> string \<Rightarrow> nat option" where
  "read_digits acc [] = Some acc"
| "read_digits acc (c # cs) =
     (case digit_val c of None \<Rightarrow> None | Some d \<Rightarrow> read_digits (acc * 10 + d) cs)"

definition read_nat :: "string \<Rightarrow> nat option" where
  "read_nat s = (if s = [] then None else read_digits 0 s)"

definition read_int :: "string \<Rightarrow> int option" where
  "read_int s =
     (let t = str_strip s in
      case t of
        [] \<Rightarrow> None
      | c # cs \<Rightarrow>
          if c = CHR ''-'' then map_option (\<lambda>n. - int n) (read_nat cs)
          else if c = CHR ''+'' then map_option int (read_nat cs)
          else map_option int (read_nat t))"

definition py_int :: "pval \<Rightarrow> py_error + int" where
  "py_int v =
     (case v of
        PInt i \<Rightarrow> Inr i
      | PBool b \<Rightarrow> Inr (if b then 1 else 0)
      | PStr s \<Rightarrow> (case read_int s of None \<Rightarrow> Inl ValueError | Some i \<Rightarrow> Inr i)
      | PBytes b \<Rightarrow> (case read_int (bytes_chars b) of None \<Rightarrow> Inl ValueError | Some i \<Rightarrow> Inr i)
      | PFloat w \<Rightarrow> float_trunc w
      | _ \<Rightarrow> Inl TypeError)"

definition py_str :: "(pval \<Rightarrow> string) \<Rightarrow> pval \<Rightarrow> string" where
  "py_str rep v =
     (case v of
        PStr s \<Rightarrow> s
      | PInt i \<Rightarrow> show_int i
      | PBool b \<Rightarrow> (if b then ''True'' else ''False'')
      | PNone \<Rightarrow> ''None''
      | _ \<Rightarrow> rep v)"

text \<open>
  The code points of a text, each as its own string: a UTF-8 continuation unit (\<open>0x80..0xBF\<close>)
  belongs to the code point before it.
\<close>

fun utf8_points :: "string \<Rightarrow> string list" where
  "utf8_points [] = []"
| "utf8_points (c # cs) =
     (case utf8_points cs of
        [] \<Rightarrow> [[c]]
      | p # ps \<Rightarrow>
          (case p of
             [] \<Rightarrow> [c] # ps
           | d # _ \<Rightarrow> if 128 \<le> (of_char d :: nat) \<and> (of_char d :: nat) < 192 then (c # p) # ps
                      else [c] # p # ps))"

text \<open>The elements of a value that is a \<^verbatim>\<open>Sequence\<close>, and \<^verbatim>\<open>list(v)\<close> for any iterable.\<close>

definition py_sequence :: "pval \<Rightarrow> pval list option" where
  "py_sequence v =
     (case v of
        PList xs \<Rightarrow> Some xs
      | PStr s \<Rightarrow> Some (map PStr (utf8_points s))
      | PBytes b \<Rightarrow> Some (map (\<lambda>w. PInt (uint w)) b)
      | _ \<Rightarrow> None)"

definition py_list :: "pval \<Rightarrow> py_error + pval list" where
  "py_list v =
     (case v of
        PDict d \<Rightarrow> Inr (map fst d)
      | _ \<Rightarrow> (case py_sequence v of None \<Rightarrow> Inl TypeError | Some xs \<Rightarrow> Inr xs))"

fun seq_results :: "('e + 'a) list \<Rightarrow> 'e + 'a list" where
  "seq_results [] = Inr []"
| "seq_results (r # rs) =
     (case r of Inl e \<Rightarrow> Inl e
      | Inr x \<Rightarrow> (case seq_results rs of Inl e \<Rightarrow> Inl e | Inr xs \<Rightarrow> Inr (x # xs)))"

lemma seq_results_Inr: "seq_results rs = Inr ys \<longleftrightarrow> list_all2 (\<lambda>r y. r = Inr y) rs ys"
proof (induction rs arbitrary: ys)
  case (Cons r rs)
  then show ?case by (auto simp: list_all2_Cons1 Cons [symmetric] split: sum.splits)
qed auto

text \<open>\<^verbatim>\<open>bytes(v)\<close>: a count of zero bytes for an integer, the elements of an iterable of small integers.\<close>

definition byte_of :: "pval \<Rightarrow> py_error + 8 word" where
  "byte_of v =
     (case v of
        PInt i \<Rightarrow> if 0 \<le> i \<and> i < 256 then Inr (word_of_int i) else Inl ValueError
      | PBool b \<Rightarrow> Inr (if b then 1 else 0)
      | _ \<Rightarrow> Inl TypeError)"

definition py_bytes :: "pval \<Rightarrow> py_error + bytes" where
  "py_bytes v =
     (case v of
        PBytes b \<Rightarrow> Inr b
      | PInt i \<Rightarrow> if i < 0 then Inl ValueError else Inr (replicate (nat i) 0)
      | PBool b \<Rightarrow> Inr (if b then [0] else [])
      | PList xs \<Rightarrow> seq_results (map byte_of xs)
      | PDict d \<Rightarrow> seq_results (map (byte_of \<circ> fst) d)
      | _ \<Rightarrow> Inl TypeError)"

text \<open>
  Keys of dictionaries. Integers, booleans and floats with the same value are the same key
  (\<open>key_norm\<close>), NaN is no key's equal, and a value with a dictionary inside is not hashable.
\<close>

definition float_nan :: "64 word \<Rightarrow> bool" where
  "float_nan w = (let n = unat w in (n div 2 ^ 52) mod 2 ^ 11 = 2047 \<and> n mod 2 ^ 52 \<noteq> 0)"

definition float_integral :: "64 word \<Rightarrow> bool" where
  "float_integral w =
     (let n = unat w; e = (n div 2 ^ 52) mod 2 ^ 11; f = n mod 2 ^ 52;
          m = (if e = 0 then f else 2 ^ 52 + f); ex = max e 1
      in e \<noteq> 2047 \<and> (1075 \<le> ex \<or> m mod 2 ^ (1075 - ex) = 0))"

fun key_norm :: "pval \<Rightarrow> pval" where
  "key_norm (PBool b) = PInt (if b then 1 else 0)"
| "key_norm (PFloat w) =
     (if float_integral w then (case float_trunc w of Inr i \<Rightarrow> PInt i | Inl _ \<Rightarrow> PFloat w) else PFloat w)"
| "key_norm (PList xs) = PList (map key_norm xs)"
| "key_norm v = v"

fun has_nan :: "pval \<Rightarrow> bool" where
  "has_nan (PFloat w) = float_nan w"
| "has_nan (PList xs) = list_ex has_nan xs"
| "has_nan v = False"

fun hashable :: "pval \<Rightarrow> bool" where
  "hashable (PDict d) = False"
| "hashable (PList xs) = list_all hashable xs"
| "hashable v = True"

definition key_same :: "pval \<Rightarrow> pval \<Rightarrow> bool" where
  "key_same a b = (key_norm a = key_norm b \<and> \<not> has_nan a)"

text \<open>\<^verbatim>\<open>d[k] = v\<close>\<close>

fun dict_put :: "pval \<Rightarrow> pval \<Rightarrow> (pval \<times> pval) list \<Rightarrow> (pval \<times> pval) list" where
  "dict_put k v [] = [(k, v)]"
| "dict_put k v ((k', v') # d) = (if key_same k' k then (k', v) # d else (k', v') # dict_put k v d)"

fun distinct_keys :: "pval list \<Rightarrow> bool" where
  "distinct_keys [] = True"
| "distinct_keys (k # ks) = (list_all (\<lambda>k'. \<not> key_same k k') ks \<and> distinct_keys ks)"

text \<open>The values Python can build: the keys of every dictionary are hashable and distinct.\<close>

fun pval_wf :: "pval \<Rightarrow> bool" where
  "pval_wf (PList xs) = list_all pval_wf xs"
| "pval_wf (PDict d) = (list_all (\<lambda>(k, v). hashable k \<and> pval_wf v) d \<and> distinct_keys (map fst d))"
| "pval_wf v = True"

lemma hashable_wf: "hashable v \<Longrightarrow> pval_wf v"
  by (induction v) (auto simp: list_all_iff)

lemma dict_put_new: "list_all (\<lambda>k'. \<not> key_same k' k) (map fst d) \<Longrightarrow> dict_put k v d = d @ [(k, v)]"
  by (induction d) auto

lemma dict_put_keys: "fst ` set (dict_put k v d) \<subseteq> insert k (fst ` set d)"
  by (induction k v d rule: dict_put.induct) auto

lemma dict_put_values: "snd ` set (dict_put k v d) \<subseteq> insert v (snd ` set d)"
  by (induction k v d rule: dict_put.induct) auto

lemma dict_put_distinct: "distinct_keys (map fst d) \<Longrightarrow> distinct_keys (map fst (dict_put k v d))"
proof (induction k v d rule: dict_put.induct)
  case (2 k v k' v' d)
  show ?case
  proof (cases "key_same k' k")
    case False
    have "\<not> key_same k' x" if "x \<in> fst ` set (dict_put k v d)" for x
    proof -
      have "x = k \<or> x \<in> fst ` set d" using that dict_put_keys [of k v d] by blast
      then show ?thesis using False 2(2) by (auto simp: list_all_iff)
    qed
    then show ?thesis using 2 False by (auto simp: list_all_iff)
  qed (use 2 in auto)
qed simp

subsection \<open>The class Packet\<close>

text \<open>The element types a packet may have: everything but \<^verbatim>\<open>None\<close> and floats (which containers may hold).\<close>

definition packet_element :: "pval \<Rightarrow> bool" where
  "packet_element v = (case v of PNone \<Rightarrow> False | PFloat _ \<Rightarrow> False | _ \<Rightarrow> True)"

lemma packet_element_simps [simp]:
  "\<not> packet_element PNone" "\<not> packet_element (PFloat w)" "packet_element (PInt i)" "packet_element (PBool b)"
  "packet_element (PStr s)" "packet_element (PBytes x)" "packet_element (PList xs)" "packet_element (PDict d)"
  by (simp_all add: packet_element_def)

definition mk_packet :: "pval list \<Rightarrow> py_error + packet" where
  "mk_packet args =
     (case args of
        PStr t # data \<Rightarrow> if list_all packet_element data then Inr (PStr t # data) else Inl TypeError
      | _ \<Rightarrow> Inl TypeError)"

text \<open>\<^verbatim>\<open>self.data[i]\<close>, negative indices counting from the end.\<close>

definition pkt_get :: "packet \<Rightarrow> int \<Rightarrow> py_error + pval" where
  "pkt_get p i =
     (let n = int (length p); j = (if i < 0 then n + i else i)
      in if 0 \<le> j \<and> j < n then Inr (p ! nat j) else Inl IndexError)"

definition get_type :: "(pval \<Rightarrow> string) \<Rightarrow> packet \<Rightarrow> py_error + string" where
  "get_type rep p = map_sum id (py_str rep) (pkt_get p 0)"

text \<open>The shared shape of the integer accessors: convert, then check \<open>lo <= v < hi\<close>.\<close>

definition get_ranged :: "int \<Rightarrow> int \<Rightarrow> packet \<Rightarrow> int \<Rightarrow> py_error + int" where
  "get_ranged lo hi p i =
     (case pkt_get p i of
        Inl e \<Rightarrow> Inl e
      | Inr x \<Rightarrow>
          (case py_int x of
             Inl e \<Rightarrow> Inl e
           | Inr v \<Rightarrow> if v < lo \<or> v \<ge> hi then Inl ValueError else Inr v))"

definition get_wid :: "packet \<Rightarrow> int \<Rightarrow> py_error + int" where
  "get_wid = get_ranged (-1) (2 ^ 48)"

definition get_bool :: "packet \<Rightarrow> int \<Rightarrow> py_error + bool" where
  "get_bool p i = map_sum id py_bool (pkt_get p i)"

definition get_i8 :: "packet \<Rightarrow> int \<Rightarrow> py_error + int" where
  "get_i8 = get_ranged (- (2 ^ 7)) (2 ^ 7)"

definition get_u8 :: "packet \<Rightarrow> int \<Rightarrow> py_error + int" where
  "get_u8 = get_ranged 0 (2 ^ 8)"

definition get_i16 :: "packet \<Rightarrow> int \<Rightarrow> py_error + int" where
  "get_i16 = get_ranged (- (2 ^ 15)) (2 ^ 15)"

definition get_u16 :: "packet \<Rightarrow> int \<Rightarrow> py_error + int" where
  "get_u16 = get_ranged 0 (2 ^ 16)"

definition get_i32 :: "packet \<Rightarrow> int \<Rightarrow> py_error + int" where
  "get_i32 = get_ranged (- (2 ^ 31)) (2 ^ 31)"

definition get_u32 :: "packet \<Rightarrow> int \<Rightarrow> py_error + int" where
  "get_u32 = get_ranged 0 (2 ^ 32)"

definition get_i64 :: "packet \<Rightarrow> int \<Rightarrow> py_error + int" where
  "get_i64 = get_ranged (- (2 ^ 63)) (2 ^ 63)"

definition get_u64 :: "packet \<Rightarrow> int \<Rightarrow> py_error + int" where
  "get_u64 = get_ranged 0 (2 ^ 64)"

text \<open>Strict UTF-8 decoding; \<open>utf8_ok\<close> is the well-formedness of Python's decoder.\<close>

fun utf8_ok :: "bytes \<Rightarrow> bool" where
  "utf8_ok [] = True"
| "utf8_ok (a # bs) =
     (let n = unat a; cont = (\<lambda>b :: 8 word. 128 \<le> unat b \<and> unat b < 192) in
      if n < 128 then utf8_ok bs
      else if 194 \<le> n \<and> n < 224 then (case bs of b # r \<Rightarrow> cont b \<and> utf8_ok r | _ \<Rightarrow> False)
      else if 224 \<le> n \<and> n < 240 then
        (case bs of b # c # r \<Rightarrow> cont b \<and> cont c \<and> (n = 224 \<longrightarrow> 160 \<le> unat b)
            \<and> (n = 237 \<longrightarrow> unat b < 160) \<and> utf8_ok r | _ \<Rightarrow> False)
      else if 240 \<le> n \<and> n < 245 then
        (case bs of b # c # d # r \<Rightarrow> cont b \<and> cont c \<and> cont d \<and> (n = 240 \<longrightarrow> 144 \<le> unat b)
            \<and> (n = 244 \<longrightarrow> unat b < 144) \<and> utf8_ok r | _ \<Rightarrow> False)
      else False)"

definition utf8_decode :: "bytes \<Rightarrow> py_error + string" where
  "utf8_decode b = (if utf8_ok b then Inr (bytes_chars b) else Inl UnicodeError)"

definition get_str :: "(pval \<Rightarrow> string) \<Rightarrow> packet \<Rightarrow> int \<Rightarrow> py_error + string" where
  "get_str rep p i =
     (case pkt_get p i of
        Inl e \<Rightarrow> Inl e
      | Inr (PBytes b) \<Rightarrow> utf8_decode b
      | Inr v \<Rightarrow> Inr (py_str rep v))"

definition get_bytes :: "packet \<Rightarrow> int \<Rightarrow> py_error + bytes" where
  "get_bytes p i =
     (case pkt_get p i of
        Inl e \<Rightarrow> Inl e
      | Inr (PBytes b) \<Rightarrow> Inr b
      | Inr v \<Rightarrow> if v = PStr [] then Inr [] else py_bytes v)"

definition get_buffer :: "packet \<Rightarrow> int \<Rightarrow> py_error + bytes" where
  "get_buffer p i =
     (case pkt_get p i of
        Inl e \<Rightarrow> Inl e
      | Inr (PBytes b) \<Rightarrow> Inr b
      | Inr (PStr s) \<Rightarrow> Inr (str_encode s)
      | Inr v \<Rightarrow> py_bytes v)"

definition get_dict :: "packet \<Rightarrow> int \<Rightarrow> py_error + (pval \<times> pval) list" where
  "get_dict p i =
     (case pkt_get p i of Inl e \<Rightarrow> Inl e | Inr (PDict d) \<Rightarrow> Inr d | Inr _ \<Rightarrow> Inl TypeError)"

definition get_seq :: "(pval \<Rightarrow> py_error + 'a) \<Rightarrow> packet \<Rightarrow> int \<Rightarrow> py_error + 'a list" where
  "get_seq f p i =
     (case pkt_get p i of
        Inl e \<Rightarrow> Inl e
      | Inr v \<Rightarrow> (case py_sequence v of None \<Rightarrow> Inl TypeError | Some xs \<Rightarrow> seq_results (map f xs)))"

definition get_strs :: "(pval \<Rightarrow> string) \<Rightarrow> packet \<Rightarrow> int \<Rightarrow> py_error + string list" where
  "get_strs rep = get_seq (Inr \<circ> py_str rep)"

definition get_bytes_seq :: "packet \<Rightarrow> int \<Rightarrow> py_error + bytes list" where
  "get_bytes_seq = get_seq py_bytes"

definition get_ints :: "packet \<Rightarrow> int \<Rightarrow> py_error + int list" where
  "get_ints = get_seq py_int"

subsection \<open>Lemmas\<close>

lemma pkt_get_nonneg: "0 \<le> i \<Longrightarrow> i < int (length p) \<Longrightarrow> pkt_get p i = Inr (p ! nat i)"
  by (simp add: pkt_get_def)

lemma get_ranged_Inr: "get_ranged lo hi p i = Inr v \<Longrightarrow> lo \<le> v \<and> v < hi"
  by (auto simp: get_ranged_def split: sum.splits if_splits)

lemma get_ranged_PInt:
  "pkt_get p i = Inr (PInt v) \<Longrightarrow> get_ranged lo hi p i = (if lo \<le> v \<and> v < hi then Inr v else Inl ValueError)"
  by (auto simp: get_ranged_def py_int_def)

lemma digit_val_char: "d < 10 \<Longrightarrow> digit_val (digit_char d) = Some d"
  by (simp add: digit_val_def digit_char_def Let_def of_char_of)

lemma read_digits_append:
  "read_digits acc (xs @ [c]) =
     (case read_digits acc xs of None \<Rightarrow> None
      | Some n \<Rightarrow> map_option (\<lambda>d. n * 10 + d) (digit_val c))"
  by (induction acc xs rule: read_digits.induct) (auto split: option.splits)

lemma read_show_nat_digits: "read_digits 0 (show_nat n) = Some n"
proof (induction n rule: show_nat.induct)
  case (1 n)
  show ?case
  proof (cases "n < 10")
    case True
    then show ?thesis by (subst show_nat.simps) (simp add: digit_val_char)
  next
    case False
    then show ?thesis
      by (subst show_nat.simps) (simp add: read_digits_append 1 digit_val_char)
  qed
qed

lemma show_nat_nonempty [simp]: "show_nat n \<noteq> []"
  by (subst show_nat.simps) auto

lemma read_show_nat: "read_nat (show_nat n) = Some n"
  by (simp add: read_nat_def read_show_nat_digits)

lemma digit_chars:
  assumes "c \<in> set (show_nat n)"
  shows "48 \<le> (of_char c :: nat) \<and> (of_char c :: nat) \<le> 57"
  using assms
proof (induction n rule: show_nat.induct)
  case (1 n)
  then show ?case
    by (subst (asm) show_nat.simps) (auto simp: digit_char_def of_char_of split: if_splits)
qed

lemma not_space_digit: "48 \<le> (of_char c :: nat) \<Longrightarrow> \<not> is_space c"
  by (auto simp: is_space_def)

lemma dropWhile_not_hd: "(xs = [] \<or> \<not> P (hd xs)) \<Longrightarrow> dropWhile P xs = xs"
  by (cases xs) auto

lemma str_strip_id:
  assumes "xs \<noteq> []" "\<not> is_space (hd xs)" "\<not> is_space (last xs)"
  shows "str_strip xs = xs"
  using assms by (simp add: str_strip_def dropWhile_not_hd hd_rev)

lemma str_strip_show_nat: "str_strip (show_nat n) = show_nat n"
  using digit_chars [of "hd (show_nat n)" n] digit_chars [of "last (show_nat n)" n]
  by (intro str_strip_id not_space_digit) auto

lemma read_show_int: "read_int (show_int i) = Some i"
proof (cases "i < 0")
  case True
  have "str_strip (CHR ''-'' # show_nat (nat (- i))) = CHR ''-'' # show_nat (nat (- i))"
    using digit_chars [of "last (show_nat (nat (- i)))" "nat (- i)"]
    by (intro str_strip_id) (auto simp: is_space_def not_space_digit)
  with True show ?thesis by (simp add: read_int_def show_int_def read_show_nat)
next
  case False
  obtain c cs where s: "show_nat (nat i) = c # cs" by (cases "show_nat (nat i)") auto
  then have "c \<noteq> CHR ''-''" "c \<noteq> CHR ''+''"
    using digit_chars [of c "nat i"] by auto
  moreover have "str_strip (c # cs) = c # cs"
    using str_strip_show_nat [of "nat i"] by (simp add: s)
  moreover have "read_nat (c # cs) = Some (nat i)"
    using read_show_nat [of "nat i"] by (simp add: s)
  ultimately show ?thesis using False by (simp add: read_int_def show_int_def s)
qed

text \<open>
  Every integer accessor of a packet returns an element that is an integer unchanged when
  it is within the accessor's width, and raises \<^verbatim>\<open>ValueError\<close> otherwise.
\<close>

theorem packet_integer_accessors:
  assumes "pkt_get p i = Inr (PInt v)"
  shows "get_u8 p i = (if 0 \<le> v \<and> v < 256 then Inr v else Inl ValueError)
    \<and> get_i8 p i = (if -128 \<le> v \<and> v < 128 then Inr v else Inl ValueError)
    \<and> get_u16 p i = (if 0 \<le> v \<and> v < 65536 then Inr v else Inl ValueError)
    \<and> get_i16 p i = (if -32768 \<le> v \<and> v < 32768 then Inr v else Inl ValueError)
    \<and> get_u32 p i = (if 0 \<le> v \<and> v < 4294967296 then Inr v else Inl ValueError)
    \<and> get_i32 p i = (if -2147483648 \<le> v \<and> v < 2147483648 then Inr v else Inl ValueError)
    \<and> get_u64 p i = (if 0 \<le> v \<and> v < 18446744073709551616 then Inr v else Inl ValueError)
    \<and> get_i64 p i = (if -9223372036854775808 \<le> v \<and> v < 9223372036854775808 then Inr v else Inl ValueError)
    \<and> get_wid p i = (if -1 \<le> v \<and> v < 281474976710656 then Inr v else Inl ValueError)"
  using assms
  by (simp add: get_u8_def get_i8_def get_u16_def get_i16_def get_u32_def get_i32_def
      get_u64_def get_i64_def get_wid_def get_ranged_PInt)

theorem packet_integer_accessors_witness:
  "get_u8 [PStr ''x'', PInt 200] 1 = Inr 200 \<and> get_i8 [PStr ''x'', PInt 200] 1 = Inl ValueError"
proof -
  have g: "pkt_get [PStr ''x'', PInt 200] 1 = Inr (PInt 200)" by (simp add: pkt_get_def)
  show ?thesis using packet_integer_accessors [OF g] by simp
qed

text \<open>
  An integer sent as decimal text is accepted as the integer itself by every ranged
  accessor (some clients send numbers as strings).
\<close>

theorem packet_integer_as_text:
  assumes "pkt_get p i = Inr (PStr (show_int v))" and "pkt_get q j = Inr (PInt v)"
  shows "get_ranged lo hi p i = get_ranged lo hi q j"
  using assms by (simp add: get_ranged_def py_int_def read_show_int)

theorem packet_integer_as_text_witness:
  "get_ranged 0 256 [PStr ''x'', PStr (show_int 42)] 1 = get_ranged 0 256 [PStr ''x'', PInt 42] 1"
  by (rule packet_integer_as_text [where v = 42]) (simp_all add: pkt_get_def)

end
