(* ===== verification/Typed_Dict.thy ===== *)
theory Typed_Dict
  imports Net_Packet
begin

text \<open>
  The class \<^verbatim>\<open>typedict\<close> of \<^verbatim>\<open>xpra/util/objects.py\<close>, through which the capabilities a peer
  sends are read, with the string conversions of \<^verbatim>\<open>xpra/util/str_fn.py\<close> it uses. A dictionary
  is the association list of a \<open>PDict\<close>. A dotted key such as \<open>file.ack\<close> reaches into nested
  dictionaries. Warnings are only logged.
\<close>

subsection \<open>String conversions\<close>

text \<open>\<^verbatim>\<open>b.decode("latin1")\<close> and \<^verbatim>\<open>s.encode("latin1")\<close> on texts kept as UTF-8 code units.\<close>

definition latin1_unit :: "8 word \<Rightarrow> string" where
  "latin1_unit w = (let n = unat w in
     if n < 128 then [char_of n] else [char_of (192 + n div 64), char_of (128 + n mod 64)])"

definition latin1_decode :: "bytes \<Rightarrow> string" where
  "latin1_decode b = concat (map latin1_unit b)"

fun latin1_encode :: "string \<Rightarrow> bytes option" where
  "latin1_encode [] = Some []"
| "latin1_encode (c # cs) =
     (let n = of_char c :: nat in
      if n < 128 then map_option (\<lambda>r. of_nat n # r) (latin1_encode cs)
      else if n = 194 \<or> n = 195 then
        (case cs of [] \<Rightarrow> None
         | d # ds \<Rightarrow> map_option (\<lambda>r. of_nat ((n - 192) * 64 + (of_char d - 128)) # r) (latin1_encode ds))
      else None)"

definition strtobytes :: "(pval \<Rightarrow> string) \<Rightarrow> pval \<Rightarrow> bytes" where
  "strtobytes rep v =
     (case v of
        PBytes b \<Rightarrow> b
      | _ \<Rightarrow> (case latin1_encode (py_str rep v) of Some b \<Rightarrow> b | None \<Rightarrow> str_encode (py_str rep v)))"

definition bytestostr :: "(pval \<Rightarrow> string) \<Rightarrow> pval \<Rightarrow> string" where
  "bytestostr rep v = (case v of PBytes b \<Rightarrow> latin1_decode b | _ \<Rightarrow> py_str rep v)"

definition memoryview_to_bytes :: "(pval \<Rightarrow> string) \<Rightarrow> pval \<Rightarrow> bytes" where
  "memoryview_to_bytes rep v = (case v of PBytes b \<Rightarrow> b | _ \<Rightarrow> strtobytes rep v)"

definition nicestr :: "(pval \<Rightarrow> string) \<Rightarrow> pval \<Rightarrow> string" where
  "nicestr rep v = py_str rep v"

definition checkdict :: "pval \<Rightarrow> py_error + (pval \<times> pval) list" where
  "checkdict v = (case v of PDict d \<Rightarrow> Inr d | _ \<Rightarrow> Inl ValueError)"

subsection \<open>Lookups\<close>

type_synonym pdict = "(pval \<times> pval) list"

text \<open>\<^verbatim>\<open>key.split(".", 1)\<close> when \<^verbatim>\<open>key.find(".") > 0\<close>.\<close>

definition split_dot :: "string \<Rightarrow> (string \<times> string) option" where
  "split_dot k =
     (let p = takeWhile (\<lambda>c. c \<noteq> CHR ''.'') k in
      if p = [] \<or> length p = length k then None else Some (p, drop (Suc (length p)) k))"

lemma split_dot_shorter: "split_dot k = Some (p, r) \<Longrightarrow> length r < length k"
proof -
  have "length (takeWhile (\<lambda>c. c \<noteq> CHR ''.'') k) \<le> length k" by (rule length_takeWhile_le)
  then show "split_dot k = Some (p, r) \<Longrightarrow> length r < length k"
    by (auto simp: split_dot_def Let_def split: if_splits)
qed

function typedict_get :: "pdict \<Rightarrow> string \<Rightarrow> pval option" where
  "typedict_get d k =
     (case map_of d (PStr k) of
        Some v \<Rightarrow> Some v
      | None \<Rightarrow>
          (case split_dot k of
             None \<Rightarrow> None
           | Some (prefix, r) \<Rightarrow>
               (case map_of d (PStr prefix) of
                  Some (PDict v) \<Rightarrow> typedict_get v r
                | _ \<Rightarrow> None)))"
  by pat_completeness auto
termination by (relation "measure (\<lambda>(d, k). length k)") (auto dest: split_dot_shorter)

declare typedict_get.simps [simp del]

function conv_find :: "pdict \<Rightarrow> string \<Rightarrow> pval option" where
  "conv_find d key =
     (case split_dot key of
        None \<Rightarrow> map_of d (PStr key)
      | Some (prefix, k) \<Rightarrow>
          (case map_of d (PStr prefix) of
             Some (PDict v) \<Rightarrow> conv_find v k
           | _ \<Rightarrow> None))"
  by pat_completeness auto
termination by (relation "measure (\<lambda>(d, k). length k)") (auto dest: split_dot_shorter)

declare conv_find.simps [simp del]

text \<open>
  \<^verbatim>\<open>conv_get\<close>: \<open>unwrap\<close> says that the conversion is one of those that read the value of a
  dictionary from its empty key. A conversion that raises gives the default.
\<close>

definition conv_get :: "pdict \<Rightarrow> string \<Rightarrow> 'a \<Rightarrow> bool \<Rightarrow> (pval \<Rightarrow> py_error + 'a) \<Rightarrow> 'a" where
  "conv_get d key dflt unwrap conv =
     (let found = (case map_of d (PStr key) of Some v \<Rightarrow> Some v | None \<Rightarrow> conv_find d key) in
      case found of
        None \<Rightarrow> dflt
      | Some v \<Rightarrow>
          let v' = (case v of
                      PDict e \<Rightarrow> if unwrap then (case map_of e (PStr '''') of Some w \<Rightarrow> w | None \<Rightarrow> v) else v
                    | _ \<Rightarrow> v)
          in case conv v' of Inl _ \<Rightarrow> dflt | Inr r \<Rightarrow> r)"

definition strget :: "(pval \<Rightarrow> string) \<Rightarrow> pdict \<Rightarrow> string \<Rightarrow> string \<Rightarrow> string" where
  "strget rep d k dflt = conv_get d k dflt True (Inr \<circ> bytestostr rep)"

definition bytesget :: "(pval \<Rightarrow> string) \<Rightarrow> pdict \<Rightarrow> string \<Rightarrow> bytes \<Rightarrow> bytes" where
  "bytesget rep d k dflt = conv_get d k dflt True (Inr \<circ> strtobytes rep)"

definition intget :: "pdict \<Rightarrow> string \<Rightarrow> int \<Rightarrow> int" where
  "intget d k dflt = conv_get d k dflt True py_int"

definition boolget :: "pdict \<Rightarrow> string \<Rightarrow> bool \<Rightarrow> bool" where
  "boolget d k dflt = conv_get d k dflt True (Inr \<circ> py_bool)"

definition dictget :: "pdict \<Rightarrow> string \<Rightarrow> pdict option \<Rightarrow> pdict option" where
  "dictget d k dflt = conv_get d k dflt False (\<lambda>v. map_sum id Some (checkdict v))"

subsection \<open>Lists of values\<close>

text \<open>\<open>AnyItem\<close> is the default \<^verbatim>\<open>item_type=None\<close>: the items are not checked.\<close>

datatype item_type = StrItem | IntItem | AnyItem

definition is_instance :: "item_type \<Rightarrow> pval \<Rightarrow> bool" where
  "is_instance t v =
     (t = AnyItem \<or> (case v of PStr _ \<Rightarrow> t = StrItem | PInt _ \<Rightarrow> t = IntItem | PBool _ \<Rightarrow> t = IntItem | _ \<Rightarrow> False))"

definition item_call :: "(pval \<Rightarrow> string) \<Rightarrow> item_type \<Rightarrow> pval \<Rightarrow> py_error + pval" where
  "item_call rep t v =
     (case t of StrItem \<Rightarrow> Inr (PStr (py_str rep v)) | IntItem \<Rightarrow> map_sum id PInt (py_int v) | AnyItem \<Rightarrow> Inr v)"

text \<open>
  The loop over the items: bytes become text when text is wanted; the first item that is
  still not of the type ends the function with the conversion of that one item.
\<close>

fun list_items :: "(pval \<Rightarrow> string) \<Rightarrow> item_type \<Rightarrow> pval \<Rightarrow> pval list \<Rightarrow> pval list \<Rightarrow> pval" where
  "list_items rep t dflt acc [] = PList acc"
| "list_items rep t dflt acc (x # xs) =
     (let y = (case x of PBytes _ \<Rightarrow> if t = StrItem then PStr (bytestostr rep x) else x | _ \<Rightarrow> x) in
      if is_instance t y then list_items rep t dflt (acc @ [y]) xs
      else (case item_call rep t y of Inr r \<Rightarrow> r | Inl _ \<Rightarrow> dflt))"

definition listget :: "(pval \<Rightarrow> string) \<Rightarrow> pdict \<Rightarrow> string \<Rightarrow> pval list \<Rightarrow> item_type
    \<Rightarrow> nat option \<Rightarrow> nat option \<Rightarrow> pval" where
  "listget rep d k dflt t min_items max_items =
     (case typedict_get d k of
        None \<Rightarrow> PList dflt
      | Some PNone \<Rightarrow> PList dflt
      | Some v \<Rightarrow>
          let v' = (case v of PDict e \<Rightarrow> (case map_of e (PStr '''') of Some w \<Rightarrow> w | None \<Rightarrow> v) | _ \<Rightarrow> v) in
          (case v' of
             PList xs \<Rightarrow>
               if (case min_items of Some n \<Rightarrow> length xs < n | None \<Rightarrow> False) then PList dflt
               else if (case max_items of Some n \<Rightarrow> length xs > n | None \<Rightarrow> False) then PList dflt
               else list_items rep t (PList dflt) [] xs
           | _ \<Rightarrow> PList dflt))"

definition tupleget :: "(pval \<Rightarrow> string) \<Rightarrow> pdict \<Rightarrow> string \<Rightarrow> pval list \<Rightarrow> item_type
    \<Rightarrow> nat option \<Rightarrow> nat option \<Rightarrow> py_error + pval list" where
  "tupleget rep d k dflt t min_items max_items =
     (let v = listget rep d k dflt t min_items max_items in
      if py_bool v then py_list v else Inr [])"

definition strtupleget :: "(pval \<Rightarrow> string) \<Rightarrow> pdict \<Rightarrow> string \<Rightarrow> pval list \<Rightarrow> nat option \<Rightarrow> nat option
    \<Rightarrow> py_error + pval list" where
  "strtupleget rep d k dflt = tupleget rep d k dflt StrItem"

definition inttupleget :: "(pval \<Rightarrow> string) \<Rightarrow> pdict \<Rightarrow> string \<Rightarrow> pval list \<Rightarrow> nat option \<Rightarrow> nat option
    \<Rightarrow> py_error + pval list" where
  "inttupleget rep d k dflt = tupleget rep d k dflt IntItem"

definition intpair :: "(pval \<Rightarrow> string) \<Rightarrow> pdict \<Rightarrow> string \<Rightarrow> (int \<times> int) option \<Rightarrow> py_error + (int \<times> int) option" where
  "intpair rep d k dflt =
     (case inttupleget rep d k (case dflt of Some (a, b) \<Rightarrow> [PInt a, PInt b] | None \<Rightarrow> []) None None of
        Inl e \<Rightarrow> Inl e
      | Inr v \<Rightarrow>
          if length v \<noteq> 2 then Inr dflt
          else (case (py_int (v ! 0), py_int (v ! 1)) of
                  (Inr a, Inr b) \<Rightarrow> Inr (Some (a, b))
                | (Inl e, _) \<Rightarrow> if e = ValueError then Inr dflt else Inl e
                | (_, Inl e) \<Rightarrow> if e = ValueError then Inr dflt else Inl e))"

subsection \<open>Lemmas\<close>

lemma of_char_unit [simp]: "n < 256 \<Longrightarrow> (of_char (char_of n :: char) :: nat) = n"
  by (simp add: of_char_of)

lemma latin1_roundtrip: "latin1_encode (latin1_decode b) = Some b"
proof (induction b)
  case (Cons w b)
  have w: "unat w < 256" by simp
  have d: "unat w div 64 < 4" using w by (simp add: div_less_iff_less_mult)
  show ?case
  proof (cases "unat w < 128")
    case True
    then show ?thesis using Cons by (simp add: latin1_decode_def latin1_unit_def Let_def)
  next
    case False
    then have "unat w div 64 = 2 \<or> unat w div 64 = 3" using d by linarith
    then have n: "192 + unat w div 64 = 194 \<or> 192 + unat w div 64 = 195" by auto
    have inv: "(192 + unat w div 64 - 192) * 64 + (128 + unat w mod 64 - 128) = unat w"
      by simp
    have m: "128 + unat w mod 64 < 256" by (rule le_less_trans [of _ "128 + 63"]) auto
    show ?thesis using False Cons n m inv d
      by (auto simp: latin1_decode_def latin1_unit_def Let_def)
  qed
qed (simp add: latin1_decode_def)

lemma conv_get_cong:
  "map_of d (PStr k) = Some v \<Longrightarrow> (\<And>e. v \<noteq> PDict e) \<Longrightarrow> conv v = Inr r \<Longrightarrow> conv_get d k dflt u conv = r"
  by (cases v) (auto simp: conv_get_def Let_def)

lemma list_items_all:
  assumes "\<forall>x\<in>set xs. is_instance StrItem x \<or> (\<exists>b. x = PBytes b)"
  shows "list_items rep StrItem dflt acc xs = PList (acc @ map (\<lambda>x. PStr (bytestostr rep x)) xs)"
  using assms
proof (induction xs arbitrary: acc)
  case (Cons x xs)
  then show ?case
    by (cases x) (auto simp: is_instance_def bytestostr_def py_str_def Let_def)
qed simp


lemma split_dot_append:
  assumes "p \<noteq> []" and "CHR ''.'' \<notin> set p"
  shows "split_dot (p @ CHR ''.'' # k) = Some (p, k)"
proof -
  have "takeWhile (\<lambda>c. c \<noteq> CHR ''.'') (p @ CHR ''.'' # k) = p"
    using assms(2) by (subst takeWhile_append2) auto
  with assms(1) show ?thesis by (simp add: split_dot_def)
qed

text \<open>
  A key with a dot reads the entry of the nested dictionary, for every conversion: where
  the outer dictionary has no entry of the whole dotted name, \<open>prefix.rest\<close> is \<open>rest\<close> in the
  dictionary stored under \<open>prefix\<close>.
\<close>

theorem typedict_nested_key:
  assumes "map_of d (PStr prefix) = Some (PDict e)" and "map_of d (PStr (prefix @ CHR ''.'' # k)) = None"
    and "prefix \<noteq> []" and "CHR ''.'' \<notin> set prefix" and "split_dot k = None"
  shows "conv_get d (prefix @ CHR ''.'' # k) dflt u conv = conv_get e k dflt u conv
    \<and> typedict_get d (prefix @ CHR ''.'' # k) = typedict_get e k"
proof -
  have sp: "split_dot (prefix @ CHR ''.'' # k) = Some (prefix, k)"
    using assms(3,4) by (rule split_dot_append)
  have "conv_find d (prefix @ CHR ''.'' # k) = conv_find e k"
    by (subst conv_find.simps) (simp add: sp assms(1))
  moreover have "conv_find e k = map_of e (PStr k)"
    by (subst conv_find.simps) (simp add: assms(5))
  moreover have "typedict_get d (prefix @ CHR ''.'' # k) = typedict_get e k"
    by (subst typedict_get.simps) (simp add: sp assms(1,2))
  ultimately show ?thesis
    using assms(2) by (simp add: conv_get_def split: option.splits)
qed

theorem typedict_nested_key_witness:
  "conv_get [(PStr ''file'', PDict [(PStr ''ack'', PInt 3)])] (''file'' @ CHR ''.'' # ''ack'') 0 True py_int
     = conv_get [(PStr ''ack'', PInt 3)] ''ack'' 0 True py_int
   \<and> typedict_get [(PStr ''file'', PDict [(PStr ''ack'', PInt 3)])] (''file'' @ CHR ''.'' # ''ack'')
     = typedict_get [(PStr ''ack'', PInt 3)] ''ack''"
  by (rule typedict_nested_key) (simp_all add: split_dot_def)

lemma digit_chars_12: "char_of (49 :: nat) = CHR ''1''" "char_of (50 :: nat) = CHR ''2''"
  by code_simp+

text \<open>
  A list of texts with an item of another type is not converted item by item: the function
  returns the conversion of the first such item alone, so a list of numbers read as texts is
  the characters of the first number, and a list of numerals read as integers raises.
\<close>

theorem listget_returns_first_item:
  "strtupleget rep [(PStr ''a'', PList [PInt 12, PInt 34])] ''a'' [] None None = Inr [PStr ''1'', PStr ''2'']
    \<and> inttupleget rep [(PStr ''a'', PList [PStr ''12''])] ''a'' [] None None = Inl TypeError"
  by (simp add: strtupleget_def inttupleget_def tupleget_def listget_def typedict_get.simps is_instance_def
      item_call_def py_str_def show_int_def show_nat.simps [of 12] show_nat.simps [of "Suc 0"] digit_chars_12 digit_char_def py_list_def
      py_sequence_def py_int_def read_int_def str_strip_def is_space_def read_nat_def digit_val_def of_char_of)

end
