(* ===== verification/Net_Compression.thy ===== *)
theory Net_Compression
  imports Packet_Header Typed_Dict
begin

text \<open>
  The registries of compressors (\<^verbatim>\<open>xpra/net/compression.py\<close>) and of packet encoders
  (\<^verbatim>\<open>xpra/net/packet_encoding.py\<close>). The compression and serialisation libraries themselves are
  not part of the repository's Python: they are parameters, records of the functions the
  code calls; the contracts \<open>lz4_ok\<close> and \<open>brotli_ok\<close> say what their documentation promises.
  A registry is the module's dictionary, in insertion order. \<open>enabled\<close> stands for the
  environment switches \<^verbatim>\<open>XPRA_LZ4\<close> and so on.
\<close>

subsection \<open>Compressors\<close>

definition TRY_COMPRESSORS :: "string list" where "TRY_COMPRESSORS = [''lz4'', ''brotli'', ''none'']"
definition PERFORMANCE_ORDER :: "string list" where "PERFORMANCE_ORDER = [''none'', ''lz4'', ''brotli'']"
definition PERFORMANCE_COMPRESSION :: "string list" where "PERFORMANCE_COMPRESSION = [''lz4'', ''brotli'']"
definition MIN_COMPRESS_SIZE :: int where "MIN_COMPRESS_SIZE = -1"
definition MAX_DECOMPRESSED_SIZE :: nat where "MAX_DECOMPRESSED_SIZE = 256 * 1024 * 1024"

record compression =
  cname :: string
  cversion :: string
  ccompress :: "bytes \<Rightarrow> nat \<Rightarrow> py_error + (nat \<times> bytes)"
  cdecompress :: "bytes \<Rightarrow> py_error + bytes"

record lz4_lib =
  lz4_version :: string
  lz4_compress_fn :: "bytes \<Rightarrow> int \<Rightarrow> py_error + bytes"
  lz4_decompress_fn :: "bytes \<Rightarrow> nat \<Rightarrow> py_error + bytes"

record brotli_lib =
  brotli_version :: string
  brotli_compress_fn :: "bytes \<Rightarrow> nat \<Rightarrow> py_error + bytes"
  brotli_decompress_fn :: "bytes \<Rightarrow> py_error + bytes"

definition lz4_compress :: "lz4_lib \<Rightarrow> bytes \<Rightarrow> nat \<Rightarrow> py_error + (nat \<times> bytes)" where
  "lz4_compress lib data level =
     (let flag = min 15 level OR LZ4_FLAG
      in map_sum id (Pair flag) (lz4_compress_fn lib data (max 0 (5 - int (level div 3)))))"

definition lz4_decompress :: "lz4_lib \<Rightarrow> bytes \<Rightarrow> py_error + bytes" where
  "lz4_decompress lib data = lz4_decompress_fn lib data MAX_DECOMPRESSED_SIZE"

definition init_lz4 :: "lz4_lib \<Rightarrow> compression" where
  "init_lz4 lib = \<lparr>cname = ''lz4'', cversion = lz4_version lib,
     ccompress = lz4_compress lib, cdecompress = lz4_decompress lib\<rparr>"

definition brotli_compress_shim :: "brotli_lib \<Rightarrow> bytes \<Rightarrow> nat \<Rightarrow> py_error + (nat \<times> bytes)" where
  "brotli_compress_shim lib packet level =
     (let level' = (if length packet > 1024 * 1024 then min 9 level else min 11 level)
      in map_sum id (Pair (level' OR BROTLI_FLAG)) (brotli_compress_fn lib packet level'))"

definition init_brotli :: "brotli_lib \<Rightarrow> compression" where
  "init_brotli lib = \<lparr>cname = ''brotli'', cversion = brotli_version lib,
     ccompress = brotli_compress_shim lib, cdecompress = brotli_decompress_fn lib\<rparr>"

definition nocompress :: "bytes \<Rightarrow> nat \<Rightarrow> py_error + (nat \<times> bytes)" where
  "nocompress data level = Inr (0, data)"

definition nodecompress :: "bytes \<Rightarrow> py_error + bytes" where
  "nodecompress v = Inr v"

definition init_none :: compression where
  "init_none = \<lparr>cname = ''none'', cversion = ''0'', ccompress = nocompress, cdecompress = nodecompress\<rparr>"

type_synonym compressors = "(string \<times> compression) list"

text \<open>
  \<^verbatim>\<open>init_compressors\<close>: \<open>fns\<close> maps the names with an \<^verbatim>\<open>init_\<close> function to its result, \<open>None\<close> when
  the library cannot be imported. Only the names that would recurse raise.
\<close>

definition compressor_fns :: "lz4_lib option \<Rightarrow> brotli_lib option \<Rightarrow> string \<Rightarrow> compression option option" where
  "compressor_fns lz4 brotli x =
     (if x = ''lz4'' then Some (map_option init_lz4 lz4)
      else if x = ''brotli'' then Some (map_option init_brotli brotli)
      else if x = ''none'' then Some (Some init_none)
      else None)"

fun init_compressors :: "(string \<Rightarrow> bool) \<Rightarrow> (string \<Rightarrow> compression option option) \<Rightarrow> string list
    \<Rightarrow> compressors \<Rightarrow> py_error + compressors" where
  "init_compressors enabled fns [] reg = Inr reg"
| "init_compressors enabled fns (x # xs) reg =
     (if x \<in> {''compressors'', ''all''} then Inl AssertionError
      else if \<not> enabled x then init_compressors enabled fns xs reg
      else case fns x of
        Some (Some c) \<Rightarrow> init_compressors enabled fns xs (dict_set x c reg)
      | _ \<Rightarrow> init_compressors enabled fns xs reg)"

definition init_all_compressors :: "(string \<Rightarrow> bool) \<Rightarrow> lz4_lib option \<Rightarrow> brotli_lib option \<Rightarrow> py_error + compressors" where
  "init_all_compressors enabled lz4 brotli =
     init_compressors enabled (compressor_fns lz4 brotli) (TRY_COMPRESSORS @ [''none'']) []"

definition use_compressor :: "compressors \<Rightarrow> string \<Rightarrow> bool" where
  "use_compressor reg c = (map_of reg c \<noteq> None)"

definition get_compression_caps :: "compressors \<Rightarrow> int \<Rightarrow> (string \<times> (string \<times> pval) list) list" where
  "get_compression_caps reg full_info =
     concat (map (\<lambda>x. case map_of reg x of
                 None \<Rightarrow> []
               | Some c \<Rightarrow> [(x, (if full_info > 1 \<and> cversion c \<noteq> [] then [(''version'', PStr (cversion c))] else [])
                              @ [('''', PBool True)])])
        TRY_COMPRESSORS)"

definition get_enabled_compressors :: "compressors \<Rightarrow> string list \<Rightarrow> string list" where
  "get_enabled_compressors reg order = filter (\<lambda>x. map_of reg x \<noteq> None) order"

definition get_compressor :: "compressors \<Rightarrow> string \<Rightarrow> py_error + (bytes \<Rightarrow> nat \<Rightarrow> py_error + (nat \<times> bytes))" where
  "get_compressor reg name = (case map_of reg name of Some c \<Rightarrow> Inr (ccompress c) | None \<Rightarrow> Inl ValueError)"

subsection \<open>Compressed items\<close>

text \<open>\<open>Compressed\<close> and its subclass \<open>LevelCompressed\<close>, whose level tells how to undo the compression.\<close>

datatype compressed =
    Compressed string bytes bool
  | LevelCompressed string bytes nat string bool

fun comp_data :: "compressed \<Rightarrow> bytes" where
  "comp_data (Compressed dt data inl) = data"
| "comp_data (LevelCompressed dt data level algo inl) = data"

fun comp_can_inline :: "compressed \<Rightarrow> bool" where
  "comp_can_inline (Compressed dt data inl) = inl"
| "comp_can_inline (LevelCompressed dt data level algo inl) = inl"

definition compressed_len :: "compressed \<Rightarrow> nat" where
  "compressed_len c = length (comp_data c)"

text \<open>\<open>algos\<close> holds the names the caller passed as true keyword arguments.\<close>

definition compressed_wrapper :: "compressors \<Rightarrow> string \<Rightarrow> bytes \<Rightarrow> nat \<Rightarrow> bool \<Rightarrow> string list \<Rightarrow> int \<Rightarrow> py_error + compressed" where
  "compressed_wrapper reg datatype data level can_inline algos min_saving =
     (let sz = length data;
          no = Inr (Compressed (''raw '' @ datatype) data can_inline)
      in if int sz \<le> MIN_COMPRESS_SIZE then no
         else if sz > MAX_DECOMPRESSED_SIZE then Inl ValueError
         else case find (\<lambda>x. x \<in> set algos \<and> map_of reg x \<noteq> None) PERFORMANCE_COMPRESSION of
           None \<Rightarrow> no
         | Some algo \<Rightarrow>
             (case ccompress (the (map_of reg algo)) data level of
                Inl e \<Rightarrow> Inl e
              | Inr (cl, cdata) \<Rightarrow>
                  if int (length cdata) \<ge> int sz + min_saving then no
                  else Inr (LevelCompressed datatype cdata cl algo can_inline)))"

subsection \<open>Decompression\<close>

definition get_compression_type :: "nat \<Rightarrow> string" where
  "get_compression_type level =
     (if level AND LZ4_FLAG \<noteq> 0 then ''lz4'' else if level AND BROTLI_FLAG \<noteq> 0 then ''brotli'' else ''zlib'')"

definition decompress_by_name :: "compressors \<Rightarrow> bytes \<Rightarrow> string \<Rightarrow> py_error + bytes" where
  "decompress_by_name reg data algo =
     (case map_of reg algo of None \<Rightarrow> Inl InvalidCompression | Some c \<Rightarrow> cdecompress c data)"

definition decompress :: "compressors \<Rightarrow> bytes \<Rightarrow> nat \<Rightarrow> py_error + bytes" where
  "decompress reg data level =
     (let algo = (if level AND LZ4_FLAG \<noteq> 0 then ''lz4''
                  else if level AND BROTLI_FLAG \<noteq> 0 then ''brotli'' else ''zlib'')
      in decompress_by_name reg data algo)"

subsection \<open>Packet encoders\<close>

definition VALID_ENCODERS :: "string list" where "VALID_ENCODERS = [''rencodeplus'', ''yaml'', ''none'']"
definition TRY_ENCODERS :: "string list" where "TRY_ENCODERS = [''rencodeplus'', ''yaml'', ''none'']"
definition ENCODER_PERFORMANCE_ORDER :: "string list" where
  "ENCODER_PERFORMANCE_ORDER = [''rencodeplus'', ''yaml'']"

record packet_encoder =
  ename :: string
  eflag :: nat
  eversion :: string
  eencode :: "pval list \<Rightarrow> py_error + (bytes \<times> nat)"
  edecode :: "bytes \<Rightarrow> py_error + pval"

record rencodeplus_lib =
  rencodeplus_version :: string
  rencodeplus_dumps :: "pval list \<Rightarrow> py_error + bytes"
  rencodeplus_loads :: "bytes \<Rightarrow> py_error + pval"

record yaml_lib =
  yaml_version :: string
  yaml_dump :: "pval list \<Rightarrow> py_error + string"
  yaml_load :: "string \<Rightarrow> py_error + pval"

definition do_rencodeplus :: "rencodeplus_lib \<Rightarrow> pval list \<Rightarrow> py_error + (bytes \<times> nat)" where
  "do_rencodeplus lib value = map_sum id (\<lambda>b. (b, FLAGS_RENCODEPLUS)) (rencodeplus_dumps lib value)"

definition init_rencodeplus :: "rencodeplus_lib \<Rightarrow> packet_encoder" where
  "init_rencodeplus lib = \<lparr>ename = ''rencodeplus'', eflag = FLAGS_RENCODEPLUS,
     eversion = rencodeplus_version lib, eencode = do_rencodeplus lib, edecode = rencodeplus_loads lib\<rparr>"

definition yaml_encode :: "yaml_lib \<Rightarrow> pval list \<Rightarrow> py_error + (bytes \<times> nat)" where
  "yaml_encode lib value = map_sum id (\<lambda>s. (str_encode s, FLAGS_YAML)) (yaml_dump lib value)"

definition yaml_decode :: "yaml_lib \<Rightarrow> bytes \<Rightarrow> py_error + pval" where
  "yaml_decode lib value = (case utf8_decode value of Inl e \<Rightarrow> Inl e | Inr s \<Rightarrow> yaml_load lib s)"

definition init_yaml :: "yaml_lib \<Rightarrow> packet_encoder" where
  "init_yaml lib = \<lparr>ename = ''yaml'', eflag = FLAGS_YAML, eversion = yaml_version lib,
     eencode = yaml_encode lib, edecode = yaml_decode lib\<rparr>"

text \<open>\<^verbatim>\<open>b(value)\<close>: containers are joined with spaces, a dictionary giving its keys.\<close>

fun join_bytes :: "bytes \<Rightarrow> bytes list \<Rightarrow> bytes" where
  "join_bytes sep [] = []"
| "join_bytes sep [x] = x"
| "join_bytes sep (x # xs) = x @ sep @ join_bytes sep xs"

fun b_value :: "(pval \<Rightarrow> string) \<Rightarrow> pval \<Rightarrow> bytes" where
  "b_value rep (PList xs) = join_bytes [32] (map (b_value rep) xs)"
| "b_value rep (PDict d) = join_bytes [32] (map (\<lambda>(k, v). b_value rep k) d)"
| "b_value rep v = memoryview_to_bytes rep v"

definition none_encode :: "(pval \<Rightarrow> string) \<Rightarrow> pval list \<Rightarrow> py_error + (bytes \<times> nat)" where
  "none_encode rep value = Inr (b_value rep (PList value) @ [10], FLAGS_NOHEADER)"

definition none_decode :: "bytes \<Rightarrow> py_error + pval" where
  "none_decode data = Inr (PBytes data)"

definition init_none_encoder :: "(pval \<Rightarrow> string) \<Rightarrow> packet_encoder" where
  "init_none_encoder rep = \<lparr>ename = ''none'', eflag = FLAGS_NOHEADER, eversion = ''0'',
     eencode = none_encode rep, edecode = none_decode\<rparr>"

type_synonym encoders = "(string \<times> packet_encoder) list"

definition encoder_fns :: "(pval \<Rightarrow> string) \<Rightarrow> rencodeplus_lib option \<Rightarrow> yaml_lib option \<Rightarrow> string \<Rightarrow> packet_encoder option" where
  "encoder_fns rep renc yaml x =
     (if x = ''rencodeplus'' then map_option init_rencodeplus renc
      else if x = ''yaml'' then map_option init_yaml yaml
      else if x = ''none'' then Some (init_none_encoder rep)
      else None)"

fun init_encoders :: "(string \<Rightarrow> bool) \<Rightarrow> (string \<Rightarrow> packet_encoder option) \<Rightarrow> string list \<Rightarrow> encoders \<Rightarrow> encoders" where
  "init_encoders enabled fns [] reg = reg"
| "init_encoders enabled fns (x # xs) reg =
     (if x \<notin> set TRY_ENCODERS \<or> \<not> enabled x then init_encoders enabled fns xs reg
      else case fns x of
        Some e \<Rightarrow> init_encoders enabled fns xs (dict_set x e reg)
      | None \<Rightarrow> init_encoders enabled fns xs reg)"

definition get_packet_encoding_caps :: "encoders \<Rightarrow> int \<Rightarrow> (string \<times> (string \<times> pval) list) list" where
  "get_packet_encoding_caps reg full_info =
     map (\<lambda>name. (name,
            case map_of reg name of
              None \<Rightarrow> [('''', PBool False)]
            | Some e \<Rightarrow> ('''', PBool True) #
                (if full_info > 1 \<and> eversion e \<noteq> [] then [(''version'', PStr (eversion e))] else [])))
       TRY_ENCODERS"

definition get_enabled_encoders :: "encoders \<Rightarrow> string list \<Rightarrow> string list" where
  "get_enabled_encoders reg order = filter (\<lambda>x. map_of reg x \<noteq> None) order"

definition get_encoder :: "encoders \<Rightarrow> string \<Rightarrow> py_error + (pval list \<Rightarrow> py_error + (bytes \<times> nat))" where
  "get_encoder reg e =
     (if e \<notin> set VALID_ENCODERS then Inl ValueError
      else case map_of reg e of None \<Rightarrow> Inl ValueError | Some enc \<Rightarrow> Inr (eencode enc))"

definition get_packet_encoding_type :: "nat \<Rightarrow> string" where
  "get_packet_encoding_type protocol_flags =
     (if protocol_flags AND FLAGS_RENCODEPLUS \<noteq> 0 then ''rencodeplus''
      else if protocol_flags AND FLAGS_RENCODE \<noteq> 0 then ''rencode''
      else if protocol_flags AND FLAGS_YAML \<noteq> 0 then ''yaml''
      else ''bencode'')"

definition pack_one_packet :: "encoders \<Rightarrow> (pval \<Rightarrow> string) \<Rightarrow> pval list \<Rightarrow> py_error + bytes" where
  "pack_one_packet reg rep packet =
     (case get_enabled_encoders reg TRY_ENCODERS of
        [] \<Rightarrow> Inr (strtobytes rep (PList packet))
      | e # _ \<Rightarrow>
          (case get_encoder reg e of
             Inl x \<Rightarrow> Inl x
           | Inr enc \<Rightarrow>
               (case enc packet of
                  Inl x \<Rightarrow> Inl x
                | Inr (data, flags) \<Rightarrow> map_sum id (\<lambda>h. h @ data) (pack_header flags 0 0 (length data)))))"

definition decode_packet :: "encoders \<Rightarrow> bytes \<Rightarrow> nat \<Rightarrow> py_error + pval" where
  "decode_packet reg data protocol_flags =
     (case map_of reg (get_packet_encoding_type protocol_flags) of
        Some e \<Rightarrow> edecode e data
      | None \<Rightarrow> Inl InvalidPacketEncoding)"

subsection \<open>Contracts of the libraries\<close>

definition lz4_ok :: "lz4_lib \<Rightarrow> bool" where
  "lz4_ok lib = (\<forall>d a c. length d \<le> MAX_DECOMPRESSED_SIZE \<longrightarrow> lz4_compress_fn lib d a = Inr c
     \<longrightarrow> lz4_decompress_fn lib c MAX_DECOMPRESSED_SIZE = Inr d)"

definition brotli_ok :: "brotli_lib \<Rightarrow> bool" where
  "brotli_ok lib = (\<forall>d q c. brotli_compress_fn lib d q = Inr c \<longrightarrow> brotli_decompress_fn lib c = Inr d)"

definition rencodeplus_ok :: "rencodeplus_lib \<Rightarrow> bool" where
  "rencodeplus_ok lib = (\<forall>v b. list_all pval_wf v \<longrightarrow> rencodeplus_dumps lib v = Inr b \<longrightarrow> rencodeplus_loads lib b = Inr (PList v))"

definition yaml_ok :: "yaml_lib \<Rightarrow> bool" where
  "yaml_ok lib = (\<forall>v s. list_all pval_wf v \<longrightarrow> yaml_dump lib v = Inr s \<longrightarrow> utf8_ok (str_encode s) \<and> yaml_load lib s = Inr (PList v))"

definition libs_ok :: "lz4_lib option \<Rightarrow> brotli_lib option \<Rightarrow> bool" where
  "libs_ok lz4 brotli = (pred_option lz4_ok lz4 \<and> pred_option brotli_ok brotli)"

subsection \<open>Lemmas\<close>

lemma init_compressors_lookup:
  "init_compressors enabled fns xs reg = Inr reg'
    \<Longrightarrow> \<forall>x c. map_of reg x = Some c \<longrightarrow> fns x = Some (Some c)
    \<Longrightarrow> map_of reg' x = Some c \<Longrightarrow> fns x = Some (Some c)"
proof (induction enabled fns xs reg rule: init_compressors.induct)
  case (2 enabled fns y ys reg)
  show ?case
  proof (cases "enabled y \<and> (\<exists>c. fns y = Some (Some c))")
    case True
    then obtain c' where c': "fns y = Some (Some c')" by blast
    have "\<forall>x c. map_of (dict_set y c' reg) x = Some c \<longrightarrow> fns x = Some (Some c)"
      using "2.prems"(2) c' by simp
    then show ?thesis
      using "2.prems"(1,3) "2.IH" True c' by (auto simp del: map_of_dict_set split: if_splits)
  next
    case False
    then show ?thesis using "2.prems" "2.IH" by (auto split: if_splits option.splits)
  qed
qed auto

lemma registry_lookup:
  "init_all_compressors enabled lz4 brotli = Inr reg \<Longrightarrow> map_of reg x = Some c
    \<Longrightarrow> compressor_fns lz4 brotli x = Some (Some c)"
  unfolding init_all_compressors_def by (rule init_compressors_lookup) auto

lemma registry_cases:
  assumes "init_all_compressors enabled lz4 brotli = Inr reg" and "map_of reg x = Some c"
  obtains (lz4) lib where "x = ''lz4''" "lz4 = Some lib" "c = init_lz4 lib"
  | (brotli) lib where "x = ''brotli''" "brotli = Some lib" "c = init_brotli lib"
  | (none) "x = ''none''" "c = init_none"
  using registry_lookup [OF assms] by (auto simp: compressor_fns_def split: if_splits)

text \<open>The algorithm bits of the level byte tell the compressor that made the data.\<close>

lemma lz4_level_type: "get_compression_type (min 15 l OR LZ4_FLAG) = ''lz4''"
proof -
  have "(min 15 l OR 16) AND 16 = (16 :: nat)"
    by (simp add: bit_eq_iff bit_simps) auto
  then show ?thesis by (simp add: get_compression_type_def LZ4_FLAG_def)
qed

lemma brotli_level_type:
  assumes "l \<le> 11"
  shows "get_compression_type (l OR BROTLI_FLAG) = ''brotli''"
proof -
  have "l < 16" using assms by simp
  have "\<not> bit l 4" using \<open>l < 16\<close> by (simp add: bit_iff_odd)
  then have "\<not> bit (l OR 64) 4" using bit_exp_iff [of 6 4, where 'a = nat] by (simp add: bit_or_iff)
  then have "(l OR 64) AND 2 ^ 4 = 0" by (rule iffD2 [OF and_exp_eq_0_iff_not_bit])
  moreover have "(l OR 64) AND 64 = (64 :: nat)" by (simp add: bit_eq_iff bit_simps) auto
  ultimately show ?thesis by (simp add: get_compression_type_def LZ4_FLAG_def BROTLI_FLAG_def)
qed

lemma decompress_type: "decompress reg data level = decompress_by_name reg data (get_compression_type level)"
  by (simp add: decompress_def get_compression_type_def Let_def)


lemma registry_roundtrip:
  assumes "init_all_compressors enabled lz4 brotli = Inr reg" and "libs_ok lz4 brotli"
    and "map_of reg name = Some c" and "ccompress c data level = Inr (cl, cdata)"
    and "length data \<le> MAX_DECOMPRESSED_SIZE"
  shows "name = ''none'' \<and> cl = 0 \<and> cdata = data
    \<or> name \<noteq> ''none'' \<and> cl > 0 \<and> decompress reg cdata cl = Inr data"
  using assms(1,3)
proof (cases rule: registry_cases)
  case (lz4 lib)
  have "cl = min 15 level OR LZ4_FLAG" using assms(4) lz4 by (auto simp: init_lz4_def lz4_compress_def Let_def)
  then have "get_compression_type cl = ''lz4''" by (simp add: lz4_level_type)
  moreover from this have "cl > 0" by (auto simp: get_compression_type_def split: if_splits intro!: gr0I)
  moreover have "lz4_decompress_fn lib cdata MAX_DECOMPRESSED_SIZE = Inr data"
    using assms(2,4,5) lz4 by (auto simp: libs_ok_def lz4_ok_def init_lz4_def lz4_compress_def Let_def)
  ultimately show ?thesis
    using assms(3) lz4 by (simp add: decompress_type decompress_by_name_def init_lz4_def lz4_decompress_def)
next
  case (brotli lib)
  define l where "l = (if length data > 1024 * 1024 then min 9 level else min 11 level)"
  have l: "l \<le> 11" "cl = l OR BROTLI_FLAG" "brotli_compress_fn lib data l = Inr cdata"
    using assms(4) brotli
    by (auto simp: init_brotli_def brotli_compress_shim_def Let_def l_def split: if_splits)
  then have "get_compression_type cl = ''brotli''" by (simp add: brotli_level_type)
  moreover from this have "cl > 0" by (auto simp: get_compression_type_def split: if_splits intro!: gr0I)
  moreover have "brotli_decompress_fn lib cdata = Inr data"
    using assms(2) l(3) brotli by (auto simp: libs_ok_def brotli_ok_def)
  ultimately show ?thesis
    using assms(3) brotli by (simp add: decompress_type decompress_by_name_def init_brotli_def)
next
  case none
  then show ?thesis using assms(4) by (simp add: init_none_def nocompress_def)
qed

lemma wrapper_cases:
  assumes "compressed_wrapper reg dt data level inl algos min_saving = Inr c"
  obtains (raw) "c = Compressed (''raw '' @ dt) data inl"
  | (packed) algo k cl cdata where "map_of reg algo = Some k" "algo \<in> {''lz4'', ''brotli''}"
      "ccompress k data level = Inr (cl, cdata)" "c = LevelCompressed dt cdata cl algo inl"
      "int (length cdata) < int (length data) + min_saving" "length data \<le> MAX_DECOMPRESSED_SIZE"
proof -
  note unf = assms [unfolded compressed_wrapper_def Let_def]
  show thesis
  proof (cases "find (\<lambda>x. x \<in> set algos \<and> map_of reg x \<noteq> None) PERFORMANCE_COMPRESSION")
    case None
    with unf raw show thesis by (auto split: if_splits)
  next
    case (Some algo)
    then have algo: "map_of reg algo \<noteq> None" "algo \<in> {''lz4'', ''brotli''}"
      by (auto simp: PERFORMANCE_COMPRESSION_def split: if_splits)
    then obtain k where "map_of reg algo = Some k" by blast
    with unf Some algo raw packed show thesis by (auto split: if_splits sum.splits)
  qed
qed

subsection \<open>Properties\<close>


definition toy_lz4 :: lz4_lib where
  "toy_lz4 = \<lparr>lz4_version = ''1'', lz4_compress_fn = (\<lambda>d a. Inr (7 # d)), lz4_decompress_fn = (\<lambda>c m. Inr (drop 1 c))\<rparr>"


text \<open>
  \<^verbatim>\<open>compressed_wrapper\<close> never makes data larger when no negative saving is asked for, and
  what it marks as compressed is restored by its algorithm.
\<close>

theorem compressed_wrapper_sound:
  assumes "compressed_wrapper reg dt data level inl algos min_saving = Inr c" and "min_saving \<le> 0"
    and "init_all_compressors enabled lz4 brotli = Inr reg" and "libs_ok lz4 brotli"
  shows "compressed_len c \<le> length data
    \<and> (case c of Compressed _ d _ \<Rightarrow> d = data
       | LevelCompressed _ d l algo _ \<Rightarrow> decompress_by_name reg d algo = Inr data \<and> decompress reg d l = Inr data)"
  using assms(1)
proof (cases rule: wrapper_cases)
  case (packed algo k cl cdata)
  then have "algo \<noteq> ''none''" by auto
  with registry_roundtrip [OF assms(3,4) packed(1,3,6)]
  have d: "decompress reg cdata cl = Inr data" by blast
  have "get_compression_type cl = algo"
    using assms(3) packed(1)
  proof (cases rule: registry_cases)
    case (lz4 lib)
    then show ?thesis using packed(3)
      by (auto simp: init_lz4_def lz4_compress_def Let_def lz4_level_type)
  next
    case (brotli lib)
    then show ?thesis using packed(3)
      by (auto simp: init_brotli_def brotli_compress_shim_def Let_def split: if_splits intro!: brotli_level_type)
  qed (use packed in auto)
  with d packed assms(2) show ?thesis by (simp add: compressed_len_def decompress_type)
qed (simp add: compressed_len_def)

theorem compressed_wrapper_sound_witness:
  "compressed_len (Compressed ''raw text'' [1, 2] True) \<le> length [1, 2 :: 8 word]"
proof -
  let ?reg = "[(''lz4'', init_lz4 toy_lz4), (''none'', init_none)]"
  have reg: "init_all_compressors (\<lambda>_. True) (Some toy_lz4) None = Inr ?reg"
    by (simp add: init_all_compressors_def TRY_COMPRESSORS_def compressor_fns_def)
  have libs: "libs_ok (Some toy_lz4) None" by (auto simp: libs_ok_def lz4_ok_def toy_lz4_def)
  have w: "compressed_wrapper ?reg ''text'' [1, 2] 5 True [''lz4''] 0 = Inr (Compressed ''raw text'' [1, 2] True)"
    by (simp add: compressed_wrapper_def MIN_COMPRESS_SIZE_def MAX_DECOMPRESSED_SIZE_def
        PERFORMANCE_COMPRESSION_def init_lz4_def lz4_compress_def toy_lz4_def)
  show ?thesis using compressed_wrapper_sound [OF w _ reg libs] by simp
qed

end
