(* ===== verification/Net_Crypto.thy ===== *)
theory Net_Crypto
  imports Net_Compression
begin

text \<open>
  The cipher parameters of \<^verbatim>\<open>xpra/net/crypto.py\<close>. The AES implementation and the key
  derivation belong to the library \<^verbatim>\<open>cryptography\<close>: they are the fields of a \<open>crypto_lib\<close>. An
  encryptor or decryptor object is a context that remembers what it has processed, so that
  its \<^verbatim>\<open>update\<close> is a function of the earlier input and the new one. The environment switches
  keep their default values (\<^verbatim>\<open>XPRA_BACKWARDS_COMPATIBLE\<close> is on).
\<close>

definition PADDING_PKCS7 :: string where "PADDING_PKCS7 = ''PKCS#7''"
definition PADDING_OPTIONS :: "string list" where "PADDING_OPTIONS = [PADDING_PKCS7]"
definition DEFAULT_MODE :: string where "DEFAULT_MODE = ''CBC''"
definition MIN_ITERATIONS :: nat where "MIN_ITERATIONS = 1000"
definition MAX_ITERATIONS :: nat where "MAX_ITERATIONS = 1000000"
definition KEY_HASHES :: "string list" where
  "KEY_HASHES = [''SHA1'', ''SHA224'', ''SHA256'', ''SHA384'', ''SHA512'']"
definition BACKWARDS_COMPATIBLE :: bool where "BACKWARDS_COMPATIBLE = True"

record cipher_ctx =
  ctx_key :: bytes
  ctx_iv :: bytes
  ctx_mode :: string
  ctx_done :: bytes

record crypto_lib =
  crypto_modes :: "string list"
  derive_key :: "bytes \<Rightarrow> bytes \<Rightarrow> string \<Rightarrow> nat \<Rightarrow> nat \<Rightarrow> bytes"
  new_cipher_error :: "bytes \<Rightarrow> bytes \<Rightarrow> string \<Rightarrow> py_error option"
  enc_update :: "string \<Rightarrow> bytes \<Rightarrow> bytes \<Rightarrow> bytes \<Rightarrow> bytes \<Rightarrow> bytes"
  enc_final :: "string \<Rightarrow> bytes \<Rightarrow> bytes \<Rightarrow> bytes \<Rightarrow> py_error + bytes"
  dec_update :: "string \<Rightarrow> bytes \<Rightarrow> bytes \<Rightarrow> bytes \<Rightarrow> bytes \<Rightarrow> bytes"
  dec_final :: "string \<Rightarrow> bytes \<Rightarrow> bytes \<Rightarrow> bytes \<Rightarrow> py_error + bytes"

definition pad :: "string \<Rightarrow> nat \<Rightarrow> py_error + bytes" where
  "pad padding sz =
     (if padding \<noteq> PADDING_PKCS7 then Inl ValueError
      else if sz > 255 then Inl StructError
      else Inr (replicate sz (of_nat sz)))"

definition choose_padding :: "string list \<Rightarrow> py_error + string" where
  "choose_padding options =
     (if PADDING_PKCS7 \<in> set options then Inr PADDING_PKCS7
      else case find (\<lambda>x. x \<in> set PADDING_OPTIONS) options of
        Some x \<Rightarrow> Inr x
      | None \<Rightarrow> Inl ValueError)"

text \<open>\<^verbatim>\<open>(ciphername + "-").split("-")[1] or DEFAULT_MODE\<close>.\<close>

definition cipher_mode_part :: "string \<Rightarrow> string" where
  "cipher_mode_part ciphername =
     takeWhile (\<lambda>c. c \<noteq> CHR ''-'') (drop 1 (dropWhile (\<lambda>c. c \<noteq> CHR ''-'') (ciphername @ ''-'')))"

definition get_mode :: "crypto_lib \<Rightarrow> string \<Rightarrow> py_error + string" where
  "get_mode lib ciphername =
     (let m = cipher_mode_part ciphername; mode = (if m = [] then DEFAULT_MODE else m) in
      if \<not> startswith ciphername ''AES'' then Inl ValueError
      else if mode \<notin> set (crypto_modes lib) then Inl ValueError
      else Inr mode)"

definition get_cipher :: "crypto_lib \<Rightarrow> bytes \<Rightarrow> bytes \<Rightarrow> string \<Rightarrow> py_error + cipher_ctx" where
  "get_cipher lib key iv mode =
     (if iv = [] then Inl ValueError
      else case new_cipher_error lib key iv mode of
        Some e \<Rightarrow> Inl e
      | None \<Rightarrow> Inr \<lparr>ctx_key = key, ctx_iv = iv, ctx_mode = mode, ctx_done = []\<rparr>)"

definition get_block_size :: "string \<Rightarrow> nat" where
  "get_block_size mode = (if BACKWARDS_COMPATIBLE \<and> mode = ''CBC'' then 16 else 0)"

definition upper_char :: "char \<Rightarrow> char" where
  "upper_char c = (if 97 \<le> (of_char c :: nat) \<and> (of_char c :: nat) \<le> 122
                   then char_of ((of_char c :: nat) - 32) else c)"

definition get_key :: "crypto_lib \<Rightarrow> bytes \<Rightarrow> bytes \<Rightarrow> string \<Rightarrow> nat \<Rightarrow> nat \<Rightarrow> py_error + bytes" where
  "get_key lib key_data key_salt key_hash key_size iterations =
     (if key_size < 16 then Inl AssertionError
      else if iterations < MIN_ITERATIONS \<or> iterations > MAX_ITERATIONS then Inl ValueError
      else if key_data = [] then Inl ValueError
      else if map upper_char key_hash \<notin> set KEY_HASHES then Inl ValueError
      else Inr (derive_key lib key_data key_salt (map upper_char key_hash) key_size iterations))"

text \<open>The \<^verbatim>\<open>update\<close> methods of the two kinds of context.\<close>

definition enc_step :: "crypto_lib \<Rightarrow> cipher_ctx \<Rightarrow> bytes \<Rightarrow> bytes \<times> cipher_ctx" where
  "enc_step lib c data = (enc_update lib (ctx_mode c) (ctx_key c) (ctx_iv c) (ctx_done c) data,
     c\<lparr>ctx_done := ctx_done c @ data\<rparr>)"

definition dec_step :: "crypto_lib \<Rightarrow> cipher_ctx \<Rightarrow> bytes \<Rightarrow> bytes \<times> cipher_ctx" where
  "dec_step lib c data = (dec_update lib (ctx_mode c) (ctx_key c) (ctx_iv c) (ctx_done c) data,
     c\<lparr>ctx_done := ctx_done c @ data\<rparr>)"

subsection \<open>The contract of the library\<close>

text \<open>
  Encrypting is incremental on input that fills whole blocks (any input for the stream modes,
  whose block size is 0), keeps its length, and is undone by a decryptor that has seen the
  earlier ciphertext. Nothing is left over at the end.
\<close>

definition aligned :: "string \<Rightarrow> bytes \<Rightarrow> bool" where
  "aligned mode d = (get_block_size mode = 0 \<or> get_block_size mode dvd length d)"

definition crypto_ok :: "crypto_lib \<Rightarrow> bool" where
  "crypto_ok lib = (\<forall>mode key iv h d. aligned mode h \<longrightarrow> aligned mode d \<longrightarrow>
     (let E = enc_update lib mode key iv; D = dec_update lib mode key iv in
      length (E h d) = length d
      \<and> E [] (h @ d) = E [] h @ E h d
      \<and> D (E [] h) (E h d) = d
      \<and> enc_final lib mode key iv d = Inr []
      \<and> dec_final lib mode key iv (E [] d) = Inr []))"

lemma crypto_okD:
  assumes "crypto_ok lib" and "aligned mode h" and "aligned mode d"
  shows "length (enc_update lib mode key iv h d) = length d"
    and "enc_update lib mode key iv [] (h @ d) = enc_update lib mode key iv [] h @ enc_update lib mode key iv h d"
    and "dec_update lib mode key iv (enc_update lib mode key iv [] h) (enc_update lib mode key iv h d) = d"
    and "enc_final lib mode key iv d = Inr []"
    and "dec_final lib mode key iv (enc_update lib mode key iv [] d) = Inr []"
  using assms unfolding crypto_ok_def Let_def by blast+

lemma pad_Inr: "sz \<le> 255 \<Longrightarrow> pad PADDING_PKCS7 sz = Inr (replicate sz (of_nat sz))"
  by (simp add: pad_def)

lemma pad_length: "pad p n = Inr b \<Longrightarrow> length b = n"
  by (auto simp: pad_def split: if_splits)

lemma get_block_size_cases: "get_block_size mode = 0 \<or> get_block_size mode = 16"
  by (simp add: get_block_size_def)

lemma aligned_append: "aligned mode a \<Longrightarrow> aligned mode b \<Longrightarrow> aligned mode (a @ b)"
  by (auto simp: aligned_def)

lemma aligned_Nil [simp]: "aligned mode []"
  by (simp add: aligned_def)

lemma get_mode_ok: "get_mode lib name = Inr mode \<Longrightarrow> mode \<in> set (crypto_modes lib) \<and> startswith name ''AES''"
  by (auto simp: get_mode_def Let_def split: if_splits)

end
