(* ===== verification/Rencode.thy ===== *)
theory Rencode
  imports Net_Compression "HOL-Library.Sublist"
begin

text \<open>
  The serialiser of packets (\<^verbatim>\<open>xpra/net/rencodeplus/rencodeplus.pyx\<close>). A type code starts
  every value; small integers, short texts, short lists and small dictionaries have theirs in the
  code. The decoder has fuel, one unit for each level of nesting; \<open>loads\<close> gives it the
  length of the data and one more, which is proved to be enough for any data. Positions are
  unbounded here: the source counts them in 32 bits, more than the largest packet. A float is the
  word of its double. The size before a text of more than 4300 digits raises \<^verbatim>\<open>ValueError\<close> in
  Python and \<open>OtherError\<close> (for \<^verbatim>\<open>OverflowError\<close>) here.
\<close>

subsection \<open>Type codes\<close>

definition MAX_INT_LENGTH :: nat where "MAX_INT_LENGTH = 64"
definition CHR_LIST :: nat where "CHR_LIST = 59"
definition CHR_DICT :: nat where "CHR_DICT = 60"
definition CHR_INT :: nat where "CHR_INT = 61"
definition CHR_INT1 :: nat where "CHR_INT1 = 62"
definition CHR_INT2 :: nat where "CHR_INT2 = 63"
definition CHR_INT4 :: nat where "CHR_INT4 = 64"
definition CHR_INT8 :: nat where "CHR_INT8 = 65"
definition CHR_FLOAT32 :: nat where "CHR_FLOAT32 = 66"
definition CHR_FLOAT64 :: nat where "CHR_FLOAT64 = 44"
definition CHR_TRUE :: nat where "CHR_TRUE = 67"
definition CHR_FALSE :: nat where "CHR_FALSE = 68"
definition CHR_NONE :: nat where "CHR_NONE = 69"
definition CHR_TERM :: nat where "CHR_TERM = 127"
definition INT_POS_FIXED_COUNT :: nat where "INT_POS_FIXED_COUNT = 44"
definition DICT_FIXED_START :: nat where "DICT_FIXED_START = 102"
definition DICT_FIXED_COUNT :: nat where "DICT_FIXED_COUNT = 25"
definition INT_NEG_FIXED_START :: nat where "INT_NEG_FIXED_START = 70"
definition INT_NEG_FIXED_COUNT :: nat where "INT_NEG_FIXED_COUNT = 32"
definition STR_FIXED_START :: nat where "STR_FIXED_START = 128"
definition STR_FIXED_COUNT :: nat where "STR_FIXED_COUNT = 64"
definition LIST_FIXED_START :: nat where "LIST_FIXED_START = STR_FIXED_START + STR_FIXED_COUNT"
definition LIST_FIXED_COUNT :: nat where "LIST_FIXED_COUNT = 64"

lemmas code_defs = MAX_INT_LENGTH_def CHR_LIST_def CHR_DICT_def CHR_INT_def CHR_INT1_def CHR_INT2_def CHR_INT4_def
  CHR_INT8_def CHR_FLOAT32_def CHR_FLOAT64_def CHR_TRUE_def CHR_FALSE_def CHR_NONE_def CHR_TERM_def
  INT_POS_FIXED_COUNT_def DICT_FIXED_START_def DICT_FIXED_COUNT_def INT_NEG_FIXED_START_def INT_NEG_FIXED_COUNT_def
  STR_FIXED_START_def STR_FIXED_COUNT_def LIST_FIXED_START_def LIST_FIXED_COUNT_def

definition MAX_C_INT :: nat where "MAX_C_INT = 2 ^ 31 - 1"

subsection \<open>Encoding\<close>

text \<open>The big-endian two's complement of an integer in \<open>n\<close> bytes.\<close>

definition signed_bytes :: "nat \<Rightarrow> int \<Rightarrow> bytes" where
  "signed_bytes n i = be_bytes n (nat (i mod 256 ^ n))"

definition encode_char :: "int \<Rightarrow> bytes" where
  "encode_char i =
     (if 0 \<le> i \<and> i < int INT_POS_FIXED_COUNT then [of_nat (nat i)]
      else if - int INT_NEG_FIXED_COUNT \<le> i \<and> i < 0 then [of_nat (nat (int INT_NEG_FIXED_START - 1 - i))]
      else of_nat CHR_INT1 # signed_bytes 1 i)"

definition encode_big_number :: "int \<Rightarrow> py_error + bytes" where
  "encode_big_number i =
     (let s = str_encode (show_int i)
      in if length s \<ge> MAX_INT_LENGTH then Inl ValueError else Inr (of_nat CHR_INT # s @ [of_nat CHR_TERM]))"

definition encode_number :: "int \<Rightarrow> py_error + bytes" where
  "encode_number i =
     (if -128 \<le> i \<and> i < 128 then Inr (encode_char i)
      else if -32768 \<le> i \<and> i < 32768 then Inr (of_nat CHR_INT2 # signed_bytes 2 i)
      else if - (2 ^ 31) \<le> i \<and> i < 2 ^ 31 then Inr (of_nat CHR_INT4 # signed_bytes 4 i)
      else if - (2 ^ 63) \<le> i \<and> i < 2 ^ 63 then Inr (of_nat CHR_INT8 # signed_bytes 8 i)
      else encode_big_number i)"

text \<open>A decimal size, a separator and the data; the size must fit a C \<^verbatim>\<open>int\<close>.\<close>

definition encode_sized :: "nat \<Rightarrow> bytes \<Rightarrow> py_error + bytes" where
  "encode_sized sep x =
     (if length x > MAX_C_INT then Inl OtherError else Inr (str_encode (show_nat (length x)) @ of_nat sep # x))"

definition encode_bytes :: "bytes \<Rightarrow> py_error + bytes" where
  "encode_bytes x = encode_sized 47 x"

definition encode_str :: "bytes \<Rightarrow> py_error + bytes" where
  "encode_str x =
     (if length x < STR_FIXED_COUNT then Inr (of_nat (STR_FIXED_START + length x) # x) else encode_sized 58 x)"

definition encode_list :: "nat \<Rightarrow> bytes \<Rightarrow> bytes" where
  "encode_list n body =
     (if n < LIST_FIXED_COUNT then of_nat (LIST_FIXED_START + n) # body
      else of_nat CHR_LIST # body @ [of_nat CHR_TERM])"

definition encode_dict :: "nat \<Rightarrow> bytes \<Rightarrow> bytes" where
  "encode_dict n body =
     (if n < DICT_FIXED_COUNT then of_nat (DICT_FIXED_START + n) # body
      else of_nat CHR_DICT # body @ [of_nat CHR_TERM])"

text \<open>Two values, one after the other.\<close>

definition encode_pair :: "py_error + bytes \<Rightarrow> py_error + bytes \<Rightarrow> py_error + bytes" where
  "encode_pair a b =
     (case a of Inl e \<Rightarrow> Inl e | Inr x \<Rightarrow> (case b of Inl e \<Rightarrow> Inl e | Inr y \<Rightarrow> Inr (x @ y)))"

fun rencode :: "pval \<Rightarrow> py_error + bytes" where
  "rencode (PInt i) = encode_number i"
| "rencode (PFloat w) = Inr (of_nat CHR_FLOAT64 # be_bytes 8 (unat w))"
| "rencode (PBytes x) = encode_bytes x"
| "rencode (PStr s) = (if utf8_ok (str_encode s) then encode_str (str_encode s) else Inl UnicodeError)"
| "rencode PNone = Inr [of_nat CHR_NONE]"
| "rencode (PBool x) = Inr [of_nat (if x then CHR_TRUE else CHR_FALSE)]"
| "rencode (PList xs) = map_sum id (\<lambda>bs. encode_list (length xs) (concat bs)) (seq_results (map rencode xs))"
| "rencode (PDict d) =
     map_sum id (\<lambda>bs. encode_dict (length d) (concat bs)) (seq_results (map (\<lambda>(k, v). encode_pair (rencode k) (rencode v)) d))"

definition dumps :: "pval \<Rightarrow> py_error + bytes" where
  "dumps v = rencode v"

subsection \<open>Decoding\<close>

text \<open>\<^verbatim>\<open>int()\<close> of ASCII bytes: space around, a sign, digits with single underscores between them.\<close>

definition ascii_space :: "8 word \<Rightarrow> bool" where
  "ascii_space w = (unat w = 32 \<or> 9 \<le> unat w \<and> unat w \<le> 13)"

fun parse_digits :: "nat \<Rightarrow> bool \<Rightarrow> bytes \<Rightarrow> nat option" where
  "parse_digits acc ok [] = (if ok then Some acc else None)"
| "parse_digits acc ok (c # cs) =
     (if 48 \<le> unat c \<and> unat c \<le> 57 then parse_digits (acc * 10 + (unat c - 48)) True cs
      else if unat c = 95 \<and> ok then parse_digits acc False cs
      else None)"

definition int_of_bytes :: "bytes \<Rightarrow> int option" where
  "int_of_bytes b =
     (let t = rev (dropWhile ascii_space (rev (dropWhile ascii_space b))) in
      case t of
        [] \<Rightarrow> None
      | c # cs \<Rightarrow>
          if unat c = 45 then map_option (\<lambda>n. - int n) (parse_digits 0 False cs)
          else if unat c = 43 then map_option int (parse_digits 0 False cs)
          else map_option int (parse_digits 0 False t))"

definition take_exact :: "nat \<Rightarrow> bytes \<Rightarrow> py_error + (bytes \<times> bytes)" where
  "take_exact n b = (if length b < n then Inl IndexError else Inr (take n b, drop n b))"

definition decode_signed :: "nat \<Rightarrow> bytes \<Rightarrow> py_error + (pval \<times> bytes)" where
  "decode_signed n b =
     map_sum id (\<lambda>(x, r). (PInt (if 2 * be_val x < 256 ^ n then int (be_val x) else int (be_val x) - 256 ^ n), r)) (take_exact n b)"

text \<open>The index of the terminator of a long number, looked for from the 19th byte on.\<close>

fun big_end :: "nat \<Rightarrow> bytes \<Rightarrow> py_error + nat" where
  "big_end x [] = Inl IndexError"
| "big_end x (c # cs) =
     (if unat c = CHR_TERM then Inr x
      else if Suc x \<ge> MAX_INT_LENGTH then Inl ValueError
      else big_end (Suc x) cs)"

definition decode_big_number :: "bytes \<Rightarrow> py_error + (pval \<times> bytes)" where
  "decode_big_number b =
     (case big_end 18 (drop 18 b) of
        Inl e \<Rightarrow> Inl e
      | Inr x \<Rightarrow>
          (case int_of_bytes (take x b) of
             None \<Rightarrow> Inl ValueError
           | Some i \<Rightarrow> Inr (PInt i, drop (Suc x) b)))"

text \<open>The double with the value of a single; the conversion makes a NaN quiet.\<close>

fun top_bit :: "nat \<Rightarrow> nat" where
  "top_bit n = (if n < 2 then 0 else Suc (top_bit (n div 2)))"

declare top_bit.simps [simp del]

definition double_of_single :: "nat \<Rightarrow> nat" where
  "double_of_single n =
     (let sign = n div 2 ^ 31; e = (n div 2 ^ 23) mod 2 ^ 8; f = n mod 2 ^ 23
      in sign * 2 ^ 63 +
         (if e = 255 then 2047 * 2 ^ 52 + (if f = 0 then 0 else 2 ^ 51 + (f mod 2 ^ 22) * 2 ^ 29)
          else if e \<noteq> 0 then (e + 896) * 2 ^ 52 + f * 2 ^ 29
          else if f = 0 then 0
          else let k = top_bit f in (k + 874) * 2 ^ 52 + (f - 2 ^ k) * 2 ^ (52 - k)))"

definition decode_float :: "nat \<Rightarrow> bytes \<Rightarrow> py_error + (pval \<times> bytes)" where
  "decode_float n b =
     map_sum id (\<lambda>(x, r). (PFloat (of_nat (if n = 4 then double_of_single (be_val x) else be_val x)), r)) (take_exact n b)"

definition decode_text :: "bytes \<times> bytes \<Rightarrow> py_error + (pval \<times> bytes)" where
  "decode_text p = map_sum id (\<lambda>s. (PStr s, snd p)) (utf8_decode (fst p))"

definition decode_fixed_str :: "nat \<Rightarrow> bytes \<Rightarrow> py_error + (pval \<times> bytes)" where
  "decode_fixed_str n b = (case take_exact n b of Inl e \<Rightarrow> Inl e | Inr p \<Rightarrow> decode_text p)"

definition size_separator :: "8 word \<Rightarrow> bool" where
  "size_separator w = (unat w = 58 \<or> unat w = 47)"

text \<open>\<open>c\<close> is the first digit of the size.\<close>

definition decode_str :: "8 word \<Rightarrow> bytes \<Rightarrow> py_error + (pval \<times> bytes)" where
  "decode_str c b =
     (let digits = takeWhile (\<lambda>w. \<not> size_separator w) b in
      case drop (length digits) b of
        [] \<Rightarrow> Inl IndexError
      | sep # r \<Rightarrow>
          (case int_of_bytes (c # digits) of
             None \<Rightarrow> Inl ValueError
           | Some n \<Rightarrow>
               if n > int MAX_C_INT then Inl OtherError
               else
                 (case take_exact (nat n) r of
                    Inl e \<Rightarrow> Inl e
                  | Inr p \<Rightarrow> if unat sep = 47 then Inr (PBytes (fst p), snd p) else decode_text p)))"

type_synonym 'a decoded = "(py_error + 'a \<times> bytes) option"

text \<open>Decoding one part, then the rest of the data: exceptions and lack of fuel stop it.\<close>

definition and_then :: "'a decoded \<Rightarrow> ('a \<Rightarrow> bytes \<Rightarrow> 'b decoded) \<Rightarrow> 'b decoded" where
  "and_then m g = (case m of None \<Rightarrow> None | Some (Inl e) \<Rightarrow> Some (Inl e) | Some (Inr (v, r)) \<Rightarrow> g v r)"

definition decoded_as :: "('a \<Rightarrow> 'b) \<Rightarrow> 'a decoded \<Rightarrow> 'b decoded" where
  "decoded_as g m = and_then m (\<lambda>v r. Some (Inr (g v, r)))"

text \<open>Adding an entry of a dictionary: a key that is not hashable raises once its value is decoded.\<close>

definition dict_entry :: "pval \<Rightarrow> pval \<Rightarrow> (pval \<times> pval) list \<Rightarrow> py_error + (pval \<times> pval) list" where
  "dict_entry k v d = (if hashable k then Inr (dict_put k v d) else Inl TypeError)"

text \<open>
  The four container decoders, over the decoder \<open>dec\<close> of their elements. The two that look for a
  terminator have fuel, one unit for each element.
\<close>

primrec decode_fixed_list :: "(bytes \<Rightarrow> pval decoded) \<Rightarrow> nat \<Rightarrow> bytes \<Rightarrow> pval list decoded" where
  "decode_fixed_list dec 0 b = Some (Inr ([], b))"
| "decode_fixed_list dec (Suc n) b =
     and_then (dec b) (\<lambda>v r. decoded_as (Cons v) (decode_fixed_list dec n r))"

primrec decode_list :: "(bytes \<Rightarrow> pval decoded) \<Rightarrow> nat \<Rightarrow> bytes \<Rightarrow> pval list decoded" where
  "decode_list dec 0 b = None"
| "decode_list dec (Suc n) b =
     (if b \<noteq> [] \<and> unat (hd b) = CHR_TERM then Some (Inr ([], tl b))
      else and_then (dec b) (\<lambda>v r. decoded_as (Cons v) (decode_list dec n r)))"

definition decode_entry :: "(bytes \<Rightarrow> pval decoded) \<Rightarrow> (pval \<times> pval) list \<Rightarrow> bytes \<Rightarrow> (pval \<times> pval) list decoded" where
  "decode_entry dec d b =
     and_then (dec b) (\<lambda>k r. and_then (dec r) (\<lambda>v r'. Some (map_sum id (\<lambda>d'. (d', r')) (dict_entry k v d))))"

primrec decode_fixed_dict :: "(bytes \<Rightarrow> pval decoded) \<Rightarrow> nat \<Rightarrow> (pval \<times> pval) list \<Rightarrow> bytes \<Rightarrow> (pval \<times> pval) list decoded" where
  "decode_fixed_dict dec 0 d b = Some (Inr (d, b))"
| "decode_fixed_dict dec (Suc n) d b = and_then (decode_entry dec d b) (decode_fixed_dict dec n)"

primrec decode_dict :: "(bytes \<Rightarrow> pval decoded) \<Rightarrow> nat \<Rightarrow> (pval \<times> pval) list \<Rightarrow> bytes \<Rightarrow> (pval \<times> pval) list decoded" where
  "decode_dict dec 0 d b = None"
| "decode_dict dec (Suc n) d b =
     (if b \<noteq> [] \<and> unat (hd b) = CHR_TERM then Some (Inr (d, tl b))
      else and_then (decode_entry dec d b) (decode_dict dec n))"

text \<open>The values without parts; \<open>None\<close> is a container or an unknown code.\<close>

definition decode_scalar :: "8 word \<Rightarrow> bytes \<Rightarrow> (py_error + pval \<times> bytes) option" where
  "decode_scalar c b =
     (let t = unat c in
      if t = CHR_INT1 then Some (decode_signed 1 b)
      else if t = CHR_INT2 then Some (decode_signed 2 b)
      else if t = CHR_INT4 then Some (decode_signed 4 b)
      else if t = CHR_INT8 then Some (decode_signed 8 b)
      else if t < INT_POS_FIXED_COUNT then Some (Inr (PInt (int t), b))
      else if INT_NEG_FIXED_START \<le> t \<and> t < INT_NEG_FIXED_START + INT_NEG_FIXED_COUNT
      then Some (Inr (PInt (- int (t - INT_NEG_FIXED_START + 1)), b))
      else if t = CHR_INT then Some (decode_big_number b)
      else if t = CHR_FLOAT32 then Some (decode_float 4 b)
      else if t = CHR_FLOAT64 then Some (decode_float 8 b)
      else if STR_FIXED_START \<le> t \<and> t < STR_FIXED_START + STR_FIXED_COUNT then Some (decode_fixed_str (t - STR_FIXED_START) b)
      else if 48 \<le> t \<and> t \<le> 57 then Some (decode_str c b)
      else if t = CHR_NONE then Some (Inr (PNone, b))
      else if t = CHR_TRUE then Some (Inr (PBool True, b))
      else if t = CHR_FALSE then Some (Inr (PBool False, b))
      else None)"

text \<open>One level of \<^verbatim>\<open>decode\<close>, with \<open>dec\<close> for the calls it makes of itself.\<close>

definition decode_value :: "(bytes \<Rightarrow> pval decoded) \<Rightarrow> bytes \<Rightarrow> pval decoded" where
  "decode_value dec data =
     (case data of
        [] \<Rightarrow> Some (Inl IndexError)
      | c # b \<Rightarrow>
          (case decode_scalar c b of
             Some r \<Rightarrow> Some r
           | None \<Rightarrow>
               (let t = unat c in
                if LIST_FIXED_START \<le> t then decoded_as PList (decode_fixed_list dec (t - LIST_FIXED_START) b)
                else if t = CHR_LIST then decoded_as PList (decode_list dec (Suc (length b)) b)
                else if DICT_FIXED_START \<le> t \<and> t < DICT_FIXED_START + DICT_FIXED_COUNT
                then decoded_as PDict (decode_fixed_dict dec (t - DICT_FIXED_START) [] b)
                else if t = CHR_DICT then decoded_as PDict (decode_dict dec (Suc (length b)) [] b)
                else Some (Inl ValueError))))"

primrec decode :: "nat \<Rightarrow> bytes \<Rightarrow> pval decoded" where
  "decode 0 = (\<lambda>data. None)"
| "decode (Suc f) = decode_value (decode f)"

definition loads :: "bytes \<Rightarrow> py_error + pval" where
  "loads data = (case decode (Suc (length data)) data of Some r \<Rightarrow> map_sum id fst r | None \<Rightarrow> Inl OtherError)"

subsection \<open>Numbers and sizes\<close>

lemma str_encode_simps [simp]: "str_encode [] = []" "str_encode (c # s) = of_nat (of_char c) # str_encode s"
  by (simp_all add: str_encode_def)

lemma str_encode_append: "str_encode (s @ t) = str_encode s @ str_encode t"
  by (simp add: str_encode_def)

definition digit_byte :: "8 word \<Rightarrow> bool" where
  "digit_byte w = (48 \<le> unat w \<and> unat w \<le> 57)"

lemma show_nat_bytes: "list_all digit_byte (str_encode (show_nat n))"
  using digit_chars [of _ n] by (fastforce simp: list_all_iff str_encode_def digit_byte_def)

lemma parse_digits_append:
  "list_all digit_byte xs \<Longrightarrow> digit_byte c \<Longrightarrow> parse_digits acc ok xs = Some m \<Longrightarrow>
   parse_digits acc ok (xs @ [c]) = Some (m * 10 + (unat c - 48))"
  by (induction acc ok xs rule: parse_digits.induct) (auto simp: digit_byte_def split: if_splits)

lemma parse_show_nat: "parse_digits 0 False (str_encode (show_nat n)) = Some n"
proof (induction n rule: show_nat.induct)
  case (1 n)
  define c :: "8 word" where "c = of_nat (of_char (digit_char (n mod 10)))"
  have "(48 + n mod 10) mod 256 = 48 + n mod 10" by (rule mod_less) (use mod_less_divisor [of 10 n] in linarith)
  then have c: "unat c = 48 + n mod 10" by (simp add: c_def digit_char_def of_char_of del: of_nat_add)
  have s: "str_encode (show_nat n) = str_encode (if n < 10 then [] else show_nat (n div 10)) @ [c]"
    by (subst show_nat.simps) (simp add: str_encode_append c_def)
  show ?case
  proof (cases "n < 10")
    case True
    then show ?thesis using c by (simp add: s)
  next
    case False
    have "parse_digits 0 False (str_encode (show_nat (n div 10)) @ [c]) = Some (n div 10 * 10 + (unat c - 48))"
      by (intro parse_digits_append show_nat_bytes 1 False) (use c in \<open>simp add: digit_byte_def\<close>)
    then show ?thesis using False c by (simp add: s)
  qed
qed

lemma strip_digits:
  assumes "list_all digit_byte cs" and "\<not> ascii_space c"
  shows "rev (dropWhile ascii_space (rev (dropWhile ascii_space (c # cs)))) = c # cs"
proof -
  have "\<not> ascii_space (last (c # cs))"
    using assms by (cases cs rule: rev_cases) (auto simp: digit_byte_def ascii_space_def)
  then have "dropWhile ascii_space (rev (c # cs)) = rev (c # cs)"
    by (intro dropWhile_not_hd) (simp only: hd_rev list.distinct simp_thms)
  then have "rev (dropWhile ascii_space (rev (c # cs))) = c # cs" by (simp only: rev_rev_ident)
  then show ?thesis using assms(2) by (simp only: dropWhile.simps if_False)
qed

lemma show_nat_Cons:
  obtains c cs where "str_encode (show_nat n) = c # cs" and "digit_byte c" and "list_all digit_byte cs"
proof (cases "str_encode (show_nat n)")
  case Nil
  then show ?thesis by (metis length_str_encode length_0_conv show_nat_nonempty)
next
  case (Cons c cs)
  then show ?thesis using show_nat_bytes [of n] that by simp
qed

lemma int_of_show_nat: "int_of_bytes (str_encode (show_nat n)) = Some (int n)"
proof -
  obtain c cs where s: "str_encode (show_nat n) = c # cs" "digit_byte c" "list_all digit_byte cs"
    by (rule show_nat_Cons)
  have "rev (dropWhile ascii_space (rev (dropWhile ascii_space (c # cs)))) = c # cs"
    by (rule strip_digits) (use s in \<open>auto simp: ascii_space_def digit_byte_def\<close>)
  then show ?thesis
    using s parse_show_nat [of n] by (simp only: int_of_bytes_def Let_def list.case) (auto simp: digit_byte_def)
qed

lemma int_of_show_int: "int_of_bytes (str_encode (show_int i)) = Some i"
proof (cases "i < 0")
  case True
  have "rev (dropWhile ascii_space (rev (dropWhile ascii_space (45 # str_encode (show_nat (nat (- i))))))) =
      45 # str_encode (show_nat (nat (- i)))"
    by (rule strip_digits) (simp_all add: show_nat_bytes ascii_space_def)
  moreover have "str_encode (show_int i) = 45 # str_encode (show_nat (nat (- i)))"
    using True by (simp add: show_int_def)
  ultimately show ?thesis
    using True parse_show_nat [of "nat (- i)"] by (simp only: int_of_bytes_def Let_def list.case) simp
qed (simp add: show_int_def int_of_show_nat)

lemma show_nat_bound: "n < 10 ^ length (show_nat n)"
proof (induction n rule: show_nat.induct)
  case (1 n)
  show ?case
  proof (cases "n < 10")
    case True
    then show ?thesis by (subst show_nat.simps) simp
  next
    case False
    then have "n div 10 < 10 ^ length (show_nat (n div 10))" by (rule 1)
    then have "n < 10 * 10 ^ length (show_nat (n div 10))" by simp
    then show ?thesis using False by (subst show_nat.simps) simp
  qed
qed

lemma show_int_long:
  assumes "i < - (2 ^ 63) \<or> 2 ^ 63 \<le> i"
  shows "18 < length (show_int i)"
proof -
  have long: "18 < length (show_nat n)" if "2 ^ 63 \<le> n" for n
  proof (rule ccontr)
    assume "\<not> 18 < length (show_nat n)"
    then have "(10::nat) ^ length (show_nat n) \<le> 10 ^ 18" by (intro power_increasing) auto
    then show False using show_nat_bound [of n] that by simp
  qed
  show ?thesis
  proof (cases "i < 0")
    case True
    then have "2 ^ 63 \<le> nat (- i)" using assms by auto
    then show ?thesis using long True by (fastforce simp: show_int_def)
  next
    case False
    then have "2 ^ 63 \<le> nat i" using assms by auto
    then show ?thesis using long False by (simp add: show_int_def)
  qed
qed

subsection \<open>Reading back what was written\<close>

lemma take_exact_append [simp]: "take_exact (length x) (x @ r) = Inr (x, r)"
  by (simp add: take_exact_def)

lemma take_exact_length: "length x = n \<Longrightarrow> take_exact n (x @ r) = Inr (x, r)"
  by auto

lemma length_signed_bytes [simp]: "length (signed_bytes n i) = n"
  by (simp add: signed_bytes_def)

lemma decode_signed_bytes:
  assumes "- (256 ^ n) \<le> 2 * i" and "2 * i < 256 ^ n"
  shows "decode_signed n (signed_bytes n i @ rest) = Inr (PInt i, rest)"
proof -
  have "be_val (signed_bytes n i) = nat (i mod 256 ^ n)"
    by (simp add: signed_bytes_def be_val_be_bytes nat_mod_distrib nat_power_eq)
  moreover have "i mod 256 ^ n = (if 0 \<le> i then i else i + 256 ^ n)"
  proof (cases "0 \<le> i")
    case True
    then show ?thesis using assms by simp
  next
    case False
    then have "(i + 256 ^ n) mod 256 ^ n = i + 256 ^ n" using assms by (intro mod_pos_pos_trivial) auto
    then show ?thesis using False by simp
  qed
  moreover have "2 * nat j < 256 ^ n \<longleftrightarrow> 2 * j < 256 ^ n" if "0 \<le> j" for j :: int
    using of_nat_less_iff [of "2 * nat j" "256 ^ n", where 'a = int] that by simp
  ultimately show ?thesis
    using assms take_exact_length [of "signed_bytes n i" n rest] by (auto simp: decode_signed_def)
qed

lemma big_end_append: "list_all (\<lambda>w. unat w \<noteq> CHR_TERM) xs \<Longrightarrow> x + length xs < MAX_INT_LENGTH \<Longrightarrow>
    unat t = CHR_TERM \<Longrightarrow> big_end x (xs @ t # rest) = Inr (x + length xs)"
  by (induction xs arbitrary: x) auto

lemma show_int_bytes: "list_all (\<lambda>w. unat w \<noteq> CHR_TERM) (str_encode (show_int i))"
proof -
  have "list_all (\<lambda>w. unat w \<noteq> CHR_TERM) (str_encode (show_nat n))" for n
    using show_nat_bytes [of n] by (auto simp: list_all_iff digit_byte_def code_defs)
  then show ?thesis by (simp add: show_int_def code_defs)
qed

lemma decode_big_number_bytes:
  assumes "18 < length (show_int i)" and "length (show_int i) < MAX_INT_LENGTH"
  shows "decode_big_number (str_encode (show_int i) @ of_nat CHR_TERM # rest) = Inr (PInt i, rest)"
proof -
  let ?s = "str_encode (show_int i)"
  have "list_all (\<lambda>w. unat w \<noteq> CHR_TERM) (drop 18 ?s)"
    using show_int_bytes [of i] by (auto simp: list_all_iff dest: in_set_dropD)
  then have "big_end 18 (drop 18 ?s @ of_nat CHR_TERM # rest) = Inr (18 + length (drop 18 ?s))"
    by (rule big_end_append) (use assms in \<open>auto simp: code_defs\<close>)
  then have "big_end 18 (drop 18 (?s @ of_nat CHR_TERM # rest)) = Inr (length ?s)"
    using assms(1) by simp
  then show ?thesis by (simp add: decode_big_number_def int_of_show_int)
qed

lemma takeWhile_digits:
  assumes "list_all digit_byte cs" and "size_separator sep"
  shows "takeWhile (\<lambda>w. \<not> size_separator w) (cs @ sep # r) = cs"
proof -
  have "takeWhile (\<lambda>w. \<not> size_separator w) (cs @ sep # r) = cs @ takeWhile (\<lambda>w. \<not> size_separator w) (sep # r)"
    by (rule takeWhile_append2) (use assms(1) in \<open>auto simp: list_all_iff digit_byte_def size_separator_def\<close>)
  then show ?thesis using assms(2) by simp
qed

lemma decode_sized:
  assumes "encode_sized sep x = Inr b" and "sep = 58 \<and> utf8_ok x \<or> sep = 47"
  shows "\<exists>c b'. b = c # b' \<and> digit_byte c \<and>
    (\<forall>rest. decode_str c (b' @ rest) = Inr (if sep = 47 then PBytes x else PStr (bytes_chars x), rest))"
proof -
  obtain c cs where s: "str_encode (show_nat (length x)) = c # cs" "digit_byte c" "list_all digit_byte cs"
    by (rule show_nat_Cons)
  have sep: "size_separator (of_nat sep)" using assms(2) by (auto simp: size_separator_def)
  have b: "b = c # cs @ of_nat sep # x" "length x \<le> MAX_C_INT"
    using assms(1) s(1) by (auto simp: encode_sized_def split: if_splits)
  have "decode_str c ((cs @ of_nat sep # x) @ rest) = Inr (if sep = 47 then PBytes x else PStr (bytes_chars x), rest)" for rest
    using takeWhile_digits [OF s(3) sep, of "x @ rest"] int_of_show_nat [of "length x"] b(2) assms(2)
    by (auto simp: decode_str_def s(1) decode_text_def utf8_decode_def)
  then show ?thesis using b(1) s(2) by blast
qed

text \<open>The first byte of an encoding is never the terminator.\<close>

definition starts_value :: "bytes \<Rightarrow> bool" where
  "starts_value b = (b \<noteq> [] \<and> unat (hd b) \<noteq> CHR_TERM)"

definition scalar_reads :: "bytes \<Rightarrow> pval \<Rightarrow> bool" where
  "scalar_reads b v = (\<exists>c b'. b = c # b' \<and> unat c \<noteq> CHR_TERM \<and> (\<forall>rest. decode_scalar c (b' @ rest) = Some (Inr (v, rest))))"

lemma scalar_readsI:
  "unat c \<noteq> CHR_TERM \<Longrightarrow> (\<And>rest. decode_scalar c (b' @ rest) = Some (Inr (v, rest))) \<Longrightarrow> scalar_reads (c # b') v"
  by (auto simp: scalar_reads_def)

lemma decode_fixed_pos_int: "unat c < INT_POS_FIXED_COUNT \<Longrightarrow> decode_scalar c b = Some (Inr (PInt (int (unat c)), b))"
  by (simp add: decode_scalar_def code_defs)

lemma decode_fixed_neg_int:
  assumes "INT_NEG_FIXED_START \<le> unat c" and "unat c < INT_NEG_FIXED_START + INT_NEG_FIXED_COUNT"
  shows "decode_scalar c b = Some (Inr (PInt (69 - int (unat c)), b))"
  using assms by (simp add: decode_scalar_def code_defs)

lemma encode_char_reads:
  assumes "-128 \<le> i" and "i < 128"
  shows "scalar_reads (encode_char i) (PInt i)"
proof -
  consider (pos) "0 \<le> i" "i < 44" | (neg) "-32 \<le> i" "i < 0" | (byte) "44 \<le> i \<or> i < -32" by linarith
  then show ?thesis
  proof cases
    case pos
    then have "encode_char i = [of_nat (nat i)]" by (simp add: encode_char_def code_defs)
    moreover have "unat (of_nat (nat i) :: 8 word) = nat i" using pos by (simp only: unat_of_nat_byte) simp
    ultimately show ?thesis
      using pos by (auto simp: decode_fixed_pos_int code_defs simp del: of_nat_nat intro!: scalar_readsI)
  next
    case neg
    then have "encode_char i = [of_nat (nat (69 - i))]" by (simp add: encode_char_def code_defs)
    moreover have "unat (of_nat (nat (69 - i)) :: 8 word) = nat (69 - i)" using neg by (simp only: unat_of_nat_byte) simp
    ultimately show ?thesis
      using neg by (auto simp: decode_fixed_neg_int code_defs simp del: of_nat_nat intro!: scalar_readsI)
  next
    case byte
    then have "encode_char i = of_nat CHR_INT1 # signed_bytes 1 i" by (auto simp: encode_char_def code_defs)
    then show ?thesis
      using assms decode_signed_bytes [of 1 i] by (auto simp: decode_scalar_def code_defs intro!: scalar_readsI)
  qed
qed

lemma encode_number_reads:
  assumes "encode_number i = Inr b"
  shows "scalar_reads b (PInt i)"
proof -
  consider (char) "-128 \<le> i" "i < 128" "b = encode_char i"
    | (two) "-32768 \<le> i" "i < 32768" "b = of_nat CHR_INT2 # signed_bytes 2 i"
    | (four) "- (2 ^ 31) \<le> i" "i < 2 ^ 31" "b = of_nat CHR_INT4 # signed_bytes 4 i"
    | (eight) "- (2 ^ 63) \<le> i" "i < 2 ^ 63" "b = of_nat CHR_INT8 # signed_bytes 8 i"
    | (big) "i < - (2 ^ 63) \<or> 2 ^ 63 \<le> i" "encode_big_number i = Inr b"
    using assms by (auto simp: encode_number_def split: if_splits)
  then show ?thesis
  proof cases
    case char
    then show ?thesis using encode_char_reads by simp
  next
    case big
    then have n: "18 < length (show_int i)" "length (show_int i) < MAX_INT_LENGTH"
      and b: "b = of_nat CHR_INT # str_encode (show_int i) @ [of_nat CHR_TERM]"
      using show_int_long [of i] by (auto simp: encode_big_number_def Let_def split: if_splits)
    have "scalar_reads (of_nat CHR_INT # str_encode (show_int i) @ [of_nat CHR_TERM]) (PInt i)"
      by (rule scalar_readsI) (use decode_big_number_bytes [OF n] in \<open>simp_all add: decode_scalar_def code_defs\<close>)
    then show ?thesis by (simp only: b)
  qed (auto intro!: scalar_readsI simp: decode_scalar_def code_defs decode_signed_bytes)
qed

lemma encode_sized_reads:
  assumes "encode_sized sep x = Inr b" and "sep = 58 \<and> utf8_ok x \<or> sep = 47"
  shows "scalar_reads b (if sep = 47 then PBytes x else PStr (bytes_chars x))"
proof -
  obtain c b' where b: "b = c # b'" and c: "digit_byte c"
    and r: "\<And>rest. decode_str c (b' @ rest) = Inr (if sep = 47 then PBytes x else PStr (bytes_chars x), rest)"
    using decode_sized [OF assms] by blast
  have "decode_scalar c d = Some (decode_str c d)" for d
    using c by (simp add: decode_scalar_def digit_byte_def code_defs)
  then show ?thesis unfolding b by (intro scalar_readsI) (use c r in \<open>auto simp: digit_byte_def code_defs\<close>)
qed

lemma encode_str_reads:
  assumes "encode_str x = Inr b" and "utf8_ok x"
  shows "scalar_reads b (PStr (bytes_chars x))"
proof (cases "length x < STR_FIXED_COUNT")
  case True
  then have b: "b = of_nat (STR_FIXED_START + length x) # x" using assms(1) by (simp add: encode_str_def)
  have c: "unat (of_nat (STR_FIXED_START + length x) :: 8 word) = STR_FIXED_START + length x"
    using True by (simp only: unat_of_nat_byte) (simp add: code_defs)
  have "decode_scalar (of_nat (STR_FIXED_START + length x)) d = Some (decode_fixed_str (length x) d)" for d
    using True by (simp only: decode_scalar_def Let_def c) (simp add: code_defs)
  then show ?thesis
    unfolding b using c assms(2)
    by (intro scalar_readsI) (auto simp: decode_fixed_str_def decode_text_def utf8_decode_def code_defs)
next
  case False
  then show ?thesis using assms encode_sized_reads [of 58 x b] by (simp add: encode_str_def)
qed

fun scalar :: "pval \<Rightarrow> bool" where
  "scalar (PList xs) = False"
| "scalar (PDict d) = False"
| "scalar v = True"

lemma scalar_reads_back:
  assumes "scalar v" and "rencode v = Inr b"
  shows "scalar_reads b v"
proof (cases v)
  case PNone
  then show ?thesis using assms by (auto simp: decode_scalar_def code_defs intro!: scalar_readsI)
next
  case (PInt i)
  then show ?thesis using assms by (auto intro: encode_number_reads)
next
  case (PBool t)
  then show ?thesis using assms by (cases t) (auto simp: decode_scalar_def code_defs intro!: scalar_readsI)
next
  case (PStr s)
  then have "utf8_ok (str_encode s)" "encode_str (str_encode s) = Inr b" using assms by (auto split: if_splits)
  then show ?thesis using encode_str_reads [of "str_encode s" b] PStr by (simp add: bytes_chars_encode)
next
  case (PBytes x)
  then show ?thesis using assms encode_sized_reads [of 47 x b] by (simp add: encode_bytes_def)
next
  case (PFloat w)
  have "be_val (be_bytes 8 (unat w)) = unat w" using unsigned_less [of w, where ?'a = nat] by (simp add: be_val_be_bytes)
  then have "decode_float 8 (be_bytes 8 (unat w) @ rest) = Inr (PFloat w, rest)" for rest
    using take_exact_length [of "be_bytes 8 (unat w)" 8 rest] by (simp add: decode_float_def)
  then show ?thesis using PFloat assms by (auto simp: decode_scalar_def code_defs intro!: scalar_readsI)
qed (use assms in auto)

subsection \<open>Containers\<close>

definition reads :: "(bytes \<Rightarrow> 'a decoded) \<Rightarrow> bytes \<Rightarrow> 'a \<Rightarrow> bool" where
  "reads dec b v = (\<forall>rest. dec (b @ rest) = Some (Inr (v, rest)))"

lemma readsD: "reads dec b v \<Longrightarrow> dec (b @ rest) = Some (Inr (v, rest))"
  by (simp add: reads_def)

lemma and_then_simps [simp]:
  "and_then None g = None" "and_then (Some (Inl e)) g = Some (Inl e)" "and_then (Some (Inr (v, r))) g = g v r"
  by (simp_all add: and_then_def)

lemma decoded_as_simps [simp]:
  "decoded_as h None = None" "decoded_as h (Some (Inl e)) = Some (Inl e)"
  "decoded_as h (Some (Inr (v, r))) = Some (Inr (h v, r))"
  by (simp_all add: decoded_as_def)

lemma decoded_as_Inr: "decoded_as h m = Some (Inr (v, r)) \<longleftrightarrow> (\<exists>w. m = Some (Inr (w, r)) \<and> v = h w)"
  by (auto simp: decoded_as_def and_then_def split: option.splits sum.splits)

lemma decoded_as_None: "decoded_as h m = None \<longleftrightarrow> m = None"
  by (auto simp: decoded_as_def and_then_def split: option.splits sum.splits)

lemma fixed_list_reads:
  "list_all2 (reads dec) bs vs \<Longrightarrow> decode_fixed_list dec (length vs) (concat bs @ rest) = Some (Inr (vs, rest))"
  by (induction bs vs arbitrary: rest rule: list_all2_induct) (auto simp: readsD)

lemma list_reads:
  "list_all2 (reads dec) bs vs \<Longrightarrow> list_all starts_value bs \<Longrightarrow> length vs < n \<Longrightarrow>
   decode_list dec n (concat bs @ of_nat CHR_TERM # rest) = Some (Inr (vs, rest))"
proof (induction bs vs arbitrary: n rest rule: list_all2_induct)
  case Nil
  then show ?case by (cases n) (auto simp: code_defs)
next
  case (Cons b bs v vs)
  then obtain m where "n = Suc m" "length vs < m" by (cases n) auto
  then show ?case using Cons by (auto simp: readsD starts_value_def hd_append)
qed

lemma length_concat_ge: "list_all starts_value bs \<Longrightarrow> length bs \<le> length (concat bs)"
proof (induction bs)
  case (Cons b bs)
  then have "0 < length b" "length bs \<le> length (concat bs)" by (auto simp: starts_value_def)
  then have "Suc (length bs) \<le> length b + length (concat bs)" by linarith
  then show ?case by simp
qed simp

definition reads_entry :: "(bytes \<Rightarrow> pval decoded) \<Rightarrow> bytes \<Rightarrow> pval \<times> pval \<Rightarrow> bool" where
  "reads_entry dec b e = (\<exists>x y. b = x @ y \<and> starts_value x \<and> reads dec x (fst e) \<and> reads dec y (snd e))"

lemma entry_reads:
  assumes "reads_entry dec b (k, v)" and "hashable k" and "list_all (\<lambda>k'. \<not> key_same k' k) (map fst d)"
  shows "decode_entry dec d (b @ rest) = Some (Inr (d @ [(k, v)], rest))"
  using assms by (auto simp: reads_entry_def decode_entry_def readsD dict_entry_def dict_put_new)

lemma distinct_keys_append:
  "distinct_keys (xs @ ys) \<longleftrightarrow> distinct_keys xs \<and> distinct_keys ys \<and> list_all (\<lambda>x. list_all (\<lambda>y. \<not> key_same x y) ys) xs"
  by (induction xs) auto

lemma fixed_dict_reads:
  "list_all2 (reads_entry dec) bs es \<Longrightarrow> list_all (hashable \<circ> fst) es \<Longrightarrow> distinct_keys (map fst (d @ es)) \<Longrightarrow>
   decode_fixed_dict dec (length es) d (concat bs @ rest) = Some (Inr (d @ es, rest))"
proof (induction bs es arbitrary: d rest rule: list_all2_induct)
  case (Cons b bs e es)
  obtain k v where e: "e = (k, v)" by (cases e)
  have "decode_entry dec d (b @ concat bs @ rest) = Some (Inr (d @ [e], concat bs @ rest))"
    unfolding e by (rule entry_reads) (use Cons e in \<open>auto simp: distinct_keys_append list_all_iff\<close>)
  then show ?case using Cons.IH [of "d @ [e]"] Cons.prems by simp
qed simp

lemma dict_reads:
  "list_all2 (reads_entry dec) bs es \<Longrightarrow> list_all (hashable \<circ> fst) es \<Longrightarrow> distinct_keys (map fst (d @ es)) \<Longrightarrow>
   length es < n \<Longrightarrow> decode_dict dec n d (concat bs @ of_nat CHR_TERM # rest) = Some (Inr (d @ es, rest))"
proof (induction bs es arbitrary: d n rest rule: list_all2_induct)
  case Nil
  then show ?case by (cases n) (auto simp: code_defs)
next
  case (Cons b bs e es)
  obtain k v where e: "e = (k, v)" by (cases e)
  obtain m where n: "n = Suc m" "length es < m" using Cons.prems by (cases n) auto
  have "decode_entry dec d (b @ concat bs @ of_nat CHR_TERM # rest) = Some (Inr (d @ [e], concat bs @ of_nat CHR_TERM # rest))"
    unfolding e by (rule entry_reads) (use Cons e in \<open>auto simp: distinct_keys_append list_all_iff\<close>)
  moreover have "b \<noteq> []" "unat (hd b) \<noteq> CHR_TERM"
    using Cons.hyps(1) by (auto simp: reads_entry_def starts_value_def hd_append)
  ultimately show ?case using Cons.IH [of "d @ [e]" m] Cons.prems n by simp
qed

lemma encode_pair_Inr: "encode_pair a b = Inr c \<longleftrightarrow> (\<exists>x y. a = Inr x \<and> b = Inr y \<and> c = x @ y)"
  by (auto simp: encode_pair_def split: sum.splits)

lemma length_le_concat: "b \<in> set bs \<Longrightarrow> length b \<le> length (concat bs)"
  by (induction bs) auto

lemma decode_fixed_list_code:
  assumes "n < LIST_FIXED_COUNT"
  shows "decode_value dec (of_nat (LIST_FIXED_START + n) # b) = decoded_as PList (decode_fixed_list dec n b)"
proof -
  have c: "unat (of_nat (LIST_FIXED_START + n) :: 8 word) = LIST_FIXED_START + n"
    using assms by (simp only: unat_of_nat_byte) (simp add: code_defs)
  show ?thesis by (simp only: decode_value_def decode_scalar_def Let_def c list.case) (simp add: code_defs)
qed

lemma decode_fixed_dict_code:
  assumes "n < DICT_FIXED_COUNT"
  shows "decode_value dec (of_nat (DICT_FIXED_START + n) # b) = decoded_as PDict (decode_fixed_dict dec n [] b)"
proof -
  have c: "unat (of_nat (DICT_FIXED_START + n) :: 8 word) = DICT_FIXED_START + n"
    using assms by (simp only: unat_of_nat_byte) (simp add: code_defs)
  show ?thesis using assms by (simp only: decode_value_def decode_scalar_def Let_def c list.case) (simp add: code_defs)
qed

lemma decode_list_code:
  "decode_value dec (of_nat CHR_LIST # b) = decoded_as PList (decode_list dec (Suc (length b)) b)"
  by (simp add: decode_value_def decode_scalar_def code_defs)

lemma decode_dict_code:
  "decode_value dec (of_nat CHR_DICT # b) = decoded_as PDict (decode_dict dec (Suc (length b)) [] b)"
  by (simp add: decode_value_def decode_scalar_def code_defs)

lemma encode_list_reads:
  assumes "list_all2 (reads dec) bs vs" and "list_all starts_value bs"
  shows "starts_value (encode_list (length vs) (concat bs)) \<and> reads (decode_value dec) (encode_list (length vs) (concat bs)) (PList vs)"
proof (cases "length vs < LIST_FIXED_COUNT")
  case True
  have "unat (of_nat (LIST_FIXED_START + length vs) :: 8 word) = LIST_FIXED_START + length vs"
    using True by (simp only: unat_of_nat_byte) (simp add: code_defs)
  then show ?thesis
    using True assms(1) by (auto simp: encode_list_def reads_def decode_fixed_list_code fixed_list_reads starts_value_def
        simp del: of_nat_add) (simp add: code_defs)
next
  case False
  have "length vs < Suc (length (concat bs @ of_nat CHR_TERM # rest))" for rest
    using length_concat_ge [OF assms(2)] list_all2_lengthD [OF assms(1)] by simp
  from list_reads [OF assms this] show ?thesis
    using False by (auto simp: encode_list_def reads_def decode_list_code starts_value_def) (simp add: code_defs)
qed

lemma encode_dict_reads:
  assumes "list_all2 (reads_entry dec) bs es" and "pval_wf (PDict es)"
  shows "starts_value (encode_dict (length es) (concat bs)) \<and> reads (decode_value dec) (encode_dict (length es) (concat bs)) (PDict es)"
proof -
  have wf: "list_all (hashable \<circ> fst) es" "distinct_keys (map fst ([] @ es))"
    using assms(2) by (auto simp: list_all_iff)
  show ?thesis
  proof (cases "length es < DICT_FIXED_COUNT")
    case True
    have "unat (of_nat (DICT_FIXED_START + length es) :: 8 word) = DICT_FIXED_START + length es"
      using True by (simp only: unat_of_nat_byte) (simp add: code_defs)
    then show ?thesis
      using True fixed_dict_reads [OF assms(1) wf]
      by (auto simp: encode_dict_def reads_def decode_fixed_dict_code starts_value_def simp del: of_nat_add) (simp add: code_defs)
  next
    case False
    have "list_all starts_value bs"
      using assms(1) by (auto simp: list_all_length list_all2_conv_all_nth reads_entry_def starts_value_def hd_append)
    then have "length es < Suc (length (concat bs @ of_nat CHR_TERM # rest))" for rest
      using length_concat_ge [of bs] list_all2_lengthD [OF assms(1)] by simp
    from dict_reads [OF assms(1) wf this] show ?thesis
      using False by (auto simp: encode_dict_def reads_def decode_dict_code starts_value_def) (simp add: code_defs)
  qed
qed

lemma scalar_value:
  assumes "scalar v" and "rencode v = Inr b" and "length b < f"
  shows "starts_value b \<and> reads (decode f) b v"
proof -
  obtain g where "f = Suc g" using assms(3) by (cases f) auto
  then show ?thesis
    using scalar_reads_back [OF assms(1,2)] by (auto simp: scalar_reads_def starts_value_def reads_def decode_value_def)
qed

text \<open>Elements shorter than the whole are read with one unit of fuel less.\<close>

lemma rencode_reads: "rencode v = Inr b \<Longrightarrow> pval_wf v \<Longrightarrow> length b < f \<Longrightarrow> starts_value b \<and> reads (decode f) b v"
proof (induction v arbitrary: b f rule: rencode.induct)
  case (7 xs)
  obtain bs where bs: "list_all2 (\<lambda>x c. rencode x = Inr c) xs bs" and b: "b = encode_list (length xs) (concat bs)"
    using "7.prems"(1) by (auto simp: seq_results_Inr list_all2_map1)
  obtain g where f: "f = Suc g" using "7.prems"(3) by (cases f) auto
  have "length (concat bs) < g" using "7.prems"(3) by (auto simp: b f encode_list_def split: if_splits)
  then have "starts_value c \<and> reads (decode g) c x" if "x \<in> set xs" "c \<in> set bs" "rencode x = Inr c" for x c
    using "7.IH" [OF that(1) that(3), of g] "7.prems"(2) that length_le_concat [OF that(2)] by (auto simp: list_all_iff)
  then have "list_all2 (reads (decode g)) bs xs" "list_all starts_value bs"
    using bs by (auto simp: list_all2_conv_all_nth list_all_length) (metis nth_mem)
  then show ?case unfolding b f by (simp only: decode.simps) (rule encode_list_reads)
next
  case (8 d)
  obtain bs where bs: "list_all2 (\<lambda>e c. encode_pair (rencode (fst e)) (rencode (snd e)) = Inr c) d bs"
    and b: "b = encode_dict (length d) (concat bs)"
    using "8.prems"(1) by (auto simp: seq_results_Inr list_all2_map1 case_prod_beta)
  obtain g where f: "f = Suc g" using "8.prems"(3) by (cases f) auto
  have g: "length (concat bs) < g" using "8.prems"(3) by (auto simp: b f encode_dict_def split: if_splits)
  have "reads_entry (decode g) c (k, v)"
    if kv: "(k, v) \<in> set d" and c: "c \<in> set bs" and e: "encode_pair (rencode k) (rencode v) = Inr c" for k v c
  proof -
    obtain x y where xy: "rencode k = Inr x" "rencode v = Inr y" "c = x @ y" using e by (auto simp: encode_pair_Inr)
    have "pval_wf k" "pval_wf v" using kv "8.prems"(2) by (auto simp: list_all_iff intro: hashable_wf)
    moreover have "length x < g" "length y < g" using length_le_concat [OF c] g xy(3) by auto
    ultimately have "starts_value x \<and> reads (decode g) x k" "starts_value y \<and> reads (decode g) y v"
      using "8.IH"(1) [OF kv refl xy(1)] "8.IH"(2) [OF kv refl xy(2)] by blast+
    then show ?thesis using xy(3) by (auto simp: reads_entry_def)
  qed
  then have "list_all2 (reads_entry (decode g)) bs d"
    using bs by (auto simp: list_all2_conv_all_nth) (metis nth_mem prod.collapse)
  then show ?case unfolding b f using "8.prems"(2) by (simp only: decode.simps) (rule encode_dict_reads)
qed (rule scalar_value, simp, assumption, assumption)+

subsection \<open>Which data can be decoded, and with how much fuel\<close>

lemma take_exact_Inr: "take_exact n b = Inr (x, r) \<longleftrightarrow> b = x @ r \<and> length x = n"
  by (auto simp: take_exact_def)

definition scalar_ok :: "bytes \<Rightarrow> py_error + (pval \<times> bytes) \<Rightarrow> bool" where
  "scalar_ok b m = (\<forall>v r. m = Inr (v, r) \<longrightarrow> length r \<le> length b \<and> pval_wf v)"

lemma scalar_ok_simps [simp]:
  "scalar_ok b (Inl e)" "scalar_ok b (Inr (v, r)) \<longleftrightarrow> length r \<le> length b \<and> pval_wf v"
  by (auto simp: scalar_ok_def)

lemma decode_signed_ok: "scalar_ok b (decode_signed n b)"
  by (auto simp: scalar_ok_def decode_signed_def take_exact_Inr)

lemma decode_float_ok: "scalar_ok b (decode_float n b)"
  by (auto simp: scalar_ok_def decode_float_def take_exact_Inr)

lemma decode_text_ok: "length (snd p) \<le> length b \<Longrightarrow> scalar_ok b (decode_text p)"
  by (auto simp: scalar_ok_def decode_text_def)

lemma decode_big_number_ok: "scalar_ok b (decode_big_number b)"
  by (auto simp: decode_big_number_def split: sum.splits option.splits)

lemma decode_fixed_str_ok: "scalar_ok b (decode_fixed_str n b)"
  by (auto simp: decode_fixed_str_def take_exact_Inr split: sum.splits intro!: decode_text_ok)

lemma decode_str_ok: "scalar_ok b (decode_str c b)"
proof -
  define ds where "ds = takeWhile (\<lambda>w. \<not> size_separator w) b"
  show ?thesis
  proof (cases "drop (length ds) b")
    case (Cons sep r)
    have "length r \<le> length b" using arg_cong [OF Cons, of length] by simp
    then have p: "length q \<le> length b" if "take_exact n r = Inr (a, q)" for n a q
      using that by (auto simp: take_exact_Inr)
    show ?thesis
      by (auto simp: decode_str_def ds_def [symmetric] Let_def Cons p split: option.splits sum.splits intro!: decode_text_ok)
  qed (simp add: decode_str_def ds_def [symmetric] Let_def)
qed

lemma decode_scalar_ok: "decode_scalar c b = Some m \<Longrightarrow> scalar_ok b m"
  unfolding decode_scalar_def Let_def
  by (auto simp: decode_signed_ok decode_float_ok decode_big_number_ok decode_fixed_str_ok decode_str_ok split: if_splits)

text \<open>
  What the containers need of the decoder of their elements: it takes something off the data, it
  builds well formed values, and it has fuel enough for data shorter than \<open>fuel\<close>.
\<close>

locale element_decoder =
  fixes dec :: "bytes \<Rightarrow> pval decoded" and fuel :: nat
  assumes takes: "dec b = Some (Inr (v, r)) \<Longrightarrow> length r < length b"
    and well_formed: "dec b = Some (Inr (v, r)) \<Longrightarrow> pval_wf v"
    and enough: "length b < fuel \<Longrightarrow> dec b \<noteq> None"
begin

lemma fixed_list_ok:
  "decode_fixed_list dec n b = Some (Inr (vs, r)) \<Longrightarrow> length r \<le> length b \<and> list_all pval_wf vs"
proof (induction n arbitrary: b vs)
  case (Suc n)
  then obtain v q ws where "dec b = Some (Inr (v, q))" "decode_fixed_list dec n q = Some (Inr (ws, r))" "vs = v # ws"
    by (auto simp: and_then_def decoded_as_def split: option.splits sum.splits)
  then show ?case using Suc.IH takes well_formed by fastforce
qed auto

lemma fixed_list_enough: "length b < fuel \<Longrightarrow> decode_fixed_list dec n b \<noteq> None"
proof (induction n arbitrary: b)
  case (Suc n)
  have "decode_fixed_list dec n r \<noteq> None" if "dec b = Some (Inr (v, r))" for v r
    using Suc.IH [of r] Suc.prems takes [OF that] by simp
  then show ?case using enough [OF Suc.prems] by (auto simp: and_then_def decoded_as_def split: option.splits sum.splits)
qed simp

lemma list_ok:
  "decode_list dec n b = Some (Inr (vs, r)) \<Longrightarrow> length r \<le> length b \<and> list_all pval_wf vs"
proof (induction n arbitrary: b vs)
  case (Suc n)
  show ?case
  proof (cases "b \<noteq> [] \<and> unat (hd b) = CHR_TERM")
    case False
    then obtain v q ws where "dec b = Some (Inr (v, q))" "decode_list dec n q = Some (Inr (ws, r))" "vs = v # ws"
      using Suc.prems by (auto simp: and_then_def decoded_as_def split: option.splits sum.splits if_splits)
    then show ?thesis using Suc.IH takes well_formed by fastforce
  qed (use Suc.prems in auto)
qed auto

lemma list_enough: "length b < fuel \<Longrightarrow> length b < n \<Longrightarrow> decode_list dec n b \<noteq> None"
proof (induction n arbitrary: b)
  case (Suc n)
  have "decode_list dec n r \<noteq> None" if "dec b = Some (Inr (v, r))" for v r
    using Suc.IH [of r] Suc.prems takes [OF that] by simp
  then show ?case
    using enough [OF Suc.prems(1)] by (auto simp: and_then_def decoded_as_def split: option.splits sum.splits)
qed simp

lemma entry_ok:
  assumes "decode_entry dec d b = Some (Inr (d', r))"
  shows "length r < length b" and "pval_wf (PDict d) \<Longrightarrow> pval_wf (PDict d')"
proof -
  obtain k q v where e: "dec b = Some (Inr (k, q))" "dec q = Some (Inr (v, r))" "hashable k" "d' = dict_put k v d"
    using assms by (auto simp: decode_entry_def and_then_def dict_entry_def split: option.splits sum.splits if_splits)
  show "length r < length b" using takes [OF e(1)] takes [OF e(2)] by simp
  show "pval_wf (PDict d')" if "pval_wf (PDict d)"
  proof -
    have "hashable x \<and> pval_wf y" if "(x, y) \<in> set (dict_put k v d)" for x y
    proof -
      have "x = k \<or> x \<in> fst ` set d" "y = v \<or> y \<in> snd ` set d"
        using that dict_put_keys [of k v d] dict_put_values [of k v d] by force+
      then show ?thesis using \<open>pval_wf (PDict d)\<close> e(3) well_formed [OF e(2)] by (fastforce simp: list_all_iff)
    qed
    then show ?thesis using \<open>pval_wf (PDict d)\<close> by (auto simp: e(4) list_all_iff dict_put_distinct)
  qed
qed

lemma entry_enough:
  assumes "length b < fuel"
  shows "decode_entry dec d b \<noteq> None"
proof -
  have "dec r \<noteq> None" if "dec b = Some (Inr (v, r))" for v r
    using enough [of r] assms takes [OF that] by simp
  then show ?thesis
    using enough [OF assms] by (auto simp: decode_entry_def and_then_def split: option.splits sum.splits)
qed

lemma fixed_dict_ok:
  "decode_fixed_dict dec n d b = Some (Inr (d', r)) \<Longrightarrow> pval_wf (PDict d) \<Longrightarrow> length r \<le> length b \<and> pval_wf (PDict d')"
proof (induction n arbitrary: d b)
  case (Suc n)
  then obtain q e where e: "decode_entry dec d b = Some (Inr (e, q))" "decode_fixed_dict dec n e q = Some (Inr (d', r))"
    by (auto simp: and_then_def split: option.splits sum.splits)
  then show ?case using Suc.IH [OF e(2)] entry_ok [OF e(1)] Suc.prems(2) by auto
qed auto

lemma fixed_dict_enough: "length b < fuel \<Longrightarrow> decode_fixed_dict dec n d b \<noteq> None"
proof (induction n arbitrary: d b)
  case (Suc n)
  have "decode_fixed_dict dec n e r \<noteq> None" if "decode_entry dec d b = Some (Inr (e, r))" for e r
    using Suc.IH [of r] Suc.prems entry_ok(1) [OF that] by simp
  then show ?case using entry_enough [OF Suc.prems] by (auto simp: and_then_def split: option.splits sum.splits)
qed simp

lemma dict_ok:
  "decode_dict dec n d b = Some (Inr (d', r)) \<Longrightarrow> pval_wf (PDict d) \<Longrightarrow> length r \<le> length b \<and> pval_wf (PDict d')"
proof (induction n arbitrary: d b)
  case (Suc n)
  show ?case
  proof (cases "b \<noteq> [] \<and> unat (hd b) = CHR_TERM")
    case False
    then obtain q e where e: "decode_entry dec d b = Some (Inr (e, q))" "decode_dict dec n e q = Some (Inr (d', r))"
      using Suc.prems(1) by (auto simp: and_then_def split: option.splits sum.splits if_splits)
    then show ?thesis using Suc.IH [OF e(2)] entry_ok [OF e(1)] Suc.prems(2) by auto
  qed (use Suc.prems in auto)
qed auto

lemma dict_enough: "length b < fuel \<Longrightarrow> length b < n \<Longrightarrow> decode_dict dec n d b \<noteq> None"
proof (induction n arbitrary: d b)
  case (Suc n)
  have "decode_dict dec n e r \<noteq> None" if "decode_entry dec d b = Some (Inr (e, r))" for e r
    using Suc.IH [of r] Suc.prems entry_ok(1) [OF that] by simp
  then show ?case using entry_enough [OF Suc.prems(1), of d] by (auto simp: and_then_def split: option.splits sum.splits)
qed simp

lemma one_more_level: "element_decoder (decode_value dec) (Suc fuel)"
proof
  fix data v r
  assume d: "decode_value dec data = Some (Inr (v, r))"
  then obtain c b where data: "data = c # b" by (cases data) (auto simp: decode_value_def)
  have "length r \<le> length b \<and> pval_wf v"
  proof (cases "decode_scalar c b")
    case (Some m)
    then show ?thesis using decode_scalar_ok [OF Some] d by (simp add: data decode_value_def)
  next
    case None
    then consider
        (list) n vs where "decode_fixed_list dec n b = Some (Inr (vs, r))" "v = PList vs"
      | (list_term) n vs where "decode_list dec n b = Some (Inr (vs, r))" "v = PList vs"
      | (dict) n e where "decode_fixed_dict dec n [] b = Some (Inr (e, r))" "v = PDict e"
      | (dict_term) n e where "decode_dict dec n [] b = Some (Inr (e, r))" "v = PDict e"
      using d by (auto simp: data decode_value_def Let_def decoded_as_Inr simp del: decode_list.simps decode_dict.simps split: if_splits)
    then show ?thesis
    proof cases
      case list
      then show ?thesis using fixed_list_ok by simp
    next
      case list_term
      then show ?thesis using list_ok by simp
    next
      case dict
      then show ?thesis using fixed_dict_ok [of _ "[]"] by simp
    next
      case dict_term
      then show ?thesis using dict_ok [of _ "[]"] by simp
    qed
  qed
  then show "length r < length data" "pval_wf v" by (auto simp: data)
next
  fix data :: bytes
  assume l: "length data < Suc fuel"
  show "decode_value dec data \<noteq> None"
  proof (cases data)
    case (Cons c b)
    then have b: "length b < fuel" using l by simp
    have "decoded_as PList (decode_fixed_list dec n b) \<noteq> None" "decoded_as PDict (decode_fixed_dict dec n [] b) \<noteq> None" for n
      using fixed_list_enough [OF b] fixed_dict_enough [OF b] by (simp_all add: decoded_as_None)
    moreover have "decoded_as PList (decode_list dec (Suc (length b)) b) \<noteq> None"
      "decoded_as PDict (decode_dict dec (Suc (length b)) [] b) \<noteq> None"
      using list_enough [OF b, of "Suc (length b)"] dict_enough [OF b, of "Suc (length b)"]
      by (simp_all only: decoded_as_None lessI simp_thms)
    ultimately show ?thesis
      by (simp only: Cons decode_value_def Let_def list.case split: option.split if_split) simp
  qed (simp add: decode_value_def)
qed

end

lemma decode_element_decoder: "element_decoder (decode f) f"
proof (induction f)
  case 0
  show ?case by unfold_locales auto
next
  case (Suc f)
  then show ?case by (simp add: element_decoder.one_more_level)
qed

interpretation elements: element_decoder "decode f" f for f
  by (rule decode_element_decoder)

subsection \<open>Data cut short\<close>

text \<open>
  What a decoder says of some data it says of longer data, unless it ran into the end: a value
  stays the same, an exception other than \<open>IndexError\<close> stays the same.
\<close>

definition extends :: "bytes \<Rightarrow> 'a decoded \<Rightarrow> 'a decoded \<Rightarrow> bool" where
  "extends q m m' =
     (case m of
        None \<Rightarrow> True
      | Some (Inl e) \<Rightarrow> e = IndexError \<and> q \<noteq> [] \<or> m' = Some (Inl e)
      | Some (Inr (v, r)) \<Rightarrow> m' = Some (Inr (v, r @ q)))"

lemma extends_simps [simp]:
  "extends q None m'" "extends q (Some (Inl e)) m' \<longleftrightarrow> e = IndexError \<and> q \<noteq> [] \<or> m' = Some (Inl e)"
  "extends q (Some (Inr (v, r))) m' \<longleftrightarrow> m' = Some (Inr (v, r @ q))"
  by (simp_all add: extends_def)

lemma and_then_extends:
  assumes "extends q m m'" and "\<And>v r. m = Some (Inr (v, r)) \<Longrightarrow> extends q (g v r) (g' v (r @ q))"
  shows "extends q (and_then m g) (and_then m' g')"
  using assms by (cases m; cases "the m") auto

lemma if_extends:
  "(P \<Longrightarrow> extends q a a') \<Longrightarrow> (\<not> P \<Longrightarrow> extends q b b') \<Longrightarrow> extends q (if P then a else b) (if P then a' else b')"
  by simp

lemma decoded_as_extends: "extends q m m' \<Longrightarrow> extends q (decoded_as h m) (decoded_as h m')"
  unfolding decoded_as_def by (rule and_then_extends) auto

lemma take_exact_extends:
  assumes "\<And>x r. length x = n \<Longrightarrow> extends q (Some (g (x, r))) (Some (g (x, r @ q)))"
  shows "extends q (Some (case take_exact n b of Inl e \<Rightarrow> Inl e | Inr p \<Rightarrow> g p))
     (Some (case take_exact n (b @ q) of Inl e \<Rightarrow> Inl e | Inr p \<Rightarrow> g p))"
  using assms [of "take n b" "drop n b"] by (auto simp: take_exact_def)

lemma map_sum_case: "map_sum id h m = (case m of Inl e \<Rightarrow> Inl e | Inr p \<Rightarrow> Inr (h p))"
  by (cases m) auto

lemma decode_signed_extends: "extends q (Some (decode_signed n b)) (Some (decode_signed n (b @ q)))"
  unfolding decode_signed_def map_sum_case by (rule take_exact_extends) simp

lemma decode_float_extends: "extends q (Some (decode_float n b)) (Some (decode_float n (b @ q)))"
  unfolding decode_float_def map_sum_case by (rule take_exact_extends) simp

lemma decode_text_extends: "extends q (Some (decode_text (x, r))) (Some (decode_text (x, r @ q)))"
  by (auto simp: decode_text_def utf8_decode_def)

lemma decode_fixed_str_extends: "extends q (Some (decode_fixed_str n b)) (Some (decode_fixed_str n (b @ q)))"
  unfolding decode_fixed_str_def by (rule take_exact_extends) (rule decode_text_extends)

lemma big_end_longer: "big_end x b = m \<Longrightarrow> m \<noteq> Inl IndexError \<Longrightarrow> big_end x (b @ q) = m"
  by (induction x b rule: big_end.induct) auto

lemma big_end_bound: "big_end x b = Inr n \<Longrightarrow> n < x + length b"
  by (induction x b rule: big_end.induct) (auto split: if_splits)

lemma decode_big_number_extends: "extends q (Some (decode_big_number b)) (Some (decode_big_number (b @ q)))"
proof (cases "big_end 18 (drop 18 b)")
  case (Inl e)
  show ?thesis
  proof (cases "e = IndexError \<and> q \<noteq> []")
    case False
    then have "big_end 18 (drop 18 (b @ q)) = Inl e"
      using Inl big_end_longer [OF Inl, of "drop (18 - length b) q"] by auto
    then show ?thesis by (simp add: decode_big_number_def Inl)
  qed (simp add: decode_big_number_def Inl)
next
  case (Inr n)
  then have "n < length b" using big_end_bound [OF Inr] by (cases "length b \<le> 18") auto
  moreover have "big_end 18 (drop 18 (b @ q)) = Inr n"
    using big_end_longer [OF Inr, of "drop (18 - length b) q"] by simp
  ultimately show ?thesis by (auto simp: decode_big_number_def Inr split: option.split)
qed

lemma decode_str_extends: "extends q (Some (decode_str c b)) (Some (decode_str c (b @ q)))"
proof -
  define ds where "ds = takeWhile (\<lambda>w. \<not> size_separator w) b"
  show ?thesis
  proof (cases "drop (length ds) b")
    case Nil
    then show ?thesis by (cases "q = []") (simp_all add: decode_str_def ds_def [symmetric] Let_def)
  next
    case (Cons sep r)
    have "take (length ds) b = ds" by (simp add: ds_def takeWhile_eq_take [symmetric])
    then have "b = ds @ sep # r" using Cons append_take_drop_id [of "length ds" b] by simp
    then have bq: "b @ q = ds @ sep # r @ q" by simp
    have sep: "size_separator sep"
      using Cons hd_dropWhile [of "\<lambda>w. \<not> size_separator w" b] by (auto simp: ds_def dropWhile_eq_drop)
    have "\<forall>x \<in> set ds. \<not> size_separator x" by (auto simp: ds_def dest: set_takeWhileD)
    then have longer: "takeWhile (\<lambda>w. \<not> size_separator w) (b @ q) = ds" "drop (length ds) (b @ q) = sep # r @ q"
      using sep unfolding bq by simp_all
    show ?thesis
    proof (cases "int_of_bytes (c # ds)")
      case (Some n)
      show ?thesis
      proof (cases "int MAX_C_INT < n")
        case False
        have "extends q (Some (case take_exact (nat n) r of Inl e \<Rightarrow> Inl e
              | Inr p \<Rightarrow> if unat sep = 47 then Inr (PBytes (fst p), snd p) else decode_text p))
            (Some (case take_exact (nat n) (r @ q) of Inl e \<Rightarrow> Inl e
              | Inr p \<Rightarrow> if unat sep = 47 then Inr (PBytes (fst p), snd p) else decode_text p))"
          by (rule take_exact_extends) (simp add: decode_text_extends)
        then show ?thesis using False
          by (simp only: decode_str_def ds_def [symmetric] Let_def longer Cons list.case Some option.case if_False simp_thms)
      qed (simp add: decode_str_def ds_def [symmetric] longer Let_def Cons Some)
    qed (simp add: decode_str_def ds_def [symmetric] longer Let_def Cons)
  qed
qed

definition scalar_extends :: "bytes \<Rightarrow> (py_error + pval \<times> bytes) option \<Rightarrow> (py_error + pval \<times> bytes) option \<Rightarrow> bool" where
  "scalar_extends q o1 o2 =
     (case o1 of None \<Rightarrow> o2 = None | Some m \<Rightarrow> (case o2 of None \<Rightarrow> False | Some m' \<Rightarrow> extends q (Some m) (Some m')))"

lemma scalar_extends_intros:
  "extends q (Some m) (Some m') \<Longrightarrow> scalar_extends q (Some m) (Some m')" "scalar_extends q None None"
  "(P \<Longrightarrow> scalar_extends q a a') \<Longrightarrow> (\<not> P \<Longrightarrow> scalar_extends q b b') \<Longrightarrow>
   scalar_extends q (if P then a else b) (if P then a' else b')"
  by (simp_all add: scalar_extends_def)

lemma decode_scalar_extends: "scalar_extends q (decode_scalar c b) (decode_scalar c (b @ q))"
  unfolding decode_scalar_def Let_def
  by (intro scalar_extends_intros decode_signed_extends decode_float_extends decode_big_number_extends
      decode_fixed_str_extends decode_str_extends) simp_all

text \<open>Two decoders of elements, the second for longer data and with more fuel.\<close>

locale longer_decoder =
  fixes dec dec' :: "bytes \<Rightarrow> pval decoded"
  assumes longer: "extends q (dec b) (dec' (b @ q))"
    and at_end: "dec [] = None \<or> dec [] = Some (Inl IndexError)"
begin

lemma fixed_list_extends: "extends q (decode_fixed_list dec n b) (decode_fixed_list dec' n (b @ q))"
proof (induction n arbitrary: b)
  case (Suc n)
  show ?case by (simp, rule and_then_extends [OF longer]) (rule decoded_as_extends [OF Suc])
qed simp

lemma list_extends: "n \<le> n' \<Longrightarrow> extends q (decode_list dec n b) (decode_list dec' n' (b @ q))"
proof (induction n arbitrary: b n')
  case (Suc n)
  obtain m where m: "n' = Suc m" "n \<le> m" using Suc.prems by (cases n') auto
  have step: "extends q (and_then (dec b) (\<lambda>v r. decoded_as (Cons v) (decode_list dec n r)))
      (and_then (dec' (b @ q)) (\<lambda>v r. decoded_as (Cons v) (decode_list dec' m r)))"
    by (rule and_then_extends [OF longer]) (rule decoded_as_extends [OF Suc.IH [OF m(2)]])
  show ?case
  proof (cases b)
    case Nil
    then show ?thesis using at_end step by (cases "q = []") (auto simp: m(1))
  qed (use step in \<open>simp add: m(1)\<close>)
qed simp

lemma entry_extends: "extends q (decode_entry dec d b) (decode_entry dec' d (b @ q))"
  unfolding decode_entry_def
  by (rule and_then_extends [OF longer])+ (auto simp: dict_entry_def)

lemma fixed_dict_extends: "extends q (decode_fixed_dict dec n d b) (decode_fixed_dict dec' n d (b @ q))"
proof (induction n arbitrary: d b)
  case (Suc n)
  show ?case by (simp, rule and_then_extends [OF entry_extends]) (rule Suc)
qed simp

lemma dict_extends: "n \<le> n' \<Longrightarrow> extends q (decode_dict dec n d b) (decode_dict dec' n' d (b @ q))"
proof (induction n arbitrary: d b n')
  case (Suc n)
  obtain m where m: "n' = Suc m" "n \<le> m" using Suc.prems by (cases n') auto
  have step: "extends q (and_then (decode_entry dec d b) (decode_dict dec n)) (and_then (decode_entry dec' d (b @ q)) (decode_dict dec' m))"
    by (rule and_then_extends [OF entry_extends]) (rule Suc.IH [OF m(2)])
  show ?case
  proof (cases b)
    case Nil
    then show ?thesis using at_end step by (cases "q = []") (auto simp: m(1) decode_entry_def)
  qed (use step in \<open>simp add: m(1)\<close>)
qed simp

lemma value_extends: "extends q (decode_value dec b) (decode_value dec' (b @ q))"
proof (cases b)
  case Nil
  then show ?thesis by (cases q) (simp_all add: decode_value_def)
next
  case (Cons c d)
  have terms: "extends q (decoded_as PList (decode_list dec (Suc (length d)) d)) (decoded_as PList (decode_list dec' (Suc (length (d @ q))) (d @ q)))"
    "extends q (decoded_as PDict (decode_dict dec (Suc (length d)) [] d)) (decoded_as PDict (decode_dict dec' (Suc (length (d @ q))) [] (d @ q)))"
    by (intro decoded_as_extends list_extends dict_extends; simp)+
  show ?thesis
  proof (cases "decode_scalar c d")
    case None
    then have none': "decode_scalar c (d @ q) = None"
      using decode_scalar_extends [of q c d] by (simp add: scalar_extends_def)
    show ?thesis
      by (simp only: Cons append_Cons decode_value_def list.case None none' option.case Let_def,
          intro if_extends terms decoded_as_extends fixed_list_extends fixed_dict_extends) simp
  next
    case (Some m)
    then show ?thesis using decode_scalar_extends [of q c d]
      by (simp add: Cons decode_value_def scalar_extends_def split: option.splits)
  qed
qed

end

lemma decode_longer: "f \<le> f' \<Longrightarrow> longer_decoder (decode f) (decode f')"
proof (induction f arbitrary: f')
  case 0
  show ?case by unfold_locales simp_all
next
  case (Suc f)
  obtain g where g: "f' = Suc g" "f \<le> g" using Suc.prems by (cases f') auto
  then show ?case
    using longer_decoder.value_extends [OF Suc.IH [OF g(2)]] by unfold_locales (simp_all add: decode_value_def)
qed

interpretation longer: longer_decoder "decode f" "decode (f + n)" for f n
  by (rule decode_longer) simp

subsection \<open>The module, and its properties\<close>

declare decode.simps [simp del]

text \<open>What \<^verbatim>\<open>init_rencodeplus\<close> imports.\<close>

definition rencodeplus_module :: rencodeplus_lib where
  "rencodeplus_module = \<lparr>rencodeplus_version = ''Cython 1.0.10'', rencodeplus_dumps = dumps \<circ> PList, rencodeplus_loads = loads\<rparr>"

lemma loads_enough: "\<exists>r. decode (Suc (length data + n)) data = Some r \<and> loads data = map_sum id fst r"
proof -
  obtain r where r: "decode (Suc (length data)) data = Some r"
    using elements.enough [of data "Suc (length data)"] by auto
  have "extends [] (decode (Suc (length data)) data) (decode (Suc (length data) + n) (data @ []))"
    by (rule longer.longer)
  then have "decode (Suc (length data + n)) data = Some r"
    by (cases r) (auto simp: r)
  then show ?thesis by (simp only: loads_def r option.case) simp
qed

lemma loads_reads:
  assumes "pval_wf v" and "dumps v = Inr b"
  shows "loads (b @ rest) = Inr v" and "b \<noteq> []"
proof -
  have "starts_value b \<and> reads (decode (Suc (length (b @ rest)))) b v"
    by (rule rencode_reads) (use assms in \<open>simp_all add: dumps_def\<close>)
  then show "loads (b @ rest) = Inr v" "b \<noteq> []"
    using readsD [of "decode (Suc (length (b @ rest)))" b v rest] by (simp_all add: loads_def starts_value_def)
qed

lemma rencodeplus_module_ok: "rencodeplus_ok rencodeplus_module"
  using loads_reads(1) [where rest = "[]"] by (auto simp: rencodeplus_ok_def rencodeplus_module_def)

lemma dumps_nonempty: "dumps (PList v) = Inr b \<Longrightarrow> b \<noteq> []"
  by (auto simp: dumps_def encode_list_def split: if_splits)

text \<open>
  C3: a value that \<^verbatim>\<open>dumps\<close> can encode is what \<^verbatim>\<open>loads\<close> returns for the encoding, whatever
  bytes follow it: integers of any size up to 63 digits, doubles bit for bit, texts and bytes of
  any length, lists and dictionaries of any size and depth, on both sides of the boundaries where
  the size moves into the type code.
\<close>

theorem rencode_roundtrip:
  assumes "pval_wf v" and "dumps v = Inr b"
  shows "loads (b @ rest) = Inr v"
  using assms by (rule loads_reads)

text \<open>Evaluation of the codes of small values.\<close>

lemmas code_eval = dumps_def loads_def encode_number_def encode_char_def encode_list_def encode_dict_def encode_str_def
  encode_bytes_def encode_sized_def encode_pair_def code_defs MAX_C_INT_def str_encode_def

theorem rencode_roundtrip_witness:
  "loads [195, 1, 103, 129, 97, 67, 69, 7, 8] = Inr (PList [PInt 1, PDict [(PStr ''a'', PBool True)], PNone])"
proof -
  have wf: "pval_wf (PList [PInt 1, PDict [(PStr ''a'', PBool True)], PNone])" by simp
  have b: "dumps (PList [PInt 1, PDict [(PStr ''a'', PBool True)], PNone]) = Inr [195, 1, 103, 129, 97, 67, 69]"
    by (simp add: code_eval)
  show ?thesis using rencode_roundtrip [OF wf b, of "[7, 8]"] by simp
qed

text \<open>
  C37: decoding ends on any data: with one unit of fuel for each byte and one more the decoder
  returns a value or an exception, more fuel changes nothing, and that is what \<^verbatim>\<open>loads\<close> returns.
\<close>

theorem loads_terminates: "\<exists>r. decode (Suc (length data + n)) data = Some r \<and> loads data = map_sum id fst r"
  by (rule loads_enough)



text \<open>
  C20: data cut short is always recognised: every proper prefix of an encoding makes \<^verbatim>\<open>loads\<close>
  raise \<open>IndexError\<close>, so a truncated packet is never taken for another one.
\<close>

theorem truncated_data_raises:
  assumes "pval_wf v" and "dumps v = Inr b" and "strict_prefix p b"
  shows "loads p = Inl IndexError"
proof -
  obtain q where b: "b = p @ q" "q \<noteq> []" using assms(3) by (auto elim: strict_prefixE')
  obtain r where r: "decode (Suc (length p)) p = Some r" "loads p = map_sum id fst r"
    using loads_enough [of p 0] by auto
  have "reads (decode (Suc (length b))) b v"
    using rencode_reads [of v b "Suc (length b)"] assms by (simp add: dumps_def)
  then have whole: "decode (Suc (length b)) b = Some (Inr (v, []))" using readsD [of _ b v "[]"] by simp
  have "extends q (Some r) (decode (Suc (length b)) b)"
    using longer.longer [of q "Suc (length p)" p "length q"] r(1) b(1) by simp
  then have "extends q (Some r) (Some (Inr (v, [])))" by (simp only: whole)
  then show ?thesis using b(2) r(2) by (cases r) auto
qed

theorem truncated_data_raises_witness: "loads [195, 1, 103, 129] = Inl IndexError"
proof (rule truncated_data_raises)
  show "dumps (PList [PInt 1, PDict [(PStr ''a'', PBool True)], PNone]) = Inr [195, 1, 103, 129, 97, 67, 69]"
    by (simp add: code_eval)
qed (simp_all add: strict_prefix_def)

end
