(* ===== verification/Stream_Machine.thy ===== *)
theory Stream_Machine
  imports Py_Prelude
begin

text \<open>
  Parsers that consume a byte stream incrementally. A parser is a step function: on its
  state and the unread bytes it either consumes some of them and moves to a new state, or
  answers \<open>None\<close> because it needs more bytes (or has stopped). \<open>drain\<close> runs the steps that are
  possible, \<open>feed\<close> appends one received segment and drains. The locale \<open>incremental\<close> states
  what a parser promises (a step that was possible stays the same step when more bytes
  follow, and every step consumes something) and shows that how the stream was cut into
  segments is not observable. The websocket layer and the packet layer both provide it.
\<close>

type_synonym ('s, 'b) stepper = "'s \<Rightarrow> 'b list \<Rightarrow> ('s \<times> 'b list) option"

fun steps :: "('s, 'b) stepper \<Rightarrow> nat \<Rightarrow> 's \<Rightarrow> 'b list \<Rightarrow> 's \<times> 'b list" where
  "steps f 0 s b = (s, b)"
| "steps f (Suc n) s b = (case f s b of None \<Rightarrow> (s, b) | Some (s', r) \<Rightarrow> steps f n s' r)"

definition drain :: "('s, 'b) stepper \<Rightarrow> 's \<Rightarrow> 'b list \<Rightarrow> 's \<times> 'b list" where
  "drain f s b = steps f (length b) s b"

definition feed :: "('s, 'b) stepper \<Rightarrow> 's \<times> 'b list \<Rightarrow> 'b list \<Rightarrow> 's \<times> 'b list" where
  "feed f sb c = drain f (fst sb) (snd sb @ c)"

definition stuck :: "('s, 'b) stepper \<Rightarrow> 's \<Rightarrow> 'b list \<Rightarrow> bool" where
  "stuck f s b = (f s b = None)"

locale incremental =
  fixes step :: "('s, 'b) stepper"
  assumes step_extend: "step s b = Some (s', r) \<Longrightarrow> step s (b @ c) = Some (s', r @ c)"
    and step_consumes: "step s b = Some (s', r) \<Longrightarrow> length r < length b"
begin

lemma step_Nil [simp]: "step s [] = None"
  using step_consumes [of s "[]"] by (cases "step s []") auto

lemma steps_fuel: "length b \<le> n \<Longrightarrow> length b \<le> m \<Longrightarrow> steps step n s b = steps step m s b"
proof (induction n arbitrary: m s b)
  case 0
  then show ?case by (cases m) auto
next
  case (Suc n)
  show ?case
  proof (cases m)
    case 0
    with Suc.prems show ?thesis by auto
  next
    case (Suc k)
    have "steps step n s' r = steps step k s' r" if "step s b = Some (s', r)" for s' r
      using step_consumes [OF that] Suc.prems Suc by (intro Suc.IH) auto
    then show ?thesis using Suc by (auto split: option.splits)
  qed
qed

lemma drain_step:
  assumes "step s b = Some (s', r)"
  shows "drain step s b = drain step s' r"
proof -
  from step_consumes [OF assms] obtain n where n: "length b = Suc n" and "length r \<le> n"
    by (cases b) auto
  then have "drain step s b = steps step n s' r" by (simp add: drain_def assms)
  also have "\<dots> = drain step s' r" unfolding drain_def using \<open>length r \<le> n\<close> by (intro steps_fuel) auto
  finally show ?thesis .
qed

lemma drain_stuck: "step s b = None \<Longrightarrow> drain step s b = (s, b)"
  unfolding drain_def by (cases "length b") auto

lemma drain_result_stuck: "drain step s b = (s', r) \<Longrightarrow> step s' r = None"
proof (induction "length b" arbitrary: s b rule: less_induct)
  case less
  show ?case
  proof (cases "step s b")
    case None
    with less.prems show ?thesis by (simp add: drain_stuck)
  next
    case (Some x)
    obtain t u where x: "x = (t, u)" by (cases x)
    from less.prems Some x have "drain step t u = (s', r)" by (simp add: drain_step)
    with less.hyps step_consumes Some x show ?thesis by blast
  qed
qed

lemma drain_append: "drain step s b = (s', r) \<Longrightarrow> drain step s (b @ c) = drain step s' (r @ c)"
proof (induction "length b" arbitrary: s b rule: less_induct)
  case less
  show ?case
  proof (cases "step s b")
    case None
    with less.prems show ?thesis by (simp add: drain_stuck)
  next
    case (Some x)
    obtain t u where x: "x = (t, u)" by (cases x)
    from less.prems Some x have d: "drain step t u = (s', r)" by (simp add: drain_step)
    have "drain step s (b @ c) = drain step t (u @ c)"
      using Some x by (intro drain_step step_extend) simp
    also have "\<dots> = drain step s' (r @ c)"
      using step_consumes Some x by (intro less.hyps d) auto
    finally show ?thesis .
  qed
qed

lemma feed_append: "feed step (feed step sb c) d = feed step sb (c @ d)"
  unfolding feed_def
  by (metis append.assoc drain_append prod.collapse)

text \<open>How the stream is cut into segments does not matter.\<close>

lemma feed_segments: "foldl (feed step) sb (c # segs) = feed step sb (concat (c # segs))"
  by (induction segs arbitrary: c) (auto simp: feed_append)

lemma feed_same_stream:
  assumes "concat segs = concat segs'" and "segs \<noteq> []" and "segs' \<noteq> []"
  shows "foldl (feed step) sb segs = foldl (feed step) sb segs'"
  using assms by (cases segs; cases segs') (simp_all only: feed_segments, auto)

text \<open>An invariant of the steps holds of every state the parser reaches.\<close>

lemma drain_invariant:
  assumes "\<And>s b s' r. I s \<Longrightarrow> step s b = Some (s', r) \<Longrightarrow> I s'" and "I s"
  shows "I (fst (drain step s b))"
  using assms(2)
proof (induction "length b" arbitrary: s b rule: less_induct)
  case less
  show ?case
  proof (cases "step s b")
    case None
    with less.prems show ?thesis by (simp add: drain_stuck)
  next
    case (Some x)
    obtain t u where x: "x = (t, u)" by (cases x)
    with Some less.prems assms(1) have "I t" by blast
    with less.hyps [of u t] step_consumes Some x show ?thesis by (simp add: drain_step)
  qed
qed

end

end
