(* ===== verification/Websocket.thy ===== *)
theory Websocket
  imports Net_Packet Stream_Machine
begin

text \<open>
  The websocket layer: frame headers (\<^verbatim>\<open>xpra/net/websockets/header.py\<close>), masking
  (\<^verbatim>\<open>xpra/net/websockets/mask.pyx\<close>) and the frame parser and pong replies of
  \<^verbatim>\<open>WebSocketProtocol\<close> (\<^verbatim>\<open>xpra/net/websockets/protocol.py\<close>). The effects of the parser are
  recorded as events in order: a payload handed to the read queue, a call of \<^verbatim>\<open>raw_write\<close>
  with the arguments as they are passed, and the loss of the connection. An exception ends
  the parsing and is kept in \<open>ws_raised\<close>. The text \<^verbatim>\<open>str()\<close> gives for a close reason that is
  not UTF-8 is a parameter.
\<close>

subsection \<open>Frame headers\<close>

definition OP_CONTINUE :: nat where "OP_CONTINUE = 0"
definition OP_TEXT :: nat where "OP_TEXT = 1"
definition OP_BINARY :: nat where "OP_BINARY = 2"
definition OP_CLOSE :: nat where "OP_CLOSE = 8"
definition OP_PING :: nat where "OP_PING = 9"
definition OP_PONG :: nat where "OP_PONG = 10"

lemmas op_defs = OP_CONTINUE_def OP_TEXT_def OP_BINARY_def OP_CLOSE_def OP_PING_def OP_PONG_def

definition encode_hybi_header :: "nat \<Rightarrow> nat \<Rightarrow> bool \<Rightarrow> bool \<Rightarrow> py_error + bytes" where
  "encode_hybi_header opcode payload_len has_mask fin =
     (if opcode AND 0x0f \<noteq> opcode then Inl ValueError
      else
        let mask_bit = 0x80 * of_bool has_mask :: nat;
            b1 = of_nat (opcode OR (0x80 * of_bool fin)) :: 8 word
        in if payload_len \<le> 125 then Inr [b1, of_nat (payload_len OR mask_bit)]
           else if payload_len < 65536 then Inr ([b1, of_nat (126 OR mask_bit)] @ be_bytes 2 payload_len)
           else if payload_len < 2 ^ 64 then Inr ([b1, of_nat (127 OR mask_bit)] @ be_bytes 8 payload_len)
           else Inl StructError)"

text \<open>\<^verbatim>\<open>hybi_mask\<close>: each byte is combined with the byte of the mask at its position modulo 4.\<close>

definition MAX_WEBSOCKET_PAYLOAD :: nat where "MAX_WEBSOCKET_PAYLOAD = 0x3FFFFFFF"

definition mask_bytes :: "bytes \<Rightarrow> bytes \<Rightarrow> bytes" where
  "mask_bytes key data = map (\<lambda>i. data ! i XOR key ! (i mod 4)) [0..<length data]"

definition hybi_mask :: "bytes \<Rightarrow> bytes \<Rightarrow> py_error + bytes" where
  "hybi_mask key data =
     (if length key \<noteq> 4 \<or> length data > MAX_WEBSOCKET_PAYLOAD then Inl ValueError
      else Inr (mask_bytes key data))"

definition hybi_unmask :: "bytes \<Rightarrow> nat \<Rightarrow> nat \<Rightarrow> py_error + bytes" where
  "hybi_unmask data offset datalen =
     (if length data < offset + 4 + datalen \<or> datalen > MAX_WEBSOCKET_PAYLOAD then Inl ValueError
      else Inr (mask_bytes (take 4 (drop offset data)) (take datalen (drop (offset + 4) data))))"

text \<open>The size of a header, and of a whole frame, as far as the bytes received tell.\<close>

definition decode_hybi :: "bytes \<Rightarrow> py_error + (nat \<times> bytes \<times> nat \<times> bool) option" where
  "decode_hybi buf =
     (let blen = length buf in
      if blen < 2 then Inr None
      else
        let b1 = unat (buf ! 0);
            b2 = unat (buf ! 1);
            opcode = b1 AND 0x0f;
            fin = (b1 AND 0x80 \<noteq> 0);
            masked = (b2 AND 0x80 \<noteq> 0);
            hlen = (if masked then 6 else 2 :: nat)
        in if blen < hlen then Inr None
           else
             let len7 = b2 AND 0x7f;
                 hlen = (if len7 = 126 then hlen + 2 else if len7 = 127 then hlen + 8 else hlen)
             in if blen < hlen then Inr None
                else
                  let payload_len = (if len7 = 126 then be_val (take 2 (drop 2 buf))
                                     else if len7 = 127 then be_val (take 8 (drop 2 buf))
                                     else len7);
                      len = hlen + payload_len
                  in if blen < len then Inr None
                     else if masked then
                       (case hybi_unmask buf (hlen - 4) payload_len of
                          Inl e \<Rightarrow> Inl e
                        | Inr payload \<Rightarrow> Inr (Some (opcode, payload, len, fin)))
                     else Inr (Some (opcode, take (len - hlen) (drop hlen buf), len, fin)))"

definition close_packet :: "nat \<Rightarrow> string \<Rightarrow> py_error + bytes" where
  "close_packet code reason =
     (if code \<ge> 65536 then Inl StructError
      else
        let data = be_bytes 2 code @ (if reason \<noteq> [] then str_encode reason else [])
        in map_sum id (\<lambda>header. header @ data) (encode_hybi_header OP_CLOSE (length data) False True))"

subsection \<open>The sender: \<open>make_wsframe_header\<close>\<close>

text \<open>
  The header to put before the items of a frame, and the items as they will be sent.
  \<open>rnd\<close> is the mask drawn when masking is enabled.
\<close>

fun mask_items :: "bytes \<Rightarrow> bytes list \<Rightarrow> py_error + bytes list" where
  "mask_items key [] = Inr []"
| "mask_items key (item # items) =
     (case hybi_mask key item of Inl e \<Rightarrow> Inl e
      | Inr m \<Rightarrow> map_sum id (\<lambda>ms. m # ms) (mask_items key items))"

definition make_wsframe_header :: "bool \<Rightarrow> bytes \<Rightarrow> bytes list \<Rightarrow> py_error + (bytes \<times> bytes list)" where
  "make_wsframe_header ws_mask rnd items =
     (let payload_len = sum_list (map length items) in
      case encode_hybi_header OP_BINARY payload_len ws_mask True of
        Inl e \<Rightarrow> Inl e
      | Inr header \<Rightarrow>
          if ws_mask then map_sum id (\<lambda>masked. (header @ rnd, masked)) (mask_items rnd items)
          else Inr (header, items))"

subsection \<open>The receiver\<close>

datatype write_arg = TextArg string | BytesArg "bytes list"

datatype ws_event =
    WsRead bytes
  | WsRawWrite write_arg write_arg
  | WsLost string

record ws_state =
  ws_data :: bytes
  ws_payload :: "bytes list"
  ws_payload_opcode :: nat
  ws_closed :: bool
  ws_events :: "ws_event list"
  ws_raised :: "py_error option"

definition ws_init :: ws_state where
  "ws_init = \<lparr>ws_data = [], ws_payload = [], ws_payload_opcode = 0, ws_closed = False,
              ws_events = [], ws_raised = None\<rparr>"

definition ws_emit :: "ws_event \<Rightarrow> ws_state \<Rightarrow> ws_state" where
  "ws_emit e s = s\<lparr>ws_events := ws_events s @ [e]\<rparr>"

definition ws_raise :: "py_error \<Rightarrow> ws_state \<Rightarrow> ws_state" where
  "ws_raise e s = s\<lparr>ws_raised := Some e\<rparr>"

text \<open>\<^verbatim>\<open>_connection_lost\<close> closes the protocol, which drops what the parser holds.\<close>

definition ws_connection_lost :: "string \<Rightarrow> ws_state \<Rightarrow> ws_state" where
  "ws_connection_lost msg s =
     (if ws_closed s then s
      else ws_emit (WsLost msg) (s\<lparr>ws_closed := True, ws_data := [], ws_payload := []\<rparr>))"

definition process_ws_ping :: "bytes \<Rightarrow> ws_state \<Rightarrow> ws_state" where
  "process_ws_ping payload s =
     (case encode_hybi_header OP_PONG (length payload) False True of
        Inl e \<Rightarrow> ws_raise e s
      | Inr header \<Rightarrow> ws_emit (WsRawWrite (TextArg ''ws-ping'') (BytesArg [header @ payload])) s)"

definition process_ws_pong :: "bytes \<Rightarrow> ws_state \<Rightarrow> ws_state" where
  "process_ws_pong payload s = s"

definition process_ws_close :: "(bytes \<Rightarrow> string) \<Rightarrow> bytes \<Rightarrow> ws_state \<Rightarrow> ws_state" where
  "process_ws_close rep payload s =
     (if length payload < 2 then ws_connection_lost ''unknown reason'' s
      else
        let code = be_val (take 2 payload);
            reason = (case utf8_decode (drop 2 payload) of
                        Inr r \<Rightarrow> r | Inl _ \<Rightarrow> rep (drop 2 payload))
        in ws_connection_lost (''code '' @ show_nat code @ '': '' @ reason) s)"

text \<open>The dispatch on the opcode of a complete message.\<close>

definition ws_dispatch :: "(bytes \<Rightarrow> string) \<Rightarrow> nat \<Rightarrow> bytes \<Rightarrow> ws_state \<Rightarrow> ws_state" where
  "ws_dispatch rep opcode full_payload s =
     (if opcode = OP_BINARY then (if full_payload = [] then s else ws_emit (WsRead full_payload) s)
      else if opcode = OP_TEXT then (if full_payload = [] then s else ws_emit (WsRead full_payload) s)
      else if opcode = OP_CLOSE then process_ws_close rep full_payload s
      else if opcode = OP_PING then process_ws_ping full_payload s
      else if opcode = OP_PONG then process_ws_pong full_payload s
      else s)"

text \<open>The body of the loop for one frame: continuation frames are joined to the pending payload.\<close>

definition ws_frame :: "(bytes \<Rightarrow> string) \<Rightarrow> nat \<Rightarrow> bytes \<Rightarrow> bool \<Rightarrow> ws_state \<Rightarrow> ws_state" where
  "ws_frame rep opcode payload fin s =
     (if opcode = OP_CONTINUE then
        (if ws_payload_opcode s = 0 \<or> ws_payload s = [] then ws_raise AssertionError s
         else
           let parts = ws_payload s @ [payload] in
           if \<not> fin then s\<lparr>ws_payload := parts\<rparr>
           else ws_dispatch rep (ws_payload_opcode s) (concat parts)
                  (s\<lparr>ws_payload := [], ws_payload_opcode := 0\<rparr>))
      else if ws_payload s \<noteq> [] \<and> ws_payload_opcode s \<noteq> 0 then ws_raise ValueError s
      else if \<not> fin then
        (if opcode \<noteq> OP_BINARY \<and> opcode \<noteq> OP_TEXT then ws_raise RuntimeError s
         else s\<lparr>ws_payload_opcode := opcode, ws_payload := ws_payload s @ [payload]\<rparr>)
      else ws_dispatch rep opcode payload s)"

definition ws_step :: "(bytes \<Rightarrow> string) \<Rightarrow> ws_state \<Rightarrow> bytes \<Rightarrow> (ws_state \<times> bytes) option" where
  "ws_step rep s data =
     (if ws_closed s \<or> ws_raised s \<noteq> None \<or> data = [] then None
      else case decode_hybi data of
        Inl e \<Rightarrow> Some (ws_raise e s, drop 1 data)
      | Inr None \<Rightarrow> None
      | Inr (Some (opcode, payload, processed, fin)) \<Rightarrow>
          Some (ws_frame rep opcode payload fin s, drop processed data))"

fun strip_crlf :: "bytes \<Rightarrow> bytes" where
  "strip_crlf (a # b # r) = (if a = 13 \<and> b = 10 then strip_crlf r else a # b # r)"
| "strip_crlf r = r"

text \<open>
  \<^verbatim>\<open>parse_ws_frame\<close>: the saved bytes and the new ones, less any blank lines before the first
  packet; then every complete frame in turn. Only an incomplete frame is saved for later.
\<close>

definition parse_ws_frame :: "(bytes \<Rightarrow> string) \<Rightarrow> nat \<Rightarrow> ws_state \<Rightarrow> bytes \<Rightarrow> ws_state" where
  "parse_ws_frame rep input_packetcount s buf =
     (let joined = ws_data s @ buf;
          start = (if input_packetcount = 0 then strip_crlf joined else joined);
          (s', rest) = drain (ws_step rep) (s\<lparr>ws_data := []\<rparr>) start
      in if ws_closed s' \<or> ws_raised s' \<noteq> None then s' else s'\<lparr>ws_data := rest\<rparr>)"

subsection \<open>Lemmas: masks and headers\<close>

lemma length_mask_bytes [simp]: "length (mask_bytes key data) = length data"
  by (simp add: mask_bytes_def)

lemma nth_mask_bytes: "i < length data \<Longrightarrow> mask_bytes key data ! i = data ! i XOR key ! (i mod 4)"
  by (simp add: mask_bytes_def)

lemma mask_bytes_involution [simp]: "mask_bytes key (mask_bytes key data) = data"
proof (rule nth_equalityI)
  fix i assume "i < length (mask_bytes key (mask_bytes key data))"
  then have i: "i < length data" by simp
  have "mask_bytes key (mask_bytes key data) ! i = (data ! i XOR key ! (i mod 4)) XOR key ! (i mod 4)"
    using i by (simp add: nth_mask_bytes)
  also have "\<dots> = data ! i" by (simp add: xor.assoc)
  finally show "mask_bytes key (mask_bytes key data) ! i = data ! i" .
qed simp

lemma mask_bytes_append:
  assumes "4 dvd length xs"
  shows "mask_bytes key (xs @ ys) = mask_bytes key xs @ mask_bytes key ys"
proof (rule nth_equalityI)
  fix i assume "i < length (mask_bytes key (xs @ ys))"
  then have i: "i < length xs + length ys" by simp
  show "mask_bytes key (xs @ ys) ! i = (mask_bytes key xs @ mask_bytes key ys) ! i"
  proof (cases "i < length xs")
    case False
    obtain k where k: "length xs = 4 * k" using assms by (rule dvdE)
    with False have "i = (i - length xs) + 4 * k" by simp
    then have "(i - length xs) mod 4 = i mod 4" by (metis mod_mult_self2)
    with False i show ?thesis by (simp add: nth_mask_bytes nth_append)
  qed (use i in \<open>simp add: nth_mask_bytes nth_append\<close>)
qed simp

lemma and_15: "(n :: nat) AND 15 = n mod 16"
proof -
  have "(15 :: nat) = mask 4" by (simp add: mask_eq_exp_minus_1)
  then show ?thesis by (simp only: take_bit_eq_mask [symmetric] take_bit_eq_mod) simp
qed

lemma and_127: "(n :: nat) AND 127 = n mod 128"
proof -
  have "(127 :: nat) = mask 7" by (simp add: mask_eq_exp_minus_1)
  then show ?thesis by (simp only: take_bit_eq_mask [symmetric] take_bit_eq_mod) simp
qed

lemma and_128:
  assumes "n < 256"
  shows "((n :: nat) AND 128 = 0) = (n < 128)"
proof -
  have "(n AND 2 ^ 7 = 0) = (\<not> bit n 7)" by (rule and_exp_eq_0_iff_not_bit)
  also have "bit n 7 = odd (n div 128)" by (simp add: bit_iff_odd)
  also have "(\<not> odd (n div 128)) = (n < 128)"
  proof -
    have "n div 128 = 0 \<or> n div 128 = 1" using assms by linarith
    then show ?thesis by auto
  qed
  finally show ?thesis by simp
qed

lemma or_128:
  assumes "n < 128"
  shows "(n :: nat) OR 128 = n + 128"
proof -
  have "n + 128 = n OR 128"
  proof (rule disjunctive_add)
    fix k
    have "\<not> bit n 7" using assms by (simp add: bit_iff_odd)
    moreover have "bit (128 :: nat) k \<Longrightarrow> k = 7" using bit_exp_iff [of 7 k, where 'a = nat] by simp
    ultimately show "\<not> bit n k \<or> \<not> bit (128 :: nat) k" by auto
  qed
  then show ?thesis by simp
qed

lemmas bit_arith = and_15 and_127 and_128 or_128

lemma and_15_id: "(n AND 15 = n) = ((n :: nat) < 16)"
  unfolding and_15 by (metis mod_less mod_less_divisor zero_less_numeral)

text \<open>The first two bytes of a header tell the opcode, the final flag, the mask flag and the length code.\<close>

lemma or_bit7:
  assumes "n < 128"
  shows "unat (of_nat (n OR (128 * of_bool m)) :: 8 word) = n + 128 * of_bool m"
proof (cases m)
  case True
  then have "n OR (128 * of_bool m) = n + 128" by (simp only: of_bool_eq mult_1_right or_128 [OF assms])
  with True assms show ?thesis by (simp only: unat_of_nat_byte) simp
qed (use assms in simp)

lemma hybi_b1:
  assumes "op < 16"
  shows "unat (of_nat (op OR (128 * of_bool fin)) :: 8 word) AND 15 = op"
    and "(unat (of_nat (op OR (128 * of_bool fin)) :: 8 word) AND 128 \<noteq> 0) = fin"
proof -
  have u: "unat (of_nat (op OR (128 * of_bool fin)) :: 8 word) = op + 128 * of_bool fin"
    using assms by (intro or_bit7) simp
  show "unat (of_nat (op OR (128 * of_bool fin)) :: 8 word) AND 15 = op"
    unfolding u and_15 using assms by (cases fin; simp) presburger
  have "op + 128 * of_bool fin < 256" using assms by (cases fin) auto
  then show "(unat (of_nat (op OR (128 * of_bool fin)) :: 8 word) AND 128 \<noteq> 0) = fin"
    unfolding u using assms by (simp only: and_128) (cases fin; simp)
qed

lemma hybi_b2:
  assumes "n < 128"
  shows "unat (of_nat (n OR (128 * of_bool m)) :: 8 word) AND 127 = n"
    and "(unat (of_nat (n OR (128 * of_bool m)) :: 8 word) AND 128 \<noteq> 0) = m"
proof -
  have u: "unat (of_nat (n OR (128 * of_bool m)) :: 8 word) = n + 128 * of_bool m"
    using assms by (rule or_bit7)
  show "unat (of_nat (n OR (128 * of_bool m)) :: 8 word) AND 127 = n"
    unfolding u and_127 using assms by (cases m) auto
  have "n + 128 * of_bool m < 256" using assms by (cases m) auto
  then show "(unat (of_nat (n OR (128 * of_bool m)) :: 8 word) AND 128 \<noteq> 0) = m"
    unfolding u using assms by (simp only: and_128) (cases m; simp)
qed

lemma hybi_header_cases:
  assumes "encode_hybi_header op n m fin = Inr h"
  obtains (short) "n \<le> 125" "h = [of_nat (op OR (128 * of_bool fin)), of_nat (n OR (128 * of_bool m))]"
  | (medium) "125 < n" "n < 65536" "h = [of_nat (op OR (128 * of_bool fin)), of_nat (126 OR (128 * of_bool m))] @ be_bytes 2 n"
  | (long) "65536 \<le> n" "n < 2 ^ 64" "h = [of_nat (op OR (128 * of_bool fin)), of_nat (127 OR (128 * of_bool m))] @ be_bytes 8 n"
  using assms by (auto simp: encode_hybi_header_def Let_def split: if_splits)

lemma encode_hybi_header_op: "encode_hybi_header op n m fin = Inr h \<Longrightarrow> op < 16"
  by (auto simp: encode_hybi_header_def and_15_id split: if_splits)

subsection \<open>Lemmas: decoding\<close>

definition frame_body :: "bool \<Rightarrow> bytes \<Rightarrow> bytes \<Rightarrow> bytes" where
  "frame_body m key p = (if m then key @ mask_bytes key p else p)"

lemma decode_hybi_encode:
  assumes "encode_hybi_header op (length p) m fin = Inr h"
    and "m \<Longrightarrow> length key = 4 \<and> length p \<le> MAX_WEBSOCKET_PAYLOAD"
  shows "decode_hybi (h @ frame_body m key p @ rest)
    = Inr (Some (op, p, length h + length (frame_body m key p), fin))"
proof -
  note op = encode_hybi_header_op [OF assms(1)]
  from assms(1) show ?thesis
  proof (cases rule: hybi_header_cases)
    case short
    then have "length p < 128" by simp
    from short show ?thesis using assms(2)
      by (simp only: decode_hybi_def Let_def length_append length_Cons list.size nth_append nth_Cons_0 nth_Cons_Suc
          One_nat_def hybi_b1 [OF op] hybi_b2 [OF \<open>length p < 128\<close>] append.simps)
         (auto simp: frame_body_def hybi_unmask_def)
  next
    case medium
    have "(126 :: nat) < 128" by simp
    from medium show ?thesis using assms(2)
      by (simp only: decode_hybi_def Let_def length_append length_Cons list.size nth_append nth_Cons_0 nth_Cons_Suc
          One_nat_def hybi_b1 [OF op] hybi_b2 [OF \<open>126 < 128\<close>] append.simps)
         (auto simp: frame_body_def hybi_unmask_def be_val_be_bytes)
  next
    case long
    have "(127 :: nat) < 128" by simp
    from long show ?thesis using assms(2)
      by (simp only: decode_hybi_def Let_def length_append length_Cons list.size nth_append nth_Cons_0 nth_Cons_Suc
          One_nat_def hybi_b1 [OF op] hybi_b2 [OF \<open>127 < 128\<close>] append.simps)
         (auto simp: frame_body_def hybi_unmask_def be_val_be_bytes)
  qed
qed

text \<open>The decoding of a buffer that holds the first two bytes, as a function of what they say.\<close>

definition decode_body :: "bytes \<Rightarrow> nat \<Rightarrow> bool \<Rightarrow> bool \<Rightarrow> nat \<Rightarrow> nat
    \<Rightarrow> py_error + (nat \<times> bytes \<times> nat \<times> bool) option" where
  "decode_body buf opcode fin masked hlen payload_len =
     (if length buf < hlen + payload_len then Inr None
      else if masked then map_sum id (\<lambda>p. Some (opcode, p, hlen + payload_len, fin)) (hybi_unmask buf (hlen - 4) payload_len)
      else Inr (Some (opcode, take payload_len (drop hlen buf), hlen + payload_len, fin)))"

lemma decode_hybi_body:
  "decode_hybi (x # y # z) =
     (let buf = x # y # z; op = unat x AND 15; fin = (unat x AND 128 \<noteq> 0); m = (unat y AND 128 \<noteq> 0);
          l = unat y AND 127; h = (if m then 6 else 2);
          h' = (if l = 126 then h + 2 else if l = 127 then h + 8 else h)
      in if length buf < h' then Inr None
         else decode_body buf op fin m h'
           (if l = 126 then be_val (take 2 z) else if l = 127 then be_val (take 8 z) else l))"
  unfolding decode_hybi_def Let_def decode_body_def
  by (simp split: sum.split)

lemma decode_body_extend:
  "decode_body b op fin m h n = r \<Longrightarrow> r \<noteq> Inr None \<Longrightarrow> 4 \<le> h \<or> \<not> m
    \<Longrightarrow> decode_body (b @ c) op fin m h n = r"
  by (auto simp: decode_body_def hybi_unmask_def split: if_splits)

lemma decode_hybi_extend:
  assumes "decode_hybi b = r" and "r \<noteq> Inr None"
  shows "decode_hybi (b @ c) = r"
proof -
  have "\<not> length b < 2" using assms by (auto simp: decode_hybi_def)
  then obtain x y z where b: "b = x # y # z" by (metis Suc_le_length_iff numeral_2_eq_2 linorder_not_less)
  define l where "l = unat y AND 127"
  define h where "h = (if unat y AND 128 \<noteq> 0 then 6 else 2 :: nat)"
  define h' where "h' = (if l = 126 then h + 2 else if l = 127 then h + 8 else h)"
  define n where "n z = (if l = 126 then be_val (take 2 z) else if l = 127 then be_val (take 8 z) else l)" for z
  have eq: "decode_hybi (x # y # z) = (if length (x # y # z) < h' then Inr None
      else decode_body (x # y # z) (unat x AND 15) (unat x AND 128 \<noteq> 0) (unat y AND 128 \<noteq> 0) h' (n z))" for z
    unfolding decode_hybi_body Let_def l_def h_def h'_def n_def ..
  have len: "\<not> length (x # y # z) < h'" using assms b eq [of z] by auto
  have nz: "n (z @ c) = n z" using len by (auto simp: n_def h'_def h_def split: if_splits)
  have "4 \<le> h' \<or> \<not> (unat y AND 128 \<noteq> 0)" by (auto simp: h'_def h_def)
  moreover have "decode_body (x # y # z) (unat x AND 15) (unat x AND 128 \<noteq> 0) (unat y AND 128 \<noteq> 0) h' (n z) = r"
    using assms b eq [of z] len by simp
  ultimately have "decode_body ((x # y # z) @ c) (unat x AND 15) (unat x AND 128 \<noteq> 0) (unat y AND 128 \<noteq> 0) h' (n z) = r"
    using assms(2) by (intro decode_body_extend)
  then show ?thesis unfolding b append_Cons eq nz using len by simp
qed

lemma decode_hybi_size:
  "decode_hybi b = Inr (Some (op, p, n, fin)) \<Longrightarrow> 2 \<le> n \<and> n \<le> length b"
  by (auto simp: decode_hybi_def Let_def split: if_splits sum.splits)

lemma decode_hybi_nonempty: "decode_hybi b = Inl e \<Longrightarrow> b \<noteq> []"
  by (auto simp: decode_hybi_def)

subsection \<open>The parser as an incremental machine\<close>

definition ws_active :: "ws_state \<Rightarrow> bool" where
  "ws_active s = (\<not> ws_closed s \<and> ws_raised s = None)"

lemma ws_step_None:
  "ws_step rep s b = None \<longleftrightarrow> \<not> ws_active s \<or> b = [] \<or> decode_hybi b = Inr None"
  by (auto simp: ws_step_def ws_active_def split: sum.splits option.splits)

lemma ws_step_frame:
  "ws_active s \<Longrightarrow> decode_hybi b = Inr (Some (op, p, n, fin))
    \<Longrightarrow> ws_step rep s b = Some (ws_frame rep op p fin s, drop n b)"
  using decode_hybi_size [of b op p n fin] by (auto simp: ws_step_def ws_active_def)

interpretation ws: incremental "ws_step rep" for rep
proof unfold_locales
  fix s b s' r c
  assume step: "ws_step rep s b = Some (s', r)"
  show "length r < length b"
    using step by (auto simp: ws_step_def split: if_splits sum.splits option.splits dest!: decode_hybi_size)
  have ne: "decode_hybi b \<noteq> Inr None" using step ws_step_None [of rep s b] by auto
  obtain y ys where b: "b = y # ys" using step by (cases b) (auto simp: ws_step_def)
  have dr: "n \<le> length b \<Longrightarrow> drop n (b @ c) = drop n b @ c" for n by simp
  have one: "drop (Suc 0) (b @ c) = drop (Suc 0) b @ c" using b by simp
  show "ws_step rep s (b @ c) = Some (s', r @ c)"
    using step decode_hybi_extend [OF refl ne, of c]
    by (auto simp: ws_step_def dr one simp del: append_Cons drop_append split: if_splits sum.splits option.splits dest!: decode_hybi_size)
qed

text \<open>What a parse leaves behind: the drained state, with the unread bytes if it is still active.\<close>

definition ws_save :: "ws_state \<times> bytes \<Rightarrow> ws_state" where
  "ws_save sr = (if ws_active (fst sr) then (fst sr)\<lparr>ws_data := snd sr\<rparr> else fst sr)"

lemma parse_ws_frame_drain:
  "parse_ws_frame rep n s buf =
     ws_save (drain (ws_step rep) (s\<lparr>ws_data := []\<rparr>)
       (if n = 0 then strip_crlf (ws_data s @ buf) else ws_data s @ buf))"
  by (auto simp: parse_ws_frame_def ws_save_def ws_active_def Let_def split: prod.splits)

lemma ws_data_id: "ws_data s = [] \<Longrightarrow> s\<lparr>ws_data := []\<rparr> = s"
  by (cases s) simp

lemma ws_emit_data [simp]: "ws_data (ws_emit e s) = ws_data s"
  by (simp add: ws_emit_def)

lemma ws_raise_data [simp]: "ws_data (ws_raise e s) = ws_data s"
  by (simp add: ws_raise_def)

lemma ws_connection_lost_data: "ws_data s = [] \<Longrightarrow> ws_data (ws_connection_lost m s) = []"
  by (simp add: ws_connection_lost_def)

lemma ws_dispatch_data: "ws_data s = [] \<Longrightarrow> ws_data (ws_dispatch rep op p s) = []"
  unfolding ws_dispatch_def process_ws_close_def process_ws_ping_def process_ws_pong_def Let_def
  by (simp add: ws_connection_lost_data split: sum.split)

lemma ws_frame_data [simp]: "ws_data s = [] \<Longrightarrow> ws_data (ws_frame rep op p fin s) = []"
  unfolding ws_frame_def Let_def by (simp add: ws_dispatch_data)

lemma ws_step_data: "ws_data s = [] \<Longrightarrow> ws_step rep s b = Some (s', r) \<Longrightarrow> ws_data s' = []"
  by (auto simp: ws_step_def ws_raise_def split: if_splits sum.splits option.splits)

lemma ws_drain_data: "ws_data s = [] \<Longrightarrow> drain (ws_step rep) s b = (s', r) \<Longrightarrow> ws_data s' = []"
  using ws.drain_invariant [of "\<lambda>s. ws_data s = []" rep s b] ws_step_data by auto

lemma ws_drain_inactive: "\<not> ws_active s \<Longrightarrow> drain (ws_step rep) s b = (s, b)"
  by (intro ws.drain_stuck) (simp add: ws_step_None)

lemma parse_ws_frame_twice:
  assumes "n > 0" and "m > 0" and "k > 0"
  shows "parse_ws_frame rep n (parse_ws_frame rep m s a) b = parse_ws_frame rep k s (a @ b)"
proof -
  obtain s' r where d: "drain (ws_step rep) (s\<lparr>ws_data := []\<rparr>) (ws_data s @ a) = (s', r)"
    by (cases "drain (ws_step rep) (s\<lparr>ws_data := []\<rparr>) (ws_data s @ a)")
  have nil: "ws_data s' = []" by (rule ws_drain_data [OF _ d]) simp
  have app: "drain (ws_step rep) (s\<lparr>ws_data := []\<rparr>) (ws_data s @ a @ b) = drain (ws_step rep) s' (r @ b)"
    using ws.drain_append [OF d, of b] by simp
  show ?thesis
  proof (cases "ws_active s'")
    case True
    with nil show ?thesis using assms by (simp add: parse_ws_frame_drain d app ws_save_def ws_data_id)
  next
    case False
    with nil show ?thesis using assms
      by (simp add: parse_ws_frame_drain d app ws_save_def ws_drain_inactive ws_data_id)
  qed
qed

lemma parse_ws_frame_segments:
  assumes "n > 0"
  shows "foldl (parse_ws_frame rep n) s (a # segs) = parse_ws_frame rep n s (concat (a # segs))"
  by (induction segs arbitrary: a) (use assms in \<open>auto simp: parse_ws_frame_twice [OF assms assms assms]\<close>)

subsection \<open>Streams of frames\<close>

text \<open>A frame as a peer sends it: opcode, final flag, mask and payload.\<close>

type_synonym wsframe = "nat \<times> bool \<times> bytes option \<times> bytes"

definition wire_frame :: "wsframe \<Rightarrow> py_error + bytes" where
  "wire_frame f = (case f of (op, fin, key, p) \<Rightarrow>
     map_sum id (\<lambda>h. h @ frame_body (key \<noteq> None) (the key) p)
       (encode_hybi_header op (length p) (key \<noteq> None) fin))"

fun wire_frames :: "wsframe list \<Rightarrow> py_error + bytes" where
  "wire_frames [] = Inr []"
| "wire_frames (f # fs) =
     (case wire_frame f of Inl e \<Rightarrow> Inl e | Inr b \<Rightarrow> map_sum id (\<lambda>bs. b @ bs) (wire_frames fs))"

definition mask_ok :: "bytes option \<Rightarrow> bytes \<Rightarrow> bool" where
  "mask_ok key p = (case key of None \<Rightarrow> True | Some k \<Rightarrow> length k = 4 \<and> length p \<le> MAX_WEBSOCKET_PAYLOAD)"

definition frame_ok :: "wsframe \<Rightarrow> bool" where
  "frame_ok f = (case f of (op, fin, key, p) \<Rightarrow>
     mask_ok key p \<and> op \<in> {OP_CONTINUE, OP_TEXT, OP_BINARY, OP_CLOSE, OP_PING, OP_PONG})"

lemma wire_frame_decode:
  assumes "wire_frame (op, fin, key, p) = Inr b" and "frame_ok (op, fin, key, p)"
  shows "decode_hybi (b @ rest) = Inr (Some (op, p, length b, fin))"
proof -
  from assms(1) obtain h where h: "encode_hybi_header op (length p) (key \<noteq> None) fin = Inr h"
    and b: "b = h @ frame_body (key \<noteq> None) (the key) p"
    by (auto simp: wire_frame_def)
  have "length (the key) = 4 \<and> length p \<le> MAX_WEBSOCKET_PAYLOAD" if "key \<noteq> None"
    using assms(2) that by (auto simp: frame_ok_def mask_ok_def)
  from decode_hybi_encode [OF h this] show ?thesis by (simp add: b)
qed

lemma encode_hybi_header_not_cr:
  assumes "encode_hybi_header op n m fin = Inr h" and "op \<in> {0, 1, 2, 8, 9, 10}"
  shows "\<exists>x y. h @ r = x # y \<and> x \<noteq> 13"
proof -
  have "unat (of_nat (op OR (128 * of_bool fin)) :: 8 word) AND 15 = op"
    using assms(2) by (intro hybi_b1(1)) auto
  then have ne: "of_nat (op OR (128 * of_bool fin)) \<noteq> (13 :: 8 word)"
    using assms(2) by (auto simp: and_15)
  from assms(1) show ?thesis by (cases rule: hybi_header_cases) (simp_all add: ne)
qed

lemma wire_frames_not_cr:
  assumes "wire_frames fs = Inr b" and "\<forall>f\<in>set fs. frame_ok f" and "b = x # y"
  shows "x \<noteq> 13"
proof (cases fs)
  case (Cons f fs')
  obtain op fin key p where f: "f = (op, fin, key, p)" by (cases f)
  have "op \<in> {0, 1, 2, 8, 9, 10}" using assms(2) Cons f by (auto simp: frame_ok_def op_defs)
  moreover obtain h r where "encode_hybi_header op (length p) (key \<noteq> None) fin = Inr h" and "b = h @ r"
    using assms(1) Cons f by (auto simp: wire_frame_def split: sum.splits)
  ultimately show ?thesis using encode_hybi_header_not_cr [of op "length p" "key \<noteq> None" fin h r] assms(3)
    by auto
qed (use assms in simp)

lemma strip_crlf_id: "(\<And>x y. b = x # y \<Longrightarrow> x \<noteq> 13) \<Longrightarrow> strip_crlf b = b"
  by (cases b rule: strip_crlf.cases) auto

text \<open>Draining whole frames runs the loop body on each of them, while the parser stays active.\<close>

definition run_frames :: "(bytes \<Rightarrow> string) \<Rightarrow> ws_state \<Rightarrow> wsframe list \<Rightarrow> ws_state" where
  "run_frames rep s fs = foldl (\<lambda>s (op, fin, key, p). if ws_active s then ws_frame rep op p fin s else s) s fs"

lemma run_frames_simps [simp]:
  "run_frames rep s [] = s"
  "run_frames rep s ((op, fin, key, p) # fs) = run_frames rep (if ws_active s then ws_frame rep op p fin s else s) fs"
  by (simp_all add: run_frames_def)

lemma run_frames_inactive: "\<not> ws_active s \<Longrightarrow> run_frames rep s fs = s"
  by (induction fs) auto

text \<open>
  The parser after any prefix of a stream of frames: it has run the complete frames of the
  prefix, and the bytes it still holds start the next frame.
\<close>

lemma ws_step_prefix:
  assumes "ws_step rep s b = Some (s', r)" and "b @ rem = wire" and "wire_frames fs = Inr wire"
    and "\<forall>f\<in>set fs. frame_ok f"
  shows "\<exists>f fs'. fs = f # fs' \<and> wire_frames fs' = Inr (r @ rem) \<and> run_frames rep s' fs' = run_frames rep s fs"
proof -
  have act: "ws_active s" and ne: "b \<noteq> []" and dec: "decode_hybi b \<noteq> Inr None"
    using assms(1) ws_step_None [of rep s b] by auto
  from ne assms(2,3) obtain f fs' where fs: "fs = f # fs'" by (cases fs) auto
  obtain op fin key p where f: "f = (op, fin, key, p)" by (cases f)
  from assms(3) fs obtain bf bs where bf: "wire_frame f = Inr bf" and bs: "wire_frames fs' = Inr bs"
    and wire: "wire = bf @ bs" by (auto split: sum.splits)
  have "decode_hybi wire = Inr (Some (op, p, length bf, fin))"
    unfolding wire using bf f assms(4) fs by (intro wire_frame_decode) auto
  then have d: "decode_hybi b = Inr (Some (op, p, length bf, fin))"
    using decode_hybi_extend [OF refl dec, of rem] assms(2) by simp
  have "s' = ws_frame rep op p fin s" and r: "r = drop (length bf) b"
    using assms(1) ws_step_frame [OF act d] by auto
  moreover have "r @ rem = bs"
  proof -
    have "r @ rem = drop (length bf) (b @ rem)" using decode_hybi_size [OF d] by (simp add: r)
    then show ?thesis by (simp add: assms(2) wire)
  qed
  ultimately show ?thesis using fs f act bs by auto
qed

lemma ws_drain_prefix:
  assumes "drain (ws_step rep) s b = (s', r)" and "wire_frames fs = Inr (b @ rem)"
    and "\<forall>f\<in>set fs. frame_ok f"
  shows "\<exists>fs'. wire_frames fs' = Inr (r @ rem) \<and> (\<forall>f\<in>set fs'. frame_ok f)
    \<and> run_frames rep s' fs' = run_frames rep s fs"
  using assms
proof (induction "length b" arbitrary: s b fs rule: less_induct)
  case less
  show ?case
  proof (cases "ws_step rep s b")
    case None
    with less.prems show ?thesis by (auto simp: ws.drain_stuck)
  next
    case (Some x)
    obtain t u where x: "x = (t, u)" by (cases x)
    from ws_step_prefix [OF _ refl less.prems(2,3)] Some x obtain f fs' where
      fs: "fs = f # fs'" and w: "wire_frames fs' = Inr (u @ rem)" and run: "run_frames rep t fs' = run_frames rep s fs"
      by blast
    have "length u < length b" using ws.step_consumes Some x by simp
    moreover have "drain (ws_step rep) t u = (s', r)" using less.prems(1) Some x by (simp add: ws.drain_step)
    moreover have "\<forall>f\<in>set fs'. frame_ok f" using less.prems(3) fs by simp
    ultimately show ?thesis using less.hyps [of u t fs'] w run by auto
  qed
qed

text \<open>The parser on segments, each received at some value of the packet counter.\<close>

fun parse_segments :: "(bytes \<Rightarrow> string) \<Rightarrow> ws_state \<Rightarrow> (nat \<times> bytes) list \<Rightarrow> ws_state" where
  "parse_segments rep s [] = s"
| "parse_segments rep s ((n, seg) # segs) = parse_segments rep (parse_ws_frame rep n s seg) segs"

lemma parse_segments_inactive:
  assumes "\<not> ws_active s" and "ws_data s = []"
  shows "parse_segments rep s segs = s"
proof (induction segs)
  case (Cons nseg segs)
  obtain n seg where [simp]: "nseg = (n, seg)" by (cases nseg)
  have "parse_ws_frame rep n s seg = s"
    by (simp add: parse_ws_frame_drain ws_data_id assms ws_drain_inactive ws_save_def)
  with Cons show ?case by simp
qed simp

lemma stuck_whole_frames:
  assumes "ws_active s" and "ws_step rep s b = None" and "wire_frames fs = Inr b" and "\<forall>f\<in>set fs. frame_ok f"
  shows "fs = []"
proof (rule ccontr)
  assume "fs \<noteq> []"
  then obtain op fin key p fs' where fs: "fs = (op, fin, key, p) # fs'" by (metis neq_Nil_conv prod_cases4)
  with assms(3) obtain bf bs where bf: "wire_frame (op, fin, key, p) = Inr bf" and b: "b = bf @ bs"
    by (auto split: sum.splits)
  have "decode_hybi b = Inr (Some (op, p, length bf, fin))"
    unfolding b using bf fs assms(4) by (intro wire_frame_decode) auto
  from ws_step_frame [OF assms(1) this] assms(2) show False by simp
qed

lemma parse_segments_save:
  assumes "ws_data s = []" and "ws_step rep s r = None" and "wire_frames fs = Inr (r @ concat (map snd segs))"
    and "\<forall>f\<in>set fs. frame_ok f"
  shows "parse_segments rep (ws_save (s, r)) segs = run_frames rep s fs"
  using assms
proof (induction segs arbitrary: s r fs)
  case Nil
  show ?case
  proof (cases "ws_active s")
    case True
    with Nil have "fs = []" by (intro stuck_whole_frames [of s rep r]) auto
    with Nil have "r = []" by simp
    with Nil(1) True \<open>fs = []\<close> show ?thesis by (simp add: ws_save_def ws_data_id)
  qed (simp add: ws_save_def run_frames_inactive)
next
  case (Cons nseg segs)
  obtain n seg where [simp]: "nseg = (n, seg)" by (cases nseg)
  show ?case
  proof (cases "ws_active s")
    case False
    then show ?thesis
      using parse_segments_inactive [OF False Cons.prems(1), of rep "nseg # segs"]
      by (simp add: ws_save_def run_frames_inactive)
  next
    case True
    obtain s' r' where d: "drain (ws_step rep) s (r @ seg) = (s', r')" by (cases "drain (ws_step rep) s (r @ seg)")
    have w: "wire_frames fs = Inr ((r @ seg) @ concat (map snd segs))" using Cons.prems(3) by simp
    have "strip_crlf (r @ seg) = r @ seg"
      using wire_frames_not_cr [OF w Cons.prems(4)] by (intro strip_crlf_id) auto
    then have p: "parse_ws_frame rep n (ws_save (s, r)) seg = ws_save (s', r')"
      using True Cons.prems(1) d by (simp add: parse_ws_frame_drain ws_save_def ws_data_id)
    from ws_drain_prefix [OF d w Cons.prems(4)] obtain fs' where
      fs': "wire_frames fs' = Inr (r' @ concat (map snd segs))" "\<forall>f\<in>set fs'. frame_ok f"
        "run_frames rep s' fs' = run_frames rep s fs" by blast
    have "parse_segments rep (ws_save (s', r')) segs = run_frames rep s' fs'"
      using Cons.IH [OF ws_drain_data [OF Cons.prems(1) d] ws.drain_result_stuck [OF d] fs'(1,2)] .
    then show ?thesis by (simp add: p fs'(3))
  qed
qed

lemma parse_segments_frames:
  assumes "wire_frames fs = Inr (concat (map snd segs))" and "\<forall>f\<in>set fs. frame_ok f"
  shows "parse_segments rep ws_init segs = run_frames rep ws_init fs"
  using parse_segments_save [of ws_init rep "[]" fs segs] assms
  by (simp add: ws_save_def ws_data_id ws_init_def ws_active_def)

text \<open>A data message: its opcode and its fragments, the later ones sent as continuation frames.\<close>

type_synonym wsmessage = "nat \<times> (bytes option \<times> bytes) list"

fun continuation :: "(bytes option \<times> bytes) list \<Rightarrow> wsframe list" where
  "continuation [] = []"
| "continuation ((k, p) # r) = (OP_CONTINUE, r = [], k, p) # continuation r"

definition message_frames :: "wsmessage \<Rightarrow> wsframe list" where
  "message_frames m = (case m of (op, []) \<Rightarrow> [] | (op, (k, p) # r) \<Rightarrow> (op, r = [], k, p) # continuation r)"

definition message_data :: "wsmessage \<Rightarrow> bytes" where
  "message_data m = concat (map snd (snd m))"

definition message_ok :: "wsmessage \<Rightarrow> bool" where
  "message_ok m = (fst m \<in> {OP_TEXT, OP_BINARY} \<and> message_data m \<noteq> []
     \<and> (\<forall>(k, p)\<in>set (snd m). mask_ok k p))"

lemma run_frames_append: "run_frames rep s (fs @ gs) = run_frames rep (run_frames rep s fs) gs"
  by (simp add: run_frames_def)

lemma ws_dispatch_data_message:
  "op \<in> {OP_TEXT, OP_BINARY} \<Longrightarrow> p \<noteq> [] \<Longrightarrow> ws_dispatch rep op p s = ws_emit (WsRead p) s"
  by (auto simp: ws_dispatch_def op_defs)

lemma run_continuation:
  assumes "op \<in> {OP_TEXT, OP_BINARY}" and "concat ps @ concat (map snd r) \<noteq> []" and "r \<noteq> []"
    and "ws_active s" and "ws_payload s = ps" and "ps \<noteq> []" and "ws_payload_opcode s = op"
  shows "run_frames rep s (continuation r)
    = ws_emit (WsRead (concat ps @ concat (map snd r))) (s\<lparr>ws_payload := [], ws_payload_opcode := 0\<rparr>)"
  using assms
proof (induction r arbitrary: s ps)
  case (Cons kp r)
  obtain k p where [simp]: "kp = (k, p)" by (cases kp)
  have op: "op \<noteq> 0" using Cons.prems(1) by (auto simp: op_defs)
  show ?case
  proof (cases "r = []")
    case True
    then show ?thesis
      using Cons.prems op ws_dispatch_data_message [OF Cons.prems(1), of "concat ps @ p" rep]
      by (simp add: ws_frame_def OP_CONTINUE_def)
  next
    case False
    have step: "ws_frame rep OP_CONTINUE p False s = s\<lparr>ws_payload := ps @ [p]\<rparr>"
      using Cons.prems op by (simp add: ws_frame_def)
    show ?thesis
      using Cons.prems False op Cons.IH [of "ps @ [p]" "s\<lparr>ws_payload := ps @ [p]\<rparr>"]
      by (simp add: step ws_active_def)
  qed
qed simp

lemma run_message:
  assumes "message_ok m" and "ws_active s" and "ws_payload s = []" and "ws_payload_opcode s = 0"
  shows "run_frames rep s (message_frames m) = ws_emit (WsRead (message_data m)) s"
proof -
  obtain op k p r where m: "m = (op, (k, p) # r)"
    using assms(1) by (cases m; cases "snd m") (auto simp: message_ok_def message_data_def)
  have op: "op \<in> {OP_TEXT, OP_BINARY}" "op \<noteq> OP_CONTINUE" and ne: "p @ concat (map snd r) \<noteq> []"
    using assms(1) by (auto simp: message_ok_def message_data_def m op_defs)
  show ?thesis
  proof (cases "r = []")
    case True
    then show ?thesis
      using assms op ne ws_dispatch_data_message [OF op(1), of p rep]
      by (simp add: m message_frames_def ws_frame_def message_data_def)
  next
    case False
    let ?t = "s\<lparr>ws_payload_opcode := op, ws_payload := [p]\<rparr>"
    have step: "ws_frame rep op p False s = ?t"
      using assms op by (auto simp: ws_frame_def)
    have "run_frames rep ?t (continuation r)
        = ws_emit (WsRead (concat [p] @ concat (map snd r))) (?t\<lparr>ws_payload := [], ws_payload_opcode := 0\<rparr>)"
      using assms op ne False by (intro run_continuation) (auto simp: ws_active_def)
    also have "?t\<lparr>ws_payload := [], ws_payload_opcode := 0\<rparr> = s" using assms by simp
    finally show ?thesis using assms False step by (simp add: m message_frames_def message_data_def)
  qed
qed

lemma run_messages:
  assumes "\<forall>m\<in>set ms. message_ok m" and "ws_active s" and "ws_payload s = []" and "ws_payload_opcode s = 0"
  shows "run_frames rep s (concat (map message_frames ms)) = s\<lparr>ws_events := ws_events s @ map (WsRead \<circ> message_data) ms\<rparr>"
  using assms
proof (induction ms arbitrary: s)
  case (Cons m ms)
  then show ?case
    using Cons.IH [of "ws_emit (WsRead (message_data m)) s"]
    by (simp add: run_frames_append run_message ws_emit_def ws_active_def)
qed simp

lemma continuation_ok: "\<forall>(k, p)\<in>set r. mask_ok k p \<Longrightarrow> f \<in> set (continuation r) \<Longrightarrow> frame_ok f"
  by (induction r rule: continuation.induct) (auto simp: frame_ok_def)

lemma message_frames_ok: "message_ok m \<Longrightarrow> f \<in> set (message_frames m) \<Longrightarrow> frame_ok f"
  by (cases m; cases "snd m")
     (auto simp: message_ok_def message_frames_def frame_ok_def [of "(_, _ = [], _)"] dest: continuation_ok)

subsection \<open>Properties\<close>

text \<open>
  C5: data messages sent as websocket frames, fragmented or not, masked or not, are delivered
  to the read queue whole and in order, and nothing else is, however the byte stream is cut
  into received segments and whatever the packet counter is when each one arrives.
\<close>

theorem websocket_messages_delivered:
  assumes "wire_frames (concat (map message_frames ms)) = Inr (concat (map snd segs))"
    and "\<forall>m\<in>set ms. message_ok m"
  shows "ws_events (parse_segments rep ws_init segs) = map (WsRead \<circ> message_data) ms"
proof -
  have "\<forall>f\<in>set (concat (map message_frames ms)). frame_ok f"
    using assms(2) message_frames_ok by fastforce
  from parse_segments_frames [OF assms(1) this] show ?thesis
    using run_messages [OF assms(2), of ws_init rep] by (simp add: ws_init_def ws_active_def)
qed

theorem websocket_messages_delivered_witness:
  "ws_events (parse_segments (\<lambda>_. []) ws_init
      [(0, [2, 1, 7]), (0, [0x80]), (3, [0x81, 1, 2, 3, 4, 9])]) = [WsRead [7, 8]]"
proof -
  let ?m = "[(OP_BINARY, [(None, [7 :: 8 word]), (Some [1, 2, 3, 4], [8])])]"
  have wire: "wire_frames (concat (map message_frames ?m))
      = Inr (concat (map snd [(0 :: nat, [2, 1, 7 :: 8 word]), (0, [0x80]), (3, [0x81, 1, 2, 3, 4, 9])]))"
    by (simp add: message_frames_def wire_frame_def encode_hybi_header_def op_defs frame_body_def mask_bytes_def)
  have "\<forall>m\<in>set ?m. message_ok m"
    by (simp add: message_ok_def message_data_def mask_ok_def MAX_WEBSOCKET_PAYLOAD_def)
  from websocket_messages_delivered [OF wire this, of "\<lambda>_. []"]
  show ?thesis by (simp add: message_data_def)
qed

text \<open>
  C21: once a packet has been received, the frame parser does not depend on how the stream is
  cut into segments: its whole state, including pending fragments, exceptions and events, is
  the one a single segment would give.
\<close>

theorem websocket_segmentation_independent:
  assumes "n > 0"
  shows "foldl (parse_ws_frame rep n) s (seg # segs) = parse_ws_frame rep n s (concat (seg # segs))"
  using assms by (rule parse_ws_frame_segments)

theorem websocket_segmentation_independent_witness:
  "foldl (parse_ws_frame (\<lambda>_. []) 1) ws_init [[0x82, 3], [1, 2], [3, 0x88]]
     = parse_ws_frame (\<lambda>_. []) 1 ws_init [0x82, 3, 1, 2, 3, 0x88]"
  using websocket_segmentation_independent [of 1 "\<lambda>_. []" ws_init "[0x82, 3]" "[[1, 2], [3, 0x88]]"] by simp

text \<open>
  C32: a frame header decodes to what was encoded at every payload length, with the payload
  unmasked and exactly the bytes of the frame consumed.
\<close>

theorem hybi_frame_roundtrip:
  assumes "encode_hybi_header op (length p) m fin = Inr h"
    and "m \<Longrightarrow> length key = 4 \<and> length p \<le> MAX_WEBSOCKET_PAYLOAD"
  shows "decode_hybi (h @ (if m then key @ mask_bytes key p else p) @ rest)
    = Inr (Some (op, p, length h + (if m then 4 else 0) + length p, fin))"
  using decode_hybi_encode [OF assms, of rest] assms(2) by (auto simp: frame_body_def)

theorem hybi_frame_roundtrip_witness:
  "decode_hybi ([0x82, 0x83] @ ([1, 2, 3, 4] @ mask_bytes [1, 2, 3, 4] [5, 6, 7]) @ [9])
     = Inr (Some (2, [5, 6, 7], 9, True))"
proof -
  have h: "encode_hybi_header 2 (length [5, 6, 7 :: 8 word]) True True = Inr [0x82, 0x83]"
    by (simp add: encode_hybi_header_def or_128)
  show ?thesis
    using hybi_frame_roundtrip [OF h, of "[1, 2, 3, 4]" "[9]"] by (simp add: MAX_WEBSOCKET_PAYLOAD_def)
qed

lemma mask_items_concat:
  "mask_items key items = Inr ms \<Longrightarrow> (\<forall>i\<in>set (butlast items). 4 dvd length i)
    \<Longrightarrow> concat ms = mask_bytes key (concat items)"
proof (induction items arbitrary: ms)
  case (Cons item items)
  then obtain ms' where ms: "ms = mask_bytes key item # ms'" and r: "mask_items key items = Inr ms'"
    by (auto simp: hybi_mask_def split: sum.splits if_splits)
  show ?case
  proof (cases "items = []")
    case False
    with Cons.prems(2) have "4 dvd length item" "\<forall>i\<in>set (butlast items). 4 dvd length i" by auto
    with Cons.IH [OF r] show ?thesis by (simp add: ms mask_bytes_append)
  qed (use r ms in simp)
qed (simp add: mask_bytes_def)



text \<open>
  With masking on, a packet sent as two items, the first of 3 bytes, is received corrupted:
  the sender restarts the mask at every item, the receiver does not.
\<close>

theorem wsframe_mask_restart_corrupts:
  "make_wsframe_header True [1, 2, 3, 4] [[10, 10, 10], [20, 20]]
      = Inr ([0x82, 0x85, 1, 2, 3, 4], [[11, 8, 9], [21, 22]])
    \<and> decode_hybi ([0x82, 0x85, 1, 2, 3, 4] @ concat [[11, 8, 9], [21, 22]])
      = Inr (Some (2, [10, 10, 10, 17, 23], 11, True))"
  by (simp add: make_wsframe_header_def encode_hybi_header_def OP_BINARY_def hybi_mask_def
      MAX_WEBSOCKET_PAYLOAD_def mask_bytes_def upt_rec decode_hybi_def hybi_unmask_def or_128)

text \<open>
  A ping is never answered with a pong frame: the only effect of a complete ping is a
  call of \<^verbatim>\<open>raw_write\<close> whose data is the text \<open>ws-ping\<close>, the pong frame being passed as the
  packet type.
\<close>

theorem websocket_ping_not_answered:
  assumes "ws_payload s = []" and "length p < 2 ^ 64"
  shows "\<exists>pong. ws_frame rep OP_PING p True s
    = s\<lparr>ws_events := ws_events s @ [WsRawWrite (TextArg ''ws-ping'') (BytesArg [pong])]\<rparr>"
proof -
  have "\<exists>h. encode_hybi_header OP_PONG (length p) False True = Inr h"
    using assms(2) by (auto simp: encode_hybi_header_def OP_PONG_def and_15_id Let_def)
  then obtain h where h: "encode_hybi_header OP_PONG (length p) False True = Inr h" by blast
  have "ws_frame rep OP_PING p True s = process_ws_ping p s"
    using assms(1) by (simp add: ws_frame_def ws_dispatch_def op_defs)
  also have "\<dots> = s\<lparr>ws_events := ws_events s @ [WsRawWrite (TextArg ''ws-ping'') (BytesArg [h @ p])]\<rparr>"
    by (simp add: process_ws_ping_def h ws_emit_def)
  finally show ?thesis by blast
qed

theorem websocket_ping_not_answered_witness:
  "\<exists>pong. ws_frame (\<lambda>_. []) OP_PING [1] True ws_init
    = ws_init\<lparr>ws_events := ws_events ws_init @ [WsRawWrite (TextArg ''ws-ping'') (BytesArg [pong])]\<rparr>"
  by (rule websocket_ping_not_answered) (simp_all add: ws_init_def)

end
