(* ===== verification/Proto_State.thy ===== *)
theory Proto_State
  imports Net_Crypto
begin

text \<open>
  The state of a \<^verbatim>\<open>SocketProtocol\<close> (\<^verbatim>\<open>xpra/net/protocol/socket_handler.py\<close>): its constructor's
  defaults, saving and restoring it, configuring ciphers, packet encoder and compressor, and
  the encryption and decryption of one payload. What the class reads from modules and
  libraries is gathered in the record \<open>nenv\<close>; its other fields are parameters for the
  \<^verbatim>\<open>repr\<close> of values, the random bytes of \<^verbatim>\<open>os.urandom\<close>, the frame header hook that the
  websocket subclass overrides, and the callback that processes a packet, which may change
  the state of the protocol. Actions scheduled on the main loop (\<^verbatim>\<open>idle_add\<close>, \<^verbatim>\<open>timeout_add\<close>)
  are recorded in \<open>p_events\<close> in the order in which they are scheduled.
\<close>

subsection \<open>Environment and state\<close>

text \<open>Why the parser hangs up, in the words of the code's messages.\<close>

datatype fault =
    BadFirstByte | BadSize nat | BadIndex nat | NoCipher
  | PlainDropped | BadCompression | DecompressFailed
  | DuplicateRaw nat | TooManyRaw nat | BadEncoding | ParseFailed | TooLarge int

datatype proto_event =
    EvProcess packet
  | EvInvalid fault bytes
  | EvGibberish fault bytes
  | EvCheckSize int bytes
  | EvInternalError string
  | EvIdleClose
  | EvConnectionLost string

record proto =
  p_max_packet_size :: nat
  p_large_packets :: "string list"
  p_cipher_in :: bool
  p_cipher_in_name :: string
  p_cipher_in_block_size :: nat
  p_cipher_in_padding :: string
  p_cipher_in_always_pad :: bool
  p_cipher_in_stream :: bool
  p_cipher_in_key :: bytes
  p_cipher_in_decryptor :: "cipher_ctx option"
  p_cipher_out :: bool
  p_cipher_out_name :: string
  p_cipher_out_block_size :: nat
  p_cipher_out_padding :: string
  p_cipher_out_always_pad :: bool
  p_cipher_out_stream :: bool
  p_cipher_out_key :: bytes
  p_cipher_out_encryptor :: "cipher_ctx option"
  p_compression_level :: nat
  p_chunks :: bool
  p_encoder :: string
  p_encode :: "pval list \<Rightarrow> py_error + (bytes \<times> nat)"
  p_compressor :: string
  p_compress :: "bytes \<Rightarrow> nat \<Rightarrow> py_error + (nat \<times> bytes)"
  p_closed :: bool
  p_wait_for_header :: bool
  p_receive_pending :: bool
  p_input_stats :: "(string \<times> nat) list"
  p_input_packetcount :: nat
  p_output_stats :: "(string \<times> nat) list"
  p_ivs :: nat
  p_events :: "proto_event list"

record nenv =
  e_rep :: "pval \<Rightarrow> string"
  e_compressors :: compressors
  e_encoders :: encoders
  e_crypto :: crypto_lib
  e_urandom :: "nat \<Rightarrow> bytes"
  e_frame_header :: "bytes list \<Rightarrow> py_error + (bytes \<times> bytes list)"
  e_process :: "proto \<Rightarrow> packet \<Rightarrow> proto"

definition MAX_PACKET_SIZE :: nat where "MAX_PACKET_SIZE = 16 * 1024 * 1024"
definition ABS_MAX_PACKET_SIZE :: nat where "ABS_MAX_PACKET_SIZE = 256 * 1024 * 1024"

text \<open>The constructor, given the encoder and compressor functions registered as \<open>none\<close>.\<close>

definition proto_init :: "bool \<Rightarrow> (pval list \<Rightarrow> py_error + (bytes \<times> nat)) \<Rightarrow> (bytes \<Rightarrow> nat \<Rightarrow> py_error + (nat \<times> bytes)) \<Rightarrow> proto" where
  "proto_init is_ssh enc cmpr = \<lparr>
     p_max_packet_size = MAX_PACKET_SIZE,
     p_large_packets = [''hello'', ''window-metadata'', ''sound-data'', ''notify_show'', ''setting-change'',
       ''shell-reply'', ''configure-display'', ''encodings''],
     p_cipher_in = False, p_cipher_in_name = '''', p_cipher_in_block_size = 0,
     p_cipher_in_padding = PADDING_PKCS7, p_cipher_in_always_pad = False, p_cipher_in_stream = True,
     p_cipher_in_key = [], p_cipher_in_decryptor = None,
     p_cipher_out = False, p_cipher_out_name = '''', p_cipher_out_block_size = 0,
     p_cipher_out_padding = PADDING_PKCS7, p_cipher_out_always_pad = False, p_cipher_out_stream = True,
     p_cipher_out_key = [], p_cipher_out_encryptor = None,
     p_compression_level = 0, p_chunks = True,
     p_encoder = ''none'', p_encode = enc, p_compressor = ''none'', p_compress = cmpr,
     p_closed = False, p_wait_for_header = is_ssh, p_receive_pending = False,
     p_input_stats = [], p_input_packetcount = 0, p_output_stats = [], p_ivs = 0, p_events = []\<rparr>"

definition p_emit :: "proto_event \<Rightarrow> proto \<Rightarrow> proto" where
  "p_emit e p = p\<lparr>p_events := p_events p @ [e]\<rparr>"

text \<open>\<^verbatim>\<open>_internal_error\<close>: nothing once the protocol is closed.\<close>

definition internal_error :: "string \<Rightarrow> proto \<Rightarrow> proto" where
  "internal_error msg p = (if p_closed p then p else p_emit (EvInternalError msg) p)"

subsection \<open>Encoder and compressor\<close>

definition enable_encoder :: "nenv \<Rightarrow> string \<Rightarrow> proto \<Rightarrow> py_error + proto" where
  "enable_encoder E e p =
     (case get_encoder (e_encoders E) e of
        Inl x \<Rightarrow> Inl x
      | Inr f \<Rightarrow> Inr (p\<lparr>p_encode := f, p_encoder := e\<rparr>))"

definition enable_default_encoder :: "nenv \<Rightarrow> proto \<Rightarrow> py_error + proto" where
  "enable_default_encoder E p =
     (case get_enabled_encoders (e_encoders E) TRY_ENCODERS of
        [] \<Rightarrow> Inl AssertionError
      | e # _ \<Rightarrow> enable_encoder E e p)"

definition enable_encoder_from_caps :: "nenv \<Rightarrow> pdict \<Rightarrow> proto \<Rightarrow> py_error + (proto \<times> bool)" where
  "enable_encoder_from_caps E caps p =
     (let options = get_enabled_encoders (e_encoders E) ENCODER_PERFORMANCE_ORDER;
          p' = p\<lparr>p_chunks := boolget caps ''chunks'' True\<rparr>
      in case find (\<lambda>e. boolget caps e False) options of
        Some e \<Rightarrow> map_sum id (\<lambda>q. (q, True)) (enable_encoder E e p')
      | None \<Rightarrow> Inr (p', False))"

definition enable_compressor :: "nenv \<Rightarrow> string \<Rightarrow> proto \<Rightarrow> py_error + proto" where
  "enable_compressor E c p =
     (case get_compressor (e_compressors E) c of
        Inl x \<Rightarrow> Inl x
      | Inr f \<Rightarrow> Inr (p\<lparr>p_compress := f, p_compressor := c\<rparr>))"

definition enable_default_compressor :: "nenv \<Rightarrow> proto \<Rightarrow> py_error + proto" where
  "enable_default_compressor E p =
     (case get_enabled_compressors (e_compressors E) TRY_COMPRESSORS of
        c # _ \<Rightarrow> enable_compressor E c p
      | [] \<Rightarrow> enable_compressor E ''none'' p)"

definition enable_compressor_from_caps :: "nenv \<Rightarrow> pdict \<Rightarrow> proto \<Rightarrow> py_error + proto" where
  "enable_compressor_from_caps E caps p =
     (if p_compression_level p = 0 then enable_compressor E ''none'' p
      else
        let opts = get_enabled_compressors (e_compressors E) PERFORMANCE_ORDER in
        case strtupleget (e_rep E) caps ''compressors'' [] None None of
          Inl e \<Rightarrow> Inl e
        | Inr compressors \<Rightarrow>
            (case find (\<lambda>c. c \<noteq> ''none'' \<and> (PStr c \<in> set compressors \<or> boolget caps c False)) opts of
               Some c \<Rightarrow> enable_compressor E c p
             | None \<Rightarrow> enable_compressor E ''none'' p))"

definition set_compression_level :: "int \<Rightarrow> proto \<Rightarrow> py_error + proto" where
  "set_compression_level level p =
     (if level < 0 \<or> level > 10 then Inl ValueError else Inr (p\<lparr>p_compression_level := nat level\<rparr>))"

subsection \<open>Saving and restoring\<close>

text \<open>The fields of \<^verbatim>\<open>STATE_FIELDS\<close>, in that order.\<close>

record saved_state =
  s_max_packet_size :: nat
  s_large_packets :: "string list"
  s_cipher_in :: bool
  s_cipher_in_name :: string
  s_cipher_in_block_size :: nat
  s_cipher_in_padding :: string
  s_cipher_in_always_pad :: bool
  s_cipher_in_stream :: bool
  s_cipher_in_key :: bytes
  s_cipher_out :: bool
  s_cipher_out_name :: string
  s_cipher_out_block_size :: nat
  s_cipher_out_padding :: string
  s_cipher_out_always_pad :: bool
  s_cipher_out_stream :: bool
  s_cipher_out_key :: bytes
  s_compression_level :: nat
  s_chunks :: bool
  s_encoder :: string
  s_compressor :: string

definition save_state :: "proto \<Rightarrow> saved_state" where
  "save_state p = \<lparr>
     s_max_packet_size = p_max_packet_size p, s_large_packets = p_large_packets p,
     s_cipher_in = p_cipher_in p, s_cipher_in_name = p_cipher_in_name p,
     s_cipher_in_block_size = p_cipher_in_block_size p, s_cipher_in_padding = p_cipher_in_padding p,
     s_cipher_in_always_pad = p_cipher_in_always_pad p, s_cipher_in_stream = p_cipher_in_stream p,
     s_cipher_in_key = p_cipher_in_key p,
     s_cipher_out = p_cipher_out p, s_cipher_out_name = p_cipher_out_name p,
     s_cipher_out_block_size = p_cipher_out_block_size p, s_cipher_out_padding = p_cipher_out_padding p,
     s_cipher_out_always_pad = p_cipher_out_always_pad p, s_cipher_out_stream = p_cipher_out_stream p,
     s_cipher_out_key = p_cipher_out_key p,
     s_compression_level = p_compression_level p, s_chunks = p_chunks p,
     s_encoder = p_encoder p, s_compressor = p_compressor p\<rparr>"

definition set_saved_fields :: "saved_state \<Rightarrow> proto \<Rightarrow> proto" where
  "set_saved_fields s p = p\<lparr>
     p_max_packet_size := s_max_packet_size s, p_large_packets := s_large_packets s,
     p_cipher_in := s_cipher_in s, p_cipher_in_name := s_cipher_in_name s,
     p_cipher_in_block_size := s_cipher_in_block_size s, p_cipher_in_padding := s_cipher_in_padding s,
     p_cipher_in_always_pad := s_cipher_in_always_pad s, p_cipher_in_stream := s_cipher_in_stream s,
     p_cipher_in_key := s_cipher_in_key s,
     p_cipher_out := s_cipher_out s, p_cipher_out_name := s_cipher_out_name s,
     p_cipher_out_block_size := s_cipher_out_block_size s, p_cipher_out_padding := s_cipher_out_padding s,
     p_cipher_out_always_pad := s_cipher_out_always_pad s, p_cipher_out_stream := s_cipher_out_stream s,
     p_cipher_out_key := s_cipher_out_key s,
     p_compression_level := s_compression_level s, p_chunks := s_chunks s,
     p_encoder := s_encoder s, p_compressor := s_compressor s\<rparr>"

definition restore_state :: "nenv \<Rightarrow> saved_state \<Rightarrow> proto \<Rightarrow> py_error + proto" where
  "restore_state E s p =
     (let p' = set_saved_fields s p in
      case enable_compressor E (p_compressor p') p' of
        Inl e \<Rightarrow> Inl e
      | Inr p'' \<Rightarrow> enable_encoder E (p_encoder p'') p'')"

subsection \<open>Ciphers\<close>

definition set_cipher_in :: "nenv \<Rightarrow> string \<Rightarrow> bytes \<Rightarrow> bytes \<Rightarrow> bytes \<Rightarrow> string \<Rightarrow> nat \<Rightarrow> nat
    \<Rightarrow> string \<Rightarrow> bool \<Rightarrow> bool \<Rightarrow> proto \<Rightarrow> py_error + proto" where
  "set_cipher_in E ciphername iv key_data key_salt key_hash key_size iterations padding always_pad stream p =
     (case get_mode (e_crypto E) ciphername of
        Inl e \<Rightarrow> Inl e
      | Inr mode \<Rightarrow>
          (case get_key (e_crypto E) key_data key_salt key_hash key_size iterations of
             Inl e \<Rightarrow> Inl e
           | Inr key \<Rightarrow>
               let p' = p\<lparr>p_cipher_in_block_size := get_block_size mode, p_cipher_in_padding := padding,
                          p_cipher_in_always_pad := always_pad, p_cipher_in_stream := stream,
                          p_cipher_in_key := key\<rparr>
               in if stream then
                    map_sum id (\<lambda>ctx. p'\<lparr>p_cipher_in_decryptor := Some ctx, p_cipher_in_name := ciphername\<rparr>)
                      (get_cipher (e_crypto E) key iv mode)
                  else Inr (p'\<lparr>p_cipher_in_name := ciphername\<rparr>)))"

definition set_cipher_out :: "nenv \<Rightarrow> string \<Rightarrow> bytes \<Rightarrow> bytes \<Rightarrow> bytes \<Rightarrow> string \<Rightarrow> nat \<Rightarrow> nat
    \<Rightarrow> string \<Rightarrow> bool \<Rightarrow> bool \<Rightarrow> proto \<Rightarrow> py_error + proto" where
  "set_cipher_out E ciphername iv key_data key_salt key_hash key_size iterations padding always_pad stream p =
     (case get_mode (e_crypto E) ciphername of
        Inl e \<Rightarrow> Inl e
      | Inr mode \<Rightarrow>
          (case get_key (e_crypto E) key_data key_salt key_hash key_size iterations of
             Inl e \<Rightarrow> Inl e
           | Inr key \<Rightarrow>
               let p' = p\<lparr>p_cipher_out_block_size := get_block_size mode, p_cipher_out_padding := padding,
                          p_cipher_out_always_pad := always_pad, p_cipher_out_stream := stream,
                          p_cipher_out_key := key\<rparr>
               in if stream then
                    map_sum id (\<lambda>ctx. p'\<lparr>p_cipher_out_encryptor := Some ctx, p_cipher_out_name := ciphername\<rparr>)
                      (get_cipher (e_crypto E) key iv mode)
                  else Inr (p'\<lparr>p_cipher_out_name := ciphername\<rparr>)))"

text \<open>The padding for a payload: the same computation in \<^verbatim>\<open>encrypt\<close> and in the parser.\<close>

definition padding_for :: "nat \<Rightarrow> bool \<Rightarrow> nat \<Rightarrow> nat" where
  "padding_for block_size always_pad sz =
     (if block_size = 0 then 0
      else
        let padding_size = block_size - sz mod block_size
        in if always_pad \<and> padding_size = 0 then block_size else padding_size)"

definition encrypt :: "nenv \<Rightarrow> bytes \<Rightarrow> proto \<Rightarrow> py_error + (bytes \<times> nat \<times> proto)" where
  "encrypt E data p =
     (let payload_size = length data;
          padding_size = padding_for (p_cipher_out_block_size p) (p_cipher_out_always_pad p) payload_size
      in case (if padding_size = 0 then Inr data
               else map_sum id (\<lambda>pd. data @ pd) (pad (p_cipher_out_padding p) padding_size)) of
        Inl e \<Rightarrow> Inl e
      | Inr padded \<Rightarrow>
          if p_cipher_out_name p = [] then Inl AssertionError
          else if p_cipher_out_stream p then
            (case p_cipher_out_encryptor p of
               None \<Rightarrow> Inl AssertionError
             | Some ctx \<Rightarrow>
                 let (payload, ctx') = enc_step (e_crypto E) ctx padded
                 in Inr (payload, payload_size, p\<lparr>p_cipher_out_encryptor := Some ctx'\<rparr>))
          else
            let iv = e_urandom E (p_ivs p) in
            (case get_mode (e_crypto E) (p_cipher_out_name p) of
               Inl e \<Rightarrow> Inl e
             | Inr mode \<Rightarrow>
                 (case get_cipher (e_crypto E) (p_cipher_out_key p) iv mode of
                    Inl e \<Rightarrow> Inl e
                  | Inr ctx \<Rightarrow>
                      let (encrypted, ctx') = enc_step (e_crypto E) ctx padded in
                      map_sum id (\<lambda>extra. (iv @ encrypted @ extra, payload_size + length iv, p\<lparr>p_ivs := p_ivs p + 1\<rparr>))
                        (enc_final (e_crypto E) mode (p_cipher_out_key p) iv (ctx_done ctx')))))"

definition remove_padding :: "nenv \<Rightarrow> bytes \<Rightarrow> nat \<Rightarrow> proto \<Rightarrow> py_error + (bytes \<times> proto)" where
  "remove_padding E data padding_size p =
     (if padding_size = 0 then Inr (data, p)
      else case pad (p_cipher_in_padding p) padding_size of
        Inl e \<Rightarrow> Inl e
      | Inr padtext \<Rightarrow>
          if endswith data padtext then Inr (take (length data - padding_size) data, p)
          else Inr ([], internal_error (p_cipher_in_name p @ '' encryption padding error - wrong key?'') p))"

definition decrypt :: "nenv \<Rightarrow> bytes \<Rightarrow> nat \<Rightarrow> proto \<Rightarrow> py_error + (bytes \<times> proto)" where
  "decrypt E encrypted padding_size p =
     (case get_mode (e_crypto E) (p_cipher_in_name p) of
        Inl e \<Rightarrow> Inl e
      | Inr mode \<Rightarrow>
          if p_cipher_in_stream p then
            (case p_cipher_in_decryptor p of
               None \<Rightarrow> Inl AssertionError
             | Some ctx \<Rightarrow>
                 let (data, ctx') = dec_step (e_crypto E) ctx encrypted
                 in remove_padding E data padding_size (p\<lparr>p_cipher_in_decryptor := Some ctx'\<rparr>))
          else
            let iv = take 16 encrypted in
            (case get_cipher (e_crypto E) (p_cipher_in_key p) iv mode of
               Inl e \<Rightarrow> Inl e
             | Inr ctx \<Rightarrow>
                 let (data, ctx') = dec_step (e_crypto E) ctx (drop 16 encrypted) in
                 (case dec_final (e_crypto E) mode (p_cipher_in_key p) iv (ctx_done ctx') of
                    Inl e \<Rightarrow> Inl e
                  | Inr extra \<Rightarrow> remove_padding E (data @ extra) padding_size p)))"

subsection \<open>\<open>is_sending_encrypted\<close>\<close>

definition TRUE_OPTIONS :: "string list" where "TRUE_OPTIONS = [''yes'', ''true'', ''1'', ''on'']"

text \<open>
  \<open>options\<close> are the connection's options; values other than text have no \<^verbatim>\<open>lower\<close> method.
\<close>

definition lower_in_true :: "pval \<Rightarrow> py_error + bool" where
  "lower_in_true v = (case v of
     PStr s \<Rightarrow> Inr (str_lower s \<in> set TRUE_OPTIONS)
   | PBytes b \<Rightarrow> Inr False
   | _ \<Rightarrow> Inl AttributeError)"

definition is_sending_encrypted :: "pdict \<Rightarrow> string \<Rightarrow> proto \<Rightarrow> py_error + bool" where
  "is_sending_encrypted options socktype p =
     (let trusted = (case map_of options (PStr ''trusted'') of Some v \<Rightarrow> v | None \<Rightarrow> PNone);
          by_socket = Inr (p_cipher_out_name p \<noteq> [] \<or> socktype \<in> {''ssl'', ''wss'', ''ssh'', ''quic''})
      in if py_bool trusted then lower_in_true trusted
         else case map_of options (PStr ''http-headers'') of
           Some (PDict headers) \<Rightarrow>
             if headers = [] then by_socket
             else
               let forwarded_proto = (case map_of headers (PStr ''X-Forwarded-Proto'') of Some v \<Rightarrow> v | None \<Rightarrow> PStr '''');
                   trust = (case map_of options (PStr ''trust-proxy-headers'') of Some v \<Rightarrow> v | None \<Rightarrow> PStr ''no'')
               in if py_bool forwarded_proto then
                    (case lower_in_true trust of
                       Inl e \<Rightarrow> Inl e
                     | Inr True \<Rightarrow> Inr (forwarded_proto = PStr ''https'')
                     | Inr False \<Rightarrow> by_socket)
                  else by_socket
         | _ \<Rightarrow> by_socket)"

subsection \<open>Two ends with the same cipher\<close>

text \<open>
  The sending half of one protocol and the receiving half of its peer agree on the cipher, and
  for a stream cipher the decryptor has seen exactly what the encryptor has produced.
\<close>

definition cipher_link :: "nenv \<Rightarrow> proto \<Rightarrow> proto \<Rightarrow> bool" where
  "cipher_link E ps pr =
     (p_cipher_out_name ps = p_cipher_in_name pr
      \<and> p_cipher_out_name ps \<noteq> []
      \<and> p_cipher_out_padding ps = PADDING_PKCS7 \<and> p_cipher_in_padding pr = PADDING_PKCS7
      \<and> p_cipher_out_always_pad ps = p_cipher_in_always_pad pr
      \<and> p_cipher_out_stream ps = p_cipher_in_stream pr
      \<and> p_cipher_out_key ps = p_cipher_in_key pr
      \<and> (case get_mode (e_crypto E) (p_cipher_out_name ps) of
           Inl _ \<Rightarrow> False
         | Inr mode \<Rightarrow>
             p_cipher_out_block_size ps = get_block_size mode \<and> p_cipher_in_block_size pr = get_block_size mode
             \<and> (if p_cipher_out_stream ps then
                  (case (p_cipher_out_encryptor ps, p_cipher_in_decryptor pr) of
                     (Some c, Some d) \<Rightarrow>
                       ctx_mode c = mode \<and> ctx_mode d = mode \<and> ctx_key d = ctx_key c \<and> ctx_iv d = ctx_iv c
                       \<and> aligned mode (ctx_done c)
                       \<and> ctx_done d = enc_update (e_crypto E) mode (ctx_key c) (ctx_iv c) [] (ctx_done c)
                   | _ \<Rightarrow> False)
                else (\<forall>n. length (e_urandom E n) = 16
                        \<and> new_cipher_error (e_crypto E) (p_cipher_out_key ps) (e_urandom E n) mode = None))))"

lemma padding_for_bound: "bs = 0 \<or> bs = 16 \<Longrightarrow> padding_for bs ap n \<le> 16"
  by (auto simp: padding_for_def Let_def)

lemma padding_for_shift: "bs = 0 \<or> bs = 16 \<Longrightarrow> padding_for bs ap (n + 16) = padding_for bs ap n"
  by (auto simp: padding_for_def Let_def)

lemma block_sum: "(l :: nat) = 16 * q + r \<Longrightarrow> r < 16 \<Longrightarrow> p = 16 - r \<Longrightarrow> l + p = 16 * (q + 1)"
  by simp

lemma padding_for_aligned:
  assumes "bs = get_block_size mode" and "length pd = padding_for bs ap (length d)"
  shows "aligned mode (d @ pd)"
proof (cases "bs = 0")
  case False
  then have bs: "bs = 16" using assms(1) get_block_size_cases [of mode] by simp
  have lt: "(16 \<le> length d mod 16) = False" by (simp add: not_le)
  have pdl: "length pd = 16 - length d mod 16"
    using assms(2) bs lt by (simp add: padding_for_def Let_def)
  have "length (d @ pd) = 16 * (length d div 16 + 1)"
  proof -
    have "length d = 16 * (length d div 16) + length d mod 16" by simp
    moreover have "length d mod 16 < 16" by simp
    ultimately show ?thesis unfolding length_append using pdl by (rule block_sum)
  qed
  then show ?thesis unfolding aligned_def using assms(1) bs by (metis dvd_triv_left)
qed (use assms in \<open>simp add: aligned_def\<close>)

lemma remove_padding_ok:
  "n \<le> 255 \<Longrightarrow> p_cipher_in_padding p = PADDING_PKCS7
    \<Longrightarrow> remove_padding E (d @ replicate n (of_nat n)) n p = Inr (d, p)"
  by (simp add: remove_padding_def pad_Inr)

lemma encrypt_padded:
  assumes "n = padding_for (p_cipher_out_block_size p) (p_cipher_out_always_pad p) (length data)"
    and "n \<le> 16" and "p_cipher_out_padding p = PADDING_PKCS7"
  shows "(if n = 0 then Inr data else map_sum id (\<lambda>pd. data @ pd) (pad (p_cipher_out_padding p) n))
    = Inr (data @ replicate n (of_nat n :: 8 word))"
  using assms by (simp add: pad_Inr)

lemma encrypt_decrypt_stream:
  assumes ok: "crypto_ok (e_crypto E)" and link: "cipher_link E ps pr" and stream: "p_cipher_out_stream ps"
  shows "\<exists>payload ps' pr'. encrypt E data ps = Inr (payload, length data, ps')
    \<and> length payload = length data + padding_for (p_cipher_in_block_size pr) (p_cipher_in_always_pad pr) (length data)
    \<and> decrypt E payload (padding_for (p_cipher_in_block_size pr) (p_cipher_in_always_pad pr) (length data)) pr = Inr (data, pr')
    \<and> cipher_link E ps' pr'
    \<and> (\<exists>c d. ps' = ps\<lparr>p_cipher_out_encryptor := c\<rparr> \<and> pr' = pr\<lparr>p_cipher_in_decryptor := d\<rparr>)"
proof -
  from link obtain mode where mode: "get_mode (e_crypto E) (p_cipher_out_name ps) = Inr mode"
    by (auto simp: cipher_link_def split: sum.splits)
  from link mode stream obtain c d where
    c: "p_cipher_out_encryptor ps = Some c" "ctx_mode c = mode" "aligned mode (ctx_done c)"
    and d: "p_cipher_in_decryptor pr = Some d" "ctx_mode d = mode" "ctx_key d = ctx_key c" "ctx_iv d = ctx_iv c"
      "ctx_done d = enc_update (e_crypto E) mode (ctx_key c) (ctx_iv c) [] (ctx_done c)"
    by (auto simp: cipher_link_def split: option.splits)
  from link mode have bs: "p_cipher_out_block_size ps = get_block_size mode" "p_cipher_in_block_size pr = get_block_size mode"
    and name: "p_cipher_in_name pr = p_cipher_out_name ps" "p_cipher_out_name ps \<noteq> []"
    and pads: "p_cipher_out_padding ps = PADDING_PKCS7" "p_cipher_in_padding pr = PADDING_PKCS7"
    and ap: "p_cipher_in_always_pad pr = p_cipher_out_always_pad ps"
    and st: "p_cipher_in_stream pr"
    using stream by (auto simp: cipher_link_def)
  define n where "n = padding_for (get_block_size mode) (p_cipher_out_always_pad ps) (length data)"
  have n16: "n \<le> 16" unfolding n_def using get_block_size_cases by (rule padding_for_bound)
  define pd where "pd = data @ replicate n (of_nat n :: 8 word)"
  have al: "aligned mode pd" unfolding pd_def by (rule padding_for_aligned [OF refl]) (simp add: n_def)
  note okD = crypto_okD [OF ok c(3) al, of "ctx_key c" "ctx_iv c"]
  define payload where "payload = enc_update (e_crypto E) mode (ctx_key c) (ctx_iv c) (ctx_done c) pd"
  define ps' where "ps' = ps\<lparr>p_cipher_out_encryptor := Some (c\<lparr>ctx_done := ctx_done c @ pd\<rparr>)\<rparr>"
  define pr' where "pr' = pr\<lparr>p_cipher_in_decryptor := Some (d\<lparr>ctx_done := ctx_done d @ payload\<rparr>)\<rparr>"
  have enc: "encrypt E data ps = Inr (payload, length data, ps')"
    unfolding encrypt_def Let_def bs encrypt_padded [OF n_def [folded bs(1)] n16 pads(1), unfolded bs(1)] n_def [symmetric]
    using name stream c pads n16
    by (simp add: pad_Inr enc_step_def payload_def ps'_def pd_def)
  have dec: "dec_update (e_crypto E) mode (ctx_key c) (ctx_iv c) (ctx_done d) payload = data @ replicate n (of_nat n)"
    using okD(3) by (simp add: payload_def d(5) pd_def)
  have pr'_pad: "p_cipher_in_padding pr' = PADDING_PKCS7" using pads(2) by (simp add: pr'_def)
  have "decrypt E payload n pr = remove_padding E (data @ replicate n (of_nat n)) n pr'"
    unfolding decrypt_def using name mode st d(1-4) dec by (simp add: dec_step_def pr'_def)
  also have "\<dots> = Inr (data, pr')" using n16 pr'_pad by (intro remove_padding_ok) auto
  finally have "decrypt E payload n pr = Inr (data, pr')" .
  moreover note enc
  moreover have "cipher_link E ps' pr'"
    using link mode stream c d okD(2) al
    by (auto simp: cipher_link_def ps'_def pr'_def payload_def aligned_append)
  moreover have "length payload = length data + n"
    using okD(1) by (simp add: payload_def pd_def)
  ultimately show ?thesis
    unfolding bs ap n_def [symmetric] ps'_def pr'_def by blast
qed


lemma encrypt_decrypt_block:
  assumes ok: "crypto_ok (e_crypto E)" and link: "cipher_link E ps pr" and stream: "\<not> p_cipher_out_stream ps"
  shows "\<exists>payload ps'. encrypt E data ps = Inr (payload, length data + 16, ps')
    \<and> length payload = length data + 16 + padding_for (p_cipher_in_block_size pr) (p_cipher_in_always_pad pr) (length data + 16)
    \<and> decrypt E payload (padding_for (p_cipher_in_block_size pr) (p_cipher_in_always_pad pr) (length data + 16)) pr = Inr (data, pr)
    \<and> cipher_link E ps' pr
    \<and> (\<exists>n. ps' = ps\<lparr>p_ivs := n\<rparr>)"
proof -
  from link obtain mode where mode: "get_mode (e_crypto E) (p_cipher_out_name ps) = Inr mode"
    by (auto simp: cipher_link_def split: sum.splits)
  from link mode have bs: "p_cipher_out_block_size ps = get_block_size mode" "p_cipher_in_block_size pr = get_block_size mode"
    and name: "p_cipher_in_name pr = p_cipher_out_name ps" "p_cipher_out_name ps \<noteq> []"
    and pads: "p_cipher_out_padding ps = PADDING_PKCS7" "p_cipher_in_padding pr = PADDING_PKCS7"
    and ap: "p_cipher_in_always_pad pr = p_cipher_out_always_pad ps"
    and st: "\<not> p_cipher_in_stream pr"
    and key: "p_cipher_in_key pr = p_cipher_out_key ps"
    and rnd: "\<And>n. length (e_urandom E n) = 16"
      "\<And>n. new_cipher_error (e_crypto E) (p_cipher_out_key ps) (e_urandom E n) mode = None"
    using stream by (auto simp: cipher_link_def)
  define iv where "iv = e_urandom E (p_ivs ps)"
  have iv: "length iv = 16" "new_cipher_error (e_crypto E) (p_cipher_out_key ps) iv mode = None"
    using rnd by (simp_all add: iv_def)
  then have iv_ne: "iv \<noteq> []" by auto
  define n where "n = padding_for (get_block_size mode) (p_cipher_out_always_pad ps) (length data)"
  have n': "padding_for (get_block_size mode) (p_cipher_out_always_pad ps) (length data + 16) = n"
    unfolding n_def using get_block_size_cases by (rule padding_for_shift)
  have n16: "n \<le> 16" unfolding n_def using get_block_size_cases by (rule padding_for_bound)
  define pd where "pd = data @ replicate n (of_nat n :: 8 word)"
  have al: "aligned mode pd" unfolding pd_def by (rule padding_for_aligned [OF refl]) (simp add: n_def)
  note okD = crypto_okD [OF ok aligned_Nil al, of "p_cipher_out_key ps" iv]
  note nil = crypto_okD [OF ok aligned_Nil aligned_Nil, of mode "p_cipher_out_key ps" iv]
  define body where "body = enc_update (e_crypto E) mode (p_cipher_out_key ps) iv [] pd"
  have dec: "dec_update (e_crypto E) mode (p_cipher_out_key ps) iv [] body = data @ replicate n (of_nat n)"
    using okD(3) nil(1) by (simp add: body_def pd_def)
  have enc: "encrypt E data ps = Inr (iv @ body, length data + 16, ps\<lparr>p_ivs := p_ivs ps + 1\<rparr>)"
    unfolding encrypt_def Let_def bs encrypt_padded [OF n_def [folded bs(1)] n16 pads(1), unfolded bs(1)]
      n_def [symmetric] iv_def [symmetric]
    using name stream pads n16 mode iv iv_ne okD(4)
    by (simp add: pad_Inr enc_step_def get_cipher_def body_def pd_def)
  have "decrypt E (iv @ body) n pr = remove_padding E (data @ replicate n (of_nat n)) n pr"
    unfolding decrypt_def using name mode st iv iv_ne key dec okD(5)
    by (simp add: dec_step_def get_cipher_def body_def)
  also have "\<dots> = Inr (data, pr)" using n16 pads(2) by (intro remove_padding_ok) auto
  finally have "decrypt E (iv @ body) n pr = Inr (data, pr)" .
  moreover have "cipher_link E (ps\<lparr>p_ivs := p_ivs ps + 1\<rparr>) pr"
    using link mode stream rnd by (auto simp: cipher_link_def)
  moreover have "length (iv @ body) = length data + 16 + n"
    using okD(1) iv by (simp add: body_def pd_def)
  ultimately show ?thesis
    using enc unfolding bs ap n' by blast
qed

text \<open>What encryption promises the framing layer, in one statement for both kinds of cipher.\<close>

lemma encrypt_decrypt_link:
  assumes "crypto_ok (e_crypto E)" and "cipher_link E ps pr"
  obtains payload sz ps' pr' where "encrypt E data ps = Inr (payload, sz, ps')"
    and "length payload = sz + padding_for (p_cipher_in_block_size pr) (p_cipher_in_always_pad pr) sz"
    and "decrypt E payload (padding_for (p_cipher_in_block_size pr) (p_cipher_in_always_pad pr) sz) pr = Inr (data, pr')"
    and "cipher_link E ps' pr'"
    and "length data \<le> sz" and "sz \<le> length data + 16"
    and "\<exists>c n. ps' = ps\<lparr>p_cipher_out_encryptor := c, p_ivs := n\<rparr>" and "\<exists>d. pr' = pr\<lparr>p_cipher_in_decryptor := d\<rparr>"
proof (cases "p_cipher_out_stream ps")
  case True
  from encrypt_decrypt_stream [OF assms True, of data] obtain payload ps' pr' c d where
    r: "encrypt E data ps = Inr (payload, length data, ps')"
    "length payload = length data + padding_for (p_cipher_in_block_size pr) (p_cipher_in_always_pad pr) (length data)"
    "decrypt E payload (padding_for (p_cipher_in_block_size pr) (p_cipher_in_always_pad pr) (length data)) pr = Inr (data, pr')"
    "cipher_link E ps' pr'"
    and ps': "ps' = ps\<lparr>p_cipher_out_encryptor := c\<rparr>" and pr': "pr' = pr\<lparr>p_cipher_in_decryptor := d\<rparr>" by blast
  have "ps' = ps\<lparr>p_cipher_out_encryptor := c, p_ivs := p_ivs ps\<rparr>" using ps' by simp
  then show thesis using pr' by (intro that [OF r]) (blast | simp)+
next
  case False
  from encrypt_decrypt_block [OF assms False, of data] obtain payload ps' n where
    r: "encrypt E data ps = Inr (payload, length data + 16, ps')"
    "length payload = length data + 16 + padding_for (p_cipher_in_block_size pr) (p_cipher_in_always_pad pr) (length data + 16)"
    "decrypt E payload (padding_for (p_cipher_in_block_size pr) (p_cipher_in_always_pad pr) (length data + 16)) pr = Inr (data, pr)"
    "cipher_link E ps' pr" and ps': "ps' = ps\<lparr>p_ivs := n\<rparr>" by blast
  have "ps' = ps\<lparr>p_cipher_out_encryptor := p_cipher_out_encryptor ps, p_ivs := n\<rparr>" using ps' by simp
  moreover have "pr = pr\<lparr>p_cipher_in_decryptor := p_cipher_in_decryptor pr\<rparr>" by simp
  ultimately show thesis by (intro that [OF r]) (blast | simp)+
qed

subsection \<open>Properties\<close>

text \<open>Payloads encrypted by one end and decrypted by the other, one after the other.\<close>

fun transfer :: "nenv \<Rightarrow> proto \<Rightarrow> proto \<Rightarrow> bytes list \<Rightarrow> py_error + bytes list" where
  "transfer E ps pr [] = Inr []"
| "transfer E ps pr (d # ds) =
     (case encrypt E d ps of
        Inl e \<Rightarrow> Inl e
      | Inr (payload, sz, ps') \<Rightarrow>
          (case decrypt E payload (padding_for (p_cipher_in_block_size pr) (p_cipher_in_always_pad pr) sz) pr of
             Inl e \<Rightarrow> Inl e
           | Inr (d', pr') \<Rightarrow> map_sum id (\<lambda>r. d' # r) (transfer E ps' pr' ds)))"

lemma transfer_link: "crypto_ok (e_crypto E) \<Longrightarrow> cipher_link E ps pr \<Longrightarrow> transfer E ps pr ds = Inr ds"
proof (induction ds arbitrary: ps pr)
  case (Cons d ds)
  from Cons.prems obtain payload sz ps' pr' where
    "encrypt E d ps = Inr (payload, sz, ps')"
    "decrypt E payload (padding_for (p_cipher_in_block_size pr) (p_cipher_in_always_pad pr) sz) pr = Inr (d, pr')"
    "cipher_link E ps' pr'"
    by (rule encrypt_decrypt_link)
  with Cons show ?case by simp
qed simp

lemma set_ciphers_link:
  assumes ok: "crypto_ok (e_crypto E)"
    and "set_cipher_out E name iv kd salt hash ksize iter PADDING_PKCS7 ap stream ps = Inr ps'"
    and "set_cipher_in E name iv kd salt hash ksize iter PADDING_PKCS7 ap stream pr = Inr pr'"
    and "\<not> stream \<Longrightarrow> \<forall>n key mode. length (e_urandom E n) = 16 \<and> new_cipher_error (e_crypto E) key (e_urandom E n) mode = None"
  shows "cipher_link E ps' pr'"
proof -
  from assms(2) obtain mode key where m: "get_mode (e_crypto E) name = Inr mode"
    and k: "get_key (e_crypto E) kd salt hash ksize iter = Inr key"
    by (auto simp: set_cipher_out_def split: sum.splits)
  have "name \<noteq> []" using get_mode_ok [OF m] by (auto simp: startswith_def)
  have nil: "enc_update (e_crypto E) mode key iv [] [] = []"
    using crypto_okD(1) [OF ok aligned_Nil aligned_Nil, of mode key iv] by simp
  show ?thesis
  proof (cases stream)
    case False
    then show ?thesis using assms m k \<open>name \<noteq> []\<close>
      by (auto simp: set_cipher_out_def set_cipher_in_def cipher_link_def Let_def)
  next
    case True
    then obtain ctx where ctx: "get_cipher (e_crypto E) key iv mode = Inr ctx"
      using assms(2) m k by (auto simp: set_cipher_out_def Let_def split: sum.splits)
    then have c: "ctx_mode ctx = mode" "ctx_key ctx = key" "ctx_iv ctx = iv" "ctx_done ctx = []"
      by (auto simp: get_cipher_def split: if_splits option.splits)
    show ?thesis using assms(2,3) m k ctx c True \<open>name \<noteq> []\<close> nil
      by (auto simp: set_cipher_out_def set_cipher_in_def cipher_link_def Let_def)
  qed
qed


definition toy_crypto :: crypto_lib where
  "toy_crypto = \<lparr>crypto_modes = [''CBC''], derive_key = (\<lambda>kd salt h sz it. kd),
     new_cipher_error = (\<lambda>k iv m. None),
     enc_update = (\<lambda>m k iv h d. map (\<lambda>b. b + 1) d), enc_final = (\<lambda>m k iv h. Inr []),
     dec_update = (\<lambda>m k iv h d. map (\<lambda>b. b - 1) d), dec_final = (\<lambda>m k iv h. Inr [])\<rparr>"

definition toy_env :: nenv where
  "toy_env = \<lparr>e_rep = (\<lambda>_. ''''), e_compressors = [(''none'', init_none)],
     e_encoders = [(''none'', init_none_encoder (\<lambda>_. ''''))], e_crypto = toy_crypto,
     e_urandom = (\<lambda>n. replicate 16 (of_nat n)), e_frame_header = (\<lambda>items. Inr ([], items)),
     e_process = (\<lambda>p _. p)\<rparr>"

definition toy_proto :: proto where
  "toy_proto = proto_init False (none_encode (\<lambda>_. '''')) nocompress"

lemma toy_crypto_ok: "crypto_ok toy_crypto"
  by (simp add: crypto_ok_def toy_crypto_def Let_def comp_def)

lemma toy_mode: "get_mode toy_crypto ''AES-CBC'' = Inr ''CBC''"
  by (simp add: get_mode_def cipher_mode_part_def toy_crypto_def startswith_def)

lemma toy_key: "get_key toy_crypto [1] [] ''SHA1'' 32 10000 = Inr [1]"
proof -
  have "map upper_char ''SHA1'' = ''SHA1''" by (simp add: upper_char_def)
  then show ?thesis
    by (simp only: get_key_def) (simp add: toy_crypto_def KEY_HASHES_def MIN_ITERATIONS_def MAX_ITERATIONS_def)
qed

definition toy_out :: proto where
  "toy_out = toy_proto\<lparr>p_cipher_out_block_size := 16, p_cipher_out_key := [1],
     p_cipher_out_encryptor := Some \<lparr>ctx_key = [1], ctx_iv = [9], ctx_mode = ''CBC'', ctx_done = []\<rparr>,
     p_cipher_out_name := ''AES-CBC''\<rparr>"

definition toy_in :: proto where
  "toy_in = toy_proto\<lparr>p_cipher_in_block_size := 16, p_cipher_in_key := [1],
     p_cipher_in_decryptor := Some \<lparr>ctx_key = [1], ctx_iv = [9], ctx_mode = ''CBC'', ctx_done = []\<rparr>,
     p_cipher_in_name := ''AES-CBC''\<rparr>"

lemma toy_set_out: "set_cipher_out toy_env ''AES-CBC'' [9] [1] [] ''SHA1'' 32 10000 PADDING_PKCS7 False True toy_proto = Inr toy_out"
  using toy_mode toy_key
  by (simp add: set_cipher_out_def toy_env_def Let_def get_cipher_def toy_crypto_def get_block_size_def
      BACKWARDS_COMPATIBLE_def toy_out_def toy_proto_def proto_init_def)

lemma toy_set_in: "set_cipher_in toy_env ''AES-CBC'' [9] [1] [] ''SHA1'' 32 10000 PADDING_PKCS7 False True toy_proto = Inr toy_in"
  using toy_mode toy_key
  by (simp add: set_cipher_in_def toy_env_def Let_def get_cipher_def toy_crypto_def get_block_size_def
      BACKWARDS_COMPATIBLE_def toy_in_def toy_proto_def proto_init_def)


lemma enable_encoder_frame: "enable_encoder E e p = Inr q \<Longrightarrow> \<exists>f. q = p\<lparr>p_encode := f, p_encoder := e\<rparr>"
  by (auto simp: enable_encoder_def split: sum.splits)

lemma enable_compressor_frame: "enable_compressor E c p = Inr q \<Longrightarrow> \<exists>f. q = p\<lparr>p_compress := f, p_compressor := c\<rparr>"
  by (auto simp: enable_compressor_def split: sum.splits)

lemma restore_state_fields:
  assumes "restore_state E s p = Inr q"
  shows "save_state q = s" and "p_cipher_in_decryptor q = p_cipher_in_decryptor p"
    and "p_cipher_out_encryptor q = p_cipher_out_encryptor p"
  using assms
  by (auto simp: restore_state_def Let_def set_saved_fields_def save_state_def split: sum.splits
      dest!: enable_encoder_frame enable_compressor_frame)

text \<open>
  A protocol restored from the saved state of one that uses a stream cipher cannot
  decrypt: the cipher's name and key are restored but its decryptor is not, so the first
  encrypted packet raises an assertion error. The proxy instance restores the client's
  connection this way.
\<close>

theorem restored_stream_cipher_cannot_decrypt:
  assumes "restore_state E (save_state p) (proto_init ssh enc cmpr) = Inr q"
    and "p_cipher_in_stream p" and "get_mode (e_crypto E) (p_cipher_in_name p) = Inr mode"
  shows "decrypt E data padding q = Inl AssertionError"
proof -
  have "p_cipher_in_name q = p_cipher_in_name p" "p_cipher_in_stream q = p_cipher_in_stream p"
    using restore_state_fields(1) [OF assms(1)] by (simp_all add: save_state_def)
  moreover have "p_cipher_in_decryptor q = None"
    using restore_state_fields(2) [OF assms(1)] by (simp add: proto_init_def)
  ultimately show ?thesis using assms(2,3) by (simp add: decrypt_def)
qed

lemma toy_restored:
  "restore_state toy_env (save_state toy_in) (proto_init False (none_encode (\<lambda>_. [])) nocompress)
    = Inr (set_saved_fields (save_state toy_in) toy_proto)"
  by (simp add: restore_state_def enable_encoder_def enable_compressor_def get_compressor_def get_encoder_def
      toy_env_def init_none_def init_none_encoder_def VALID_ENCODERS_def set_saved_fields_def save_state_def
      toy_in_def toy_proto_def proto_init_def)

theorem restored_stream_cipher_cannot_decrypt_witness:
  "decrypt toy_env [1, 2] 0 (set_saved_fields (save_state toy_in) toy_proto) = Inl AssertionError"
proof -
  have s: "p_cipher_in_stream toy_in" by (simp add: toy_in_def toy_proto_def proto_init_def)
  have m: "get_mode (e_crypto toy_env) (p_cipher_in_name toy_in) = Inr ''CBC''"
    using toy_mode by (simp add: toy_in_def toy_env_def)
  show ?thesis using toy_restored s m by (rule restored_stream_cipher_cannot_decrypt)
qed

end
