(* ===== verification/Proto_Encode.thy ===== *)
theory Proto_Encode
  imports Proto_State
begin

text \<open>
  From a packet to the buffers given to the write thread
  (\<^verbatim>\<open>xpra/net/protocol/socket_handler.py\<close>): \<^verbatim>\<open>encode\<close> takes large or compressed items out of
  the packet into chunks of their own, \<^verbatim>\<open>do_encode\<close> serialises and compresses what is left,
  and \<^verbatim>\<open>_add_chunks_to_queue\<close> encrypts every chunk and puts its header before it. A packet to
  send holds plain values and the special items of \<^verbatim>\<open>xpra/net/compression.py\<close>. Items of other
  types than those of \<open>item\<close> are not modelled, except one without a length (\<open>OtherItem\<close>).
\<close>

subsection \<open>Constants\<close>

definition READ_BUFFER_SIZE :: nat where "READ_BUFFER_SIZE = 65536"
definition PACKET_JOIN_SIZE :: nat where "PACKET_JOIN_SIZE = READ_BUFFER_SIZE"
definition LARGE_PACKET_SIZE :: nat where "LARGE_PACKET_SIZE = 16384"
definition INLINE_SIZE :: nat where "INLINE_SIZE = 32768"
definition PROTO_MIN_COMPRESS_SIZE :: nat where "PROTO_MIN_COMPRESS_SIZE = 378"

subsection \<open>Items and chunks\<close>

datatype item =
    Value pval
  | IntEnumItem int
  | EnumItem string
  | ViewItem bytes
  | CompItem compressed
  | LargeItem pval
  | CompressibleItem nat item
  | OtherItem

type_synonym chunk = "nat \<times> nat \<times> nat \<times> bytes"

text \<open>\<^verbatim>\<open>isinstance(item, (int, bool, Mapping, Sequence))\<close>: texts, bytes and memory views are sequences.\<close>

definition item_plain :: "item \<Rightarrow> bool" where
  "item_plain it = (case it of Value v \<Rightarrow> packet_element v | ViewItem _ \<Rightarrow> True | _ \<Rightarrow> False)"

text \<open>What the encoder of the packet sees of an item that was left in place.\<close>

definition item_value :: "item \<Rightarrow> pval" where
  "item_value it =
     (case it of
        Value v \<Rightarrow> v | IntEnumItem i \<Rightarrow> PInt i | EnumItem s \<Rightarrow> PStr s | ViewItem b \<Rightarrow> PBytes b
      | CompItem c \<Rightarrow> PBytes (comp_data c) | LargeItem v \<Rightarrow> v | CompressibleItem _ _ \<Rightarrow> PNone | OtherItem \<Rightarrow> PNone)"

text \<open>\<^verbatim>\<open>len(item)\<close>; for a \<open>LargeStructure\<close> it is the length of its data.\<close>

definition pval_len :: "pval \<Rightarrow> nat option" where
  "pval_len v =
     (case v of
        PStr s \<Rightarrow> Some (length (utf8_points s)) | PBytes b \<Rightarrow> Some (length b)
      | PList xs \<Rightarrow> Some (length xs) | PDict d \<Rightarrow> Some (length d) | _ \<Rightarrow> None)"

definition item_len :: "item \<Rightarrow> nat option" where
  "item_len it =
     (case it of
        Value v \<Rightarrow> pval_len v | ViewItem b \<Rightarrow> Some (length b) | CompItem c \<Rightarrow> Some (compressed_len c)
      | LargeItem v \<Rightarrow> pval_len v | CompressibleItem n _ \<Rightarrow> Some n | _ \<Rightarrow> None)"

record enc_acc =
  a_packet :: "pval list"
  a_chunks :: "chunk list"
  a_inlined :: nat

definition acc_set :: "nat \<Rightarrow> pval \<Rightarrow> enc_acc \<Rightarrow> enc_acc" where
  "acc_set i v a = a\<lparr>a_packet := (a_packet a)[i := v]\<rparr>"

definition acc_chunk :: "chunk \<Rightarrow> enc_acc \<Rightarrow> enc_acc" where
  "acc_chunk c a = a\<lparr>a_chunks := a_chunks a @ [c]\<rparr>"

text \<open>
  The last part of the loop body, for an item that is neither plain nor an enum, after any
  \<^verbatim>\<open>compress()\<close>; \<open>sz\<close> is the length measured before that.
\<close>

definition encode_special :: "proto \<Rightarrow> nat \<Rightarrow> nat \<Rightarrow> item \<Rightarrow> enc_acc \<Rightarrow> py_error + enc_acc" where
  "encode_special p i sz it a =
     (case it of
        ViewItem b \<Rightarrow> Inr (acc_set i (PBytes b) a)
      | LargeItem v \<Rightarrow> Inr (acc_set i v a)
      | CompItem c \<Rightarrow>
          if p_chunks p \<and> (\<not> comp_can_inline c \<or> sz > INLINE_SIZE) then
            let il = (case c of LevelCompressed _ _ level _ _ \<Rightarrow> level | Compressed _ _ _ \<Rightarrow> 0)
            in Inr (acc_set i (PBytes []) (acc_chunk (0, i, il, comp_data c) a))
          else Inr ((acc_set i (PBytes (comp_data c)) a)\<lparr>a_inlined := a_inlined a + sz\<rparr>)
      | Value (PBytes b) \<Rightarrow>
          if p_chunks p \<and> p_compression_level p > 0 \<and> sz > LARGE_PACKET_SIZE then
            (case p_compress p b (p_compression_level p) of
               Inl e \<Rightarrow> Inl e
             | Inr (cl, cdata) \<Rightarrow> Inr (acc_set i (PStr '''') (acc_chunk (0, i, cl, cdata) a)))
          else Inr (acc_set i (PBytes b) a)
      | _ \<Rightarrow> Inr (acc_set i (item_value it) a))"

definition encode_item :: "proto \<Rightarrow> nat \<Rightarrow> item \<Rightarrow> enc_acc \<Rightarrow> py_error + enc_acc" where
  "encode_item p i it a =
     (if it = Value PNone then Inl TypeError
      else case it of
        IntEnumItem n \<Rightarrow> Inr (acc_set i (PInt n) a)
      | _ \<Rightarrow>
          if item_plain it then Inr a
          else case it of
            EnumItem s \<Rightarrow> Inr (acc_set i (PStr s) a)
          | _ \<Rightarrow>
              (case item_len it of
                 None \<Rightarrow> Inl TypeError
               | Some sz \<Rightarrow>
                   (case it of
                      CompressibleItem _ it' \<Rightarrow> encode_special p i sz it' (acc_set i (item_value it') a)
                    | _ \<Rightarrow> encode_special p i sz it a)))"

fun encode_items :: "proto \<Rightarrow> nat \<Rightarrow> item list \<Rightarrow> enc_acc \<Rightarrow> py_error + enc_acc" where
  "encode_items p i [] a = Inr a"
| "encode_items p i (it # its) a =
     (case encode_item p i it a of Inl e \<Rightarrow> Inl e | Inr a' \<Rightarrow> encode_items p (Suc i) its a')"

definition do_encode :: "proto \<Rightarrow> pval list \<Rightarrow> chunk list \<Rightarrow> nat \<Rightarrow> py_error + chunk list" where
  "do_encode p packet packets inlined_size =
     (case p_encode p packet of
        Inl e \<Rightarrow> if p_closed p then Inr [] else Inl e
      | Inr (main_packet, proto_flags) \<Rightarrow>
          let sz = length main_packet in
          if p_compression_level p > 0 \<and> sz > PROTO_MIN_COMPRESS_SIZE + inlined_size then
            (case p_compress p main_packet (p_compression_level p) of
               Inl e \<Rightarrow> Inl e
             | Inr (level, main_packet') \<Rightarrow> Inr (packets @ [(proto_flags, 0, level, main_packet')]))
          else Inr (packets @ [(proto_flags, 0, 0, main_packet)]))"

definition count_stat :: "string \<Rightarrow> (string \<times> nat) list \<Rightarrow> nat" where
  "count_stat t stats = (case map_of stats t of Some n \<Rightarrow> n | None \<Rightarrow> 0)"

definition encode :: "nenv \<Rightarrow> item list \<Rightarrow> proto \<Rightarrow> py_error + (chunk list \<times> proto)" where
  "encode E packet_in p =
     (case packet_in of
        [] \<Rightarrow> Inl IndexError
      | it0 # _ \<Rightarrow>
          let packet_type = py_str (e_rep E) (item_value it0) in
          (case encode_items p 0 packet_in \<lparr>a_packet = map item_value packet_in, a_chunks = [], a_inlined = 0\<rparr> of
             Inl e \<Rightarrow> Inl e
           | Inr a \<Rightarrow>
               let p' = p\<lparr>p_output_stats := dict_set packet_type (count_stat packet_type (p_output_stats p) + 1) (p_output_stats p)\<rparr>
               in map_sum id (\<lambda>chunks. (chunks, p')) (do_encode p' (a_packet a) (a_chunks a) (a_inlined a))))"

subsection \<open>Queueing the chunks\<close>

definition make_xpra_header :: "nat \<Rightarrow> nat \<Rightarrow> nat \<Rightarrow> nat \<Rightarrow> py_error + bytes" where
  "make_xpra_header proto_flags level index payload_size = pack_header proto_flags level index payload_size"

definition noframe_header :: "bytes list \<Rightarrow> py_error + (bytes \<times> bytes list)" where
  "noframe_header items = Inr ([], items)"

text \<open>The loop body: the buffers that one chunk adds.\<close>

definition chunk_items :: "nenv \<Rightarrow> bool \<Rightarrow> chunk \<Rightarrow> proto \<Rightarrow> py_error + (bytes list \<times> proto)" where
  "chunk_items E has_more c p =
     (case c of (proto_flags, index, level, data) \<Rightarrow>
        if data = [] then Inl RuntimeError
        else
          case (if p_cipher_out_name p \<noteq> [] then encrypt E data p else Inr (data, length data, p)) of
            Inl e \<Rightarrow> Inl e
          | Inr (payload, sz, p') \<Rightarrow>
              let flags = (if p_cipher_out_name p \<noteq> [] then proto_flags OR FLAGS_CIPHER else proto_flags) in
              if flags AND FLAGS_NOHEADER \<noteq> 0 then
                (if p_cipher_out p then Inl AssertionError else Inr ([payload], p'))
              else
                let flags' = (if index = 0 \<and> \<not> has_more then flags OR FLAGS_FLUSH else flags) in
                (case make_xpra_header flags' level index sz of
                   Inl e \<Rightarrow> Inl e
                 | Inr header \<Rightarrow>
                     if sz < PACKET_JOIN_SIZE then Inr ([header @ payload], p')
                     else Inr ([header, payload], p')))"

fun chunks_items :: "nenv \<Rightarrow> bool \<Rightarrow> chunk list \<Rightarrow> proto \<Rightarrow> py_error + (bytes list \<times> proto)" where
  "chunks_items E has_more [] p = Inr ([], p)"
| "chunks_items E has_more (c # cs) p =
     (case chunk_items E has_more c p of
        Inl e \<Rightarrow> Inl e
      | Inr (items, p') \<Rightarrow>
          (case chunks_items E has_more cs p' of Inl e \<Rightarrow> Inl e | Inr (items', p'') \<Rightarrow> Inr (items @ items', p'')))"

text \<open>The buffers handed to \<^verbatim>\<open>raw_write\<close>, with the frame header of the websocket layer if there is one.\<close>

definition add_chunks_to_queue :: "nenv \<Rightarrow> chunk list \<Rightarrow> bool \<Rightarrow> proto \<Rightarrow> py_error + (bytes list \<times> proto)" where
  "add_chunks_to_queue E chunks has_more p =
     (case chunks_items E has_more chunks p of
        Inl e \<Rightarrow> Inl e
      | Inr (items, p') \<Rightarrow>
          (case e_frame_header E items of
             Inl e \<Rightarrow> Inl e
           | Inr (frame_header, items') \<Rightarrow>
               if frame_header = [] then Inr (items', p')
               else case items' of
                 [] \<Rightarrow> Inl IndexError
               | item0 # rest \<Rightarrow>
                   if length item0 < PACKET_JOIN_SIZE then Inr ((frame_header @ item0) # rest, p')
                   else Inr (frame_header # item0 # rest, p')))"

subsection \<open>Lemmas\<close>

lemma encode_items_append:
  "encode_items p i (xs @ ys) a =
     (case encode_items p i xs a of Inl e \<Rightarrow> Inl e | Inr a' \<Rightarrow> encode_items p (i + length xs) ys a')"
  by (induction p i xs a rule: encode_items.induct) (auto split: sum.splits)

lemma chunks_items_append:
  "chunks_items E has_more (cs @ ds) p =
     (case chunks_items E has_more cs p of
        Inl e \<Rightarrow> Inl e
      | Inr (is, p') \<Rightarrow> (case chunks_items E has_more ds p' of Inl e \<Rightarrow> Inl e | Inr (js, p'') \<Rightarrow> Inr (is @ js, p'')))"
  by (induction E has_more cs p rule: chunks_items.induct) (auto split: sum.splits)

lemma add_chunks_noframe:
  "e_frame_header E = noframe_header \<Longrightarrow> add_chunks_to_queue E chunks has_more p = chunks_items E has_more chunks p"
  by (auto simp: add_chunks_to_queue_def noframe_header_def split: sum.splits)

lemma do_encode_last:
  assumes "do_encode p packet packets n = Inr chunks" and "\<not> p_closed p"
  obtains flags level data main where "chunks = packets @ [(flags, 0, level, data)]"
    and "p_encode p packet = Inr (main, flags)"
    and "level = 0 \<and> data = main \<or> p_compress p main (p_compression_level p) = Inr (level, data)"
  using assms by (auto simp: do_encode_def Let_def split: sum.splits if_splits)

end
