(* ===== verification/Proto_Parse.thy ===== *)
theory Proto_Parse
  imports Proto_Encode Stream_Machine
begin

text \<open>
  The parse thread of \<^verbatim>\<open>SocketProtocol\<close> (\<^verbatim>\<open>do_read_parse_thread_loop\<close>): the local variables of
  the loop are the record \<open>rx\<close>, its body and its exits are functions on the protocol and that
  record. The loop over the buffers runs on fuel; \<open>rx_measure\<close> is always enough. The second
  half relates it to a machine that works on the flat byte stream.
\<close>

subsection \<open>The local state of the loop\<close>

datatype run_state = Running | Stopped | Raised py_error

record rx =
  rx_header :: bytes
  rx_bufs :: "bytes list"
  rx_payload_size :: int
  rx_padding :: nat
  rx_index :: nat
  rx_flags :: nat
  rx_level :: nat
  rx_raw :: "(nat \<times> bytes) list"
  rx_run :: run_state

definition rx_init :: rx where
  "rx_init = \<lparr>rx_header = [], rx_bufs = [], rx_payload_size = -1, rx_padding = 0, rx_index = 0,
     rx_flags = 0, rx_level = 0, rx_raw = [], rx_run = Running\<rparr>"

type_synonym prx = "proto \<times> rx"

definition rx_stop :: "prx \<Rightarrow> prx" where
  "rx_stop s = (fst s, (snd s)\<lparr>rx_run := Stopped\<rparr>)"

definition rx_raise :: "py_error \<Rightarrow> prx \<Rightarrow> prx" where
  "rx_raise e s = (fst s, (snd s)\<lparr>rx_run := Raised e\<rparr>)"

text \<open>\<^verbatim>\<open>invalid\<close>, \<^verbatim>\<open>gibberish\<close> and \<^verbatim>\<open>invalid_header\<close> schedule the packet and the hang-up; the loop returns.\<close>

definition rx_invalid :: "fault \<Rightarrow> bytes \<Rightarrow> prx \<Rightarrow> prx" where
  "rx_invalid f d s = rx_stop (p_emit (EvInvalid f d) (fst s), snd s)"

definition rx_gibberish :: "fault \<Rightarrow> bytes \<Rightarrow> prx \<Rightarrow> prx" where
  "rx_gibberish f d s = rx_stop (p_emit (EvGibberish f d) (fst s), snd s)"

subsection \<open>The header\<close>

definition header_parsed :: "bytes \<Rightarrow> prx \<Rightarrow> prx" where
  "header_parsed header s =
     (case s of (p, r) \<Rightarrow>
        case unpack_header header of
          Inl e \<Rightarrow> rx_raise e s
        | Inr (_, flags, level, index, data_size) \<Rightarrow>
            let r1 = r\<lparr>rx_flags := flags, rx_level := level, rx_index := index\<rparr> in
            if data_size > ABS_MAX_PACKET_SIZE then rx_gibberish (BadSize data_size) header (p, r1)
            else if index \<ge> 16 then rx_gibberish (BadIndex index) header (p, r1)
            else if flags AND FLAGS_CIPHER \<noteq> 0 \<and> p_cipher_in_name p = [] then rx_gibberish NoCipher header (p, r1)
            else
              let padding = (if flags AND FLAGS_CIPHER \<noteq> 0
                             then padding_for (p_cipher_in_block_size p) (p_cipher_in_always_pad p) data_size
                             else 0);
                  payload_size = data_size + padding;
                  r2 = r1\<lparr>rx_padding := padding, rx_payload_size := int payload_size\<rparr>
              in if payload_size = 0 then rx_raise ValueError (p, r2)
                 else if payload_size > p_max_packet_size p
                 then (p_emit (EvCheckSize (int payload_size) header) p, r2)
                 else (p, r2))"

text \<open>\<^verbatim>\<open>check_packet_size\<close>, which the main loop runs a second later.\<close>

definition check_packet_size :: "int \<Rightarrow> bytes \<Rightarrow> proto \<Rightarrow> proto" where
  "check_packet_size size_to_check header p =
     (if p_closed p then p
      else if size_to_check > int (p_max_packet_size p) then p_emit (EvInvalid (TooLarge size_to_check) header) p
      else p)"

subsection \<open>One chunk\<close>

definition store_raw :: "bytes \<Rightarrow> prx \<Rightarrow> prx" where
  "store_raw data s =
     (case s of (p, r) \<Rightarrow>
        let r = r\<lparr>rx_header := []\<rparr>; index = rx_index r in
        if map_of (rx_raw r) index \<noteq> None then rx_invalid (DuplicateRaw index) data (p, r)
        else
          let raw = dict_set index data (rx_raw r); r' = r\<lparr>rx_raw := raw, rx_payload_size := -1\<rparr> in
          if length raw \<ge> 4 then rx_invalid (TooManyRaw (length raw)) data (p, r')
          else (p\<lparr>p_receive_pending := True\<rparr>, r'))"

text \<open>The raw chunks replace their placeholders; an index beyond the packet raises.\<close>

fun fill_raw :: "pval list \<Rightarrow> (nat \<times> bytes) list \<Rightarrow> py_error + pval list" where
  "fill_raw packet [] = Inr packet"
| "fill_raw packet ((i, d) # raw) =
     (if i < length packet then fill_raw (packet[i := PBytes d]) raw else Inl IndexError)"

definition deliver :: "nenv \<Rightarrow> pval list \<Rightarrow> prx \<Rightarrow> prx" where
  "deliver E packet s =
     (case s of (p, r) \<Rightarrow>
        case fill_raw packet (rx_raw r) of
          Inl e \<Rightarrow> rx_raise e s
        | Inr [] \<Rightarrow> rx_raise IndexError (p, r\<lparr>rx_raw := []\<rparr>)
        | Inr (v # vs) \<Rightarrow>
            let packet_type = py_str (e_rep E) v;
                r' = r\<lparr>rx_raw := [], rx_payload_size := -1\<rparr>;
                p' = p\<lparr>p_input_stats := dict_set packet_type (count_stat packet_type (p_output_stats p) + 1) (p_input_stats p),
                       p_input_packetcount := p_input_packetcount p + 1,
                       p_receive_pending := (rx_flags r AND FLAGS_FLUSH \<noteq> 0)\<rparr>
            in case mk_packet (v # vs) of
                 Inl _ \<Rightarrow> (p', r')
               | Inr wrapped \<Rightarrow> (e_process E (p_emit (EvProcess wrapped) p') wrapped, r'))"

definition final_chunk :: "nenv \<Rightarrow> bytes \<Rightarrow> prx \<Rightarrow> prx" where
  "final_chunk E data s =
     (let s' = (fst s, (snd s)\<lparr>rx_header := []\<rparr>) in
      case (case decode_packet (e_encoders E) data (rx_flags (snd s)) of Inl e \<Rightarrow> Inl e | Inr v \<Rightarrow> py_list v) of
        Inl e \<Rightarrow>
          if e = InvalidPacketEncoding then rx_invalid BadEncoding data s'
          else if e \<in> {ValueError, TypeError, IndexError, UnicodeError} then
            (if p_closed (fst s) then rx_stop s' else rx_gibberish ParseFailed data s')
          else rx_raise e s'
      | Inr packet \<Rightarrow> if p_closed (fst s) then rx_stop s' else deliver E packet s')"

definition plain_chunk :: "nenv \<Rightarrow> bytes \<Rightarrow> prx \<Rightarrow> prx" where
  "plain_chunk E data s =
     (case (if rx_level (snd s) > 0 then decompress (e_compressors E) data (rx_level (snd s)) else Inr data) of
        Inl e \<Rightarrow> if e = InvalidCompression then rx_invalid BadCompression data s
                 else rx_gibberish DecompressFailed data s
      | Inr data' \<Rightarrow>
          if p_closed (fst s) then rx_stop s
          else if rx_index (snd s) > 0 then store_raw data' s
          else final_chunk E data' s)"

definition handle_chunk :: "nenv \<Rightarrow> bytes \<Rightarrow> prx \<Rightarrow> prx" where
  "handle_chunk E raw s =
     (case s of (p, r) \<Rightarrow>
        if p_cipher_in_name p \<noteq> [] then
          (if rx_flags r AND FLAGS_CIPHER = 0 then rx_invalid PlainDropped raw s
           else case decrypt E raw (rx_padding r) p of
             Inl e \<Rightarrow> rx_raise e s
           | Inr (data, p') \<Rightarrow> if data = [] then rx_stop (p', r) else plain_chunk E data (p', r))
        else plain_chunk E raw s)"

subsection \<open>The loop over the buffers\<close>

text \<open>Taking the first \<open>n\<close> bytes of the buffers: an exact match, a split buffer, or a join.\<close>

definition take_payload :: "nat \<Rightarrow> bytes list \<Rightarrow> bytes \<times> bytes list" where
  "take_payload n bufs =
     (case bufs of
        [] \<Rightarrow> ([], [])
      | buf # rest \<Rightarrow>
          if length buf = n then (buf, rest)
          else if length buf > n then (take n buf, drop n buf # rest)
          else
            let raw_data = concat bufs in
            if length raw_data = n then (raw_data, [])
            else (take n raw_data, [drop n raw_data]))"

text \<open>The flag says whether the loop goes on with the next iteration.\<close>

definition payload_phase :: "nenv \<Rightarrow> prx \<Rightarrow> prx \<times> bool" where
  "payload_phase E s =
     (case s of (p, r) \<Rightarrow>
        let bl = sum_list (map length (rx_bufs r)) in
        if int bl < rx_payload_size r then (s, False)
        else
          let (raw, bufs) = take_payload (nat (rx_payload_size r)) (rx_bufs r) in
          (handle_chunk E raw (p, r\<lparr>rx_bufs := bufs\<rparr>), True))"

definition loop_body :: "nenv \<Rightarrow> prx \<Rightarrow> prx \<times> bool" where
  "loop_body E s =
     (case s of (p, r) \<Rightarrow>
        case rx_bufs r of
          [] \<Rightarrow> (s, False)
        | buf # rest \<Rightarrow>
            if rx_payload_size r < 0 then
              (if rx_header r = [] \<and> buf = [] then (rx_raise IndexError s, False)
               else if rx_header r = [] \<and> hd buf \<noteq> 80 then (rx_gibberish BadFirstByte buf s, False)
               else
                 let n = min (length buf) (HEADER_SIZE - length (rx_header r));
                     header = rx_header r @ take n buf
                 in if length header < HEADER_SIZE \<or> length buf \<le> n
                    then ((p, r\<lparr>rx_header := header, rx_bufs := rest\<rparr>), True)
                    else
                      let s' = header_parsed header (p, r\<lparr>rx_header := header, rx_bufs := drop n buf # rest\<rparr>) in
                      if rx_run (snd s') \<noteq> Running then (s', False) else payload_phase E s')
            else payload_phase E s)"

fun buffers_loop :: "nenv \<Rightarrow> nat \<Rightarrow> prx \<Rightarrow> prx" where
  "buffers_loop E 0 s = s"
| "buffers_loop E (Suc n) s =
     (if rx_bufs (snd s) = [] \<or> rx_run (snd s) \<noteq> Running then s
      else case loop_body E s of (s', go) \<Rightarrow> if go then buffers_loop E n s' else s')"

definition rx_measure :: "rx \<Rightarrow> nat" where
  "rx_measure r = sum_list (map length (rx_bufs r)) + length (rx_bufs r)"

definition run_buffers :: "nenv \<Rightarrow> prx \<Rightarrow> prx" where
  "run_buffers E s = buffers_loop E (rx_measure (snd s)) s"

subsection \<open>The thread\<close>

text \<open>One item of the read queue; the empty marker ends the thread.\<close>

definition parse_read :: "nenv \<Rightarrow> prx \<Rightarrow> bytes \<Rightarrow> prx" where
  "parse_read E s buf =
     (case s of (p, r) \<Rightarrow>
        if rx_run r \<noteq> Running then s
        else if p_closed p then rx_stop s
        else if buf = [] then rx_stop (p_emit EvIdleClose p, r)
        else
          let bufs = rx_bufs r @ [buf] in
          if p_wait_for_header p then
            (let joined = concat bufs; pos = find_xpra_header joined 0 (2 ^ 16) in
             if pos < 0 then (p, r\<lparr>rx_bufs := [joined]\<rparr>)
             else run_buffers E (p\<lparr>p_wait_for_header := False\<rparr>, r\<lparr>rx_bufs := [drop (nat pos) joined]\<rparr>))
          else run_buffers E (p, r\<lparr>rx_bufs := bufs\<rparr>))"

definition parse_reads :: "nenv \<Rightarrow> prx \<Rightarrow> bytes list \<Rightarrow> prx" where
  "parse_reads E s bufs = foldl (parse_read E) s bufs"

text \<open>\<^verbatim>\<open>_read_parse_thread_loop\<close>: an exception that escapes is an internal error, unless closed.\<close>

definition read_parse_thread :: "nenv \<Rightarrow> proto \<Rightarrow> bytes list \<Rightarrow> proto" where
  "read_parse_thread E p bufs =
     (let (p', r) = parse_reads E (p, rx_init) bufs in
      case rx_run r of
        Raised e \<Rightarrow> internal_error ''error in network packet reading/parsing'' p'
      | _ \<Rightarrow> p')"

subsection \<open>The same parser on the flat byte stream\<close>

text \<open>
  The state of the flat machine has no buffers and no partial header: what has been received
  and not consumed is the byte list.
\<close>

definition rx_core :: "rx \<Rightarrow> rx" where
  "rx_core r = r\<lparr>rx_header := [], rx_bufs := []\<rparr>"

definition rx_flat :: "rx \<Rightarrow> bytes" where
  "rx_flat r = (if rx_payload_size r < 0 then rx_header r else []) @ concat (rx_bufs r)"

definition flat_step :: "nenv \<Rightarrow> prx \<Rightarrow> bytes \<Rightarrow> (prx \<times> bytes) option" where
  "flat_step E s b =
     (case s of (p, r) \<Rightarrow>
        if rx_run r \<noteq> Running \<or> b = [] then None
        else if rx_payload_size r < 0 then
          (if hd b \<noteq> 80 then Some (rx_gibberish BadFirstByte [hd b] s, tl b)
           else if length b \<le> 8 then None
           else Some (header_parsed (take 8 b) s, drop 8 b))
        else if int (length b) < rx_payload_size r \<or> rx_payload_size r = 0 then None
        else Some (case handle_chunk E (take (nat (rx_payload_size r)) b) s of (p', r') \<Rightarrow> (p', rx_core r'),
                   drop (nat (rx_payload_size r)) b))"

lemma flat_step_incremental:
  "flat_step E s b = Some (s', r) \<Longrightarrow> flat_step E s (b @ c) = Some (s', r @ c)"
  "flat_step E s b = Some (s', r) \<Longrightarrow> length r < length b"
  by (auto simp: flat_step_def hd_append split: if_splits prod.splits)

interpretation flat: incremental "flat_step E" for E
  by unfold_locales (fact flat_step_incremental)+

subsection \<open>Well-formed loop states\<close>

definition rx_wf :: "rx \<Rightarrow> bool" where
  "rx_wf r = ([] \<notin> set (rx_bufs r) \<and> rx_payload_size r \<noteq> 0
     \<and> (rx_payload_size r < 0 \<longrightarrow> length (rx_header r) \<le> 8 \<and> (rx_header r \<noteq> [] \<longrightarrow> hd (rx_header r) = 80)))"

lemma rx_init_wf: "rx_wf rx_init"
  by (simp add: rx_wf_def rx_init_def)

lemma concat_length: "length (concat bufs) = sum_list (map length bufs)"
  by (simp add: length_concat)

lemma take_payload_spec:
  assumes "take_payload n bufs = (raw, bufs')" and "n \<le> length (concat bufs)" and "0 < n" and "[] \<notin> set bufs"
  shows "raw = take n (concat bufs)" and "concat bufs' = drop n (concat bufs)" and "[] \<notin> set bufs'"
    and "sum_list (map length bufs') + length bufs' < sum_list (map length bufs) + length bufs"
proof -
  obtain buf rest where b: "bufs = buf # rest" using assms(2,3) by (cases bufs) auto
  consider "length buf = n" | "length buf > n" | "length buf < n" "length (concat bufs) = n"
    | "length buf < n" "length (concat bufs) > n" using assms(2) by linarith
  note c = this
  from c have all: "raw = take n (concat bufs) \<and> concat bufs' = drop n (concat bufs) \<and> [] \<notin> set bufs'
      \<and> sum_list (map length bufs') + length bufs' < sum_list (map length bufs) + length bufs"
  proof cases
    case 1
    then show ?thesis using assms b by (auto simp: take_payload_def)
  next
    case 2
    then show ?thesis using assms b by (auto simp: take_payload_def)
  next
    case 3
    then show ?thesis using assms b by (auto simp: take_payload_def Let_def)
  next
    case 4
    then have "bufs' = [drop n (concat bufs)]" "raw = take n (concat bufs)" "rest \<noteq> []"
      using assms b by (auto simp: take_payload_def Let_def)
    moreover have "length (drop n (concat bufs)) = sum_list (map length bufs) - n"
      by (simp add: length_concat)
    moreover have "1 \<le> length rest" using \<open>rest \<noteq> []\<close> by (cases rest) auto
    ultimately show ?thesis using 4 assms b by (auto simp: length_concat)
  qed
  then show "raw = take n (concat bufs)" and "concat bufs' = drop n (concat bufs)" and "[] \<notin> set bufs'"
    and "sum_list (map length bufs') + length bufs' < sum_list (map length bufs) + length bufs" by auto
qed

subsection \<open>Handling a chunk ignores the buffers and the partial header\<close>

definition score :: "prx \<Rightarrow> prx" where
  "score s = (fst s, rx_core (snd s))"

named_theorems core_simps

lemma rx_core_fields [simp]:
  "rx_header (rx_core r) = []" "rx_bufs (rx_core r) = []" "rx_payload_size (rx_core r) = rx_payload_size r"
  "rx_padding (rx_core r) = rx_padding r" "rx_index (rx_core r) = rx_index r" "rx_flags (rx_core r) = rx_flags r"
  "rx_level (rx_core r) = rx_level r" "rx_raw (rx_core r) = rx_raw r" "rx_run (rx_core r) = rx_run r"
  "rx_core (rx_core r) = rx_core r"
  by (simp_all add: rx_core_def)

lemma score_sel [simp]: "fst (score s) = fst s" "snd (score s) = rx_core (snd s)" "score (p, r) = (p, rx_core r)"
  by (simp_all add: score_def)

lemma score_stop [core_simps]: "score (rx_stop (score s)) = score (rx_stop s)"
  by (simp add: rx_stop_def rx_core_def)

lemma score_raise [core_simps]: "score (rx_raise e (score s)) = score (rx_raise e s)"
  by (simp add: rx_raise_def rx_core_def)

lemma score_invalid [core_simps]: "score (rx_invalid f d (score s)) = score (rx_invalid f d s)"
  by (simp add: rx_invalid_def rx_stop_def rx_core_def)

lemma score_gibberish [core_simps]: "score (rx_gibberish f d (score s)) = score (rx_gibberish f d s)"
  by (simp add: rx_gibberish_def rx_stop_def rx_core_def)

lemma score_store_raw [core_simps]: "score (store_raw d (score s)) = score (store_raw d s)"
  by (cases s) (simp add: store_raw_def Let_def rx_invalid_def rx_stop_def rx_core_def)

lemma score_deliver [core_simps]: "score (deliver E v (score s)) = score (deliver E v s)"
  by (cases s) (simp add: deliver_def Let_def rx_raise_def rx_core_def split: sum.split list.split)

lemma score_final [core_simps]: "score (final_chunk E d (score s)) = score (final_chunk E d s)"
proof -
  define t where "t = (fst s, (snd s)\<lparr>rx_header := []\<rparr>)"
  define res where "res = (case decode_packet (e_encoders E) d (rx_flags (snd s)) of Inl e \<Rightarrow> Inl e | Inr v \<Rightarrow> py_list v)"
  define F where "F u = (case res of
        Inl e \<Rightarrow>
          if e = InvalidPacketEncoding then rx_invalid BadEncoding d u
          else if e \<in> {ValueError, TypeError, IndexError, UnicodeError} then
            (if p_closed (fst s) then rx_stop u else rx_gibberish ParseFailed d u)
          else rx_raise e u
      | Inr packet \<Rightarrow> if p_closed (fst s) then rx_stop u else deliver E packet u)" for u
  have eq: "(fst s, (rx_core (snd s))\<lparr>rx_header := []\<rparr>) = score t"
    by (simp add: t_def rx_core_def)
  have "final_chunk E d (score s) = F (score t)"
    by (simp only: final_chunk_def Let_def eq res_def F_def score_sel rx_core_fields)
  moreover have "final_chunk E d s = F t"
    by (simp only: final_chunk_def Let_def t_def res_def F_def)
  moreover have "score (F (score t)) = score (F t)"
    by (cases res) (simp_all add: F_def core_simps del: score_sel(3))
  ultimately show ?thesis by simp
qed

lemma score_plain [core_simps]: "score (plain_chunk E d (score s)) = score (plain_chunk E d s)"
  by (auto simp: plain_chunk_def core_simps simp del: score_sel(3) split: sum.split)

lemma score_handle [core_simps]: "score (handle_chunk E d (score s)) = score (handle_chunk E d s)"
proof (cases s)
  case (Pair p r)
  have eq: "(p', rx_core r) = score (p', r)" for p' by simp
  show ?thesis
    unfolding Pair handle_chunk_def score_sel(3) prod.case
    by (auto simp: eq core_simps simp del: score_sel(3) split: sum.split)
qed

lemma stop_bufs [simp]:
  "rx_bufs (snd (rx_stop s)) = rx_bufs (snd s)" "rx_bufs (snd (rx_raise e s)) = rx_bufs (snd s)"
  "rx_bufs (snd (rx_invalid f d s)) = rx_bufs (snd s)" "rx_bufs (snd (rx_gibberish f d s)) = rx_bufs (snd s)"
  by (simp_all add: rx_stop_def rx_raise_def rx_invalid_def rx_gibberish_def)

lemma store_raw_bufs [simp]: "rx_bufs (snd (store_raw d s)) = rx_bufs (snd s)"
  by (cases s) (simp add: store_raw_def Let_def)

lemma deliver_bufs [simp]: "rx_bufs (snd (deliver E v s)) = rx_bufs (snd s)"
  by (cases s) (simp add: deliver_def Let_def split: sum.split list.split)

lemma final_chunk_bufs [simp]: "rx_bufs (snd (final_chunk E d s)) = rx_bufs (snd s)"
  by (simp add: final_chunk_def Let_def split: sum.split)

lemma plain_chunk_bufs [simp]: "rx_bufs (snd (plain_chunk E d s)) = rx_bufs (snd s)"
  by (simp add: plain_chunk_def split: sum.split)

lemma handle_chunk_bufs [simp]: "rx_bufs (snd (handle_chunk E d s)) = rx_bufs (snd s)"
  by (cases s) (simp add: handle_chunk_def split: sum.split prod.split)

subsection \<open>The loop simulates the flat machine\<close>

definition running :: "prx \<Rightarrow> bool" where
  "running s = (rx_run (snd s) = Running)"

lemma not_running [simp]:
  "\<not> running (rx_stop s)" "\<not> running (rx_raise e s)" "\<not> running (rx_invalid f d s)" "\<not> running (rx_gibberish f d s)"
  by (simp_all add: running_def rx_stop_def rx_raise_def rx_invalid_def rx_gibberish_def)

lemma running_score [simp]: "running (score s) = running s"
  by (simp add: running_def)

definition fresh :: "prx \<Rightarrow> bool" where
  "fresh s = (rx_payload_size (snd s) = -1 \<and> rx_header (snd s) = [])"

lemma store_raw_fresh: "running (store_raw d s) \<Longrightarrow> fresh (store_raw d s)"
  by (cases s) (auto simp: store_raw_def Let_def fresh_def running_def rx_invalid_def rx_stop_def split: if_splits)

lemma deliver_fresh: "rx_header (snd s) = [] \<Longrightarrow> running (deliver E v s) \<Longrightarrow> fresh (deliver E v s)"
  by (cases s) (auto simp: deliver_def Let_def fresh_def running_def rx_raise_def split: sum.splits list.splits)

lemma final_chunk_fresh:
  assumes "running (final_chunk E d s)"
  shows "fresh (final_chunk E d s)"
proof -
  obtain v where v: "final_chunk E d s = deliver E v (fst s, (snd s)\<lparr>rx_header := []\<rparr>)"
    using assms unfolding final_chunk_def Let_def by (auto split: sum.splits if_splits)
  show ?thesis using assms unfolding v by (intro deliver_fresh) auto
qed

lemma handle_chunk_fresh:
  assumes "running (handle_chunk E d s)"
  shows "fresh (handle_chunk E d s)"
proof -
  have plain: "running (plain_chunk E d s) \<Longrightarrow> fresh (plain_chunk E d s)" for d s
    by (auto simp: plain_chunk_def store_raw_fresh final_chunk_fresh split: sum.splits if_splits)
  obtain p r where s: "s = (p, r)" by (cases s)
  have "\<exists>d' p'. handle_chunk E d s = plain_chunk E d' (p', r)"
    using assms unfolding handle_chunk_def s by (auto split: sum.splits if_splits)
  then show ?thesis using assms plain by auto
qed

lemma header_parsed_score: "header_parsed h (score s) = score (header_parsed h s)"
  by (cases s) (simp add: header_parsed_def Let_def rx_raise_def rx_gibberish_def rx_stop_def rx_core_def
      split: sum.split prod.split)

lemma header_parsed_keeps [simp]:
  "rx_bufs (snd (header_parsed h s)) = rx_bufs (snd s)" "rx_header (snd (header_parsed h s)) = rx_header (snd s)"
  by (cases s; auto simp: header_parsed_def Let_def rx_raise_def rx_gibberish_def rx_stop_def
      split: sum.splits prod.splits)+

lemma header_parsed_payload: "running (header_parsed h s) \<Longrightarrow> 0 < rx_payload_size (snd (header_parsed h s))"
  by (cases s) (auto simp: header_parsed_def Let_def running_def rx_raise_def rx_gibberish_def rx_stop_def
      split: sum.splits prod.splits if_splits intro!: gr0I)

text \<open>The events of two runs agree up to the data attached to a bad first byte.\<close>

fun norm_event :: "proto_event \<Rightarrow> proto_event" where
  "norm_event (EvGibberish f d) = EvGibberish f (if f = BadFirstByte then take 1 d else d)"
| "norm_event e = e"

definition norm :: "prx \<Rightarrow> prx" where
  "norm s = ((fst s)\<lparr>p_events := map norm_event (p_events (fst s))\<rparr>, rx_core (snd s))"

lemma norm_score [simp]: "norm (score s) = norm s"
  by (simp add: norm_def)

lemma norm_gibberish: "buf \<noteq> [] \<Longrightarrow> norm (rx_gibberish BadFirstByte [hd buf] (score s)) = norm (rx_gibberish BadFirstByte buf s)"
  by (cases buf) (simp_all add: norm_def rx_gibberish_def rx_stop_def p_emit_def rx_core_def)

text \<open>\<open>sim\<close>: what the flat machine reaches from a state is what it reaches from the other.\<close>

definition sim :: "nenv \<Rightarrow> prx \<Rightarrow> prx \<Rightarrow> bool" where
  "sim E s s' = (\<exists>t b. drain (flat_step E) (score s) (rx_flat (snd s)) = drain (flat_step E) t b
     \<and> norm t = norm s'
     \<and> (running s' \<longrightarrow> t = score s' \<and> b = rx_flat (snd s'))
     \<and> (\<not> running s' \<longrightarrow> \<not> running t))"

lemma simI:
  assumes "drain (flat_step E) (score s) (rx_flat (snd s)) = drain (flat_step E) (score s') b"
    and "running s' \<Longrightarrow> b = rx_flat (snd s')"
  shows "sim E s s'"
  unfolding sim_def using assms by (intro exI [of _ "score s'"] exI [of _ b]) simp

lemma sim_refl: "sim E s s"
  by (rule simI) auto

lemma sim_trans: "sim E s s' \<Longrightarrow> running s' \<Longrightarrow> sim E s' s'' \<Longrightarrow> sim E s s''"
  unfolding sim_def by (metis running_score)

lemma sim_drain_eq: "drain (flat_step E) (score s) (rx_flat (snd s)) = drain (flat_step E) (score s1) (rx_flat (snd s1))
    \<Longrightarrow> sim E s1 s' \<Longrightarrow> sim E s s'"
  by (simp add: sim_def)

lemma payload_phase_sim:
  assumes "payload_phase E s = (s', go)" and "running s" and "rx_wf (snd s)" and "0 < rx_payload_size (snd s)"
    and "rx_bufs (snd s) \<noteq> []"
  shows "sim E s s' \<and> (running s' \<longrightarrow> rx_wf (snd s'))
    \<and> (go \<longrightarrow> rx_measure (snd s') < rx_measure (snd s))
    \<and> (\<not> go \<longrightarrow> flat_step E (score s') (rx_flat (snd s')) = None)"
proof -
  obtain p r where s: "s = (p, r)" by (cases s)
  have flat: "rx_flat r = concat (rx_bufs r)" using assms(4) by (simp add: rx_flat_def s)
  have bl: "sum_list (map length (rx_bufs r)) = length (rx_flat r)" by (simp add: flat length_concat)
  have ne: "[] \<notin> set (rx_bufs r)" using assms(3) by (simp add: rx_wf_def s)
  have ne_flat: "rx_flat r \<noteq> []" using ne assms(5) flat s by (cases "rx_bufs r") auto
  define n where "n = nat (rx_payload_size r)"
  show ?thesis
  proof (cases "int (length (rx_flat r)) < rx_payload_size r")
    case True
    then have "s' = s" "\<not> go" using assms(1) by (auto simp: payload_phase_def s bl)
    moreover have "flat_step E (score s) (rx_flat r) = None"
      using assms(2,4) True by (simp add: flat_step_def s running_def)
    ultimately show ?thesis using sim_refl [of E s] assms(3) by (simp add: s)
  next
    case False
    obtain raw bufs where tp: "take_payload n (rx_bufs r) = (raw, bufs)" by (cases "take_payload n (rx_bufs r)")
    have n: "0 < n" "n \<le> length (concat (rx_bufs r))" using assms(4) False flat by (auto simp: n_def s)
    note spec = take_payload_spec [OF tp n(2,1) ne]
    have s': "s' = handle_chunk E raw (p, r\<lparr>rx_bufs := bufs\<rparr>)" and go: go
      using assms(1) False tp by (auto simp: payload_phase_def s bl n_def)
    have bufs': "rx_bufs (snd s') = bufs" by (simp add: s')
    have core: "score (p, r\<lparr>rx_bufs := bufs\<rparr>) = score s" by (simp add: s rx_core_def)
    have step: "flat_step E (score s) (rx_flat r) = Some (score (handle_chunk E raw (score s)), concat bufs)"
      using assms(2,4) False ne_flat spec(1,2)
      by (auto simp: flat_step_def s running_def flat n_def split: prod.split)
    have eq: "score (handle_chunk E raw (score s)) = score s'"
      unfolding s' by (subst core [symmetric]) (rule score_handle)
    have "drain (flat_step E) (score s) (rx_flat r) = drain (flat_step E) (score s') (concat bufs)"
      using flat.drain_step [OF step] by (simp add: eq)
    moreover have fr: "fresh s'" if "running s'" using handle_chunk_fresh [of E raw] that by (simp add: s')
    ultimately have "sim E s s'"
      using bufs' by (intro simI [of _ _ _ "concat bufs"]) (auto simp: s rx_flat_def fresh_def)
    moreover have "running s' \<longrightarrow> rx_wf (snd s')"
      using fr bufs' spec(3) by (auto simp: rx_wf_def fresh_def)
    moreover have "rx_measure (snd s') < rx_measure (snd s)"
      using spec(4) bufs' by (simp add: rx_measure_def s)
    ultimately show ?thesis using go by simp
  qed
qed

definition good_step :: "nenv \<Rightarrow> prx \<Rightarrow> prx \<Rightarrow> bool \<Rightarrow> bool" where
  "good_step E s s' go = (sim E s s' \<and> (running s' \<longrightarrow> rx_wf (snd s'))
    \<and> (go \<longrightarrow> rx_measure (snd s') < rx_measure (snd s))
    \<and> (\<not> go \<longrightarrow> running s' \<longrightarrow> flat_step E (score s') (rx_flat (snd s')) = None))"

lemma bad_first_byte_sim:
  assumes "running (p, r)" and "rx_payload_size r < 0" and "rx_bufs r = buf # rest" and "buf \<noteq> []"
    and "rx_header r = []" and "hd buf \<noteq> 80"
  shows "sim E (p, r) (rx_gibberish BadFirstByte buf (p, r))"
proof -
  have flat: "rx_flat r = buf @ concat rest" using assms by (simp add: rx_flat_def)
  have step: "flat_step E (score (p, r)) (rx_flat r)
      = Some (rx_gibberish BadFirstByte [hd buf] (score (p, r)), tl (rx_flat r))"
    using assms by (simp add: flat_step_def running_def flat)
  show ?thesis
    unfolding sim_def snd_conv
    using flat.drain_step [OF step] norm_gibberish [OF assms(4), of "(p, r)"]
    by (intro exI [of _ "rx_gibberish BadFirstByte [hd buf] (score (p, r))"] exI [of _ "tl (rx_flat r)"])
       (simp del: score_sel(3))
qed

lemma header_bytes:
  assumes "header = rx_header r @ take n buf" and "n = min (length buf) (8 - length (rx_header r))"
    and "length (rx_header r) \<le> 8" and "rx_header r \<noteq> [] \<longrightarrow> hd (rx_header r) = 80"
    and "rx_header r = [] \<longrightarrow> hd buf = 80" and "buf \<noteq> []"
  shows "header \<noteq> [] \<longrightarrow> hd header = 80" and "length header \<le> 8"
    and "length header < 8 \<or> length buf \<le> n \<Longrightarrow> take n buf = buf"
    and "\<not> (length header < 8 \<or> length buf \<le> n) \<Longrightarrow> length header = 8 \<and> drop n buf \<noteq> []"
  using assms by (auto simp: hd_append split: if_splits)

lemma loop_body_sim:
  assumes "loop_body E s = (s', go)" and "running s" and "rx_wf (snd s)" and "rx_bufs (snd s) \<noteq> []"
  shows "good_step E s s' go"
proof (cases "rx_payload_size (snd s) < 0")
  case False
  then have "payload_phase E s = (s', go)"
    using assms(1,4) by (cases s) (auto simp: loop_body_def neq_Nil_conv)
  moreover have "0 < rx_payload_size (snd s)" using False assms(3) by (simp add: rx_wf_def)
  ultimately show ?thesis using payload_phase_sim assms by (auto simp: good_step_def)
next
  case True
  obtain p r buf rest where s: "s = (p, r)" and b: "rx_bufs r = buf # rest"
    using assms(4) by (cases s) (auto simp: neq_Nil_conv)
  have buf: "buf \<noteq> []" "[] \<notin> set rest" using assms(3) s b by (auto simp: rx_wf_def)
  have hdr: "length (rx_header r) \<le> 8" "rx_header r \<noteq> [] \<longrightarrow> hd (rx_header r) = 80"
    using assms(3) True s by (auto simp: rx_wf_def)
  have pay: "rx_payload_size r < 0" using True s by simp
  show ?thesis
  proof (cases "rx_header r = [] \<and> hd buf \<noteq> 80")
    case bad: True
    then have "s' = rx_gibberish BadFirstByte buf s" "\<not> go"
      using assms(1) s b buf pay by (auto simp: loop_body_def)
    then show ?thesis using bad_first_byte_sim [of p r buf rest E] assms(2) s b buf pay bad
      by (simp add: good_step_def)
  next
    case ok: False
    define n where "n = min (length buf) (8 - length (rx_header r))"
    define header where "header = rx_header r @ take n buf"
    note hb = header_bytes [OF header_def n_def hdr _ buf(1)]
    have ok': "rx_header r = [] \<longrightarrow> hd buf = 80" using ok by simp
    have flat: "rx_flat r = header @ drop n buf @ concat rest"
      using pay b by (simp add: rx_flat_def header_def)
    have body: "loop_body E s = (if length header < 8 \<or> length buf \<le> n
        then ((p, r\<lparr>rx_header := header, rx_bufs := rest\<rparr>), True)
        else let t = header_parsed header (p, r\<lparr>rx_header := header, rx_bufs := drop n buf # rest\<rparr>) in
             if rx_run (snd t) \<noteq> Running then (t, False) else payload_phase E t)"
      unfolding s loop_body_def Let_def HEADER_SIZE_def prod.case b list.case n_def [symmetric] header_def [symmetric]
      by (simp only: pay buf(1) ok if_True if_False simp_thms)
    show ?thesis
    proof (cases "length header < 8 \<or> length buf \<le> n")
      case part: True
      then have s': "s' = (p, r\<lparr>rx_header := header, rx_bufs := rest\<rparr>)" and go: go
        using assms(1) body by auto
      have "sim E s s'"
        using hb(3) [OF ok' part] pay b
        by (intro simI [of _ _ _ "rx_flat r"]) (auto simp: s s' rx_core_def rx_flat_def header_def)
      moreover have "rx_wf (snd s')" using hb(1,2) [OF ok'] buf(2) assms(3) s s' by (simp add: rx_wf_def)
      moreover have "rx_measure (snd s') < rx_measure (snd s)" by (simp add: s s' b rx_measure_def)
      ultimately show ?thesis using go by (simp add: good_step_def)
    next
      case full: False
      then have h8: "length header = 8" and dn: "drop n buf \<noteq> []" using hb(4) [OF ok'] by auto
      define s1 where "s1 = (p, r\<lparr>rx_header := header, rx_bufs := drop n buf # rest\<rparr>)"
      define t where "t = header_parsed header s1"
      have t_bufs: "rx_bufs (snd t) = drop n buf # rest" by (simp add: t_def s1_def)
      have core: "score s1 = score s" by (simp add: s s1_def rx_core_def)
      have hd80: "hd (rx_flat r) = 80" using hb(1) [OF ok'] h8 by (cases header) (auto simp: flat)
      have step: "flat_step E (score s) (rx_flat r) = Some (score t, drop n buf @ concat rest)"
        using assms(2) pay hd80 h8 dn core header_parsed_score [of header s1]
        by (simp add: flat_step_def s running_def flat t_def)
      have dr: "drain (flat_step E) (score s) (rx_flat r) = drain (flat_step E) (score t) (drop n buf @ concat rest)"
        by (rule flat.drain_step [OF step])
      show ?thesis
      proof (cases "running t")
        case False
        then have "s' = t" "\<not> go" using assms(1) body full by (auto simp: t_def s1_def Let_def running_def)
        moreover have "sim E s t" using dr False by (intro simI) (auto simp: s)
        ultimately show ?thesis using False by (simp add: good_step_def)
      next
        case run: True
        then have ph: "payload_phase E t = (s', go)"
          using assms(1) body full by (auto simp: t_def s1_def Let_def running_def)
        have pos: "0 < rx_payload_size (snd t)" using run header_parsed_payload by (simp add: t_def)
        have wf: "rx_wf (snd t)" using pos t_bufs dn buf(2) by (simp add: rx_wf_def)
        have ft: "rx_flat (snd t) = drop n buf @ concat rest" using pos by (simp add: rx_flat_def t_bufs)
        have "rx_measure (snd t) \<le> rx_measure (snd s)" by (simp add: rx_measure_def t_bufs s b)
        moreover have "sim E s s'" if "sim E t s'"
          using dr that ft s by (intro sim_drain_eq [of E s t s']) simp_all
        ultimately show ?thesis
          using payload_phase_sim [OF ph run wf pos] t_bufs by (auto simp: good_step_def)
      qed
    qed
  qed
qed

lemma no_bufs_stuck: "rx_wf r \<Longrightarrow> rx_bufs r = [] \<Longrightarrow> flat_step E (p, rx_core r) (rx_flat r) = None"
  by (auto simp: flat_step_def rx_flat_def rx_wf_def)

text \<open>The measure is enough fuel: when the loop ends, nothing more can be parsed.\<close>

lemma buffers_loop_sim:
  assumes "running s" and "rx_wf (snd s)" and "rx_measure (snd s) \<le> n" and "buffers_loop E n s = s'"
  shows "sim E s s' \<and> (running s' \<longrightarrow> rx_wf (snd s') \<and> flat_step E (score s') (rx_flat (snd s')) = None)"
  using assms
proof (induction n arbitrary: s)
  case 0
  then have "rx_bufs (snd s) = []" by (simp add: rx_measure_def)
  with 0 show ?case using no_bufs_stuck [of "snd s" E "fst s"] sim_refl by (auto simp: score_def)
next
  case (Suc n)
  show ?case
  proof (cases "rx_bufs (snd s) = []")
    case True
    with Suc show ?thesis using no_bufs_stuck [of "snd s" E "fst s"] sim_refl by (auto simp: score_def)
  next
    case False
    obtain t go where t: "loop_body E s = (t, go)" by (cases "loop_body E s")
    have good: "good_step E s t go" using loop_body_sim [OF t Suc.prems(1,2) False] .
    show ?thesis
    proof (cases "go \<and> running t")
      case True
      then have "sim E t s' \<and> (running s' \<longrightarrow> rx_wf (snd s') \<and> flat_step E (score s') (rx_flat (snd s')) = None)"
        using good Suc.prems False t by (intro Suc.IH) (auto simp: good_step_def running_def)
      then show ?thesis using good True by (auto simp: good_step_def intro: sim_trans)
    next
      case stop: False
      have "s' = t"
      proof (cases go)
        case True
        then have "rx_run (snd t) \<noteq> Running" using stop by (simp add: running_def)
        then have "buffers_loop E n t = t" by (cases n) auto
        then show ?thesis using Suc.prems False t True by (auto simp: running_def)
      qed (use Suc.prems False t in \<open>auto simp: running_def\<close>)
      then show ?thesis using good stop by (auto simp: good_step_def)
    qed
  qed
qed

subsection \<open>Received segments\<close>

text \<open>The processing of a packet neither closes the protocol nor makes it wait for a header again.\<close>

definition process_ok :: "nenv \<Rightarrow> bool" where
  "process_ok E = (\<forall>p pk. p_closed (e_process E p pk) = p_closed p
     \<and> p_wait_for_header (e_process E p pk) = p_wait_for_header p)"

definition opened :: "prx \<Rightarrow> bool" where
  "opened s = (\<not> p_closed (fst s) \<and> \<not> p_wait_for_header (fst s))"

lemma opened_simps [simp]:
  "opened (rx_stop s) = opened s" "opened (rx_raise e s) = opened s" "opened (rx_invalid f d s) = opened s"
  "opened (rx_gibberish f d s) = opened s" "opened (score s) = opened s"
  by (simp_all add: opened_def rx_stop_def rx_raise_def rx_invalid_def rx_gibberish_def p_emit_def)

lemma opened_fst [simp]: "opened (fst s, r) = opened s"
  by (simp add: opened_def)

lemma opened_header [simp]: "opened (header_parsed h s) = opened s"
  by (cases s) (simp add: header_parsed_def Let_def opened_def rx_raise_def rx_gibberish_def rx_stop_def p_emit_def
      split: sum.split prod.split)

lemma opened_store [simp]: "opened (store_raw d s) = opened s"
  by (cases s) (simp add: store_raw_def Let_def opened_def rx_invalid_def rx_stop_def p_emit_def)

lemma opened_deliver: "process_ok E \<Longrightarrow> opened (deliver E v s) = opened s"
  by (cases s) (simp add: deliver_def Let_def opened_def rx_raise_def p_emit_def process_ok_def split: sum.split list.split)

lemma opened_final: "process_ok E \<Longrightarrow> opened (final_chunk E d s) = opened s"
  by (simp add: final_chunk_def Let_def opened_deliver split: sum.split)

lemma opened_plain: "process_ok E \<Longrightarrow> opened (plain_chunk E d s) = opened s"
  by (simp add: plain_chunk_def opened_final split: sum.split)

lemma remove_padding_frame: "remove_padding E d n p = Inr (x, p') \<Longrightarrow> p_closed p' = p_closed p \<and> p_wait_for_header p' = p_wait_for_header p"
  by (auto simp: remove_padding_def internal_error_def p_emit_def split: if_splits sum.splits)

lemma decrypt_frame: "decrypt E d n p = Inr (x, p') \<Longrightarrow> p_closed p' = p_closed p \<and> p_wait_for_header p' = p_wait_for_header p"
  by (auto simp: decrypt_def Let_def dec_step_def split: if_splits sum.splits option.splits dest!: remove_padding_frame)

lemma opened_handle:
  assumes "process_ok E"
  shows "opened (handle_chunk E d s) = opened s"
proof -
  obtain p r where s: "s = (p, r)" by (cases s)
  have "opened (p', r) = opened (p, r)" if "decrypt E d n p = Inr (x, p')" for n x p'
    using decrypt_frame [OF that] by (simp add: opened_def)
  then show ?thesis using assms unfolding s handle_chunk_def
    by (auto simp: opened_plain split: sum.split)
qed

lemma opened_flat_step: "process_ok E \<Longrightarrow> opened s \<Longrightarrow> flat_step E s b = Some (s', r) \<Longrightarrow> opened s'"
  using opened_handle [of E "take (nat (rx_payload_size (snd s))) b" s]
  by (auto simp: flat_step_def opened_def rx_gibberish_def rx_stop_def p_emit_def split: if_splits prod.splits)
     (metis fst_conv opened_def opened_header)+

lemma opened_drain:
  assumes "process_ok E" and "opened s" and "drain (flat_step E) s b = (t, c)"
  shows "opened t"
  using flat.drain_invariant [of opened E s b] opened_flat_step [OF assms(1)] assms by auto

text \<open>One segment, and then any number of them.\<close>

definition parsed_as :: "nenv \<Rightarrow> prx \<Rightarrow> bytes \<Rightarrow> prx \<Rightarrow> bool" where
  "parsed_as E s b s' = (\<exists>t c. drain (flat_step E) (score s) (rx_flat (snd s) @ b) = (t, c)
     \<and> norm t = norm s' \<and> (running s' \<longrightarrow> t = score s' \<and> c = rx_flat (snd s'))
     \<and> (\<not> running s' \<longrightarrow> \<not> running t))"

lemma flat_stopped: "\<not> running t \<Longrightarrow> drain (flat_step E) t b = (t, b)"
  by (intro flat.drain_stuck) (cases t, auto simp: flat_step_def running_def)

lemma parse_read_drain:
  assumes "running s" and "opened s" and "rx_wf (snd s)" and "buf \<noteq> []"
  shows "parsed_as E s buf (parse_read E s buf) \<and> (running (parse_read E s buf) \<longrightarrow> rx_wf (snd (parse_read E s buf)))"
proof -
  obtain p r where s: "s = (p, r)" by (cases s)
  define u where "u = (p, r\<lparr>rx_bufs := rx_bufs r @ [buf]\<rparr>)"
  have pr: "parse_read E s buf = run_buffers E u"
    using assms by (simp add: parse_read_def s running_def opened_def u_def)
  have u: "running u" "rx_wf (snd u)" "score u = score s" "rx_flat (snd u) = rx_flat (snd s) @ buf"
    using assms by (auto simp: u_def s running_def rx_wf_def rx_core_def rx_flat_def)
  define s' where "s' = run_buffers E u"
  have sim: "sim E u s'" and st: "running s' \<longrightarrow> rx_wf (snd s') \<and> flat_step E (score s') (rx_flat (snd s')) = None"
    using buffers_loop_sim [OF u(1,2) order_refl, of E s'] by (simp_all add: s'_def run_buffers_def)
  from sim obtain t b where t: "drain (flat_step E) (score u) (rx_flat (snd u)) = drain (flat_step E) t b"
    "norm t = norm s'" "running s' \<longrightarrow> t = score s' \<and> b = rx_flat (snd s')" "\<not> running s' \<longrightarrow> \<not> running t"
    unfolding sim_def by blast
  have "drain (flat_step E) t b = (t, b)"
  proof (cases "running s'")
    case True
    then show ?thesis using st t(3) by (simp add: flat.drain_stuck)
  next
    case False
    then show ?thesis using t(4) by (intro flat_stopped) simp
  qed
  then have "parsed_as E s buf s'" using t u by (auto simp: parsed_as_def)
  then show ?thesis using st pr by (simp add: s'_def)
qed

lemma parse_reads_stopped: "\<not> running s \<Longrightarrow> parse_reads E s segs = s"
  by (induction segs) (auto simp: parse_reads_def parse_read_def running_def split: prod.split)

lemma parsed_as_trans:
  assumes "parsed_as E s a s'" and "running s'" and "parsed_as E s' b s''"
  shows "parsed_as E s (a @ b) s''"
proof -
  from assms(1,2) have "drain (flat_step E) (score s) (rx_flat (snd s) @ a) = (score s', rx_flat (snd s'))"
    by (auto simp: parsed_as_def)
  from flat.drain_append [OF this, of b] assms(3) show ?thesis by (auto simp: parsed_as_def)
qed

lemma parsed_as_stopped:
  assumes "parsed_as E s a s'" and "\<not> running s'"
  shows "parsed_as E s (a @ b) s'"
proof -
  from assms obtain t c where t: "drain (flat_step E) (score s) (rx_flat (snd s) @ a) = (t, c)"
    "norm t = norm s'" "\<not> running t" by (auto simp: parsed_as_def)
  from flat.drain_append [OF t(1), of b] t(2,3) assms(2) show ?thesis
    by (auto simp: parsed_as_def flat_stopped)
qed

lemma parse_reads_drain:
  assumes "process_ok E" and "running s" and "opened s" and "rx_wf (snd s)" and "[] \<notin> set segs" and "segs \<noteq> []"
  shows "parsed_as E s (concat segs) (parse_reads E s segs)"
  using assms(2-)
proof (induction segs arbitrary: s)
  case (Cons seg segs)
  define s' where "s' = parse_read E s seg"
  have one: "parsed_as E s seg s'" and wf: "running s' \<longrightarrow> rx_wf (snd s')"
    using parse_read_drain [of s seg E] Cons.prems by (auto simp: s'_def)
  have rest: "parse_reads E s (seg # segs) = parse_reads E s' segs" by (simp add: parse_reads_def s'_def)
  show ?case
  proof (cases "running s' \<and> segs \<noteq> []")
    case True
    have "opened s'"
    proof -
      from one True have "drain (flat_step E) (score s) (rx_flat (snd s) @ seg) = (score s', rx_flat (snd s'))"
        by (auto simp: parsed_as_def)
      from opened_drain [OF assms(1) _ this] Cons.prems show ?thesis by simp
    qed
    then have "parsed_as E s' (concat segs) (parse_reads E s' segs)"
      using Cons True wf by (intro Cons.IH) auto
    then show ?thesis using parsed_as_trans [OF one] True rest by simp
  next
    case False
    then have "segs = [] \<or> \<not> running s'" by auto
    then show ?thesis
    proof
      assume "segs = []"
      then show ?thesis using one rest by (simp add: parse_reads_def)
    next
      assume "\<not> running s'"
      then show ?thesis using parsed_as_stopped [OF one, of "concat segs"] rest by (simp add: parse_reads_stopped)
    qed
  qed
qed simp

lemma parse_reads_same:
  assumes "process_ok E" and "\<not> p_closed p" and "\<not> p_wait_for_header p"
    and "concat segs = concat segs'" and "[] \<notin> set segs" and "[] \<notin> set segs'"
  shows "norm (parse_reads E (p, rx_init) segs) = norm (parse_reads E (p, rx_init) segs')"
proof -
  have init: "running (p, rx_init)" "opened (p, rx_init)" "rx_wf (snd (p, rx_init))"
    using assms by (simp_all add: running_def opened_def rx_init_wf) (simp add: rx_init_def)
  show ?thesis
  proof (cases "segs = []")
    case True
    then have "segs' = []" using assms(4,6) by (cases segs') auto
    with True show ?thesis by simp
  next
    case False
    then have "segs' \<noteq> []" using assms(4,5) by (cases segs) auto
    with parse_reads_drain [OF assms(1) init assms(5) False]
      parse_reads_drain [OF assms(1) init assms(6)] assms(4)
    show ?thesis by (auto simp: parsed_as_def)
  qed
qed

end
