(* ===== verification/Proto_Wire.thy ===== *)
theory Proto_Wire
  imports Proto_Parse Rencode
begin

text \<open>
  The two directions of \<^verbatim>\<open>SocketProtocol\<close> together: what one end encodes, encrypts and
  queues, cut into segments in any way, is what the parse thread of the other end delivers.
\<close>

subsection \<open>Agreement of the two ends\<close>

definition compress_ok :: "nenv \<Rightarrow> proto \<Rightarrow> bool" where
  "compress_ok E ps = (\<forall>d level cl cd. length d \<le> MAX_DECOMPRESSED_SIZE \<longrightarrow> p_compress ps d level = Inr (cl, cd) \<longrightarrow>
     (if cl > 0 then decompress (e_compressors E) cd cl else Inr cd) = Inr d)"

definition encoder_ok :: "nenv \<Rightarrow> proto \<Rightarrow> bool" where
  "encoder_ok E ps = (\<forall>v b f. list_all pval_wf v \<longrightarrow> p_encode ps v = Inr (b, f) \<longrightarrow>
     b \<noteq> [] \<and> f \<in> {FLAGS_RENCODEPLUS, FLAGS_YAML}
     \<and> (\<exists>e. map_of (e_encoders E) (get_packet_encoding_type f) = Some e \<and> edecode e b = Inr (PList v)))"

text \<open>
  Sender and receiver are open and configured alike. Processing a packet is taken not to
  change the receiver (\<open>e_process\<close> is the identity), so that the agreement lasts.
\<close>

definition linked :: "nenv \<Rightarrow> proto \<Rightarrow> proto \<Rightarrow> bool" where
  "linked E ps pr =
     (opened (pr, rx_init) \<and> \<not> p_closed ps \<and> \<not> p_cipher_out ps
      \<and> (if p_cipher_out_name ps = [] then p_cipher_in_name pr = [] else cipher_link E ps pr)
      \<and> p_max_packet_size pr \<le> ABS_MAX_PACKET_SIZE
      \<and> compress_ok E ps \<and> encoder_ok E ps)"

definition env_ok :: "nenv \<Rightarrow> bool" where
  "env_ok E = (crypto_ok (e_crypto E) \<and> (\<forall>p pk. e_process E p pk = p) \<and> e_frame_header E = noframe_header)"

text \<open>What may change on either side without breaking the agreement.\<close>

definition tx_frame :: "proto \<Rightarrow> proto \<Rightarrow> bool" where
  "tx_frame p q = (\<exists>st c n. q = p\<lparr>p_output_stats := st, p_cipher_out_encryptor := c, p_ivs := n\<rparr>)"

lemma tx_frame_refl: "tx_frame p p"
  unfolding tx_frame_def by (intro exI [of _ "p_output_stats p"] exI [of _ "p_cipher_out_encryptor p"] exI [of _ "p_ivs p"]) simp

lemma tx_frame_trans: "tx_frame p q \<Longrightarrow> tx_frame q r \<Longrightarrow> tx_frame p r"
  by (auto simp: tx_frame_def) blast

lemma tx_frame_fields:
  "tx_frame p q \<Longrightarrow> p_cipher_out_name q = p_cipher_out_name p \<and> p_compress q = p_compress p \<and> p_encode q = p_encode p
     \<and> p_chunks q = p_chunks p \<and> p_closed q = p_closed p \<and> p_cipher_out q = p_cipher_out p
     \<and> p_compression_level q = p_compression_level p"
  by (auto simp: tx_frame_def)

lemma tx_frame_linked: "linked E ps pr \<Longrightarrow> tx_frame ps ps' \<Longrightarrow>
   (p_cipher_out_name ps \<noteq> [] \<Longrightarrow> cipher_link E ps' pr) \<Longrightarrow> linked E ps' pr"
  using tx_frame_fields [of ps ps'] by (auto simp: linked_def compress_ok_def encoder_ok_def)

lemma encrypt_dummy: "p_cipher_out_name ps = [] \<Longrightarrow>
  (if p_cipher_out_name ps \<noteq> [] then encrypt E data ps else Inr (data, length data, ps)) = Inr (data, length data, ps)"
  by simp

subsection \<open>One chunk on the wire\<close>

text \<open>The flags a chunk travels with.\<close>

definition wire_flags :: "nenv \<Rightarrow> proto \<Rightarrow> bool \<Rightarrow> nat \<Rightarrow> nat \<Rightarrow> nat" where
  "wire_flags E ps has_more index f =
     (let f1 = (if p_cipher_out_name ps \<noteq> [] then f OR FLAGS_CIPHER else f)
      in if index = 0 \<and> \<not> has_more then f1 OR FLAGS_FLUSH else f1)"

lemma encoder_flag_cases:
  assumes "(f :: nat) = 0 \<or> f = 16 \<or> f = 4" and "P 0" and "P 16" and "P 4"
  shows "P f"
  using assms by blast

lemma wire_flags_bits:
  assumes "f \<in> {0, FLAGS_RENCODEPLUS, FLAGS_YAML}"
  shows "wire_flags E ps has_more index f < 256"
    and "wire_flags E ps has_more index f AND FLAGS_NOHEADER = 0"
    and "(wire_flags E ps has_more index f AND FLAGS_CIPHER \<noteq> 0) = (p_cipher_out_name ps \<noteq> [])"
    and "(wire_flags E ps has_more index f AND FLAGS_FLUSH \<noteq> 0) = (index = 0 \<and> \<not> has_more)"
    and "f \<noteq> 0 \<Longrightarrow> get_packet_encoding_type (wire_flags E ps has_more index f) = get_packet_encoding_type f"
proof -
  have f: "f = 0 \<or> f = 16 \<or> f = 4" using assms by (simp add: flag_defs)
  note unf = wire_flags_def Let_def FLAGS_CIPHER_def FLAGS_FLUSH_def FLAGS_NOHEADER_def FLAGS_RENCODEPLUS_def
    FLAGS_RENCODE_def FLAGS_YAML_def get_packet_encoding_type_def
  show "wire_flags E ps has_more index f < 256"
    by (rule encoder_flag_cases [OF f]; cases "p_cipher_out_name ps = []"; cases "index = 0 \<and> \<not> has_more"; simp add: unf)
  show "wire_flags E ps has_more index f AND FLAGS_NOHEADER = 0"
    by (rule encoder_flag_cases [OF f]; cases "p_cipher_out_name ps = []"; cases "index = 0 \<and> \<not> has_more"; simp add: unf)
  show "(wire_flags E ps has_more index f AND FLAGS_CIPHER \<noteq> 0) = (p_cipher_out_name ps \<noteq> [])"
    by (rule encoder_flag_cases [OF f]; cases "p_cipher_out_name ps = []"; cases "index = 0 \<and> \<not> has_more"; simp add: unf)
  show "(wire_flags E ps has_more index f AND FLAGS_FLUSH \<noteq> 0) = (index = 0 \<and> \<not> has_more)"
    by (rule encoder_flag_cases [OF f]; cases "p_cipher_out_name ps = []"; cases "index = 0 \<and> \<not> has_more"; simp add: unf)
  show "f \<noteq> 0 \<Longrightarrow> get_packet_encoding_type (wire_flags E ps has_more index f) = get_packet_encoding_type f"
    by (rule encoder_flag_cases [OF f]; cases "p_cipher_out_name ps = []"; cases "index = 0 \<and> \<not> has_more"; simp add: unf)
qed

text \<open>What the parser knows of a chunk once its header has been read.\<close>

definition chunk_rx :: "rx \<Rightarrow> nat \<Rightarrow> nat \<Rightarrow> nat \<Rightarrow> nat \<Rightarrow> int \<Rightarrow> rx" where
  "chunk_rx r flags level index padding payload_size =
     r\<lparr>rx_flags := flags, rx_level := level, rx_index := index, rx_padding := padding, rx_payload_size := payload_size\<rparr>"

definition ready :: "prx \<Rightarrow> bool" where
  "ready s = (running s \<and> opened s \<and> fresh s \<and> rx_bufs (snd s) = [])"

lemma ready_score: "ready s \<Longrightarrow> score s = s"
  by (cases s) (simp add: ready_def fresh_def rx_core_def)

lemma flat_header_step:
  assumes "ready (pr, r)" and "pack_header f l i sz = Inr h" and "rest \<noteq> []"
  shows "flat_step E (pr, r) (h @ rest) = Some (header_parsed h (pr, r), rest)"
proof -
  have "length h = 8" using assms(2) by (rule length_pack_header)
  moreover have "hd h = 80" using pack_header_magic [OF assms(2)] \<open>length h = 8\<close> by (cases h) auto
  moreover have "h \<noteq> []" using \<open>length h = 8\<close> by auto
  ultimately show ?thesis
    using assms by (simp add: flat_step_def ready_def running_def fresh_def)
qed

lemma header_parsed_ok:
  assumes "pack_header f l i sz = Inr h" and "i < 16"
    and "(f AND FLAGS_CIPHER \<noteq> 0) = (p_cipher_in_name pr \<noteq> [])"
    and "pad_n = (if f AND FLAGS_CIPHER \<noteq> 0 then padding_for (p_cipher_in_block_size pr) (p_cipher_in_always_pad pr) sz else 0)"
    and "0 < sz + pad_n" and "sz + pad_n \<le> p_max_packet_size pr" and "p_max_packet_size pr \<le> ABS_MAX_PACKET_SIZE"
  shows "header_parsed h (pr, r) = (pr, chunk_rx r f l i pad_n (int (sz + pad_n)))"
proof -
  have "unpack_header h = Inr (80, f, l, i, sz)"
    using unpack_pack_append [OF assms(1), of "[]"] by simp
  moreover have "\<not> (f AND FLAGS_CIPHER \<noteq> 0 \<and> p_cipher_in_name pr = [])" using assms(3) by auto
  ultimately show ?thesis using assms by (auto simp: header_parsed_def Let_def chunk_rx_def)
qed

text \<open>What receiving may change in the receiver, events apart.\<close>

definition rx_frame :: "proto \<Rightarrow> proto \<Rightarrow> bool" where
  "rx_frame p q = (\<exists>d b st n ev. q = p\<lparr>p_cipher_in_decryptor := d, p_receive_pending := b, p_input_stats := st,
     p_input_packetcount := n, p_events := ev\<rparr>)"

lemma rx_frame_refl: "rx_frame p p"
  unfolding rx_frame_def
  by (intro exI [of _ "p_cipher_in_decryptor p"] exI [of _ "p_receive_pending p"] exI [of _ "p_input_stats p"]
      exI [of _ "p_input_packetcount p"] exI [of _ "p_events p"]) simp

lemma rx_frame_trans: "rx_frame p q \<Longrightarrow> rx_frame q r \<Longrightarrow> rx_frame p r"
  by (auto simp: rx_frame_def) blast

lemma rx_frame_max: "rx_frame p q \<Longrightarrow> p_max_packet_size q = p_max_packet_size p"
  by (auto simp: rx_frame_def)

lemma rx_frame_opened: "rx_frame p q \<Longrightarrow> opened (q, r) = opened (p, r')"
  by (auto simp: rx_frame_def opened_def)

lemma rx_frame_decryptor: "rx_frame pr (pr\<lparr>p_cipher_in_decryptor := d\<rparr>)"
  unfolding rx_frame_def
  by (intro exI [of _ d] exI [of _ "p_receive_pending pr"] exI [of _ "p_input_stats pr"]
      exI [of _ "p_input_packetcount pr"] exI [of _ "p_events pr"]) simp

lemma linked_receiver:
  assumes "linked E ps pr" and "rx_frame pr pr'" and "p_cipher_out_name ps \<noteq> [] \<Longrightarrow> cipher_link E ps pr'"
  shows "linked E ps pr'"
  using assms by (auto simp: linked_def rx_frame_def opened_def)

lemma cipher_link_events:
  "cipher_link E ps (pr\<lparr>p_receive_pending := b\<rparr>) = cipher_link E ps pr"
  "cipher_link E ps (pr\<lparr>p_input_stats := st, p_input_packetcount := n, p_receive_pending := b\<rparr>) = cipher_link E ps pr"
  "cipher_link E ps (p_emit e pr) = cipher_link E ps pr"
  by (cases "get_mode (e_crypto E) (p_cipher_out_name ps)";
      cases "p_cipher_in_decryptor pr"; simp add: cipher_link_def p_emit_def)+

lemma cipher_link_stats: "cipher_link E (ps\<lparr>p_output_stats := st\<rparr>) pr = cipher_link E ps pr"
  by (cases "get_mode (e_crypto E) (p_cipher_out_name ps)";
      cases "p_cipher_out_encryptor ps"; simp add: cipher_link_def)

lemma ready_frame: "ready (pr, r) \<Longrightarrow> rx_frame pr pr' \<Longrightarrow> ready (pr', r)"
  using rx_frame_opened [of pr pr' r r] by (auto simp: ready_def running_def fresh_def)

text \<open>A chunk arrives: its header is read and its payload handled, decrypted.\<close>

lemma chunk_items_wire:
  assumes "chunk_items E has_more (f, i, l, d) ps = Inr (items, ps')" and "f \<in> {0, FLAGS_RENCODEPLUS, FLAGS_YAML}"
  obtains payload sz h where "d \<noteq> []"
    and "(if p_cipher_out_name ps \<noteq> [] then encrypt E d ps else Inr (d, length d, ps)) = Inr (payload, sz, ps')"
    and "pack_header (wire_flags E ps has_more i f) l i sz = Inr h" and "concat items = h @ payload"
proof -
  have nohdr: "(if p_cipher_out_name ps \<noteq> [] then f OR FLAGS_CIPHER else f) AND FLAGS_NOHEADER = 0"
    using wire_flags_bits(2) [OF assms(2), of E ps True 1] by (simp add: wire_flags_def Let_def)
  show thesis
    using assms(1) nohdr that
    by (auto simp: chunk_items_def Let_def make_xpra_header_def wire_flags_def split: if_splits sum.splits)
qed

lemma chunk_received:
  assumes env: "env_ok E" and link: "linked E ps pr" and ready: "ready (pr, r)"
    and items: "chunk_items E has_more (f, i, l, d) ps = Inr (items, ps')"
    and f: "f \<in> {0, FLAGS_RENCODEPLUS, FLAGS_YAML}" and i: "i < 16"
    and fits: "length (concat items) \<le> p_max_packet_size pr"
  shows "\<exists>pr' pad_n n. drain (flat_step E) (pr, r) (concat items @ rest)
      = drain (flat_step E) (score (plain_chunk E d (pr', chunk_rx r (wire_flags E ps has_more i f) l i pad_n n))) rest
    \<and> tx_frame ps ps' \<and> linked E ps' pr' \<and> rx_frame pr pr' \<and> p_events pr' = p_events pr"
proof -
  obtain payload sz h where d: "d \<noteq> []"
    and enc: "(if p_cipher_out_name ps \<noteq> [] then encrypt E d ps else Inr (d, length d, ps)) = Inr (payload, sz, ps')"
    and h: "pack_header (wire_flags E ps has_more i f) l i sz = Inr h" and wire: "concat items = h @ payload"
    using items f by (rule chunk_items_wire)
  define fl where "fl = wire_flags E ps has_more i f"
  define pad_n where "pad_n = (if fl AND FLAGS_CIPHER \<noteq> 0
      then padding_for (p_cipher_in_block_size pr) (p_cipher_in_always_pad pr) sz else 0)"
  have names: "(p_cipher_out_name ps = []) = (p_cipher_in_name pr = [])"
    using link by (auto simp: linked_def cipher_link_def split: if_splits)
  have cflag: "(fl AND FLAGS_CIPHER \<noteq> 0) = (p_cipher_in_name pr \<noteq> [])"
    using wire_flags_bits(3) [OF f, of E ps has_more i] names by (simp add: fl_def)
  have key: "\<exists>pr'. length payload = sz + pad_n
      \<and> (if p_cipher_in_name pr \<noteq> [] then decrypt E payload pad_n pr = Inr (d, pr') else pr' = pr \<and> payload = d)
      \<and> tx_frame ps ps' \<and> linked E ps' pr' \<and> rx_frame pr pr' \<and> p_events pr' = p_events pr \<and> 0 < sz"
  proof (cases "p_cipher_out_name ps = []")
    case True
    then show ?thesis using enc names cflag link d tx_frame_refl rx_frame_refl by (auto simp: pad_n_def)
  next
    case False
    then have cl: "cipher_link E ps pr" using link by (simp add: linked_def)
    have ok: "crypto_ok (e_crypto E)" using env by (simp add: env_ok_def)
    obtain payload' sz' ps'' pr' where e: "encrypt E d ps = Inr (payload', sz', ps'')"
      and len: "length payload' = sz' + padding_for (p_cipher_in_block_size pr) (p_cipher_in_always_pad pr) sz'"
      and dec: "decrypt E payload' (padding_for (p_cipher_in_block_size pr) (p_cipher_in_always_pad pr) sz') pr = Inr (d, pr')"
      and cl': "cipher_link E ps'' pr'" and ge: "length d \<le> sz'"
      and ps'': "\<exists>c n. ps'' = ps\<lparr>p_cipher_out_encryptor := c, p_ivs := n\<rparr>" and pr': "\<exists>dd. pr' = pr\<lparr>p_cipher_in_decryptor := dd\<rparr>"
      using ok cl by (rule encrypt_decrypt_link)
    have same: "payload' = payload" "sz' = sz" "ps'' = ps'" using enc e False by auto
    obtain c n where "ps' = ps\<lparr>p_cipher_out_encryptor := c, p_ivs := n\<rparr>" using ps'' same by auto
    then have "ps' = ps\<lparr>p_output_stats := p_output_stats ps, p_cipher_out_encryptor := c, p_ivs := n\<rparr>" by simp
    then have tx: "tx_frame ps ps'" unfolding tx_frame_def by blast
    have rx: "rx_frame pr pr'" "p_events pr' = p_events pr" using pr' rx_frame_decryptor by auto
    have "linked E ps' pr'"
      using tx_frame_linked [OF linked_receiver [OF link rx(1)] tx] cl' same
        tx_frame_fields [OF tx] link linked_receiver [OF link rx(1)] rx
      by (auto simp: linked_def compress_ok_def encoder_ok_def rx_frame_def opened_def)
    moreover have "0 < sz" using ge d same by (cases d) auto
    moreover have "pad_n = padding_for (p_cipher_in_block_size pr) (p_cipher_in_always_pad pr) sz"
      using cflag False names by (simp add: pad_n_def)
    ultimately show ?thesis using len dec same tx rx False names by auto
  qed
  then obtain pr' where len: "length payload = sz + pad_n"
    and dec: "if p_cipher_in_name pr \<noteq> [] then decrypt E payload pad_n pr = Inr (d, pr') else pr' = pr \<and> payload = d"
    and frames: "tx_frame ps ps'" "linked E ps' pr'" "rx_frame pr pr'" "p_events pr' = p_events pr" and sz: "0 < sz"
    by blast
  define r1 where "r1 = chunk_rx r fl l i pad_n (int (sz + pad_n))"
  have "p_max_packet_size pr \<le> ABS_MAX_PACKET_SIZE" using link by (simp add: linked_def)
  then have hp: "header_parsed h (pr, r) = (pr, r1)"
    unfolding r1_def using h cflag i sz len fits wire by (intro header_parsed_ok) (auto simp: fl_def pad_n_def)
  have "payload @ rest \<noteq> []" using len sz by auto
  then have s1: "flat_step E (pr, r) (concat items @ rest) = Some ((pr, r1), payload @ rest)"
    using flat_header_step [OF ready h, of "payload @ rest" E] hp by (simp add: wire)
  have hc: "handle_chunk E payload (pr, r1) = plain_chunk E d (pr', r1)"
    using dec d cflag by (auto simp: handle_chunk_def r1_def chunk_rx_def split: if_splits)
  have "flat_step E (pr, r1) (payload @ rest) = Some (score (handle_chunk E payload (pr, r1)), rest)"
    using ready len sz by (auto simp: flat_step_def ready_def running_def r1_def chunk_rx_def split: prod.split)
  then have "drain (flat_step E) (pr, r) (concat items @ rest) = drain (flat_step E) (score (plain_chunk E d (pr', r1))) rest"
    using flat.drain_step [OF s1] flat.drain_step hc by metis
  then show ?thesis using frames unfolding r1_def fl_def by blast
qed

subsection \<open>The chunks of a packet\<close>

definition decoded :: "nenv \<Rightarrow> nat \<Rightarrow> bytes \<Rightarrow> py_error + bytes" where
  "decoded E level d = (if level > 0 then decompress (e_compressors E) d level else Inr d)"

lemma plain_chunk_raw:
  assumes "ready (pr, r)" and "decoded E l d = Inr d'" and "0 < i" and "i \<notin> fst ` set (rx_raw r)" and "length (rx_raw r) < 3"
  shows "score (plain_chunk E d (pr, chunk_rx r f l i pn n)) =
     (pr\<lparr>p_receive_pending := True\<rparr>, rx_core ((chunk_rx r f l i pn (-1))\<lparr>rx_raw := rx_raw r @ [(i, d')]\<rparr>))"
proof -
  have none: "map_of (rx_raw r) i = None" using assms(4) by (simp add: map_of_eq_None_iff)
  have snoc: "dict_set i d' xs = xs @ [(i, d')]" if "i \<notin> fst ` set xs" for xs
    using that by (induction xs) auto
  show ?thesis
    using assms none snoc [OF assms(4)]
    by (auto simp: plain_chunk_def decoded_def ready_def opened_def store_raw_def chunk_rx_def Let_def rx_core_def
        split: if_splits)
qed

definition raw_chunk_ok :: "nenv \<Rightarrow> chunk \<Rightarrow> bool" where
  "raw_chunk_ok E c = (case c of (f, i, l, d) \<Rightarrow> f = 0 \<and> 0 < i \<and> i < 16 \<and> (\<exists>d'. decoded E l d = Inr d'))"

definition raw_of :: "nenv \<Rightarrow> chunk \<Rightarrow> nat \<times> bytes" where
  "raw_of E c = (case c of (f, i, l, d) \<Rightarrow> (i, projr (decoded E l d)))"

lemma raw_chunks_received:
  assumes "env_ok E" and "linked E ps pr" and "ready (pr, r)" and "chunks_items E has_more cs ps = Inr (items, ps')"
    and "\<forall>c\<in>set cs. raw_chunk_ok E c" and "distinct (map fst (rx_raw r @ map (raw_of E) cs))"
    and "length (rx_raw r) + length cs \<le> 3" and "length (concat items) \<le> p_max_packet_size pr"
  shows "\<exists>pr' r'. drain (flat_step E) (pr, r) (concat items @ rest) = drain (flat_step E) (pr', r') rest
    \<and> ready (pr', r') \<and> rx_raw r' = rx_raw r @ map (raw_of E) cs
    \<and> tx_frame ps ps' \<and> linked E ps' pr' \<and> rx_frame pr pr' \<and> p_events pr' = p_events pr"
  using assms(2-)
proof (induction cs arbitrary: ps pr r items)
  case Nil
  then show ?case using tx_frame_refl rx_frame_refl by auto
next
  case (Cons c cs)
  obtain f i l d where c: "c = (f, i, l, d)" by (cases c)
  obtain it1 it2 ps1 where it: "chunk_items E has_more c ps = Inr (it1, ps1)"
    "chunks_items E has_more cs ps1 = Inr (it2, ps')" "items = it1 @ it2"
    using Cons.prems(3) by (auto split: sum.splits prod.splits)
  from Cons.prems(4) c obtain d' where fi: "f = 0" "0 < i" "i < 16" and d': "decoded E l d = Inr d'"
    by (auto simp: raw_chunk_ok_def)
  have raw_c: "raw_of E c = (i, d')" using d' by (simp add: raw_of_def c)
  obtain pr1 pn n where dr: "drain (flat_step E) (pr, r) (concat it1 @ concat it2 @ rest)
      = drain (flat_step E) (score (plain_chunk E d (pr1, chunk_rx r (wire_flags E ps has_more i f) l i pn n))) (concat it2 @ rest)"
    and fr: "tx_frame ps ps1" "linked E ps1 pr1" "rx_frame pr pr1" "p_events pr1 = p_events pr"
    using chunk_received [OF assms(1) Cons.prems(1,2) it(1) [unfolded c], of "concat it2 @ rest"] fi Cons.prems(7) it(3)
    by auto
  define pr2 where "pr2 = pr1\<lparr>p_receive_pending := True\<rparr>"
  define r2 where "r2 = rx_core ((chunk_rx r (wire_flags E ps has_more i f) l i pn (-1))\<lparr>rx_raw := rx_raw r @ [(i, d')]\<rparr>)"
  have "i \<notin> fst ` set (rx_raw r)" using Cons.prems(5) raw_c by auto
  then have pc: "score (plain_chunk E d (pr1, chunk_rx r (wire_flags E ps has_more i f) l i pn n)) = (pr2, r2)"
    unfolding pr2_def r2_def using d' fi Cons.prems(6) ready_frame [OF Cons.prems(2) fr(3)]
    by (intro plain_chunk_raw) auto
  have rxf: "rx_frame pr1 pr2" unfolding rx_frame_def pr2_def
    by (intro exI [of _ "p_cipher_in_decryptor pr1"] exI [of _ True] exI [of _ "p_input_stats pr1"]
        exI [of _ "p_input_packetcount pr1"] exI [of _ "p_events pr1"]) simp
  have ready2: "ready (pr2, r2)"
    using Cons.prems(2) fr(3) rx_frame_trans [OF fr(3) rxf] rx_frame_opened [of pr pr2]
    by (auto simp: ready_def running_def fresh_def r2_def chunk_rx_def)
  have link2: "linked E ps1 pr2"
    using linked_receiver [OF fr(2) rxf] fr(2) by (auto simp: linked_def pr2_def cipher_link_events split: if_splits)
  have raw2: "rx_raw r2 = rx_raw r @ [raw_of E c]" by (simp add: r2_def raw_c)
  have "\<exists>pr' r'. drain (flat_step E) (pr2, r2) (concat it2 @ rest) = drain (flat_step E) (pr', r') rest
    \<and> ready (pr', r') \<and> rx_raw r' = rx_raw r2 @ map (raw_of E) cs
    \<and> tx_frame ps1 ps' \<and> linked E ps' pr' \<and> rx_frame pr2 pr' \<and> p_events pr' = p_events pr2"
    using Cons.prems(4-7) it(3) raw2 rx_frame_max [OF rx_frame_trans [OF fr(3) rxf]]
    by (intro Cons.IH [OF link2 ready2 it(2)]) auto
  then obtain pr' r' where q: "drain (flat_step E) (pr2, r2) (concat it2 @ rest) = drain (flat_step E) (pr', r') rest"
    "ready (pr', r')" "rx_raw r' = rx_raw r2 @ map (raw_of E) cs" "tx_frame ps1 ps'" "linked E ps' pr'"
    "rx_frame pr2 pr'" "p_events pr' = p_events pr2" by blast
  have "tx_frame ps ps'" using fr(1) q(4) by (rule tx_frame_trans)
  moreover have "rx_frame pr pr'" using rx_frame_trans [OF fr(3) rxf] q(6) by (rule rx_frame_trans)
  moreover have "p_events pr' = p_events pr" using q(7) fr(4) by (simp add: pr2_def)
  moreover have "drain (flat_step E) (pr, r) (concat items @ rest) = drain (flat_step E) (pr', r') rest"
    using dr pc q(1) it(3) by simp
  moreover have "rx_raw r' = rx_raw r @ map (raw_of E) (c # cs)" using q(3) raw2 by simp
  ultimately show ?case using q(2,5) by blast
qed

subsection \<open>What the encoder makes of a packet\<close>

text \<open>Items travel in chunks of their own when the protocol allows it and they are not inlined.\<close>

definition chunked :: "proto \<Rightarrow> item \<Rightarrow> bool" where
  "chunked p it = (case it of CompItem c \<Rightarrow> p_chunks p \<and> (\<not> comp_can_inline c \<or> compressed_len c > INLINE_SIZE) | _ \<Rightarrow> False)"

definition comp_level :: "compressed \<Rightarrow> nat" where
  "comp_level c = (case c of LevelCompressed _ _ level _ _ \<Rightarrow> level | Compressed _ _ _ \<Rightarrow> 0)"

definition placeholder :: "proto \<Rightarrow> item \<Rightarrow> pval" where
  "placeholder p it = (if chunked p it then PBytes [] else item_value it)"

definition item_chunk :: "proto \<Rightarrow> nat \<Rightarrow> item \<Rightarrow> chunk list" where
  "item_chunk p i it = (case it of CompItem c \<Rightarrow> if chunked p it then [(0, i, comp_level c, comp_data c)] else [] | _ \<Rightarrow> [])"

fun item_chunks :: "proto \<Rightarrow> nat \<Rightarrow> item list \<Rightarrow> chunk list" where
  "item_chunks p i [] = []"
| "item_chunks p i (it # its) = item_chunk p i it @ item_chunks p (Suc i) its"

text \<open>What the receiver is to find in the item's place.\<close>

definition received :: "nenv \<Rightarrow> proto \<Rightarrow> item \<Rightarrow> pval" where
  "received E p it =
     (case it of
        CompItem c \<Rightarrow> if chunked p it then PBytes (projr (decoded E (comp_level c) (comp_data c))) else PBytes (comp_data c)
      | _ \<Rightarrow> item_value it)"

definition sendable :: "nenv \<Rightarrow> proto \<Rightarrow> item \<Rightarrow> bool" where
  "sendable E p it =
     (case it of
        Value v \<Rightarrow> packet_element v
      | CompItem c \<Rightarrow> chunked p it \<longrightarrow> (\<exists>d. decoded E (comp_level c) (comp_data c) = Inr d)
      | LargeItem v \<Rightarrow> pval_len v \<noteq> None
      | ViewItem b \<Rightarrow> True
      | IntEnumItem n \<Rightarrow> True
      | _ \<Rightarrow> False)"

definition packet_ok :: "nenv \<Rightarrow> proto \<Rightarrow> item list \<Rightarrow> bool" where
  "packet_ok E p its =
     (length its \<le> 16 \<and> (\<exists>t r. its = Value (PStr t) # r) \<and> list_all (sendable E p) its
      \<and> list_all pval_wf (map item_value its)
      \<and> length (item_chunks p 0 its) \<le> 3
      \<and> (case p_encode p (map (placeholder p) its) of Inr (main, f) \<Rightarrow> length main \<le> MAX_DECOMPRESSED_SIZE | Inl _ \<Rightarrow> True))"

lemma list_update_mid: "length pre = i \<Longrightarrow> (pre @ x # post)[i := y] = pre @ y # post"
  by (simp add: list_update_append)

lemma encode_item_sendable:
  assumes "sendable E p it" and "a_packet a = pre @ item_value it # post" and "length pre = i"
  shows "\<exists>k. encode_item p i it a = Inr \<lparr>a_packet = pre @ placeholder p it # post,
     a_chunks = a_chunks a @ item_chunk p i it, a_inlined = k\<rparr>"
proof -
  obtain ch m where a: "a = \<lparr>a_packet = pre @ item_value it # post, a_chunks = ch, a_inlined = m\<rparr>"
    using assms(2) by (cases a) auto
  note unf = encode_item_def item_plain_def item_len_def encode_special_def acc_set_def acc_chunk_def
    placeholder_def item_chunk_def chunked_def comp_level_def item_value_def Let_def sendable_def
  show ?thesis
  proof (cases it)
    case (CompItem c)
    then show ?thesis
      using assms(1) list_update_mid [OF assms(3)] by (cases c) (auto simp: unf a)
  qed (use assms(1) list_update_mid [OF assms(3)] in \<open>auto simp: unf a\<close>)
qed

lemma encode_items_sendable:
  assumes "list_all (sendable E p) its" and "a_packet a = pre @ map item_value its" and "length pre = i"
  shows "\<exists>k. encode_items p i its a = Inr \<lparr>a_packet = pre @ map (placeholder p) its,
     a_chunks = a_chunks a @ item_chunks p i its, a_inlined = k\<rparr>"
  using assms
proof (induction its arbitrary: i a pre)
  case Nil
  then show ?case by (cases a) auto
next
  case (Cons it its)
  then obtain k where one: "encode_item p i it a = Inr \<lparr>a_packet = pre @ placeholder p it # map item_value its,
     a_chunks = a_chunks a @ item_chunk p i it, a_inlined = k\<rparr>"
    using encode_item_sendable [of E p it a pre "map item_value its" i] by auto
  show ?case
    using Cons.IH [of "\<lparr>a_packet = pre @ placeholder p it # map item_value its,
        a_chunks = a_chunks a @ item_chunk p i it, a_inlined = k\<rparr>" "pre @ [placeholder p it]" "Suc i"] Cons.prems
    by (simp add: one)
qed

text \<open>The raw chunks put back give every item in its received form.\<close>

lemma fill_received:
  assumes "length pre = i"
  shows "fill_raw (pre @ map (placeholder p) its) (map (raw_of E) (item_chunks p i its)) = Inr (pre @ map (received E p) its)"
  using assms
proof (induction its arbitrary: i pre)
  case (Cons it its)
  show ?case
  proof (cases "\<exists>c. it = CompItem c \<and> chunked p it")
    case True
    then obtain c where c: "it = CompItem c" "chunked p (CompItem c)" by auto
    show ?thesis
      using Cons.IH [of "pre @ [received E p it]" "Suc i"] Cons.prems c list_update_mid [OF Cons.prems]
      by (simp add: item_chunk_def raw_of_def received_def)
  next
    case False
    then have "item_chunk p i it = []" "placeholder p it = received E p it"
      by (auto simp: item_chunk_def placeholder_def received_def chunked_def item_value_def split: item.split)
    then show ?thesis using Cons.IH [of "pre @ [received E p it]" "Suc i"] Cons.prems by simp
  qed
qed simp

lemma item_chunks_indices: "c \<in> set (item_chunks p i its) \<Longrightarrow> fst c = 0 \<and> i \<le> fst (snd c) \<and> fst (snd c) < i + length its"
  by (induction its arbitrary: i) (fastforce simp: item_chunk_def split: item.splits if_splits)+

lemma item_chunks_distinct: "distinct (map (\<lambda>c. fst (snd c)) (item_chunks p i its))"
proof (induction its arbitrary: i)
  case (Cons it its)
  then show ?case
    using item_chunks_indices [of _ p "Suc i" its] by (fastforce simp: item_chunk_def split: item.split)
qed simp

lemma item_chunks_ok:
  assumes "packet_ok E p its" and "c \<in> set (item_chunks p 0 its)"
  shows "raw_chunk_ok E c"
proof -
  from assms(1) obtain t r where its: "its = Value (PStr t) # r" by (auto simp: packet_ok_def)
  then have c1: "c \<in> set (item_chunks p 1 r)" using assms(2) by (simp add: item_chunk_def)
  have dec: "\<exists>d'. decoded E (fst (snd (snd c))) (snd (snd (snd c))) = Inr d'"
    if "list_all (sendable E p) r" "c \<in> set (item_chunks p i r)" for i r
    using that
    by (induction r arbitrary: i) (fastforce simp: item_chunk_def sendable_def split: item.splits if_splits)+
  show ?thesis
    using item_chunks_indices [OF c1] dec [OF _ c1] assms(1) its
    by (cases c) (auto simp: raw_chunk_ok_def packet_ok_def)
qed

subsection \<open>A whole packet\<close>

lemma received_element: "sendable E p it \<Longrightarrow> packet_element (received E p it)"
  by (auto simp: sendable_def received_def item_value_def packet_element_def pval_len_def split: item.splits pval.splits)

lemma final_chunk_received:
  assumes "env_ok E" and "ready (pr, r)" and "decoded E l d = Inr main"
    and "p_encode ps v = Inr (main, f)" and "linked E ps pr"
    and "fill_raw v (rx_raw r) = Inr (PStr t # vs)" and "list_all packet_element vs" and "list_all pval_wf v"
  shows "\<exists>pr' r'. score (plain_chunk E d (pr, chunk_rx r (wire_flags E ps0 has_more 0 f) l 0 pn n)) = (pr', r')
    \<and> ready (pr', r') \<and> rx_raw r' = [] \<and> rx_frame pr pr' \<and> p_events pr' = p_events pr @ [EvProcess (PStr t # vs)]
    \<and> linked E ps pr'"
proof -
  let ?fl = "wire_flags E ps0 has_more 0 f"
  from assms(4,5,8) have f': "f \<in> {FLAGS_RENCODEPLUS, FLAGS_YAML}"
    and dec: "\<exists>e. map_of (e_encoders E) (get_packet_encoding_type f) = Some e \<and> edecode e main = Inr (PList v)"
    by (auto simp: linked_def encoder_ok_def)
  from f' have f: "f \<in> {0, FLAGS_RENCODEPLUS, FLAGS_YAML}" "f \<noteq> 0" by (auto simp: flag_defs)
  from dec have "decode_packet (e_encoders E) main ?fl = Inr (PList v)"
    using wire_flags_bits(5) [OF f(1,2)] by (auto simp: decode_packet_def)
  moreover note assms(7)
  moreover have "\<not> p_closed pr" using assms(2) by (simp add: ready_def opened_def)
  ultimately obtain st pc b where res: "score (plain_chunk E d (pr, chunk_rx r ?fl l 0 pn n)) =
      (p_emit (EvProcess (PStr t # vs)) (pr\<lparr>p_input_stats := st, p_input_packetcount := pc, p_receive_pending := b\<rparr>),
       rx_core ((chunk_rx r ?fl l 0 pn (-1))\<lparr>rx_raw := []\<rparr>))"
    using assms(1,3,6)
    by (auto simp: plain_chunk_def decoded_def final_chunk_def deliver_def py_list_def py_sequence_def mk_packet_def
        env_ok_def chunk_rx_def Let_def rx_core_def split: if_splits)
  define pr' where "pr' = p_emit (EvProcess (PStr t # vs)) (pr\<lparr>p_input_stats := st, p_input_packetcount := pc, p_receive_pending := b\<rparr>)"
  define r' where "r' = rx_core ((chunk_rx r ?fl l 0 pn (-1))\<lparr>rx_raw := []\<rparr>)"
  have rxf: "rx_frame pr pr'" unfolding rx_frame_def pr'_def p_emit_def
    by (intro exI [of _ "p_cipher_in_decryptor pr"] exI [of _ b] exI [of _ st] exI [of _ pc]
        exI [of _ "p_events pr @ [EvProcess (PStr t # vs)]"]) simp
  have "cipher_link E ps pr' = cipher_link E ps pr"
    unfolding pr'_def
    by (cases "get_mode (e_crypto E) (p_cipher_out_name ps)"; cases "p_cipher_in_decryptor pr";
        simp add: cipher_link_def p_emit_def)
  then have "linked E ps pr'"
    using linked_receiver [OF assms(5) rxf] assms(5) by (auto simp: linked_def split: if_splits)
  moreover have "ready (pr', r')"
    using assms(2) rx_frame_opened [OF rxf] by (auto simp: ready_def running_def fresh_def r'_def chunk_rx_def)
  ultimately show ?thesis using res rxf unfolding pr'_def [symmetric] r'_def [symmetric]
    by (intro exI [of _ pr'] exI [of _ r']) (simp add: r'_def pr'_def p_emit_def)
qed

lemma chunked_frame: "tx_frame p q \<Longrightarrow> chunked q = chunked p \<and> received E q = received E p"
  by (auto simp: fun_eq_iff chunked_def received_def dest!: tx_frame_fields split: item.split)

lemma placeholders_wf: "packet_ok E p its \<Longrightarrow> list_all pval_wf (map (placeholder p) its)"
  by (auto simp: packet_ok_def list_all_iff placeholder_def split: item.split)

lemma encode_packet:
  assumes "encode E its ps = Inr (chunks, ps')" and "packet_ok E ps its" and "compress_ok E ps" and "encoder_ok E ps" and "\<not> p_closed ps"
  obtains f l d main where "chunks = item_chunks ps 0 its @ [(f, 0, l, d)]"
    and "p_encode ps (map (placeholder ps) its) = Inr (main, f)" and "decoded E l d = Inr main"
    and "f \<in> {FLAGS_RENCODEPLUS, FLAGS_YAML}" and "tx_frame ps ps'"
proof -
  obtain t r where its: "its = Value (PStr t) # r" using assms(2) by (auto simp: packet_ok_def)
  have "\<exists>k. encode_items ps 0 its \<lparr>a_packet = map item_value its, a_chunks = [], a_inlined = 0\<rparr> =
      Inr \<lparr>a_packet = map (placeholder ps) its, a_chunks = item_chunks ps 0 its, a_inlined = k\<rparr>"
    using encode_items_sendable [of E ps its "\<lparr>a_packet = map item_value its, a_chunks = [], a_inlined = 0\<rparr>" "[]" 0] assms(2)
    by (auto simp: packet_ok_def)
  then obtain k where k: "encode_items ps 0 its \<lparr>a_packet = map item_value its, a_chunks = [], a_inlined = 0\<rparr> =
      Inr \<lparr>a_packet = map (placeholder ps) its, a_chunks = item_chunks ps 0 its, a_inlined = k\<rparr>" by blast
  obtain stats where ps': "ps' = ps\<lparr>p_output_stats := stats\<rparr>"
    and de: "do_encode ps' (map (placeholder ps) its) (item_chunks ps 0 its) k = Inr chunks"
    using assms(1) k its by (auto simp: encode_def Let_def split: sum.splits)
  have cl: "\<not> p_closed ps'" using assms(5) ps' by simp
  have tx: "tx_frame ps ps'" unfolding tx_frame_def ps'
    by (intro exI [of _ stats] exI [of _ "p_cipher_out_encryptor ps"] exI [of _ "p_ivs ps"]) simp
  obtain f l d main where ch: "chunks = item_chunks ps 0 its @ [(f, 0, l, d)]"
    and enc: "p_encode ps' (map (placeholder ps) its) = Inr (main, f)"
    and lv: "l = 0 \<and> d = main \<or> p_compress ps' main (p_compression_level ps') = Inr (l, d)"
    using de cl by (rule do_encode_last)
  have enc': "p_encode ps (map (placeholder ps) its) = Inr (main, f)" using enc ps' by simp
  have "decoded E l d = Inr main"
    using lv
  proof
    assume "p_compress ps' main (p_compression_level ps') = Inr (l, d)"
    then show ?thesis using assms(2,3) ps' enc' by (auto simp: compress_ok_def decoded_def packet_ok_def)
  qed (simp add: decoded_def)
  moreover have "f \<in> {FLAGS_RENCODEPLUS, FLAGS_YAML}"
    using assms(4) enc' placeholders_wf [OF assms(2)] unfolding encoder_ok_def by blast
  ultimately show thesis using that [OF ch enc' _ _ tx] by blast
qed

lemma packet_received:
  assumes env: "env_ok E" and link: "linked E ps pr" and ready: "ready (pr, r)" and raw: "rx_raw r = []"
    and pok: "packet_ok E ps its" and enc: "encode E its ps = Inr (chunks, ps1)"
    and add: "add_chunks_to_queue E chunks has_more ps1 = Inr (items, ps')"
    and fits: "length (concat items) \<le> p_max_packet_size pr"
  shows "\<exists>pr' r'. drain (flat_step E) (pr, r) (concat items @ rest) = drain (flat_step E) (pr', r') rest
    \<and> ready (pr', r') \<and> rx_raw r' = [] \<and> rx_frame pr pr' \<and> tx_frame ps ps' \<and> linked E ps' pr'
    \<and> p_events pr' = p_events pr @ [EvProcess (map (received E ps) its)]"
proof -
  have agree: "compress_ok E ps" "encoder_ok E ps" "\<not> p_closed ps" using link by (auto simp: linked_def)
  obtain f l d main where ch: "chunks = item_chunks ps 0 its @ [(f, 0, l, d)]"
    and pe: "p_encode ps (map (placeholder ps) its) = Inr (main, f)" and dec: "decoded E l d = Inr main"
    and f: "f \<in> {FLAGS_RENCODEPLUS, FLAGS_YAML}" and tx1: "tx_frame ps ps1"
    using enc pok agree by (rule encode_packet)
  have "chunks_items E has_more chunks ps1 = Inr (items, ps')"
    using add env by (simp add: add_chunks_noframe env_ok_def)
  then obtain it1 ps2 it2 where it1: "chunks_items E has_more (item_chunks ps 0 its) ps1 = Inr (it1, ps2)"
    and it2: "chunk_items E has_more (f, 0, l, d) ps2 = Inr (it2, ps')" and items: "items = it1 @ it2"
    unfolding ch chunks_items_append by (auto split: sum.splits prod.splits)
  have link1: "linked E ps1 pr"
  proof (rule tx_frame_linked [OF link tx1])
    assume "p_cipher_out_name ps \<noteq> []"
    then have "cipher_link E ps pr" using link by (simp add: linked_def)
    moreover have "\<exists>st. ps1 = ps\<lparr>p_output_stats := st\<rparr>"
      using enc by (auto simp: encode_def Let_def split: list.splits sum.splits)
    ultimately show "cipher_link E ps1 pr" by (auto simp: cipher_link_stats)
  qed
  have raws: "map fst (rx_raw r @ map (raw_of E) (item_chunks ps 0 its)) = map (\<lambda>c. fst (snd c)) (item_chunks ps 0 its)"
    by (auto simp: raw raw_of_def)
  have dist: "distinct (map fst (rx_raw r @ map (raw_of E) (item_chunks ps 0 its)))"
    unfolding raws by (rule item_chunks_distinct)
  have len3: "length (item_chunks ps 0 its) \<le> 3" using pok by (simp add: packet_ok_def)
  obtain pr1 r1 where a: "drain (flat_step E) (pr, r) (concat it1 @ concat it2 @ rest) = drain (flat_step E) (pr1, r1) (concat it2 @ rest)"
    "ready (pr1, r1)" "rx_raw r1 = map (raw_of E) (item_chunks ps 0 its)" "tx_frame ps1 ps2" "linked E ps2 pr1"
    "rx_frame pr pr1" "p_events pr1 = p_events pr"
    using raw_chunks_received [OF env link1 ready it1 _ dist, of "concat it2 @ rest"] item_chunks_ok [OF pok]
      raw len3 fits items by auto
  have f0: "f \<in> {0, FLAGS_RENCODEPLUS, FLAGS_YAML}" using f by auto
  obtain pr2 pn n where b: "drain (flat_step E) (pr1, r1) (concat it2 @ rest)
      = drain (flat_step E) (score (plain_chunk E d (pr2, chunk_rx r1 (wire_flags E ps2 has_more 0 f) l 0 pn n))) rest"
    "tx_frame ps2 ps'" "linked E ps' pr2" "rx_frame pr1 pr2" "p_events pr2 = p_events pr1"
    using chunk_received [OF env a(5,2) it2 f0, of rest] fits items rx_frame_max [OF a(6)] by auto
  have tx: "tx_frame ps ps'" using tx1 a(4) b(2) tx_frame_trans by blast
  obtain t its' where its: "its = Value (PStr t) # its'" and send: "list_all (sendable E ps) its'"
    using pok by (auto simp: packet_ok_def)
  define vs where "vs = map (received E ps) its'"
  have rc: "map (received E ps) its = PStr t # vs" by (simp add: its vs_def received_def item_value_def)
  have nn: "list_all packet_element vs"
    using send received_element by (auto simp: vs_def list_all_iff)
  have fill: "fill_raw (map (placeholder ps) its) (rx_raw r1) = Inr (PStr t # vs)"
    using fill_received [of "[]" 0 ps its E] a(3) rc by simp
  have pe': "p_encode ps' (map (placeholder ps) its) = Inr (main, f)" using pe tx_frame_fields [OF tx] by simp
  obtain pr' r' where c: "score (plain_chunk E d (pr2, chunk_rx r1 (wire_flags E ps2 has_more 0 f) l 0 pn n)) = (pr', r')"
    "ready (pr', r')" "rx_raw r' = []" "rx_frame pr2 pr'" "p_events pr' = p_events pr2 @ [EvProcess (PStr t # vs)]" "linked E ps' pr'"
    using final_chunk_received [OF env ready_frame [OF a(2) b(4)] dec pe' b(3) fill nn placeholders_wf [OF pok], of ps2 has_more pn n] by blast
  have "rx_frame pr pr'" using a(6) b(4) c(4) rx_frame_trans by blast
  then show ?thesis using a(1,7) b(1,5) c tx items rc by (intro exI [of _ pr'] exI [of _ r']) simp
qed

subsection \<open>A stream of packets\<close>

text \<open>The sender's side: each packet is encoded and queued; \<open>has_more\<close> is what its source says.\<close>

fun transmit :: "nenv \<Rightarrow> (bool \<times> item list) list \<Rightarrow> proto \<Rightarrow> py_error + (bytes list \<times> proto)" where
  "transmit E [] ps = Inr ([], ps)"
| "transmit E ((has_more, its) # pks) ps =
     (case encode E its ps of
        Inl e \<Rightarrow> Inl e
      | Inr (chunks, ps1) \<Rightarrow>
          (case add_chunks_to_queue E chunks has_more ps1 of
             Inl e \<Rightarrow> Inl e
           | Inr (items, ps2) \<Rightarrow>
               (case transmit E pks ps2 of Inl e \<Rightarrow> Inl e | Inr (ws, ps3) \<Rightarrow> Inr (concat items # ws, ps3))))"

lemma packet_ok_frame: "tx_frame p q \<Longrightarrow> packet_ok E q its = packet_ok E p its"
proof -
  assume f: "tx_frame p q"
  have c: "chunked q = chunked p" using chunked_frame [OF f] by blast
  have "item_chunks q i its = item_chunks p i its" for i
    by (induction its arbitrary: i) (simp_all add: item_chunk_def c split: item.split)
  moreover have "sendable E q = sendable E p" by (simp add: fun_eq_iff sendable_def c split: item.split)
  moreover have "placeholder q = placeholder p" by (simp add: fun_eq_iff placeholder_def c)
  ultimately show ?thesis using tx_frame_fields [OF f] by (simp add: packet_ok_def)
qed

lemma transmit_received:
  assumes "env_ok E" and "linked E ps pr" and "ready (pr, r)" and "rx_raw r = []"
    and "\<forall>(m, its)\<in>set pks. packet_ok E ps its" and "transmit E pks ps = Inr (ws, ps')"
    and "\<forall>w\<in>set ws. length w \<le> p_max_packet_size pr"
  shows "\<exists>pr' r'. drain (flat_step E) (pr, r) (concat ws) = ((pr', r'), [])
    \<and> ready (pr', r') \<and> linked E ps' pr'
    \<and> p_events pr' = p_events pr @ map (\<lambda>(m, its). EvProcess (map (received E ps) its)) pks"
  using assms(2-)
proof (induction pks arbitrary: ps pr r ws)
  case Nil
  then show ?case by (auto simp: flat.drain_stuck)
next
  case (Cons mi pks)
  obtain m its where mi: "mi = (m, its)" by (cases mi)
  obtain chunks ps1 items ps2 ws2 where enc: "encode E its ps = Inr (chunks, ps1)"
    and add: "add_chunks_to_queue E chunks m ps1 = Inr (items, ps2)"
    and rest: "transmit E pks ps2 = Inr (ws2, ps')" and ws: "ws = concat items # ws2"
    using Cons.prems(5) mi by (auto split: sum.splits prod.splits)
  obtain pr2 r2 where a: "drain (flat_step E) (pr, r) (concat items @ concat ws2) = drain (flat_step E) (pr2, r2) (concat ws2)"
    "ready (pr2, r2)" "rx_raw r2 = []" "rx_frame pr pr2" "tx_frame ps ps2" "linked E ps2 pr2"
    "p_events pr2 = p_events pr @ [EvProcess (map (received E ps) its)]"
    using packet_received [OF assms(1) Cons.prems(1-3) _ enc add, of "concat ws2"] Cons.prems(4,6) mi ws by auto
  have ok: "\<forall>(m, its)\<in>set pks. packet_ok E ps2 its" using Cons.prems(4) packet_ok_frame [OF a(5)] by auto
  have fits: "\<forall>w\<in>set ws2. length w \<le> p_max_packet_size pr2" using Cons.prems(6) ws rx_frame_max [OF a(4)] by simp
  have "received E ps2 = received E ps" using chunked_frame [OF a(5)] by blast
  with Cons.IH [OF a(6,2,3) ok rest fits] show ?case using a(1,7) ws mi by simp
qed

lemma transmit_parsed:
  assumes "env_ok E" and "linked E ps pr" and "\<forall>(m, its)\<in>set pks. packet_ok E ps its"
    and "transmit E pks ps = Inr (ws, ps')" and "\<forall>w\<in>set ws. length w \<le> p_max_packet_size pr"
    and "concat segs = concat ws" and "[] \<notin> set segs"
  shows "p_events (fst (parse_reads E (pr, rx_init) segs))
    = p_events pr @ map (\<lambda>(m, its). EvProcess (map (received E ps) its)) pks"
proof -
  have opened: "opened (pr, rx_init)" using assms(2) by (simp add: linked_def)
  have run: "running (pr, rx_init)" by (simp add: running_def rx_init_def)
  have ready: "ready (pr, rx_init)" using opened run by (simp add: ready_def fresh_def rx_init_def)
  have sc: "score (pr, rx_init) = (pr, rx_init)" "rx_flat rx_init = []"
    by (simp_all add: rx_core_def rx_init_def rx_flat_def)
  obtain pr' r' where t: "drain (flat_step E) (pr, rx_init) (concat ws) = ((pr', r'), [])" "ready (pr', r')"
    "p_events pr' = p_events pr @ map (\<lambda>(m, its). EvProcess (map (received E ps) its)) pks"
    using transmit_received [OF assms(1,2) ready _ assms(3,4,5)] by (auto simp: rx_init_def)
  show ?thesis
  proof (cases "segs = []")
    case True
    then have c0: "concat ws = []" using assms(6) by simp
    have "drain (flat_step E) (pr, rx_init) [] = ((pr, rx_init), [])" by (rule flat.drain_stuck) (rule flat.step_Nil)
    then have "(pr', r') = (pr, rx_init)" using t(1) unfolding c0 by simp
    then show ?thesis using True t(3) by (simp add: parse_reads_def)
  next
    case False
    have "process_ok E" using assms(1) by (simp add: process_ok_def env_ok_def)
    from parse_reads_drain [OF this run opened _ assms(7) False] rx_init_wf
    have "parsed_as E (pr, rx_init) (concat segs) (parse_reads E (pr, rx_init) segs)" by simp
    then show ?thesis using t sc assms(6) by (auto simp: parsed_as_def ready_def score_def prod_eq_iff)
  qed
qed

subsection \<open>Where the agreement comes from\<close>

lemma enabled_compress_ok:
  assumes "init_all_compressors enabled lz4 brotli = Inr (e_compressors E)" and "libs_ok lz4 brotli"
    and "enable_compressor E name p = Inr q"
  shows "compress_ok E q"
proof -
  obtain c where "map_of (e_compressors E) name = Some c" "p_compress q = ccompress c"
    using assms(3) by (auto simp: enable_compressor_def get_compressor_def split: sum.splits option.splits)
  then show ?thesis
    using registry_roundtrip [OF assms(1,2), of name c] by (auto simp: compress_ok_def)
qed

lemma rencodeplus_encoder_ok:
  assumes "map_of (e_encoders E) ''rencodeplus'' = Some (init_rencodeplus rencodeplus_module)"
    and "p_encode q = do_rencodeplus rencodeplus_module"
  shows "encoder_ok E q"
proof -
  have "b \<noteq> []" if "rencodeplus_dumps rencodeplus_module v = Inr b" for v b
    using that dumps_nonempty by (auto simp: rencodeplus_module_def)
  then show ?thesis
    using assms rencodeplus_module_ok
    by (auto simp: encoder_ok_def do_rencodeplus_def rencodeplus_ok_def init_rencodeplus_def get_packet_encoding_type_def flag_defs)
qed

lemma enabled_encoder_ok:
  assumes "map_of (e_encoders E) ''rencodeplus'' = Some (init_rencodeplus rencodeplus_module)"
    and "enable_encoder E ''rencodeplus'' p = Inr q"
  shows "encoder_ok E q"
proof -
  have "p_encode q = do_rencodeplus rencodeplus_module"
    using assms by (auto simp: enable_encoder_def get_encoder_def VALID_ENCODERS_def init_rencodeplus_def split: sum.splits)
  then show ?thesis by (rule rencodeplus_encoder_ok [OF assms(1)])
qed

subsection \<open>Properties\<close>


text \<open>Two ends without a cipher, with the serialiser of the code.\<close>

definition wire_env :: nenv where
  "wire_env = toy_env\<lparr>e_encoders := [(''rencodeplus'', init_rencodeplus rencodeplus_module)], e_frame_header := noframe_header\<rparr>"

definition wire_out :: proto where
  "wire_out = proto_init False (do_rencodeplus rencodeplus_module) nocompress"

definition wire_bytes :: bytes where
  "wire_bytes = [80, 0, 0, 1, 0, 0, 0, 2, 7, 8, 80, 24, 0, 0, 0, 0, 0, 5, 194, 129, 97, 48, 47]"

definition wire_items :: "item list" where
  "wire_items = [Value (PStr ''a''), CompItem (Compressed ''x'' [7, 8] False)]"

lemma wire_env_ok: "env_ok wire_env"
  using toy_crypto_ok by (simp add: env_ok_def wire_env_def toy_env_def)

lemma wire_linked: "linked wire_env wire_out wire_out"
proof -
  have "encoder_ok wire_env wire_out"
    by (rule rencodeplus_encoder_ok) (simp_all add: wire_env_def wire_out_def proto_init_def)
  moreover have "compress_ok wire_env wire_out"
    by (simp add: compress_ok_def wire_out_def proto_init_def nocompress_def)
  ultimately show ?thesis
    by (simp add: linked_def wire_out_def proto_init_def opened_def MAX_PACKET_SIZE_def ABS_MAX_PACKET_SIZE_def)
qed

lemma wire_dumps: "rencodeplus_dumps rencodeplus_module [PStr ''a'', PBytes []] = Inr [194, 129, 97, 48, 47]"
  by (simp add: rencodeplus_module_def code_eval show_nat.simps digit_char_def)

lemma wire_packet_ok: "packet_ok wire_env wire_out wire_items"
  by (simp add: packet_ok_def wire_items_def sendable_def item_chunk_def chunked_def comp_level_def decoded_def
      placeholder_def item_value_def wire_out_def proto_init_def do_rencodeplus_def wire_dumps MAX_DECOMPRESSED_SIZE_def)

lemma wire_encode:
  "\<exists>ps. encode wire_env wire_items wire_out = Inr ([(0, 1, 0, [7, 8]), (16, 0, 0, [194, 129, 97, 48, 47])], ps)
    \<and> p_cipher_out_name ps = [] \<and> \<not> p_cipher_out ps"
proof -
  obtain k where k: "encode_items wire_out 0 wire_items \<lparr>a_packet = map item_value wire_items, a_chunks = [], a_inlined = 0\<rparr> =
      Inr \<lparr>a_packet = [PStr ''a'', PBytes []], a_chunks = [(0, 1, 0, [7, 8])], a_inlined = k\<rparr>"
    using encode_items_sendable [of wire_env wire_out wire_items
        "\<lparr>a_packet = map item_value wire_items, a_chunks = [], a_inlined = 0\<rparr>" "[]" 0] wire_packet_ok
    by (auto simp: packet_ok_def placeholder_def wire_items_def item_chunk_def chunked_def wire_out_def proto_init_def
        item_value_def comp_level_def)
  then show ?thesis
    by (auto simp: encode_def k Let_def wire_items_def do_encode_def wire_out_def proto_init_def do_rencodeplus_def
        wire_dumps FLAGS_RENCODEPLUS_def)
qed

lemma be_bytes_4: "be_bytes 4 v = [of_nat (v div 256 div 256 div 256), of_nat (v div 256 div 256), of_nat (v div 256), of_nat v]"
proof -
  have "be_bytes (Suc (Suc (Suc (Suc 0)))) v = [of_nat (v div 256 div 256 div 256), of_nat (v div 256 div 256), of_nat (v div 256), of_nat v]"
    by simp
  moreover have "(4 :: nat) = Suc (Suc (Suc (Suc 0)))" by simp
  ultimately show ?thesis by metis
qed

lemma wire_headers:
  "pack_header 0 0 (Suc 0) (Suc (Suc 0)) = Inr [80, 0, 0, 1, 0, 0, 0, 2]" "pack_header 24 0 0 (Suc (Suc (Suc (Suc (Suc 0))))) = Inr [80, 24, 0, 0, 0, 0, 0, 5]"
  by (simp_all add: pack_header_def be_bytes_4)

lemma wire_transmit: "\<exists>ps'. transmit wire_env [(False, wire_items)] wire_out = Inr ([wire_bytes], ps')"
proof -
  obtain ps where e: "encode wire_env wire_items wire_out = Inr ([(0, 1, 0, [7, 8]), (16, 0, 0, [194, 129, 97, 48, 47])], ps)"
    and c: "p_cipher_out_name ps = []" "\<not> p_cipher_out ps" using wire_encode by blast
  have f: "e_frame_header wire_env = noframe_header" by (simp add: wire_env_def)
  show ?thesis
    by (simp add: e add_chunks_noframe [OF f] chunk_items_def c FLAGS_NOHEADER_def FLAGS_FLUSH_def make_xpra_header_def
        wire_headers PACKET_JOIN_SIZE_def READ_BUFFER_SIZE_def wire_bytes_def)
qed


text \<open>
  C2: the parse thread does not depend on how the stream was cut into reads: two cuts of the
  same bytes give the same final state and the same events, up to the bytes quoted when the
  very first byte of a header is wrong (the code quotes the buffer it happens to have).
\<close>

theorem parser_segmentation_independent:
  assumes "process_ok E" and "\<not> p_closed p" and "\<not> p_wait_for_header p"
    and "concat segs = concat segs'" and "[] \<notin> set segs" and "[] \<notin> set segs'"
  shows "norm (parse_reads E (p, rx_init) segs) = norm (parse_reads E (p, rx_init) segs')"
  using assms by (rule parse_reads_same)

theorem parser_segmentation_independent_witness:
  "norm (parse_reads wire_env (wire_out, rx_init) [[80, 0], [1, 2, 3]])
    = norm (parse_reads wire_env (wire_out, rx_init) [[80], [0, 1, 2], [3]])"
  by (rule parser_segmentation_independent)
     (simp_all add: wire_out_def proto_init_def process_ok_def wire_env_def toy_env_def)

definition raw_bounded :: "prx \<Rightarrow> bool" where
  "raw_bounded s = (running s \<longrightarrow> length (rx_raw (snd s)) \<le> 3)"

lemma raw_bounded_stop [simp]:
  "raw_bounded (rx_stop s)" "raw_bounded (rx_raise e s)" "raw_bounded (rx_invalid f d s)" "raw_bounded (rx_gibberish f d s)"
  by (simp_all add: raw_bounded_def)

lemma raw_bounded_store: "raw_bounded (store_raw d s)"
  by (cases s) (simp add: store_raw_def Let_def raw_bounded_def)

lemma raw_bounded_deliver: "raw_bounded (deliver E v s)"
  by (cases s) (simp add: deliver_def Let_def raw_bounded_def split: sum.split list.split)

lemma raw_bounded_handle: "raw_bounded (handle_chunk E d s)"
proof -
  have plain: "raw_bounded (plain_chunk E d s)" for d s
    by (simp add: plain_chunk_def final_chunk_def Let_def raw_bounded_store raw_bounded_deliver split: sum.split)
  then show ?thesis by (cases s) (auto simp: handle_chunk_def split: sum.split)
qed

lemma raw_bounded_header: "raw_bounded s \<Longrightarrow> raw_bounded (header_parsed h s)"
  by (cases s) (auto simp: header_parsed_def Let_def raw_bounded_def running_def rx_raise_def rx_gibberish_def rx_stop_def
      split: sum.split prod.split)

lemma raw_bounded_step: "raw_bounded s \<Longrightarrow> flat_step E s b = Some (s', r) \<Longrightarrow> raw_bounded s'"
  using raw_bounded_handle [of E "take (nat (rx_payload_size (snd s))) b" s] raw_bounded_header [of s "take 8 b"]
  by (auto simp: flat_step_def raw_bounded_def running_def rx_gibberish_def rx_stop_def split: if_splits prod.splits)

text \<open>
  C30: whatever a peer sends, the parse thread never holds more than three raw chunks: a fourth
  one ends the connection.
\<close>

theorem raw_packets_bounded:
  assumes "process_ok E" and "\<not> p_closed p" and "\<not> p_wait_for_header p" and "[] \<notin> set segs"
    and "running (parse_reads E (p, rx_init) segs)"
  shows "length (rx_raw (snd (parse_reads E (p, rx_init) segs))) \<le> 3"
proof (cases "segs = []")
  case True
  then show ?thesis by (simp add: parse_reads_def rx_init_def)
next
  case False
  have init: "running (p, rx_init)" "opened (p, rx_init)" "rx_wf (snd (p, rx_init))"
    using assms(2,3) by (simp_all add: running_def opened_def rx_init_wf) (simp add: rx_init_def)
  obtain c where "drain (flat_step E) (score (p, rx_init)) (rx_flat (snd (p, rx_init)) @ concat segs)
      = (score (parse_reads E (p, rx_init) segs), c)"
    using parse_reads_drain [OF assms(1) init assms(4) False] assms(5) by (auto simp: parsed_as_def)
  then have "raw_bounded (score (parse_reads E (p, rx_init) segs))"
    using flat.drain_invariant [of raw_bounded E "score (p, rx_init)"] raw_bounded_step
    by (metis fst_conv init(1) le0 list.size(3) raw_bounded_def rx_core_fields(8) rx_init_def rx.select_convs(8)
        score_sel(2) snd_conv)
  then show ?thesis using assms(5) by (simp add: raw_bounded_def)
qed

theorem raw_packets_bounded_witness:
  "length (rx_raw (snd (parse_reads wire_env (wire_out, rx_init) [[80, 0], [0, 1, 0]]))) \<le> 3"
proof (rule raw_packets_bounded)
  show "running (parse_reads wire_env (wire_out, rx_init) [[80, 0], [0, 1, 0]])"
    by (simp add: parse_reads_def parse_read_def wire_out_def proto_init_def rx_init_def run_buffers_def rx_measure_def
        eval_nat_numeral(2,3) loop_body_def HEADER_SIZE_def running_def Let_def)
qed (simp_all add: wire_out_def proto_init_def process_ok_def wire_env_def toy_env_def)

definition no_packets :: "prx \<Rightarrow> bool" where
  "no_packets s = (\<forall>e\<in>set (p_events (fst s)). case e of EvProcess _ \<Rightarrow> False | _ \<Rightarrow> True)"

lemma no_packets_norm: "no_packets s = no_packets t" if "norm s = norm t"
proof -
  have "p_events (fst (norm s)) = p_events (fst (norm t))" using that by simp
  then have ev: "map norm_event (p_events (fst s)) = map norm_event (p_events (fst t))" by (simp add: norm_def)
  have "(case norm_event e of EvProcess _ \<Rightarrow> False | _ \<Rightarrow> True) = (case e of EvProcess _ \<Rightarrow> False | _ \<Rightarrow> True)" for e
    by (cases e) auto
  then have np: "no_packets u = (\<forall>e\<in>set (map norm_event (p_events (fst u))). case e of EvProcess _ \<Rightarrow> False | _ \<Rightarrow> True)" for u
    by (simp add: no_packets_def)
  show ?thesis by (simp only: np [of s] np [of t] ev)
qed

lemma header_parsed_events: "no_packets s \<Longrightarrow> no_packets (header_parsed h s)"
  by (cases s) (auto simp: header_parsed_def Let_def no_packets_def rx_raise_def rx_gibberish_def rx_stop_def p_emit_def
      split: sum.split prod.split)

lemma header_parsed_flags:
  "unpack_header h = Inr (c, f, l, i, n) \<Longrightarrow> running (header_parsed h s) \<Longrightarrow> rx_flags (snd (header_parsed h s)) = f
     \<and> p_cipher_in_name (fst (header_parsed h s)) = p_cipher_in_name (fst s)"
  by (cases s) (auto simp: header_parsed_def Let_def running_def rx_raise_def rx_gibberish_def rx_stop_def p_emit_def split: if_splits)

lemma plain_stream_flat:
  assumes "no_packets (p, r)" and "ready (p, r)" and "p_cipher_in_name p \<noteq> []"
    and "pack_header f l i n = Inr h" and "f AND FLAGS_CIPHER = 0"
  shows "no_packets (fst (drain (flat_step E) (p, r) (h @ rest)))"
proof (cases "rest = []")
  case True
  then show ?thesis using assms(1,2) length_pack_header [OF assms(4)] pack_header_magic [OF assms(4)]
    by (subst flat.drain_stuck) (auto simp: flat_step_def ready_def fresh_def running_def hd_conv_nth)
next
  case False
  define t where "t = header_parsed h (p, r)"
  have dr: "drain (flat_step E) (p, r) (h @ rest) = drain (flat_step E) t rest"
    using flat.drain_step [OF flat_header_step [OF assms(2,4) False, of E]] by (simp add: t_def)
  have np: "no_packets t" using header_parsed_events [OF assms(1)] by (simp add: t_def)
  show ?thesis
  proof (cases "running t")
    case True
    have un: "unpack_header h = Inr (80, f, l, i, n)" using unpack_pack_append [OF assms(4), of "[]"] by simp
    have fl: "rx_flags (snd t) = f" "p_cipher_in_name (fst t) = p_cipher_in_name p"
      using header_parsed_flags [OF un, of "(p, r)"] True by (simp_all add: t_def)
    have "handle_chunk E raw t = rx_invalid PlainDropped raw t" for raw
      using fl assms(3,5) by (cases t) (simp add: handle_chunk_def)
    moreover have "\<not> rx_payload_size (snd t) < 0" using header_parsed_payload [of h "(p, r)"] True by (simp add: t_def)
    ultimately have "flat_step E t rest = None \<or>
        (\<exists>raw r'. flat_step E t rest = Some (score (rx_invalid PlainDropped raw t), r'))"
      by (cases t) (auto simp: flat_step_def split: prod.split, metis score_sel(3))
    then show ?thesis
    proof
      assume "flat_step E t rest = None"
      then show ?thesis using dr np by (simp add: flat.drain_stuck)
    next
      assume "\<exists>raw r'. flat_step E t rest = Some (score (rx_invalid PlainDropped raw t), r')"
      then obtain raw r' where "drain (flat_step E) t rest = drain (flat_step E) (score (rx_invalid PlainDropped raw t)) r'"
        using flat.drain_step by blast
      also have "\<dots> = (score (rx_invalid PlainDropped raw t), r')" by (rule flat_stopped) simp
      finally show ?thesis using dr np by (simp add: no_packets_def rx_invalid_def rx_stop_def p_emit_def)
    qed
  next
    case False
    then show ?thesis using dr np by (simp add: flat_stopped)
  qed
qed



text \<open>
  The count of received packets of a type is computed from the packets sent: in a
  protocol that has sent none of that type it is set to 1 by every packet received.
\<close>

theorem input_stats_count_outputs:
  assumes "rx_raw r = []" and "map_of (p_output_stats p) t = None" and "\<And>p pk. e_process E p pk = p"
  shows "map_of (p_input_stats (fst (deliver E (PStr t # vs) (p, r)))) t = Some 1"
  using assms by (simp add: deliver_def Let_def py_str_def count_stat_def p_emit_def split: sum.split)

theorem input_stats_count_outputs_witness:
  "map_of (p_input_stats (fst (deliver wire_env [PStr ''a'']
     (wire_out\<lparr>p_input_stats := [(''a'', 5)]\<rparr>, rx_init)))) ''a'' = Some 1"
  by (rule input_stats_count_outputs) (simp_all add: rx_init_def wire_out_def proto_init_def wire_env_def toy_env_def)

end
