(* ===== verification/Proto_Life.thy ===== *)
theory Proto_Life
  imports Proto_Encode "HOL-Library.Sublist"
begin

text \<open>
  The life of a connection (\<^verbatim>\<open>xpra/net/protocol/socket_handler.py\<close>): the format thread that takes
  packets from their source, encodes them and queues their buffers under the write lock, the
  write thread, the read thread's end-of-file handling, \<^verbatim>\<open>flush_then_close\<close>, \<^verbatim>\<open>close\<close>,
  \<^verbatim>\<open>steal_connection\<close> and the clean-up. Each operation is a function on one record; the atomic
  actions of the threads and of the main loop are the rules of the relation \<open>lstep\<close>.
\<close>

subsection \<open>The state\<close>

datatype wq_item = WqExit | WqItems "bytes list" bool

datatype packet_source = NoPacket | Source | OncePacket "item list"

datatype more_hook = HookStart | HookSet | HookNoop

text \<open>Where the format thread is: waiting for a packet, for the lock with encoded chunks, or for the queue.\<close>

datatype fmt_pc = FOff | FWait | FLock "chunk list" bool | FPut "bytes list" bool | FDone

datatype write_pc = WOff | WGet | WBufs "bytes list" | WDone

datatype lock_state = LFree | LFormat | LCloser | LCleared

datatype idle_cb = IdLost string | IdClean | IdConnectionLost string | IdClose

datatype last_packet = NoLast | LastPacket "item list" | LastRaw bytes

datatype timer = TWaitQueue nat | TWaitSent | TCloseRelease | TCheckEof nat | TClose

record life =
  l_proto :: proto
  l_closed :: bool
  l_conn :: bool
  l_wq :: "wq_item list"
  l_source :: packet_source
  l_more :: bool
  l_hook :: more_hook
  l_fmt :: fmt_pc
  l_writer :: write_pc
  l_lock :: lock_state
  l_flush_called :: bool
  l_last :: last_packet
  l_idle :: "idle_cb list"
  l_timers :: "timer list"
  l_callback :: bool
  l_lost :: "string list"
  l_done_calls :: nat
  l_wire :: bytes
  l_queued :: "bytes list"
  l_input_raw :: nat
  l_output_raw :: nat
  l_output_count :: nat
  l_eof_pending :: bool
  l_received :: "bytes list"
  l_stolen :: bool
  l_raised :: "py_error option"
  l_flush_error :: "py_error option"

text \<open>
  \<open>l_queued\<close> (all buffers ever queued), \<open>l_stolen\<close>, \<open>l_raised\<close> (an exception a caller got) and
  \<open>l_flush_error\<close> (one that left \<^verbatim>\<open>wait_for_queue\<close>) only record what happened; nothing reads them.
  The protocol's own flag is a copy of \<open>l_closed\<close> whenever its methods run (\<open>proto_of\<close>).
\<close>

definition proto_of :: "life \<Rightarrow> proto" where
  "proto_of s = (l_proto s)\<lparr>p_closed := l_closed s\<rparr>"

definition life_init :: "proto \<Rightarrow> life" where
  "life_init p = \<lparr>l_proto = p, l_closed = False, l_conn = True, l_wq = [], l_source = NoPacket, l_more = False,
     l_hook = HookStart, l_fmt = FOff, l_writer = WOff, l_lock = LFree, l_flush_called = False, l_last = NoLast,
     l_idle = [], l_timers = [], l_callback = True, l_lost = [], l_done_calls = 0, l_wire = [], l_queued = [],
     l_input_raw = 0, l_output_raw = 0, l_output_count = 0, l_eof_pending = False, l_received = [],
     l_stolen = False, l_raised = None, l_flush_error = None\<rparr>"

definition idle_add :: "idle_cb \<Rightarrow> life \<Rightarrow> life" where
  "idle_add c s = s\<lparr>l_idle := l_idle s @ [c]\<rparr>"

definition add_timer :: "timer \<Rightarrow> life \<Rightarrow> life" where
  "add_timer t s = s\<lparr>l_timers := l_timers s @ [t]\<rparr>"

subsection \<open>Closing\<close>

definition exit_queue :: "wq_item list" where
  "exit_queue = replicate 10 WqExit"

text \<open>\<^verbatim>\<open>force_flush_queue\<close>: what was in the old queue is discarded; only exit markers can be read from now on.\<close>

definition terminate_queue_threads :: "life \<Rightarrow> life" where
  "terminate_queue_threads s = s\<lparr>l_source := NoPacket, l_more := True, l_wq := exit_queue\<rparr>"

definition life_close :: "string \<Rightarrow> life \<Rightarrow> life" where
  "life_close message s =
     (if l_closed s then s
      else
        let s1 = s\<lparr>l_closed := True\<rparr>;
            s2 = (if l_callback s1 then idle_add (IdLost message) s1 else s1);
            s3 = s2\<lparr>l_conn := False\<rparr>
        in idle_add IdClean (terminate_queue_threads s3))"

definition life_clean :: "life \<Rightarrow> life" where
  "life_clean s = s\<lparr>l_source := NoPacket, l_callback := False, l_lock := LCleared, l_conn := False, l_hook := HookNoop\<rparr>"

definition steal_connection :: "life \<Rightarrow> life" where
  "steal_connection s =
     (if l_closed s then s\<lparr>l_raised := Some AssertionError\<rparr>
      else terminate_queue_threads (s\<lparr>l_closed := True, l_conn := False, l_stolen := True\<rparr>))"

definition life_internal_error :: "string \<Rightarrow> life \<Rightarrow> life" where
  "life_internal_error message s = (if l_closed s then s else idle_add (IdConnectionLost message) s)"

subsection \<open>The packet source and the format thread\<close>

definition source_has_more_start :: "life \<Rightarrow> life" where
  "source_has_more_start s =
     (if l_closed s then s
      else
        let s1 = s\<lparr>l_hook := HookSet, l_more := True\<rparr>
        in if l_fmt s1 \<noteq> FOff then s1 else s1\<lparr>l_fmt := FWait\<rparr>)"

definition source_has_more :: "life \<Rightarrow> life" where
  "source_has_more s =
     (case l_hook s of
        HookStart \<Rightarrow> source_has_more_start s
      | HookSet \<Rightarrow> s\<lparr>l_more := True\<rparr>
      | HookNoop \<Rightarrow> s)"

definition set_packet_source :: "life \<Rightarrow> life" where
  "set_packet_source s = s\<lparr>l_source := Source\<rparr>"

definition send_now :: "item list \<Rightarrow> life \<Rightarrow> life" where
  "send_now packet s =
     (if l_closed s then s
      else if l_source s \<noteq> NoPacket then s\<lparr>l_raised := Some RuntimeError\<rparr>
      else source_has_more (s\<lparr>l_source := OncePacket packet\<rparr>))"

text \<open>The exception handler around \<^verbatim>\<open>write_format_thread_loop\<close>.\<close>

definition format_failed :: "life \<Rightarrow> life" where
  "format_failed s = life_internal_error ''error in network packet write/format'' (s\<lparr>l_fmt := FDone\<rparr>)"

text \<open>\<^verbatim>\<open>add_packet_to_queue\<close> up to the write lock: an empty packet and the types \<open>closed\<close> and \<open>none\<close> are dropped.\<close>

definition add_packet_encode :: "nenv \<Rightarrow> item list \<Rightarrow> bool \<Rightarrow> life \<Rightarrow> life" where
  "add_packet_encode E packet has_more s =
     (let s1 = (if has_more then s else s\<lparr>l_more := False\<rparr>) in
      if packet = [] \<or> hd packet = Value (PStr ''closed'') \<or> hd packet = Value (PStr ''none'') then s1
      else case encode E packet (proto_of s1) of
        Inl e \<Rightarrow> format_failed s1
      | Inr (chunks, p) \<Rightarrow> s1\<lparr>l_proto := p, l_fmt := FLock chunks has_more\<rparr>)"

text \<open>The rest, holding the lock.\<close>

definition add_packet_locked :: "nenv \<Rightarrow> chunk list \<Rightarrow> bool \<Rightarrow> life \<Rightarrow> life" where
  "add_packet_locked E chunks has_more s =
     (if l_closed s then s\<lparr>l_fmt := FWait\<rparr>
      else case add_chunks_to_queue E chunks has_more (proto_of s) of
        Inl e \<Rightarrow> format_failed s
      | Inr (items, p) \<Rightarrow> s\<lparr>l_proto := p, l_fmt := FPut items has_more, l_lock := LFormat\<rparr>)"

text \<open>\<^verbatim>\<open>raw_write\<close>: the queue has room for one entry until the connection is closed.\<close>

definition queue_room :: "life \<Rightarrow> bool" where
  "queue_room s = (l_wq s = [] \<or> l_closed s)"

definition raw_write :: "bytes list \<Rightarrow> bool \<Rightarrow> life \<Rightarrow> life" where
  "raw_write items has_more s =
     s\<lparr>l_writer := (if l_writer s = WOff then WGet else l_writer s),
       l_wq := l_wq s @ [WqItems items has_more], l_queued := l_queued s @ items\<rparr>"

subsection \<open>The write thread\<close>

definition write_get :: "life \<Rightarrow> life" where
  "write_get s =
     (case l_wq s of
        [] \<Rightarrow> s
      | WqExit # q \<Rightarrow> (life_close '''' (s\<lparr>l_wq := q\<rparr>))\<lparr>l_writer := WDone\<rparr>
      | WqItems items _ # q \<Rightarrow>
          if l_conn s then s\<lparr>l_wq := q, l_writer := WBufs items\<rparr> else s\<lparr>l_wq := q, l_writer := WDone\<rparr>)"

text \<open>One call of \<^verbatim>\<open>con.write\<close>, which took the first \<open>n\<close> bytes.\<close>

definition write_some :: "nat \<Rightarrow> life \<Rightarrow> life" where
  "write_some n s =
     (case l_writer s of
        WBufs (buf # bufs) \<Rightarrow>
          if l_closed s \<or> buf = [] then s\<lparr>l_writer := WBufs bufs\<rparr>
          else if n = 0 then s
          else s\<lparr>l_wire := l_wire s @ take n buf, l_writer := WBufs (drop n buf # bufs), l_output_raw := Suc (l_output_raw s)\<rparr>
      | _ \<Rightarrow> s)"

definition write_done :: "life \<Rightarrow> life" where
  "write_done s = s\<lparr>l_output_count := Suc (l_output_count s), l_writer := (if l_closed s then WDone else WGet)\<rparr>"

text \<open>An exception in an I/O thread: a closed connection, an operating system error, or another.\<close>

datatype io_error = ConnectionClosed string | OsFailure string | OtherFailure

definition io_failed :: "io_error \<Rightarrow> life \<Rightarrow> life" where
  "io_failed e s =
     (if l_closed s then s
      else case e of
        ConnectionClosed m \<Rightarrow> life_close m s
      | OsFailure m \<Rightarrow> life_internal_error m s
      | OtherFailure \<Rightarrow> life_close '''' s)"

subsection \<open>The read thread\<close>

definition read_thread :: "bytes \<Rightarrow> life \<Rightarrow> life" where
  "read_thread buf s =
     (if buf = [] then
        (if l_eof_pending s then s
         else (add_timer (TCheckEof (l_input_raw s)) s)\<lparr>l_eof_pending := True\<rparr>)
      else s\<lparr>l_received := l_received s @ [buf], l_input_raw := Suc (l_input_raw s)\<rparr>)"

definition check_eof :: "nat \<Rightarrow> life \<Rightarrow> life" where
  "check_eof raw_count s =
     (let s1 = s\<lparr>l_eof_pending := False\<rparr> in
      if \<not> l_closed s1 \<and> l_input_raw s1 \<le> raw_count then add_timer TClose s1 else s1)"

subsection \<open>\<open>flush_then_close\<close>\<close>

definition write_lock_release :: "life \<Rightarrow> life" where
  "write_lock_release s = (if l_lock s = LCleared then s else s\<lparr>l_lock := LFree\<rparr>)"

definition close_and_release :: "life \<Rightarrow> life" where
  "close_and_release s =
     (let s1 = write_lock_release (life_close '''' s) in s1\<lparr>l_done_calls := Suc (l_done_calls s1)\<rparr>)"

text \<open>The flag says whether to call again.\<close>

definition wait_for_packet_sent :: "life \<Rightarrow> life \<times> bool" where
  "wait_for_packet_sent s =
     (if l_wq s = [] \<or> l_closed s then (close_and_release s, False) else (s, True))"

definition queue_last :: "nenv \<Rightarrow> life \<Rightarrow> py_error + life" where
  "queue_last E s =
     (case l_last s of
        NoLast \<Rightarrow> Inr s
      | LastRaw b \<Rightarrow> Inr (raw_write [b] False s)
      | LastPacket packet \<Rightarrow>
          (case encode E packet (proto_of s) of
             Inl e \<Rightarrow> Inl e
           | Inr (chunks, p) \<Rightarrow>
               (case add_chunks_to_queue E chunks False p of
                  Inl e \<Rightarrow> Inl e
                | Inr (items, p') \<Rightarrow> Inr (raw_write items False (s\<lparr>l_proto := p'\<rparr>)))))"

text \<open>\<^verbatim>\<open>not last_packet\<close>: also an empty list or buffer.\<close>

definition no_last :: "last_packet \<Rightarrow> bool" where
  "no_last lp = (lp = NoLast \<or> lp = LastPacket [] \<or> lp = LastRaw [])"

definition wait_for_queue :: "nenv \<Rightarrow> nat \<Rightarrow> life \<Rightarrow> life" where
  "wait_for_queue E timeout s =
     (if l_wq s \<noteq> [] then
        (if timeout = 0 then close_and_release s else add_timer (TWaitQueue (timeout - 1)) s)
      else if no_last (l_last s) then close_and_release s
      else case queue_last E s of
        Inl e \<Rightarrow> s\<lparr>l_flush_error := Some e\<rparr>
      | Inr s1 \<Rightarrow>
          let (s2, again) = wait_for_packet_sent s1;
              s3 = (if again then add_timer TWaitSent s2 else s2)
          in add_timer TCloseRelease s3)"

definition wait_for_write_lock :: "nenv \<Rightarrow> life \<Rightarrow> life" where
  "wait_for_write_lock E s =
     (case l_lock s of
        LCleared \<Rightarrow> s
      | LFree \<Rightarrow> wait_for_queue E 10 (s\<lparr>l_lock := LCloser\<rparr>)
      | _ \<Rightarrow> let s1 = life_close '''' s in s1\<lparr>l_done_calls := Suc (l_done_calls s1)\<rparr>)"

definition flush_then_close :: "nenv \<Rightarrow> last_packet \<Rightarrow> life \<Rightarrow> life" where
  "flush_then_close E lp s =
     (if l_flush_called s then s
      else
        let s1 = s\<lparr>l_flush_called := True, l_last := lp\<rparr> in
        if l_closed s1 then s1\<lparr>l_done_calls := Suc (l_done_calls s1)\<rparr>
        else wait_for_write_lock E s1)"

definition send_disconnect :: "nenv \<Rightarrow> string list \<Rightarrow> life \<Rightarrow> life" where
  "send_disconnect E reasons s =
     flush_then_close E (LastPacket (Value (PStr ''disconnect'') # map (Value \<circ> PStr) reasons)) s"

subsection \<open>The main loop\<close>

definition run_timer :: "nenv \<Rightarrow> timer \<Rightarrow> life \<Rightarrow> life" where
  "run_timer E t s =
     (case t of
        TWaitQueue n \<Rightarrow> wait_for_queue E n s
      | TWaitSent \<Rightarrow> (case wait_for_packet_sent s of (s', again) \<Rightarrow> if again then add_timer TWaitSent s' else s')
      | TCloseRelease \<Rightarrow> close_and_release s
      | TCheckEof n \<Rightarrow> check_eof n s
      | TClose \<Rightarrow> life_close '''' s)"

definition run_idle :: "idle_cb \<Rightarrow> life \<Rightarrow> life" where
  "run_idle c s =
     (case c of
        IdLost m \<Rightarrow> s\<lparr>l_lost := l_lost s @ [m]\<rparr>
      | IdClean \<Rightarrow> life_clean s
      | IdConnectionLost m \<Rightarrow> life_close m s
      | IdClose \<Rightarrow> life_close '''' s)"

subsection \<open>Interleavings\<close>

inductive lstep :: "nenv \<Rightarrow> life \<Rightarrow> life \<Rightarrow> bool" for E where
  set_source: "lstep E s (set_packet_source s)"
| has_more: "lstep E s (source_has_more s)"
| now: "lstep E s (send_now packet s)"
| fmt_exit: "l_fmt s = FWait \<Longrightarrow> l_closed s \<Longrightarrow> lstep E s (s\<lparr>l_fmt := FDone\<rparr>)"
| fmt_none: "l_fmt s = FWait \<Longrightarrow> l_more s \<Longrightarrow> \<not> l_closed s \<Longrightarrow> l_source s = NoPacket \<Longrightarrow>
    lstep E s (add_packet_encode E [Value (PStr ''closed'')] False s)"
| fmt_once: "l_fmt s = FWait \<Longrightarrow> l_more s \<Longrightarrow> \<not> l_closed s \<Longrightarrow> l_source s = OncePacket packet \<Longrightarrow>
    lstep E s (add_packet_encode E packet True (s\<lparr>l_source := NoPacket\<rparr>))"
| fmt_source: "l_fmt s = FWait \<Longrightarrow> l_more s \<Longrightarrow> \<not> l_closed s \<Longrightarrow> l_source s = Source \<Longrightarrow>
    lstep E s (add_packet_encode E packet m s)"
| fmt_lock: "l_fmt s = FLock chunks m \<Longrightarrow> l_lock s = LFree \<Longrightarrow> lstep E s (add_packet_locked E chunks m s)"
| fmt_lock_gone: "l_fmt s = FLock chunks m \<Longrightarrow> l_lock s = LCleared \<Longrightarrow> lstep E s (format_failed s)"
| fmt_put: "l_fmt s = FPut items m \<Longrightarrow> queue_room s \<Longrightarrow>
    lstep E s ((raw_write items m s)\<lparr>l_fmt := FWait, l_lock := (if l_lock s = LFormat then LFree else l_lock s)\<rparr>)"
| write_get: "l_writer s = WGet \<Longrightarrow> l_wq s \<noteq> [] \<Longrightarrow> lstep E s (write_get s)"
| write_some: "l_writer s = WBufs (b # bs) \<Longrightarrow> n \<le> length b \<Longrightarrow> lstep E s (write_some n s)"
| write_done: "l_writer s = WBufs [] \<Longrightarrow> lstep E s (write_done s)"
| write_fail: "l_writer s = WBufs bs \<Longrightarrow> lstep E s ((io_failed e s)\<lparr>l_writer := WDone\<rparr>)"
| read: "\<not> l_closed s \<Longrightarrow> lstep E s (read_thread buf s)"
| read_fail: "lstep E s (io_failed e s)"
| flush: "lstep E s (flush_then_close E lp s)"
| close: "lstep E s (life_close m s)"
| steal: "lstep E s (steal_connection s)"
| idle: "l_idle s = c # cs \<Longrightarrow> lstep E s (run_idle c (s\<lparr>l_idle := cs\<rparr>))"
| timer: "l_timers s = ts @ t # us \<Longrightarrow> lstep E s (run_timer E t (s\<lparr>l_timers := ts @ us\<rparr>))"

definition reachable :: "nenv \<Rightarrow> proto \<Rightarrow> life \<Rightarrow> bool" where
  "reachable E p s = (lstep E)\<^sup>*\<^sup>* (life_init p) s"

inductive_cases lstepE: "lstep E s t"

lemma reachable_induct [consumes 1, case_names init step]:
  assumes "reachable E p s" and "P (life_init p)" and "\<And>s t. reachable E p s \<Longrightarrow> lstep E s t \<Longrightarrow> P s \<Longrightarrow> P t"
  shows "P s"
proof -
  have "(lstep E)\<^sup>*\<^sup>* (life_init p) s" using assms(1) by (simp add: reachable_def)
  then show ?thesis
    by (induction rule: rtranclp_induct) (use assms(2,3) in \<open>auto simp: reachable_def\<close>)
qed

lemma raw_write_fields [simp]:
  "l_idle (raw_write i m s) = l_idle s" "l_lost (raw_write i m s) = l_lost s" "l_closed (raw_write i m s) = l_closed s"
  "l_stolen (raw_write i m s) = l_stolen s" "l_callback (raw_write i m s) = l_callback s"
  "l_wq (raw_write i m s) = l_wq s @ [WqItems i m]" "l_queued (raw_write i m s) = l_queued s @ i"
  "l_wire (raw_write i m s) = l_wire s" "l_fmt (raw_write i m s) = l_fmt s" "l_lock (raw_write i m s) = l_lock s"
  "l_done_calls (raw_write i m s) = l_done_calls s" "l_timers (raw_write i m s) = l_timers s"
  "l_conn (raw_write i m s) = l_conn s" "l_flush_called (raw_write i m s) = l_flush_called s"
  "l_writer (raw_write i m s) = (if l_writer s = WOff then WGet else l_writer s)"
  by (simp_all add: raw_write_def)

lemma add_timer_fields [simp]:
  "l_idle (add_timer t s) = l_idle s" "l_lost (add_timer t s) = l_lost s" "l_closed (add_timer t s) = l_closed s"
  "l_stolen (add_timer t s) = l_stolen s" "l_callback (add_timer t s) = l_callback s" "l_wq (add_timer t s) = l_wq s"
  "l_queued (add_timer t s) = l_queued s" "l_wire (add_timer t s) = l_wire s" "l_fmt (add_timer t s) = l_fmt s"
  "l_writer (add_timer t s) = l_writer s" "l_lock (add_timer t s) = l_lock s" "l_done_calls (add_timer t s) = l_done_calls s"
  "l_timers (add_timer t s) = l_timers s @ [t]" "l_conn (add_timer t s) = l_conn s"
  "l_flush_called (add_timer t s) = l_flush_called s" "l_last (add_timer t s) = l_last s"
  "l_flush_error (add_timer t s) = l_flush_error s"
  by (simp_all add: add_timer_def)

subsection \<open>Invariants of the loss and of the write queue\<close>

text \<open>
  What an invariant over the fields of \<open>wire_core\<close> has to be shown closed under: the actions of
  the life of a connection that change one of them. The relation \<open>lstep\<close> then preserves it.
\<close>

definition wire_core :: "life \<Rightarrow> _" where
  "wire_core s = (l_idle s, l_lost s, l_closed s, l_stolen s, l_callback s, l_wire s, l_queued s, l_writer s, l_wq s)"

locale life_invariant =
  fixes I :: "life \<Rightarrow> bool"
  assumes core: "I s \<Longrightarrow> wire_core t = wire_core s \<Longrightarrow> I t"
    and closing: "I s \<Longrightarrow> I (life_close m s)"
    and lost_later: "I s \<Longrightarrow> I (idle_add (IdConnectionLost m) s)"
    and enqueue: "I s \<Longrightarrow> I (raw_write items m' s)"
    and getting: "I s \<Longrightarrow> l_writer s = WGet \<Longrightarrow> I (write_get s)"
    and writing: "I s \<Longrightarrow> l_writer s = WBufs (b # bs) \<Longrightarrow> n \<le> length b \<Longrightarrow> I (write_some n s)"
    and written: "I s \<Longrightarrow> l_writer s = WBufs [] \<Longrightarrow> I (write_done s)"
    and failing: "I s \<Longrightarrow> I (s\<lparr>l_writer := WDone\<rparr>)"
    and stealing: "I s \<Longrightarrow> I (steal_connection s)"
    and idling: "I s \<Longrightarrow> l_idle s = c # cs \<Longrightarrow> I (run_idle c (s\<lparr>l_idle := cs\<rparr>))"
begin

lemma internal_error: "I s \<Longrightarrow> I (life_internal_error m s)"
  by (simp add: life_internal_error_def lost_later)

lemma io_failed: "I s \<Longrightarrow> I (io_failed e s)"
  by (cases e) (auto simp: io_failed_def closing internal_error)

lemma format_failed: "I s \<Longrightarrow> I (format_failed s)"
  unfolding format_failed_def by (rule internal_error) (erule core, simp add: wire_core_def)

lemma add_timer: "I s \<Longrightarrow> I (add_timer t s)"
  by (erule core) (simp add: wire_core_def)

lemma close_and_release: "I s \<Longrightarrow> I (close_and_release s)"
  by (drule closing [where m = "''''"], erule core)
    (simp add: close_and_release_def Let_def write_lock_release_def wire_core_def)

lemma proto_set: "I s \<Longrightarrow> I (s\<lparr>l_proto := x\<rparr>)"
  by (erule core) (simp add: wire_core_def)

lemma queue_last: "I s \<Longrightarrow> queue_last E s = Inr t \<Longrightarrow> I t"
  by (auto simp: queue_last_def proto_set enqueue split: last_packet.splits sum.splits)

lemma wait_for_packet_sent: "I s \<Longrightarrow> I (fst (wait_for_packet_sent s))"
  by (simp add: wait_for_packet_sent_def close_and_release)

lemma flush_error: "I s \<Longrightarrow> I (s\<lparr>l_flush_error := e\<rparr>)"
  by (erule core) (simp add: wire_core_def)

lemma wait_for_queue: "I s \<Longrightarrow> I (wait_for_queue E n s)"
proof -
  assume i: "I s"
  have "I (case wait_for_packet_sent t of (u, again) \<Rightarrow> Proto_Life.add_timer TCloseRelease
      (if again then Proto_Life.add_timer TWaitSent u else u))" if "queue_last E s = Inr t" for t
    using wait_for_packet_sent [OF queue_last [OF i that]] by (auto split: prod.split intro!: add_timer)
  then show ?thesis
    using i by (auto simp: wait_for_queue_def Let_def close_and_release flush_error add_timer split: sum.split)
qed

lemma lock_taken: "I s \<Longrightarrow> I (s\<lparr>l_lock := x\<rparr>)"
  by (erule core) (simp add: wire_core_def)

lemma done_called: "I s \<Longrightarrow> I (s\<lparr>l_done_calls := n\<rparr>)"
  by (erule core) (simp add: wire_core_def)

lemma wait_for_write_lock: "I s \<Longrightarrow> I (wait_for_write_lock E s)"
  by (auto simp: wait_for_write_lock_def Let_def wait_for_queue lock_taken done_called closing split: lock_state.split)

lemma flush_then_close: "I s \<Longrightarrow> I (flush_then_close E lp s)"
proof -
  assume i: "I s"
  have "I (s\<lparr>l_flush_called := True, l_last := lp\<rparr>)" using i by (rule core) (simp add: wire_core_def)
  then show ?thesis
    using i by (simp add: flush_then_close_def Let_def done_called wait_for_write_lock)
qed

lemma add_packet_encode: "I s \<Longrightarrow> I (add_packet_encode E packet m s)"
proof -
  assume i: "I s"
  have "I (if m then s else s\<lparr>l_more := False\<rparr>)" using i by (auto intro: core simp: wire_core_def)
  then show ?thesis
    by (auto simp: add_packet_encode_def Let_def format_failed wire_core_def intro: core split: sum.split)
qed

lemma add_packet_locked: "I s \<Longrightarrow> I (add_packet_locked E chunks m s)"
  by (auto simp: add_packet_locked_def format_failed wire_core_def intro: core split: sum.split)

lemma source_has_more: "I s \<Longrightarrow> I (source_has_more s)"
  by (auto simp: source_has_more_def source_has_more_start_def Let_def wire_core_def intro: core split: more_hook.split)

lemma run_timer: "I s \<Longrightarrow> I (run_timer E t s)"
proof -
  assume i: "I s"
  have "I (check_eof n s)" for n using i by (auto simp: check_eof_def Let_def wire_core_def intro: core)
  moreover have "I (case wait_for_packet_sent s of (s', again) \<Rightarrow> if again then Proto_Life.add_timer TWaitSent s' else s')"
    using wait_for_packet_sent [OF i] by (auto split: prod.split intro: add_timer)
  ultimately show ?thesis
    using i by (auto simp: run_timer_def wait_for_queue close_and_release closing split: timer.split)
qed

lemma send_now: "I s \<Longrightarrow> I (send_now packet s)"
proof -
  assume i: "I s"
  have "I (s\<lparr>l_source := OncePacket packet\<rparr>)" using i by (rule core) (simp add: wire_core_def)
  moreover have "I (s\<lparr>l_raised := e\<rparr>)" for e using i by (rule core) (simp add: wire_core_def)
  ultimately show ?thesis using i by (simp add: send_now_def source_has_more)
qed

lemma step: "lstep E s t \<Longrightarrow> I s \<Longrightarrow> I t"
proof (induction rule: lstep.induct)
  case (fmt_once s packet)
  have "I (s\<lparr>l_source := NoPacket\<rparr>)" using fmt_once(5) by (rule core) (simp add: wire_core_def)
  then show ?case by (rule add_packet_encode)
next
  case (fmt_put s items m)
  show ?case using enqueue [OF fmt_put(3)] by (rule core) (simp add: wire_core_def)
next
  case (read s buf)
  show ?case using read(2) by (rule core) (simp add: read_thread_def add_timer_def wire_core_def)
next
  case (timer s ts t us)
  have "I (s\<lparr>l_timers := ts @ us\<rparr>)" using timer(2) by (rule core) (simp add: wire_core_def)
  then show ?case by (rule run_timer)
next
  case (set_source s)
  show ?case using set_source by (rule core) (simp add: wire_core_def set_packet_source_def)
next
  case (fmt_exit s)
  show ?case using fmt_exit(3) by (rule core) (simp add: wire_core_def)
qed (auto simp: add_packet_encode add_packet_locked source_has_more send_now format_failed io_failed closing stealing
    getting writing written failing idling flush_then_close)

lemma reachable: "I (life_init p) \<Longrightarrow> reachable E p s \<Longrightarrow> I s"
  by (erule reachable_induct) (auto intro: step)

end

text \<open>
  Every reachable state has told, or will tell, the application of the loss exactly once if the
  connection was closed and not stolen, and never otherwise.
\<close>

definition lost_pending :: "life \<Rightarrow> nat" where
  "lost_pending s = length (filter (\<lambda>c. case c of IdLost _ \<Rightarrow> True | _ \<Rightarrow> False) (l_idle s))"

definition lost_once :: "life \<Rightarrow> bool" where
  "lost_once s \<longleftrightarrow>
     lost_pending s + length (l_lost s) = (if l_closed s \<and> \<not> l_stolen s then 1 else 0)
     \<and> (\<not> l_closed s \<longrightarrow> l_callback s \<and> IdClean \<notin> set (l_idle s) \<and> \<not> l_stolen s)"

lemma lost_once_core: "lost_once s \<Longrightarrow> wire_core t = wire_core s \<Longrightarrow> lost_once t"
  by (simp add: lost_once_def lost_pending_def wire_core_def)

lemma life_close_lost_once: "lost_once s \<Longrightarrow> lost_once (life_close m s)"
  by (auto simp: life_close_def lost_once_def lost_pending_def idle_add_def terminate_queue_threads_def Let_def)

lemma lost_once_pop:
  "lost_once s \<Longrightarrow> l_idle s = c # cs \<Longrightarrow> (case c of IdLost _ \<Rightarrow> False | IdClean \<Rightarrow> False | _ \<Rightarrow> True)
    \<Longrightarrow> lost_once (s\<lparr>l_idle := cs\<rparr>)"
  by (auto simp: lost_once_def lost_pending_def split: idle_cb.splits)

lemma idle_lost_once: "lost_once s \<Longrightarrow> l_idle s = c # cs \<Longrightarrow> lost_once (run_idle c (s\<lparr>l_idle := cs\<rparr>))"
  using lost_once_pop [of s c cs] life_close_lost_once [of "s\<lparr>l_idle := cs\<rparr>"]
  by (cases c) (simp_all add: run_idle_def, auto simp: life_clean_def lost_once_def lost_pending_def)

lemma lost_once_same:
  "lost_once s \<Longrightarrow> l_idle t = l_idle s \<Longrightarrow> l_lost t = l_lost s \<Longrightarrow> l_closed t = l_closed s \<Longrightarrow> l_stolen t = l_stolen s
    \<Longrightarrow> l_callback t = l_callback s \<Longrightarrow> lost_once t"
  by (simp add: lost_once_def lost_pending_def)

lemma write_get_lost_once: "lost_once s \<Longrightarrow> lost_once (write_get s)"
proof -
  assume l: "lost_once s"
  have "lost_once (t\<lparr>l_writer := x\<rparr>)" if "lost_once t" for t x using that by (rule lost_once_same) simp_all
  moreover have "lost_once (s\<lparr>l_wq := q\<rparr>)" for q using l by (rule lost_once_same) simp_all
  ultimately show ?thesis
    using l life_close_lost_once lost_once_same [OF l]
    by (simp add: write_get_def split: list.split wq_item.split)
qed

interpretation lost: life_invariant lost_once
proof unfold_locales
  show "lost_once (write_some n s)" if "lost_once s" for n s
    using that by (rule lost_once_same) (auto simp: write_some_def split: write_pc.split list.split)
  show "lost_once (write_done s)" if "lost_once s" for s
    using that by (rule lost_once_same) (auto simp: write_done_def)
  show "lost_once (idle_add (IdConnectionLost m) s)" if "lost_once s" for m s
    using that by (auto simp: lost_once_def lost_pending_def idle_add_def)
  show "lost_once (steal_connection s)" if "lost_once s" for s
    using that by (auto simp: lost_once_def lost_pending_def steal_connection_def terminate_queue_threads_def)
  show "lost_once (raw_write i m s)" "lost_once (s\<lparr>l_writer := WDone\<rparr>)" if "lost_once s" for i m s
    using that by (simp_all add: lost_once_def lost_pending_def)
qed (auto intro: lost_once_core life_close_lost_once idle_lost_once write_get_lost_once)

lemma life_init_lost_once: "lost_once (life_init p)"
  by (simp add: life_init_def lost_once_def lost_pending_def)

text \<open>
  What was written is a prefix of what was queued; while the connection is open and its write
  thread runs, what is missing is in the hands of that thread and in the queue, in order.
\<close>

definition in_flight :: "life \<Rightarrow> bytes" where
  "in_flight s =
     (case l_writer s of WBufs bs \<Rightarrow> concat bs | _ \<Rightarrow> [])
     @ concat (map (\<lambda>i. case i of WqItems its _ \<Rightarrow> concat its | WqExit \<Rightarrow> []) (l_wq s))"

definition wire_ok :: "life \<Rightarrow> bool" where
  "wire_ok s \<longleftrightarrow>
     prefix (l_wire s) (concat (l_queued s))
     \<and> (\<not> l_closed s \<and> l_writer s \<noteq> WDone \<longrightarrow>
         l_wire s @ in_flight s = concat (l_queued s) \<and> WqExit \<notin> set (l_wq s) \<and> (l_writer s = WOff \<longrightarrow> l_wq s = []))"

lemma wire_ok_closed:
  "wire_ok s \<Longrightarrow> l_closed t \<Longrightarrow> l_wire t = l_wire s \<Longrightarrow> l_queued t = l_queued s \<Longrightarrow> wire_ok t"
  by (simp add: wire_ok_def)

lemma wire_ok_close: "wire_ok s \<Longrightarrow> wire_ok (life_close m s)"
  by (cases "l_closed s", simp add: life_close_def, erule wire_ok_closed)
    (simp_all add: life_close_def Let_def terminate_queue_threads_def idle_add_def)

lemma take_drop_rest: "take n b @ drop n b @ r = b @ r"
  by (metis append_assoc append_take_drop_id)

lemma wire_ok_write_some:
  assumes w: "wire_ok s" and b: "l_writer s = WBufs (b # bs)" and n: "n \<le> length b"
  shows "wire_ok (write_some n s)"
proof (cases "l_closed s \<or> b = [] \<or> n = 0")
  case True
  then show ?thesis using w b by (auto simp: write_some_def wire_ok_def in_flight_def)
next
  case False
  then have "l_wire s @ in_flight s = concat (l_queued s)" using w b by (simp add: wire_ok_def)
  then have "(l_wire s @ take n b) @ drop n b @ drop (length b) (in_flight s) = concat (l_queued s)"
    using b by (simp add: in_flight_def take_drop_rest)
  then have "prefix (l_wire s @ take n b) (concat (l_queued s))" by (metis prefixI)
  then show ?thesis using False w b by (auto simp: write_some_def wire_ok_def in_flight_def take_drop_rest)
qed

interpretation wire: life_invariant wire_ok
proof unfold_locales
  show "wire_ok (life_close m s)" if "wire_ok s" for m s using that by (rule wire_ok_close)
  show "wire_ok (write_get s)" if w: "wire_ok s" and g: "l_writer s = WGet" for s
  proof (cases "l_closed s")
    case True
    then show ?thesis using w
      by (auto simp: write_get_def life_close_def wire_ok_def split: list.split wq_item.split)
  next
    case False
    then show ?thesis using w g
      by (auto simp: write_get_def wire_ok_def in_flight_def split: list.splits wq_item.splits)
  qed
  show "wire_ok (write_some n s)" if "wire_ok s" "l_writer s = WBufs (b # bs)" "n \<le> length b" for n s b bs
    using that by (rule wire_ok_write_some)
  show "wire_ok (run_idle c (s\<lparr>l_idle := cs\<rparr>))" if "wire_ok s" for c s cs
    using that wire_ok_close [of "s\<lparr>l_idle := cs\<rparr>"]
    by (cases c) (auto simp: run_idle_def life_clean_def wire_ok_def in_flight_def)
  show "wire_ok (raw_write i m s)" if "wire_ok s" for i m s
    using that by (auto simp: wire_ok_def in_flight_def prefix_def split: write_pc.splits)
qed (auto simp: wire_ok_def wire_core_def in_flight_def idle_add_def write_done_def steal_connection_def
    terminate_queue_threads_def)

lemma life_init_wire_ok: "wire_ok (life_init p)"
  by (simp add: life_init_def wire_ok_def in_flight_def)
lemma after_close_get: "l_closed s \<Longrightarrow> l_closed (write_get s) \<and> l_wire (write_get s) = l_wire s"
  by (simp add: write_get_def life_close_def split: list.split wq_item.split)

interpretation after_close: life_invariant "\<lambda>s. l_closed s \<and> l_wire s = w" for w
proof unfold_locales
  show "l_closed (run_idle c (s\<lparr>l_idle := cs\<rparr>)) \<and> l_wire (run_idle c (s\<lparr>l_idle := cs\<rparr>)) = w"
    if "l_closed s \<and> l_wire s = w" for c cs s
    using that by (simp add: run_idle_def life_clean_def life_close_def split: idle_cb.split)
qed (simp_all add: wire_core_def life_close_def idle_add_def after_close_get write_some_def write_done_def steal_connection_def)

lemma after_close_steps: "(lstep E)\<^sup>*\<^sup>* s t \<Longrightarrow> l_closed s \<Longrightarrow> l_closed t \<and> l_wire t = l_wire s"
  by (induction rule: rtranclp_induct) (auto dest: after_close.step)

subsection \<open>\<open>flush_then_close\<close> always closes\<close>

text \<open>
  The two timers that lead to the close, and how many more of them have to fire: a
  \<^verbatim>\<open>wait_for_queue\<close> with \<open>n\<close> tries left is followed by at most \<open>n\<close> others and the last
  \<^verbatim>\<open>close_and_release\<close>.
\<close>

definition timer_rank :: "timer \<Rightarrow> nat" where
  "timer_rank t = (case t of TWaitQueue n \<Rightarrow> n + 2 | TCloseRelease \<Rightarrow> 1 | _ \<Rightarrow> 0)"

definition deadline :: "life \<Rightarrow> nat" where
  "deadline s = sum_list (map timer_rank (l_timers s))"

definition flush_ok :: "life \<Rightarrow> bool" where
  "flush_ok s \<longleftrightarrow>
     deadline s \<le> 11 \<and> (\<not> l_flush_called s \<longrightarrow> deadline s = 0)
     \<and> (l_flush_called s \<and> \<not> l_closed s \<and> l_flush_error s = None \<longrightarrow> 0 < deadline s)
     \<and> (l_lock s = LCleared \<longrightarrow> l_closed s)"

lemma flush_ok_frame:
  assumes "flush_ok s" and "deadline t = deadline s" and "l_flush_called t = l_flush_called s"
    and "l_flush_error t = l_flush_error s" and "l_closed s \<Longrightarrow> l_closed t"
    and "l_lock t = LCleared \<Longrightarrow> l_lock s = LCleared \<or> l_closed t"
  shows "flush_ok t"
  using assms by (auto simp: flush_ok_def deadline_def)

lemma life_close_fields [simp]:
  "l_timers (life_close m s) = l_timers s" "l_flush_called (life_close m s) = l_flush_called s"
  "l_flush_error (life_close m s) = l_flush_error s" "l_lock (life_close m s) = l_lock s" "l_closed (life_close m s)"
  "l_done_calls (life_close m s) = l_done_calls s" "l_wire (life_close m s) = l_wire s"
  "l_writer (life_close m s) = l_writer s"
  by (simp_all add: life_close_def Let_def idle_add_def terminate_queue_threads_def)

lemma internal_error_fields [simp]:
  "l_timers (life_internal_error m s) = l_timers s" "l_flush_called (life_internal_error m s) = l_flush_called s"
  "l_flush_error (life_internal_error m s) = l_flush_error s" "l_lock (life_internal_error m s) = l_lock s"
  "l_closed (life_internal_error m s) = l_closed s"
  by (simp_all add: life_internal_error_def idle_add_def)

lemma deadline_simps [simp]:
  "deadline (add_timer t s) = deadline s + timer_rank t" "deadline (life_close m s) = deadline s"
  "deadline (life_internal_error m s) = deadline s"
  by (simp_all add: deadline_def)

lemma io_failed_flush_ok: "flush_ok s \<Longrightarrow> flush_ok (io_failed e s)"
  by (cases "l_closed s"; cases e) (auto simp: io_failed_def elim!: flush_ok_frame)

lemma close_and_release_fields [simp]:
  "l_timers (close_and_release s) = l_timers s" "l_flush_called (close_and_release s) = l_flush_called s"
  "l_flush_error (close_and_release s) = l_flush_error s" "l_closed (close_and_release s)"
  "l_done_calls (close_and_release s) = Suc (l_done_calls s)"
  "l_lock (close_and_release s) = (if l_lock s = LCleared then LCleared else LFree)"
  by (simp_all add: close_and_release_def write_lock_release_def Let_def)

lemma close_and_release_deadline [simp]: "deadline (close_and_release s) = deadline s"
  by (simp add: deadline_def)

lemma queue_last_fields:
  assumes "queue_last E s = Inr t"
  shows "l_timers t = l_timers s" and "l_flush_called t = l_flush_called s" and "l_flush_error t = l_flush_error s"
    and "l_closed t = l_closed s" and "l_lock t = l_lock s" and "l_done_calls t = l_done_calls s"
  using assms by (auto simp: queue_last_def raw_write_def split: last_packet.splits sum.splits)

text \<open>What a call of \<^verbatim>\<open>wait_for_queue\<close> adds to the timers is below its own rank.\<close>

lemma wait_for_packet_sent_outcome:
  "deadline (fst (wait_for_packet_sent s)) = deadline s"
  "l_flush_called (fst (wait_for_packet_sent s)) = l_flush_called s"
  "l_lock (fst (wait_for_packet_sent s)) = LCleared \<longleftrightarrow> l_lock s = LCleared"
  "l_flush_error (fst (wait_for_packet_sent s)) = l_flush_error s"
  "l_closed s \<Longrightarrow> l_closed (fst (wait_for_packet_sent s))"
  by (simp_all add: wait_for_packet_sent_def)

lemma wait_for_queue_cases:
  obtains (busy) k where "n = Suc k" and "wait_for_queue E n s = add_timer (TWaitQueue k) s"
  | (closing) "wait_for_queue E n s = close_and_release s"
  | (failed) e where "wait_for_queue E n s = s\<lparr>l_flush_error := Some e\<rparr>"
  | (queued) t u where "queue_last E s = Inr t" and "u = fst (wait_for_packet_sent t)"
      and "wait_for_queue E n s = add_timer TCloseRelease u \<or> wait_for_queue E n s = add_timer TCloseRelease (add_timer TWaitSent u)"
proof (cases "l_wq s \<noteq> []")
  case True
  then show thesis using busy [of "n - 1"] closing by (cases n) (auto simp: wait_for_queue_def)
next
  case False
  then show thesis
  proof (cases "no_last (l_last s)")
    case True
    then show thesis using False closing by (simp add: wait_for_queue_def)
  next
    case nl: False
    show thesis
    proof (cases "queue_last E s")
      case (Inl e)
      then show thesis using False nl failed by (simp add: wait_for_queue_def)
    next
      case (Inr t)
      then show thesis using False nl queued [OF Inr refl]
        by (simp add: wait_for_queue_def Let_def split: prod.splits if_splits)
    qed
  qed
qed

lemma wait_for_queue_outcome:
  fixes s :: life and E and n
  defines "t \<equiv> wait_for_queue E n s"
  shows "l_flush_called t = l_flush_called s" and "l_lock t = LCleared \<longleftrightarrow> l_lock s = LCleared"
    and "deadline s \<le> deadline t" and "deadline t \<le> deadline s + n + 1" and "l_closed s \<longrightarrow> l_closed t"
    and "deadline t = deadline s \<longrightarrow> l_closed t \<or> l_flush_error t \<noteq> None"
    and "l_flush_error s \<noteq> None \<longrightarrow> l_flush_error t \<noteq> None"
proof -
  have "l_flush_called t = l_flush_called s \<and> (l_lock t = LCleared \<longleftrightarrow> l_lock s = LCleared)
      \<and> deadline s \<le> deadline t \<and> deadline t \<le> deadline s + n + 1 \<and> (l_closed s \<longrightarrow> l_closed t)
      \<and> (deadline t = deadline s \<longrightarrow> l_closed t \<or> l_flush_error t \<noteq> None)
      \<and> (l_flush_error s \<noteq> None \<longrightarrow> l_flush_error t \<noteq> None)"
  proof (cases rule: wait_for_queue_cases [of n E s])
    case (busy k)
    then show ?thesis by (simp add: t_def timer_rank_def)
  next
    case closing
    then show ?thesis by (simp add: t_def)
  next
    case (failed e)
    have "deadline (s\<lparr>l_flush_error := Some e\<rparr>) = deadline s" by (simp add: deadline_def)
    then show ?thesis using failed by (simp add: t_def)
  next
    case (queued v u)
    have "deadline v = deadline s" using queue_last_fields(1) [OF queued(1)] by (simp add: deadline_def)
    then show ?thesis
      using queued(2,3) queue_last_fields [OF queued(1)] wait_for_packet_sent_outcome [of v]
      by (auto simp: t_def timer_rank_def)
  qed
  then show "l_flush_called t = l_flush_called s" and "l_lock t = LCleared \<longleftrightarrow> l_lock s = LCleared"
    and "deadline s \<le> deadline t" and "deadline t \<le> deadline s + n + 1" and "l_closed s \<longrightarrow> l_closed t"
    and "deadline t = deadline s \<longrightarrow> l_closed t \<or> l_flush_error t \<noteq> None"
    and "l_flush_error s \<noteq> None \<longrightarrow> l_flush_error t \<noteq> None"
    by simp_all
qed

text \<open>A run in which \<open>k\<close> timers with a rank fire, among any other steps.\<close>

inductive timed_run :: "nenv \<Rightarrow> life \<Rightarrow> nat \<Rightarrow> life \<Rightarrow> bool" for E s where
  start: "timed_run E s 0 s"
| other: "timed_run E s k t \<Longrightarrow> lstep E t u \<Longrightarrow> timed_run E s k u"
| fire: "timed_run E s k t \<Longrightarrow> l_timers t = ts @ x # us \<Longrightarrow> 0 < timer_rank x \<Longrightarrow>
    timed_run E s (Suc k) (run_timer E x (t\<lparr>l_timers := ts @ us\<rparr>))"

lemma run_timer_flush_ok:
  assumes f: "flush_ok s" and t: "l_timers s = ts @ x # us"
  shows "flush_ok (run_timer E x (s\<lparr>l_timers := ts @ us\<rparr>))"
    and "0 < timer_rank x \<Longrightarrow> deadline (run_timer E x (s\<lparr>l_timers := ts @ us\<rparr>)) < deadline s"
proof -
  define s1 where "s1 = s\<lparr>l_timers := ts @ us\<rparr>"
  have d: "deadline s = deadline s1 + timer_rank x" using t by (simp add: deadline_def s1_def)
  have fs: "l_flush_called s1 = l_flush_called s" "l_flush_error s1 = l_flush_error s" "l_closed s1 = l_closed s"
    "l_lock s1 = l_lock s" by (simp_all add: s1_def)
  have q: "flush_ok (wait_for_queue E n s1) \<and> deadline (wait_for_queue E n s1) < deadline s" if x: "x = TWaitQueue n" for n
  proof -
    have "l_flush_called s1" "deadline s1 + n + 1 \<le> 11" "l_lock s1 = LCleared \<longrightarrow> l_closed s1"
      using f d x by (auto simp: flush_ok_def timer_rank_def s1_def)
    then have "flush_ok (wait_for_queue E n s1)"
      using wait_for_queue_outcome [where E = E and n = n and s = s1] by (auto simp: flush_ok_def)
    then show ?thesis
      using wait_for_queue_outcome(4) [where E = E and n = n and s = s1] d x by (simp add: timer_rank_def)
  qed
  have "flush_ok (run_timer E x s1) \<and> (0 < timer_rank x \<longrightarrow> deadline (run_timer E x s1) < deadline s)"
  proof (cases x)
    case (TWaitQueue n)
    then show ?thesis using q by (simp add: run_timer_def)
  next
    case TCloseRelease
    have "l_flush_called s1 = l_flush_called s" by (simp add: s1_def)
    then have "flush_ok (close_and_release s1)"
      using f d by (auto simp: flush_ok_def)
    then show ?thesis using d TCloseRelease by (simp add: run_timer_def timer_rank_def)
  next
    case TWaitSent
    then show ?thesis using d
      by (auto simp: run_timer_def wait_for_packet_sent_def timer_rank_def fs intro!: flush_ok_frame [OF f])
  next
    case (TCheckEof n)
    have "deadline (s1\<lparr>l_eof_pending := False\<rparr>) = deadline s1" by (simp add: deadline_def)
    then show ?thesis using d TCheckEof
      by (auto simp: run_timer_def timer_rank_def check_eof_def Let_def fs intro!: flush_ok_frame [OF f])
  next
    case TClose
    then show ?thesis using d by (auto simp: run_timer_def timer_rank_def fs intro!: flush_ok_frame [OF f])
  qed
  then show "flush_ok (run_timer E x (s\<lparr>l_timers := ts @ us\<rparr>))"
    and "0 < timer_rank x \<Longrightarrow> deadline (run_timer E x (s\<lparr>l_timers := ts @ us\<rparr>)) < deadline s"
    by (simp_all add: s1_def)
qed

lemma flush_flush_ok:
  assumes f: "flush_ok s"
  shows "flush_ok (flush_then_close E lp s)"
    and "deadline (flush_then_close E lp s) \<le> (if l_flush_called s then deadline s else 11)"
proof -
  define s1 where "s1 = s\<lparr>l_flush_called := True, l_last := lp\<rparr>"
  have s1: "deadline s1 = deadline s" "l_flush_called s1" "l_lock s1 = l_lock s" "l_closed s1 = l_closed s"
    by (simp_all add: s1_def deadline_def)
  have w: "flush_ok (wait_for_write_lock E s1)" if "\<not> l_flush_called s" "\<not> l_closed s"
  proof -
    let ?s2 = "s1\<lparr>l_lock := LCloser\<rparr>"
    have d2: "deadline ?s2 = 0" "l_flush_called ?s2" "l_lock ?s2 \<noteq> LCleared" "l_closed ?s2 = l_closed s"
      using f that s1 by (auto simp: flush_ok_def deadline_def)
    then have "flush_ok (wait_for_queue E 10 ?s2)"
      using wait_for_queue_outcome [where E = E and n = 10 and s = ?s2] that by (auto simp: flush_ok_def)
    then show ?thesis
      using f that s1 by (auto simp: wait_for_write_lock_def Let_def flush_ok_def deadline_def split: lock_state.split)
  qed
  show "flush_ok (flush_then_close E lp s)"
    using f w s1 by (auto simp: flush_then_close_def Let_def s1_def [symmetric] flush_ok_def deadline_def)
  then show "deadline (flush_then_close E lp s) \<le> (if l_flush_called s then deadline s else 11)"
    by (auto simp: flush_ok_def flush_then_close_def)
qed
definition flush_same :: "life \<Rightarrow> life \<Rightarrow> bool" where
  "flush_same s t \<longleftrightarrow>
     l_timers t = l_timers s \<and> l_flush_called t = l_flush_called s \<and> l_flush_error t = l_flush_error s
     \<and> (l_closed s \<longrightarrow> l_closed t) \<and> (l_lock t = LCleared \<longrightarrow> l_lock s = LCleared \<or> l_closed t)"

lemma flush_same_ok: "flush_same s t \<Longrightarrow> flush_ok s \<Longrightarrow> flush_ok t \<and> deadline t \<le> deadline s"
  by (auto simp: flush_same_def flush_ok_def deadline_def)

lemma flush_same_step:
  "flush_same s t \<Longrightarrow> flush_ok s \<Longrightarrow> flush_ok t \<and> (l_flush_called s \<longrightarrow> l_flush_called t \<and> deadline t \<le> deadline s)"
  using flush_same_ok [of s t] by (simp add: flush_same_def)

lemma flush_same_updates:
  "flush_same s (s\<lparr>l_fmt := f\<rparr>)" "flush_same s (set_packet_source s)" "flush_same s (life_close m s)"
  "flush_same s u \<Longrightarrow> flush_same s (u\<lparr>l_writer := w\<rparr>)"
  "flush_same s ((raw_write i m' s)\<lparr>l_fmt := f, l_lock := (if l_lock s = LFormat then LFree else l_lock s)\<rparr>)"
  by (simp_all add: flush_same_def set_packet_source_def raw_write_def)

lemma format_failed_same: "flush_same s (format_failed s)"
  by (simp add: flush_same_def format_failed_def)

lemma add_packet_encode_same: "flush_same s (add_packet_encode E packet m s)"
  by (auto simp: add_packet_encode_def Let_def flush_same_def format_failed_def split: sum.split)

lemma add_packet_locked_same: "flush_same s (add_packet_locked E chunks m s)"
  by (auto simp: add_packet_locked_def flush_same_def format_failed_def split: sum.split)

lemma io_failed_same: "flush_same s (io_failed e s)"
  by (cases "l_closed s"; cases e) (auto simp: io_failed_def flush_same_def)

lemma source_has_more_same: "flush_same s (source_has_more s)"
  by (auto simp: source_has_more_def source_has_more_start_def Let_def flush_same_def split: more_hook.split)

lemma send_now_same: "flush_same s (send_now packet s)"
  by (auto simp: send_now_def source_has_more_def source_has_more_start_def Let_def flush_same_def split: more_hook.split)

lemma writer_same:
  "flush_same s (write_get s)" "flush_same s (write_some n s)" "flush_same s (write_done s)"
  by (auto simp: write_get_def write_some_def write_done_def flush_same_def split: list.split wq_item.split write_pc.split)

lemma run_idle_same:
  assumes "lost_once s" and "l_idle s = c # cs"
  shows "flush_same s (run_idle c (s\<lparr>l_idle := cs\<rparr>))"
  using assms by (cases c) (auto simp: run_idle_def life_clean_def flush_same_def lost_once_def)

lemma lstep_flush_ok:
  "lstep E s t \<Longrightarrow> lost_once s \<Longrightarrow> flush_ok s
    \<Longrightarrow> flush_ok t \<and> (l_flush_called s \<longrightarrow> l_flush_called t \<and> deadline t \<le> deadline s)"
proof (induction rule: lstep.induct)
  case (flush s lp)
  then show ?case using flush_flush_ok [of s E lp] by (auto simp: flush_then_close_def)
next
  case (timer s ts t us)
  let ?u = "run_timer E t (s\<lparr>l_timers := ts @ us\<rparr>)"
  have "l_flush_called s \<longrightarrow> l_flush_called ?u"
    using wait_for_queue_outcome(1) wait_for_packet_sent_outcome(2) [of "s\<lparr>l_timers := ts @ us\<rparr>"]
    by (auto simp: run_timer_def check_eof_def Let_def split: timer.split prod.split)
  moreover have "deadline ?u \<le> deadline s"
  proof (cases "0 < timer_rank t")
    case True
    then show ?thesis using run_timer_flush_ok(2) [OF timer(3,1), of E] by simp
  next
    case False
    have "deadline (s\<lparr>l_timers := ts @ us\<rparr>) = deadline s" using False timer by (simp add: deadline_def)
    moreover have "deadline (s\<lparr>l_timers := ts @ us, l_eof_pending := b\<rparr>) = deadline (s\<lparr>l_timers := ts @ us\<rparr>)" for b
      by (simp add: deadline_def)
    ultimately show ?thesis using False
      by (cases t) (auto simp: run_timer_def timer_rank_def wait_for_packet_sent_def check_eof_def Let_def)
  qed
  ultimately show ?case using run_timer_flush_ok(1) [OF timer(3,1), of E] by simp
next
  case (read s buf)
  then show ?case by (auto simp: read_thread_def add_timer_def flush_ok_def deadline_def timer_rank_def)
next
  case (steal s)
  have "flush_same s (steal_connection s)" by (simp add: steal_connection_def terminate_queue_threads_def flush_same_def)
  then show ?case using steal flush_same_ok by (auto simp: flush_same_def)
next
  case (fmt_once s packet)
  have "flush_same s (add_packet_encode E packet True (s\<lparr>l_source := NoPacket\<rparr>))"
    using add_packet_encode_same [of "s\<lparr>l_source := NoPacket\<rparr>" E packet True] by (simp add: flush_same_def)
  then show ?case using fmt_once flush_same_ok by (auto simp: flush_same_def)
qed ((rule flush_same_step, (assumption | rule flush_same_updates add_packet_encode_same add_packet_locked_same
    format_failed_same io_failed_same source_has_more_same send_now_same writer_same run_idle_same)+)+)

lemma reachable_lost_once: "reachable E p s \<Longrightarrow> lost_once s"
  by (rule lost.reachable [OF life_init_lost_once])

lemma reachable_flush_ok: "reachable E p s \<Longrightarrow> flush_ok s"
proof (induction rule: reachable_induct)
  case init
  show ?case by (simp add: life_init_def flush_ok_def deadline_def)
next
  case (step s t)
  then show ?case using lstep_flush_ok reachable_lost_once by blast
qed

lemma reachable_step: "reachable E p s \<Longrightarrow> lstep E s t \<Longrightarrow> reachable E p t"
  unfolding reachable_def by (rule rtranclp.rtrancl_into_rtrancl)

lemma timed_run_deadline:
  assumes "timed_run E s k t" and "reachable E p s" and "l_flush_called s"
  shows "reachable E p t \<and> l_flush_called t \<and> deadline t + k \<le> deadline s"
  using assms(1)
proof (induction rule: timed_run.induct)
  case start
  then show ?case using assms by simp
next
  case (other k t u)
  then show ?case
    using lstep_flush_ok [OF other(2)] reachable_lost_once reachable_flush_ok reachable_step [OF _ other(2)] by fastforce
next
  case (fire k t ts x us)
  have s: "lstep E t (run_timer E x (t\<lparr>l_timers := ts @ us\<rparr>))" using fire(2) by (rule lstep.timer)
  have "deadline (run_timer E x (t\<lparr>l_timers := ts @ us\<rparr>)) < deadline t"
    using run_timer_flush_ok(2) fire reachable_flush_ok by blast
  then show ?case
    using lstep_flush_ok [OF s] reachable_lost_once reachable_flush_ok reachable_step [OF _ s] fire by fastforce
qed

subsection \<open>Properties\<close>


text \<open>
  C9: whatever the interleaving of the format thread, the write thread, short writes and
  \<^verbatim>\<open>flush_then_close\<close>, the bytes given to the socket are a prefix of the buffers queued, in the
  order they were queued; while the connection is open and its write thread has not failed, the
  buffer in progress and the queue hold exactly the bytes that are missing.
\<close>

theorem wire_follows_queue:
  assumes "reachable E p s"
  shows "prefix (l_wire s) (concat (l_queued s))
    \<and> (l_closed s \<or> l_writer s = WDone \<or> l_wire s @ in_flight s = concat (l_queued s))"
  using wire.reachable [OF life_init_wire_ok assms] by (auto simp: wire_ok_def)


text \<open>
  C12: once \<^verbatim>\<open>flush_then_close\<close> was called, as long as the connection is open a timer that
  leads to its close is pending, and after at most eleven of them have fired (ten waits for the
  queue and the final one) the connection is closed, even when the write thread is stuck and
  whatever the other threads do meanwhile. The only exception is a last packet that cannot be
  encoded: its exception leaves the connection open, with the write lock held.
\<close>

theorem flush_then_close_closes:
  assumes "reachable E p s" and "l_flush_called s" and "timed_run E s k t"
    and "\<not> l_closed t" and "l_flush_error t = None"
  shows "k < 11 \<and> (\<exists>x\<in>set (l_timers t). 0 < timer_rank x)"
proof -
  have t: "reachable E p t" "l_flush_called t" "deadline t + k \<le> deadline s"
    using timed_run_deadline [OF assms(3,1,2)] by blast+
  then have d: "0 < deadline t" using reachable_flush_ok assms(4,5) by (auto simp: flush_ok_def)
  have "deadline s \<le> 11" using reachable_flush_ok [OF assms(1)] by (simp add: flush_ok_def)
  moreover have "\<exists>x\<in>set (l_timers t). 0 < timer_rank x"
    using d by (metis deadline_def in_set_conv_nth length_map nth_map not_gr_zero sum_list_eq_0_iff)
  ultimately show ?thesis using t d by simp
qed
text \<open>
  One call of \<^verbatim>\<open>flush_then_close\<close> with a last packet can run its \<^verbatim>\<open>done_callback\<close> twice: when
  the packet gets sent, \<^verbatim>\<open>wait_for_packet_sent\<close> closes the connection and calls it, and the timer
  set "just in case wait_for_packet_sent never fires" calls it again five seconds later.
\<close>

theorem done_callback_can_run_twice:
  "\<exists>t. (lstep E)\<^sup>*\<^sup>* (flush_then_close E (LastRaw (x # b)) (life_init p)) t \<and> l_done_calls t = 2 \<and> l_lost t = []"
proof -
  define s1 where "s1 = flush_then_close E (LastRaw (x # b)) (life_init p)"
  have f: "l_wq s1 = [WqItems [x # b] False]" "l_writer s1 = WGet" "l_conn s1" "l_timers s1 = [TWaitSent, TCloseRelease]"
    "l_done_calls s1 = 0" "l_lost s1 = []"
    by (simp_all add: s1_def flush_then_close_def wait_for_write_lock_def wait_for_queue_def no_last_def queue_last_def
        wait_for_packet_sent_def life_init_def raw_write_def add_timer_def)
  define s2 where "s2 = write_get s1"
  have s2: "s2 = s1\<lparr>l_wq := [], l_writer := WBufs [x # b]\<rparr>" using f by (simp add: s2_def write_get_def)
  define s3 where "s3 = run_timer E TWaitSent (s2\<lparr>l_timers := [] @ [TCloseRelease]\<rparr>)"
  have s3: "s3 = close_and_release (s2\<lparr>l_timers := [TCloseRelease]\<rparr>)"
    using f by (simp add: s3_def run_timer_def wait_for_packet_sent_def s2)
  define s4 where "s4 = run_timer E TCloseRelease (s3\<lparr>l_timers := [] @ []\<rparr>)"
  have "lstep E s1 s2" unfolding s2_def using f by (intro lstep.write_get) simp_all
  moreover have "lstep E s2 s3" unfolding s3_def using f by (intro lstep.timer) (simp add: s2)
  moreover have "lstep E s3 s4" unfolding s4_def by (intro lstep.timer) (simp add: s3)
  ultimately have "(lstep E)\<^sup>*\<^sup>* s1 s4" by (meson converse_rtranclp_into_rtranclp rtranclp.rtrancl_refl)
  moreover have "l_done_calls s4 = 2" using f by (simp add: s4_def run_timer_def s3 s2)
  moreover have "l_lost s4 = []"
    using f by (simp add: s4_def run_timer_def s3 s2 close_and_release_def write_lock_release_def life_close_def Let_def
        idle_add_def terminate_queue_threads_def)
  ultimately show ?thesis unfolding s1_def by blast
qed

subsection \<open>Witnesses\<close>

definition flushing :: life where
  "flushing = flush_then_close toy_env (LastRaw [1, 2]) (life_init toy_proto)"

definition half_sent :: life where
  "half_sent = write_some 1 (write_get flushing)"

lemmas flushing_eval = flushing_def flush_then_close_def wait_for_write_lock_def wait_for_queue_def no_last_def queue_last_def
  wait_for_packet_sent_def life_init_def raw_write_def add_timer_def

lemma flushing_reachable: "reachable toy_env toy_proto flushing"
  unfolding flushing_def by (rule reachable_step [OF _ lstep.flush]) (simp add: reachable_def)

lemma half_sent_reachable: "reachable toy_env toy_proto half_sent"
proof -
  have "lstep toy_env flushing (write_get flushing)" by (rule lstep.write_get) (simp_all add: flushing_eval)
  moreover have "lstep toy_env (write_get flushing) half_sent" unfolding half_sent_def
    by (rule lstep.write_some [where b = "[1, 2]" and bs = "[]"]) (simp_all add: write_get_def flushing_eval)
  ultimately show ?thesis using flushing_reachable reachable_step by blast
qed

lemma half_sent_value: "l_wire half_sent = [1] \<and> l_writer half_sent = WBufs [[2]] \<and> \<not> l_closed half_sent"
  by (simp add: half_sent_def write_some_def write_get_def flushing_eval in_flight_def)


theorem wire_follows_queue_witness:
  "l_wire half_sent = [1] \<and> prefix (l_wire half_sent) (concat (l_queued half_sent))"
  using wire_follows_queue [OF half_sent_reachable] half_sent_value by blast


theorem flush_then_close_closes_witness:
  "(0::nat) < 11 \<and> (\<exists>x\<in>set (l_timers flushing). 0 < timer_rank x)"
  by (rule flush_then_close_closes [OF flushing_reachable _ timed_run.start]) (simp_all add: flushing_eval)

end
