(* ===== verification/Glib_Loop.thy ===== *)
theory Glib_Loop
  imports Py_Prelude
begin

text \<open>
  The part of the GLib main loop the components use: \<^verbatim>\<open>idle_add\<close> and \<^verbatim>\<open>timeout_add\<close> return
  a fresh positive source number, \<^verbatim>\<open>source_remove\<close> forgets a source, and a source whose
  callback returns \<^verbatim>\<open>None\<close> or \<^verbatim>\<open>False\<close> is forgotten once it ran. When a timer fires is
  not modelled: any pending source may run next.
\<close>

record 'a mainloop =
  ml_next :: nat
  ml_sources :: "(nat \<times> 'a) list"

definition ml_init :: "'a mainloop" where
  "ml_init = \<lparr>ml_next = 1, ml_sources = []\<rparr>"

definition ml_add :: "'a \<Rightarrow> 'a mainloop \<Rightarrow> nat \<times> 'a mainloop" where
  "ml_add f m = (ml_next m, m\<lparr>ml_next := Suc (ml_next m), ml_sources := ml_sources m @ [(ml_next m, f)]\<rparr>)"

definition ml_remove :: "nat \<Rightarrow> 'a mainloop \<Rightarrow> 'a mainloop" where
  "ml_remove i m = m\<lparr>ml_sources := filter (\<lambda>(j, _). j \<noteq> i) (ml_sources m)\<rparr>"

definition ml_ok :: "'a mainloop \<Rightarrow> bool" where
  "ml_ok m \<longleftrightarrow> 0 < ml_next m \<and> distinct (map fst (ml_sources m)) \<and> (\<forall>(i, f)\<in>set (ml_sources m). 0 < i \<and> i < ml_next m)"

lemma ml_init_ok [simp]: "ml_ok ml_init"
  by (simp add: ml_ok_def ml_init_def)

lemma ml_add_ok [simp]: "ml_ok m \<Longrightarrow> ml_ok (snd (ml_add f m))"
  by (auto simp: ml_ok_def ml_add_def)

lemma distinct_map_fst_filter: "distinct (map fst xs) \<Longrightarrow> distinct (map fst (filter P xs))"
  by (induction xs) auto

lemma ml_remove_ok [simp]: "ml_ok m \<Longrightarrow> ml_ok (ml_remove i m)"
  by (auto simp: ml_ok_def ml_remove_def distinct_map_fst_filter)

lemma ml_add_sources [simp]:
  "set (ml_sources (snd (ml_add f m))) = insert (ml_next m, f) (set (ml_sources m))" "fst (ml_add f m) = ml_next m"
  by (auto simp: ml_add_def)

lemma ml_remove_sources [simp]:
  "set (ml_sources (ml_remove i m)) = {(j, f) \<in> set (ml_sources m). j \<noteq> i}" "ml_next (ml_remove i m) = ml_next m"
  by (auto simp: ml_remove_def)

lemma ml_okD: "ml_ok m \<Longrightarrow> (i, f) \<in> set (ml_sources m) \<Longrightarrow> 0 < i \<and> i < ml_next m"
  by (auto simp: ml_ok_def)

lemma ml_ok_unique: "ml_ok m \<Longrightarrow> (i, f) \<in> set (ml_sources m) \<Longrightarrow> (i, g) \<in> set (ml_sources m) \<Longrightarrow> f = g"
  by (auto simp: ml_ok_def eq_key_imp_eq_value)

lemma ml_ok_next: "ml_ok m \<Longrightarrow> 0 < ml_next m"
  by (simp add: ml_ok_def)

end
