(* ===== verification/Clip_Proxy.thy ===== *)
theory Clip_Proxy
  imports Glib_Loop Net_Packet
begin

text \<open>
  The state of one clipboard selection (\<^verbatim>\<open>ClipboardProxyCore\<close> in
  \<^verbatim>\<open>xpra/clipboard/proxy.py\<close>): when a change of the owner of the selection leads to a token
  for the other end, the block that hides the changes it causes itself, and the origins that let
  it recognise its own tokens. \<open>x_emitted\<close> counts the calls of the hook \<^verbatim>\<open>do_emit_token\<close>, which
  the platform's subclass overrides. Times are in milliseconds.
\<close>

subsection \<open>State\<close>

datatype proxy_source = EmitToken | RemoveBlock

record proxy =
  x_selection :: string
  x_enabled :: bool
  x_have_token :: bool
  x_can_send :: bool
  x_can_receive :: bool
  x_greedy :: bool
  x_want_targets :: bool
  x_block :: nat
  x_last_emit :: int
  x_emit_timer :: nat
  x_sent_tokens :: nat
  x_preferred :: "string list"
  x_namespace :: string
  x_origin_counter :: nat
  x_origin :: string
  x_remote_origin :: string
  x_local_origins :: "string list"
  x_loop :: "proxy_source mainloop"
  x_emitted :: nat

definition proxy_init :: "string \<Rightarrow> string \<Rightarrow> proxy" where
  "proxy_init namespace selection = \<lparr>x_selection = selection, x_enabled = False, x_have_token = False,
     x_can_send = False, x_can_receive = False, x_greedy = False, x_want_targets = False, x_block = 0,
     x_last_emit = 0, x_emit_timer = 0, x_sent_tokens = 0, x_preferred = [], x_namespace = namespace,
     x_origin_counter = 0, x_origin = '''', x_remote_origin = '''', x_local_origins = [],
     x_loop = ml_init, x_emitted = 0\<rparr>"

definition DELAY_SEND_TOKEN :: int where "DELAY_SEND_TOKEN = 100"

subsection \<open>Origins\<close>

definition MAX_ORIGINS :: nat where "MAX_ORIGINS = 32"

text \<open>Appending to a bounded \<^verbatim>\<open>deque\<close> drops its oldest element when it is full.\<close>

definition deque_append :: "string \<Rightarrow> string list \<Rightarrow> string list" where
  "deque_append x xs = drop (Suc (length xs) - MAX_ORIGINS) (xs @ [x])"

definition make_origin :: "proxy \<Rightarrow> string \<Rightarrow> string" where
  "make_origin p tail = x_namespace p @ '':'' @ x_selection p @ '':'' @ tail"

definition record_origin :: "string \<Rightarrow> proxy \<Rightarrow> proxy" where
  "record_origin origin p =
     p\<lparr>x_origin := origin,
       x_local_origins := (if origin \<in> set (x_local_origins p) then x_local_origins p
                           else deque_append origin (x_local_origins p))\<rparr>"

definition set_local_clipboard_origin :: "string \<Rightarrow> proxy \<Rightarrow> string \<times> proxy" where
  "set_local_clipboard_origin identity p =
     (if identity \<noteq> [] then
        let origin = make_origin p identity in
        if origin = x_origin p then (origin, p) else (origin, record_origin origin p)
      else
        let p1 = p\<lparr>x_origin_counter := Suc (x_origin_counter p)\<rparr>;
            origin = make_origin p1 (show_nat (x_origin_counter p1))
        in (origin, record_origin origin p1))"

definition set_remote_clipboard_origin :: "string \<Rightarrow> proxy \<Rightarrow> proxy" where
  "set_remote_clipboard_origin origin p = p\<lparr>x_remote_origin := origin\<rparr>"

definition is_local_clipboard_origin :: "string \<Rightarrow> proxy \<Rightarrow> bool" where
  "is_local_clipboard_origin origin p = (origin \<noteq> [] \<and> origin \<in> set (x_local_origins p))"

definition get_clipboard_token_metadata :: "proxy \<Rightarrow> (pval \<times> pval) list \<times> proxy" where
  "get_clipboard_token_metadata p =
     (let p1 = (if x_origin p = [] then snd (set_local_clipboard_origin '''' p) else p)
      in ([(PStr ''origin'', PStr (x_origin p1))], p1))"

subsection \<open>Settings\<close>

definition proxy_set_direction :: "bool \<Rightarrow> bool \<Rightarrow> proxy \<Rightarrow> proxy" where
  "proxy_set_direction can_send can_receive p = p\<lparr>x_can_send := can_send, x_can_receive := can_receive\<rparr>"

definition set_want_targets :: "bool \<Rightarrow> proxy \<Rightarrow> proxy" where
  "set_want_targets w p = p\<lparr>x_want_targets := w\<rparr>"

definition set_enabled :: "bool \<Rightarrow> proxy \<Rightarrow> proxy" where
  "set_enabled e p = p\<lparr>x_enabled := e\<rparr>"

definition proxy_set_greedy :: "bool \<Rightarrow> proxy \<Rightarrow> proxy" where
  "proxy_set_greedy g p = p\<lparr>x_greedy := g\<rparr>"

definition proxy_set_preferred :: "string list \<Rightarrow> proxy \<Rightarrow> proxy" where
  "proxy_set_preferred ts p = p\<lparr>x_preferred := ts\<rparr>"

subsection \<open>Tokens\<close>

definition remove_block :: "proxy \<Rightarrow> proxy" where
  "remove_block p = p\<lparr>x_block := 0\<rparr>"

definition cancel_unblock :: "proxy \<Rightarrow> proxy" where
  "cancel_unblock p =
     (if x_block p \<noteq> 0 then p\<lparr>x_block := 0, x_loop := ml_remove (x_block p) (x_loop p)\<rparr> else p)"

definition cancel_emit_token :: "proxy \<Rightarrow> proxy" where
  "cancel_emit_token p =
     (if x_emit_timer p \<noteq> 0 then p\<lparr>x_emit_timer := 0, x_loop := ml_remove (x_emit_timer p) (x_loop p)\<rparr> else p)"

definition proxy_cleanup :: "proxy \<Rightarrow> proxy" where
  "proxy_cleanup p = cancel_unblock (cancel_emit_token (p\<lparr>x_enabled := False\<rparr>))"

definition do_emit_token :: "proxy \<Rightarrow> proxy" where
  "do_emit_token p = p\<lparr>x_emitted := Suc (x_emitted p)\<rparr>"

definition emit_token :: "int \<Rightarrow> proxy \<Rightarrow> proxy" where
  "emit_token now p =
     (let p1 = p\<lparr>x_emit_timer := 0\<rparr>;
          p2 = (if x_block p1 = 0 then
                  (let (i, m) = ml_add RemoveBlock (x_loop p1) in p1\<lparr>x_block := i, x_loop := m\<rparr>)
                else p1);
          p3 = do_emit_token (p2\<lparr>x_have_token := False, x_last_emit := now\<rparr>)
      in p3\<lparr>x_sent_tokens := Suc (x_sent_tokens p3)\<rparr>)"

definition do_schedule_emit_token :: "int \<Rightarrow> int \<Rightarrow> proxy \<Rightarrow> proxy" where
  "do_schedule_emit_token now min_delay p =
     (let elapsed = now - x_last_emit p;
          delay = max min_delay (DELAY_SEND_TOKEN - elapsed)
      in if delay \<le> 0 then emit_token now p
         else let (i, m) = ml_add EmitToken (x_loop p) in p\<lparr>x_emit_timer := i, x_loop := m\<rparr>)"

definition emit_token_soon :: "proxy \<Rightarrow> proxy" where
  "emit_token_soon p =
     (let p1 = cancel_emit_token p in p1\<lparr>x_loop := snd (ml_add EmitToken (x_loop p1))\<rparr>)"

definition schedule_emit_token :: "int \<Rightarrow> int \<Rightarrow> proxy \<Rightarrow> proxy" where
  "schedule_emit_token now min_delay p =
     (if min_delay = 0 then emit_token_soon p
      else if x_have_token p \<or> (\<not> x_want_targets p \<and> \<not> x_greedy p) \<or> DELAY_SEND_TOKEN < 0 then emit_token_soon p
      else if x_emit_timer p = 0 then do_schedule_emit_token now min_delay p
      else p)"

definition do_owner_changed :: "int \<Rightarrow> proxy \<Rightarrow> proxy" where
  "do_owner_changed now p =
     (if \<not> x_enabled p \<or> x_block p \<noteq> 0 then p
      else if x_have_token p \<or> ((x_greedy p \<or> x_want_targets p) \<and> x_can_send p) then schedule_emit_token now 0 p
      else p)"

text \<open>The main loop runs a pending source.\<close>

definition run_source :: "int \<Rightarrow> nat \<Rightarrow> proxy_source \<Rightarrow> proxy \<Rightarrow> proxy" where
  "run_source now i f p =
     (let p1 = p\<lparr>x_loop := ml_remove i (x_loop p)\<rparr>
      in case f of EmitToken \<Rightarrow> emit_token now p1 | RemoveBlock \<Rightarrow> remove_block p1)"

subsection \<open>Reachable states\<close>

inductive proxy_run :: "proxy \<Rightarrow> proxy \<Rightarrow> bool" for p where
  start: "proxy_run p p"
| owner: "proxy_run p q \<Longrightarrow> proxy_run p (do_owner_changed now q)"
| schedule: "proxy_run p q \<Longrightarrow> proxy_run p (schedule_emit_token now d q)"
| source: "proxy_run p q \<Longrightarrow> (i, f) \<in> set (ml_sources (x_loop q)) \<Longrightarrow> proxy_run p (run_source now i f q)"
| unblock: "proxy_run p q \<Longrightarrow> proxy_run p (cancel_unblock q)"
| cleanup: "proxy_run p q \<Longrightarrow> proxy_run p (proxy_cleanup q)"
| local_origin: "proxy_run p q \<Longrightarrow> proxy_run p (snd (set_local_clipboard_origin identity q))"
| metadata: "proxy_run p q \<Longrightarrow> proxy_run p (snd (get_clipboard_token_metadata q))"
| remote_origin: "proxy_run p q \<Longrightarrow> proxy_run p (set_remote_clipboard_origin o' q)"
| direction: "proxy_run p q \<Longrightarrow> proxy_run p (proxy_set_direction a b q)"
| enabled: "proxy_run p q \<Longrightarrow> proxy_run p (set_enabled a q)"
| greedy: "proxy_run p q \<Longrightarrow> proxy_run p (proxy_set_greedy a q)"
| targets: "proxy_run p q \<Longrightarrow> proxy_run p (set_want_targets a q)"
| preferred: "proxy_run p q \<Longrightarrow> proxy_run p (proxy_set_preferred ts q)"
| token: "proxy_run p q \<Longrightarrow> proxy_run p (q\<lparr>x_have_token := b\<rparr>)"

text \<open>The last step stands for the subclasses, whose \<^verbatim>\<open>got_token\<close> sets \<^verbatim>\<open>_have_token\<close>.\<close>

definition proxy_ok :: "proxy \<Rightarrow> bool" where
  "proxy_ok p \<longleftrightarrow>
     ml_ok (x_loop p)
     \<and> (x_block p \<noteq> 0 \<longrightarrow> (x_block p, RemoveBlock) \<in> set (ml_sources (x_loop p)))
     \<and> (\<forall>i. (i, RemoveBlock) \<in> set (ml_sources (x_loop p)) \<longrightarrow> x_block p = i)
     \<and> (x_emit_timer p \<noteq> 0 \<longrightarrow> (x_emit_timer p, EmitToken) \<in> set (ml_sources (x_loop p)))
     \<and> (x_origin p \<noteq> [] \<longrightarrow> x_origin p \<in> set (x_local_origins p))"

named_theorems proxy_oks

lemma proxy_ok_frame:
  "proxy_ok p \<Longrightarrow> x_loop q = x_loop p \<Longrightarrow> x_block q = x_block p \<Longrightarrow> x_emit_timer q = x_emit_timer p
    \<Longrightarrow> x_origin q = x_origin p \<Longrightarrow> x_local_origins q = x_local_origins p \<Longrightarrow> proxy_ok q"
  by (simp add: proxy_ok_def)

lemma settings_ok [proxy_oks]:
  "proxy_ok p \<Longrightarrow> proxy_ok (proxy_set_direction a b p)" "proxy_ok p \<Longrightarrow> proxy_ok (set_enabled e p)"
  "proxy_ok p \<Longrightarrow> proxy_ok (proxy_set_greedy e p)" "proxy_ok p \<Longrightarrow> proxy_ok (set_want_targets e p)"
  "proxy_ok p \<Longrightarrow> proxy_ok (proxy_set_preferred ts p)" "proxy_ok p \<Longrightarrow> proxy_ok (set_remote_clipboard_origin r p)"
  "proxy_ok p \<Longrightarrow> proxy_ok (p\<lparr>x_have_token := e\<rparr>)" "proxy_ok p \<Longrightarrow> proxy_ok (do_emit_token p)"
  by (simp_all add: proxy_ok_def proxy_set_direction_def set_enabled_def proxy_set_greedy_def set_want_targets_def
      proxy_set_preferred_def set_remote_clipboard_origin_def do_emit_token_def)

lemma proxy_ok_kinds:
  "proxy_ok p \<Longrightarrow> (i, EmitToken) \<in> set (ml_sources (x_loop p)) \<Longrightarrow> (i, RemoveBlock) \<notin> set (ml_sources (x_loop p))"
  using ml_ok_unique [of "x_loop p" i EmitToken RemoveBlock] by (auto simp: proxy_ok_def)

lemma proxy_ok_block: "proxy_ok p \<Longrightarrow> x_block p \<noteq> 0 \<Longrightarrow> (x_block p, RemoveBlock) \<in> set (ml_sources (x_loop p))"
  by (simp add: proxy_ok_def)

lemma proxy_ok_timer: "proxy_ok p \<Longrightarrow> x_emit_timer p \<noteq> 0 \<Longrightarrow> (x_emit_timer p, EmitToken) \<in> set (ml_sources (x_loop p))"
  by (simp add: proxy_ok_def)

lemma proxy_ok_differ: "proxy_ok p \<Longrightarrow> x_block p \<noteq> 0 \<Longrightarrow> x_emit_timer p \<noteq> 0 \<Longrightarrow> x_emit_timer p \<noteq> x_block p"
  using proxy_ok_block proxy_ok_timer proxy_ok_kinds by metis

lemma cancel_emit_token_ok [proxy_oks]: "proxy_ok p \<Longrightarrow> proxy_ok (cancel_emit_token p)"
  using proxy_ok_differ [of p] by (simp add: proxy_ok_def cancel_emit_token_def) metis

lemma cancel_unblock_ok [proxy_oks]: "proxy_ok p \<Longrightarrow> proxy_ok (cancel_unblock p)"
  using proxy_ok_differ [of p] by (simp add: proxy_ok_def cancel_unblock_def) metis

lemma add_block_ok:
  assumes "proxy_ok p" and "x_block p = 0"
  shows "proxy_ok (p\<lparr>x_block := ml_next (x_loop p), x_loop := snd (ml_add RemoveBlock (x_loop p))\<rparr>)"
proof -
  have "(i, RemoveBlock) \<notin> set (ml_sources (x_loop p))" for i
    using assms ml_okD [of "x_loop p" i RemoveBlock] by (auto simp: proxy_ok_def)
  then show ?thesis using assms by (simp add: proxy_ok_def)
qed

lemma emit_token_ok [proxy_oks]:
  assumes "proxy_ok p"
  shows "proxy_ok (emit_token now p)"
proof -
  define p1 where "p1 = p\<lparr>x_emit_timer := 0\<rparr>"
  define p2 where "p2 = (if x_block p1 = 0
    then p1\<lparr>x_block := ml_next (x_loop p1), x_loop := snd (ml_add RemoveBlock (x_loop p1))\<rparr> else p1)"
  have "proxy_ok p1" using assms by (simp add: proxy_ok_def p1_def)
  then have "proxy_ok p2" using add_block_ok by (simp add: p2_def)
  then show ?thesis
    by (rule proxy_ok_frame)
      (simp_all add: emit_token_def do_emit_token_def Let_def case_prod_beta p2_def p1_def)
qed

lemma add_emit_ok:
  assumes "proxy_ok p" and "x_emit_timer p = 0"
  shows "proxy_ok (p\<lparr>x_loop := snd (ml_add EmitToken (x_loop p))\<rparr>)"
    and "proxy_ok (p\<lparr>x_emit_timer := ml_next (x_loop p), x_loop := snd (ml_add EmitToken (x_loop p))\<rparr>)"
  using assms ml_okD [of "x_loop p"] by (auto simp: proxy_ok_def)

lemma emit_token_soon_ok [proxy_oks]: "proxy_ok p \<Longrightarrow> proxy_ok (emit_token_soon p)"
  using add_emit_ok(1) [OF cancel_emit_token_ok, of p]
  by (simp add: emit_token_soon_def Let_def) (simp add: cancel_emit_token_def)

lemma do_schedule_ok: "proxy_ok p \<Longrightarrow> x_emit_timer p = 0 \<Longrightarrow> proxy_ok (do_schedule_emit_token now d p)"
  using add_emit_ok(2) [of p] by (simp add: do_schedule_emit_token_def Let_def emit_token_ok case_prod_beta)

lemma schedule_ok [proxy_oks]: "proxy_ok p \<Longrightarrow> proxy_ok (schedule_emit_token now d p)"
  by (simp add: schedule_emit_token_def emit_token_soon_ok do_schedule_ok)

lemma owner_changed_ok [proxy_oks]: "proxy_ok p \<Longrightarrow> proxy_ok (do_owner_changed now p)"
  by (simp add: do_owner_changed_def schedule_ok)

lemma run_source_ok [proxy_oks]:
  assumes ok: "proxy_ok p" and s: "(i, f) \<in> set (ml_sources (x_loop p))"
  shows "proxy_ok (run_source now i f p)"
proof (cases f)
  case EmitToken
  let ?q = "p\<lparr>x_emit_timer := 0, x_loop := ml_remove i (x_loop p)\<rparr>"
  have "(i, RemoveBlock) \<notin> set (ml_sources (x_loop p))"
    using proxy_ok_kinds [OF ok] s EmitToken by simp
  then have "x_block p \<noteq> 0 \<Longrightarrow> x_block p \<noteq> i" using ok by (auto simp: proxy_ok_def)
  then have "proxy_ok ?q" using ok by (simp add: proxy_ok_def)
  then have "proxy_ok (emit_token now ?q)" by (rule emit_token_ok)
  moreover have "emit_token now ?q = emit_token now (p\<lparr>x_loop := ml_remove i (x_loop p)\<rparr>)"
    by (simp add: emit_token_def)
  ultimately show ?thesis using EmitToken by (simp add: run_source_def)
next
  case RemoveBlock
  then have b: "x_block p = i" using ok s by (simp add: proxy_ok_def)
  have "(i, EmitToken) \<notin> set (ml_sources (x_loop p))" using proxy_ok_kinds [OF ok, of i] s RemoveBlock by blast
  then have "x_emit_timer p \<noteq> 0 \<Longrightarrow> x_emit_timer p \<noteq> i" using ok by (auto simp: proxy_ok_def)
  then show ?thesis using ok RemoveBlock b by (simp add: run_source_def remove_block_def proxy_ok_def) blast
qed

lemma deque_append_last: "x \<in> set (deque_append x xs)"
  by (simp add: deque_append_def MAX_ORIGINS_def)

lemma record_origin_ok [proxy_oks]: "proxy_ok p \<Longrightarrow> proxy_ok (record_origin origin p)"
  by (simp add: proxy_ok_def record_origin_def deque_append_last)

lemma set_local_ok [proxy_oks]: "proxy_ok p \<Longrightarrow> proxy_ok (snd (set_local_clipboard_origin identity p))"
proof -
  assume ok: "proxy_ok p"
  have "proxy_ok (p\<lparr>x_origin_counter := n\<rparr>)" for n using ok by (rule proxy_ok_frame) simp_all
  then show ?thesis using ok by (simp add: set_local_clipboard_origin_def Let_def record_origin_ok)
qed

lemma metadata_ok [proxy_oks]: "proxy_ok p \<Longrightarrow> proxy_ok (snd (get_clipboard_token_metadata p))"
  by (simp add: get_clipboard_token_metadata_def Let_def set_local_ok)

lemma proxy_run_ok: "proxy_run p q \<Longrightarrow> proxy_ok p \<Longrightarrow> proxy_ok q"
proof (induction rule: proxy_run.induct)
  case (cleanup q)
  then have "proxy_ok (q\<lparr>x_enabled := False\<rparr>)" using settings_ok(2) [of q False] by (simp add: set_enabled_def)
  then show ?case by (simp add: proxy_cleanup_def proxy_oks)
qed (auto intro: proxy_oks)

lemma proxy_init_ok: "proxy_ok (proxy_init ns sel)"
  by (simp add: proxy_ok_def proxy_init_def ml_init_def ml_ok_def)

subsection \<open>Recognising one's own tokens\<close>

text \<open>Among the last \<open>n\<close> origins recorded.\<close>

definition recent :: "nat \<Rightarrow> string \<Rightarrow> string list \<Rightarrow> bool" where
  "recent n x xs = (x \<in> set (drop (length xs - n) xs))"

lemma recent_append: "recent n x xs \<Longrightarrow> n < MAX_ORIGINS \<Longrightarrow> recent (Suc n) x (deque_append y xs)"
proof -
  assume r: "recent n x xs" and n: "n < MAX_ORIGINS"
  have "drop (length xs - n) xs @ [y] = drop (length xs - n) (xs @ [y])" by simp
  moreover have "length (deque_append y xs) - Suc n + (Suc (length xs) - MAX_ORIGINS) = length xs - n"
    using n by (auto simp: deque_append_def)
  then have "drop (length (deque_append y xs) - Suc n) (deque_append y xs) = drop (length xs - n) (xs @ [y])"
    by (simp only: deque_append_def drop_drop)
  ultimately show ?thesis using r unfolding recent_def by (metis Un_iff set_append)
qed

lemma recent_mono: "recent n x xs \<Longrightarrow> n \<le> m \<Longrightarrow> recent m x xs"
  unfolding recent_def using set_drop_subset_set_drop [of "length xs - m" "length xs - n" xs] diff_le_mono2 [of n m "length xs"]
  by blast

lemma recent_set_local:
  assumes "recent n x (x_local_origins p)" and "n < MAX_ORIGINS"
  shows "recent (Suc n) x (x_local_origins (snd (set_local_clipboard_origin identity p)))"
  using assms recent_append recent_mono [of n x "x_local_origins p" "Suc n"]
  by (auto simp: set_local_clipboard_origin_def record_origin_def Let_def)

lemma recent_after:
  "recent n x (x_local_origins p) \<Longrightarrow> n + length ids \<le> MAX_ORIGINS
    \<Longrightarrow> x \<in> set (x_local_origins (fold (\<lambda>i q. snd (set_local_clipboard_origin i q)) ids p))"
proof (induction ids arbitrary: n p)
  case Nil
  then show ?case by (auto simp: recent_def dest: in_set_dropD)
next
  case (Cons i ids)
  then show ?case using recent_set_local [of n x p i] by simp
qed

subsection \<open>Properties\<close>

text \<open>
  C27: owner changes are never blocked for good: whenever a proxy ignores them, exactly one source
  of the main loop is pending that ends it, it carries the number kept in
  \<^verbatim>\<open>_block_owner_change\<close>, and running it makes the proxy see owner changes again.
\<close>

theorem owner_change_block_released:
  assumes "proxy_run (proxy_init ns sel) p" and "x_block p \<noteq> 0"
  shows "{i. (i, RemoveBlock) \<in> set (ml_sources (x_loop p))} = {x_block p}
    \<and> x_block (run_source now (x_block p) RemoveBlock p) = 0"
  using proxy_run_ok [OF assms(1) proxy_init_ok] assms(2)
  by (auto simp: proxy_ok_def run_source_def remove_block_def)

text \<open>
  The origin a proxy puts in a token is recognised as its own when the token comes back: in
  every reachable state the current origin is, and an origin that was new when it was set still is
  after up to 31 more changes of the origin, whatever they are.
\<close>

theorem own_origin_recognised:
  assumes "proxy_run (proxy_init ns sel) p" and "set_local_clipboard_origin identity p = (origin, p1)"
    and "origin \<notin> set (x_local_origins p)" and "length ids \<le> 31"
  shows "is_local_clipboard_origin (x_origin (snd (get_clipboard_token_metadata p))) (snd (get_clipboard_token_metadata p))
    \<and> is_local_clipboard_origin origin (fold (\<lambda>i q. snd (set_local_clipboard_origin i q)) ids p1)"
proof
  have ok: "proxy_ok p" by (rule proxy_run_ok [OF assms(1) proxy_init_ok])
  have "x_origin (snd (get_clipboard_token_metadata p)) \<noteq> []"
    by (simp add: get_clipboard_token_metadata_def Let_def set_local_clipboard_origin_def record_origin_def make_origin_def)
  then show "is_local_clipboard_origin (x_origin (snd (get_clipboard_token_metadata p))) (snd (get_clipboard_token_metadata p))"
    using metadata_ok [OF ok] by (simp add: is_local_clipboard_origin_def proxy_ok_def)
  have new: "origin \<noteq> [] \<and> (x_origin p \<noteq> origin \<or> identity = [])"
    using assms(2,3) ok
    by (auto simp: set_local_clipboard_origin_def make_origin_def Let_def proxy_ok_def split: if_splits)
  then have "x_local_origins p1 = deque_append origin (x_local_origins p)"
    using assms(2,3) by (auto simp: set_local_clipboard_origin_def record_origin_def Let_def split: if_splits)
  then have "recent 1 origin (x_local_origins p1)"
    by (simp add: recent_def deque_append_def MAX_ORIGINS_def)
  then show "is_local_clipboard_origin origin (fold (\<lambda>i q. snd (set_local_clipboard_origin i q)) ids p1)"
    using recent_after [of 1 origin p1 ids] assms(4) new by (simp add: is_local_clipboard_origin_def MAX_ORIGINS_def)
qed

subsection \<open>Witnesses\<close>

definition idle_proxy :: proxy where
  "idle_proxy = proxy_init ''ns'' ''PRIMARY''"

definition blocked_proxy :: proxy where
  "blocked_proxy = run_source 5 1 EmitToken (schedule_emit_token 0 0 idle_proxy)"

lemma blocked_proxy_run: "proxy_run (proxy_init ''ns'' ''PRIMARY'') blocked_proxy"
  unfolding blocked_proxy_def idle_proxy_def
  by (intro proxy_run.source proxy_run.schedule proxy_run.start)
    (simp add: schedule_emit_token_def emit_token_soon_def cancel_emit_token_def proxy_init_def ml_init_def ml_add_def)

theorem owner_change_block_released_witness:
  "{i. (i, RemoveBlock) \<in> set (ml_sources (x_loop blocked_proxy))} = {x_block blocked_proxy}
    \<and> x_block (run_source 9 (x_block blocked_proxy) RemoveBlock blocked_proxy) = 0"
  by (rule owner_change_block_released [OF blocked_proxy_run])
    (simp add: blocked_proxy_def idle_proxy_def run_source_def emit_token_def do_emit_token_def schedule_emit_token_def
      emit_token_soon_def cancel_emit_token_def proxy_init_def ml_init_def ml_add_def ml_remove_def Let_def)

theorem own_origin_recognised_witness:
  "is_local_clipboard_origin ''ns:PRIMARY:a''
    (fold (\<lambda>i q. snd (set_local_clipboard_origin i q)) [''b'', ''''] (snd (set_local_clipboard_origin ''a'' idle_proxy)))"
proof -
  define p1 where "p1 = snd (set_local_clipboard_origin ''a'' idle_proxy)"
  have run: "proxy_run (proxy_init ''ns'' ''PRIMARY'') idle_proxy"
    unfolding idle_proxy_def by (rule proxy_run.start)
  have new: "set_local_clipboard_origin ''a'' idle_proxy = (''ns:PRIMARY:a'', p1)"
    by (simp add: p1_def idle_proxy_def set_local_clipboard_origin_def make_origin_def proxy_init_def Let_def)
  show ?thesis
    using own_origin_recognised [OF run new, of "[''b'', '''']"] unfolding p1_def [symmetric]
    by (simp add: idle_proxy_def proxy_init_def)
qed

end
