(* ===== verification/Py_Struct.thy ===== *)
theory Py_Struct
  imports Net_Packet
begin

text \<open>
  Python's \<^verbatim>\<open>struct\<close> module for unsigned integers in the byte order of the host, which is
  little-endian: packing raises where a value is no integer or does not fit, unpacking where the
  length is wrong.
\<close>

subsection \<open>Packed integers\<close>

fun unpack_ints :: "nat \<Rightarrow> nat \<Rightarrow> bytes \<Rightarrow> pval list" where
  "unpack_ints size_of 0 b = []"
| "unpack_ints size_of (Suc n) b = PInt (int (le_val (take size_of b))) # unpack_ints size_of n (drop size_of b)"

text \<open>\<^verbatim>\<open>struct.unpack\<close> with as many integers as fit: the format and the data must agree in length.\<close>

definition struct_unpack :: "nat \<Rightarrow> pval \<Rightarrow> py_error + pval list" where
  "struct_unpack size_of data =
     (case data of
        PBytes b \<Rightarrow>
          if length b mod size_of = 0 then Inr (unpack_ints size_of (length b div size_of) b) else Inl StructError
      | _ \<Rightarrow> Inl TypeError)"

definition pack_int :: "nat \<Rightarrow> pval \<Rightarrow> py_error + bytes" where
  "pack_int size_of v =
     (case v of
        PInt i \<Rightarrow> if 0 \<le> i \<and> i < 256 ^ size_of then Inr (le_bytes size_of (nat i)) else Inl StructError
      | PBool b \<Rightarrow> Inr (le_bytes size_of (if b then 1 else 0))
      | _ \<Rightarrow> Inl StructError)"

definition struct_pack :: "nat \<Rightarrow> pval list \<Rightarrow> py_error + bytes" where
  "struct_pack size_of vs = map_sum id concat (seq_results (map (pack_int size_of) vs))"

subsection \<open>Packing what was unpacked\<close>

lemma length_unpack_ints [simp]: "length (unpack_ints k n b) = n"
  by (induction n arbitrary: b) auto

lemma le_bytes_le_val: "le_bytes (length b) (le_val b) = b"
proof (induction b)
  case (Cons x b)
  have "(unat x + 256 * le_val b) div 256 = le_val b" by simp
  then show ?case using Cons by (simp add: word_unat_eq_iff)
qed simp

lemma pack_unpack: "length b = k * n \<Longrightarrow> struct_pack k (unpack_ints k n b) = Inr b"
proof (induction n arbitrary: b)
  case 0
  then show ?case by (simp add: struct_pack_def)
next
  case (Suc n)
  have len: "length (take k b) = k" using Suc(2) by simp
  have "le_val (take k b) < 256 ^ k" using le_val_bound [of "take k b"] len by simp
  then have "int (le_val (take k b)) < 256 ^ k" by (metis of_nat_less_iff of_nat_numeral of_nat_power)
  then have hd: "pack_int k (PInt (int (le_val (take k b)))) = Inr (take k b)"
    using le_bytes_le_val [of "take k b"] len by (simp add: pack_int_def)
  have "length (drop k b) = k * n" using Suc(2) by simp
  from Suc(1) [OF this] obtain rs where "seq_results (map (pack_int k) (unpack_ints k n (drop k b))) = Inr rs"
      and "concat rs = drop k b"
    by (auto simp: struct_pack_def)
  then show ?case using hd by (simp add: struct_pack_def)
qed

lemma struct_roundtrip:
  assumes "0 < k" and "length b mod k = 0"
  shows "\<exists>ints. struct_unpack k (PBytes b) = Inr ints \<and> struct_pack k ints = Inr b \<and> (ints = [] \<longleftrightarrow> b = [])"
proof -
  have p: "struct_pack k (unpack_ints k (length b div k) b) = Inr b"
    by (rule pack_unpack) (use assms(2) in \<open>auto simp: dvd_eq_mod_eq_0\<close>)
  moreover have "unpack_ints k (length b div k) b = [] \<Longrightarrow> b = []" using p by (simp add: struct_pack_def)
  moreover have "b = [] \<Longrightarrow> unpack_ints k (length b div k) b = []" by simp
  ultimately show ?thesis using assms(2) by (auto simp: struct_unpack_def)
qed

end
