(* ===== verification/Clip_Data.thy ===== *)
theory Clip_Data
  imports Proto_Encode Typed_Dict Py_Struct
begin

text \<open>
  Targets and data of the clipboard (\<^verbatim>\<open>xpra/clipboard/targets.py\<close>, \<^verbatim>\<open>common.py\<close> and the
  conversions of \<^verbatim>\<open>core.py\<close>): which targets are dropped, and how the contents of a selection
  are put in a form that does not depend on the host and back. Integers of a selection in format
  32 are C \<^verbatim>\<open>long\<close>s, 8 or 4 bytes by platform; hosts are little-endian. The regular expressions
  of the user's filters are matched by a parameter. The X11 subclass, which also converts atoms,
  is not modelled.
\<close>

record data_env =
  d_rep :: "pval \<Rightarrow> string"
  d_posix :: bool
  d_long :: nat
  d_filters :: "string list"
  d_match :: "string \<Rightarrow> string \<Rightarrow> bool"

subsection \<open>Targets\<close>

text \<open>\<^verbatim>\<open>re.match\<close> is anchored at the start; \<^verbatim>\<open>$\<close> also matches before a final newline, \<^verbatim>\<open>.\<close> any other character.\<close>

definition re_whole :: "string \<Rightarrow> string \<Rightarrow> bool" where
  "re_whole pat s = (s = pat \<or> s = pat @ [CHR 0x0A])"

definition re_portal :: "string \<Rightarrow> bool" where
  "re_portal s =
     (let ps = utf8_points s; dot = (\<lambda>i. i < length ps \<and> ps ! i \<noteq> [CHR 0x0A])
      in concat (take 15 ps) = ''application/vnd'' \<and> dot 15 \<and> concat (take 6 (drop 16 ps)) = ''portal'' \<and> dot 22)"

definition must_discard_extra :: "string \<Rightarrow> bool" where
  "must_discard_extra target =
     (re_whole ''SAVE_TARGETS'' target \<or> startswith target ''COMPOUND_TEXT'' \<or> startswith target ''GTK_TEXT_BUFFER_CONTENTS'')"

definition must_discard :: "string \<Rightarrow> bool" where
  "must_discard target =
     (list_ex (startswith target)
        [''NeXT'', ''com.apple.'', ''CorePasteboardFlavorType'', ''dyn.'', ''resource-transfer-format'', ''x-special/'']
      \<or> re_portal target)"

definition filter_targets :: "data_env \<Rightarrow> pval list \<Rightarrow> string list" where
  "filter_targets E targets = filter (\<lambda>t. \<not> (must_discard t \<or> must_discard_extra t)) (map (bytestostr (d_rep E)) targets)"

subsection \<open>Sizes\<close>

definition sizeof_short :: nat where "sizeof_short = 2"

definition get_format_size :: "data_env \<Rightarrow> int \<Rightarrow> int" where
  "get_format_size E dformat = max 8 (if dformat = 32 then int (d_long E) * 8 else dformat)"

definition compile_filters :: "(string \<Rightarrow> bool) \<Rightarrow> string list \<Rightarrow> string list" where
  "compile_filters valid filter_res = filter (\<lambda>x. x \<noteq> [] \<and> valid x) filter_res"

text \<open>\<^verbatim>\<open>data[:n]\<close> for \<open>n\<close> not negative.\<close>

definition py_take :: "nat \<Rightarrow> pval \<Rightarrow> py_error + pval" where
  "py_take n v =
     (case v of
        PBytes b \<Rightarrow> Inr (PBytes (take n b))
      | PStr s \<Rightarrow> Inr (PStr (concat (take n (utf8_points s))))
      | PList xs \<Rightarrow> Inr (PList (take n xs))
      | _ \<Rightarrow> Inl TypeError)"

text \<open>The limits of the clipboard policy, on sending and on receiving.\<close>

definition limit_data :: "data_env \<Rightarrow> int \<Rightarrow> int \<Rightarrow> pval \<Rightarrow> py_error + pval" where
  "limit_data E max_size dformat data =
     (if max_size > 0 then
        (case pval_len data of
           None \<Rightarrow> Inl TypeError
         | Some n \<Rightarrow>
             let max_len = nat (max_size * 8 div get_format_size E dformat)
             in if n > max_len then py_take max_len data else Inr data)
      else Inr data)"

subsection \<open>To the wire\<close>

text \<open>The result is \<open>None\<close> for \<^verbatim>\<open>(None, None)\<close>, else the encoding and the data.\<close>

definition do_munge_raw_to_wire :: "data_env \<Rightarrow> string \<Rightarrow> int \<Rightarrow> pval \<Rightarrow> py_error + (pval \<times> pval) option" where
  "do_munge_raw_to_wire E dtype dformat data =
     (if pval_len data = None \<and> py_bool data then Inl TypeError
      else if dformat = 32 then
        (if (dtype = ''ATOM'' \<or> dtype = ''ATOM_PAIR'') \<and> d_posix E then Inr None
         else map_sum id (\<lambda>ints. Some (PBytes (str_encode ''integers''), PList ints)) (struct_unpack (d_long E) data))
      else if dformat = 16 then
        map_sum id (\<lambda>ints. Some (PBytes (str_encode ''integers''), PList ints)) (struct_unpack sizeof_short data)
      else if dformat = 8 then
        (if d_filters E = [] then Inr (Some (PBytes (str_encode ''bytes''), data))
         else case data of
             PStr s \<Rightarrow> if list_ex (\<lambda>f. d_match E f s) (d_filters E) then Inr None
                       else Inr (Some (PBytes (str_encode ''bytes''), data))
           | _ \<Rightarrow> Inl TypeError)
      else Inr None)"

definition unmarshalled_types :: "string list" where
  "unmarshalled_types = [''WINDOW'', ''PIXMAP'', ''BITMAP'', ''DRAWABLE'', ''PIXEL'', ''COLORMAP'']"

definition munge_raw_to_wire :: "data_env \<Rightarrow> int \<Rightarrow> string \<Rightarrow> string \<Rightarrow> int \<Rightarrow> pval \<Rightarrow> py_error + (pval \<times> pval) option" where
  "munge_raw_to_wire E max_send target dtype dformat data0 =
     (case limit_data E max_send dformat data0 of
        Inl e \<Rightarrow> Inl e
      | Inr data \<Rightarrow>
          if dtype \<in> set unmarshalled_types then
            (if pval_len data = None \<and> py_bool data then Inl TypeError else Inr None)
          else if target = ''TARGETS'' \<and> dtype = ''ATOM'' \<and> (case data of PList _ \<Rightarrow> True | _ \<Rightarrow> False) then
            (case data of
               PList xs \<Rightarrow> Inr (Some (PStr ''atoms'', PList (map PStr (filter_targets E xs))))
             | _ \<Rightarrow> Inr None)
          else do_munge_raw_to_wire E dtype dformat data)"

subsection \<open>From the wire\<close>

definition wire_int_size :: "data_env \<Rightarrow> int \<Rightarrow> nat option" where
  "wire_int_size E dformat =
     (if dformat = 32 then Some (d_long E) else if dformat = 16 then Some sizeof_short else if dformat = 8 then Some 1 else None)"

definition munge_wire_to_raw :: "data_env \<Rightarrow> int \<Rightarrow> string \<Rightarrow> int \<Rightarrow> pval \<Rightarrow> py_error + pval" where
  "munge_wire_to_raw E max_receive encoding dformat data0 =
     (if pval_len data0 = None \<and> py_bool data0 then Inl TypeError
      else case limit_data E max_receive dformat data0 of
        Inl e \<Rightarrow> Inl e
      | Inr data \<Rightarrow>
          if encoding = ''bytes'' then Inr data
          else if encoding = ''integers'' then
            (if \<not> py_bool data then Inr (PBytes [])
             else case wire_int_size E dformat of
                 None \<Rightarrow> Inl ValueError
               | Some size_of \<Rightarrow>
                   (case py_list data of
                      Inl e \<Rightarrow> Inl e
                    | Inr vs \<Rightarrow> map_sum id PBytes (struct_pack size_of vs)))
          else Inl ValueError)"

subsection \<open>Lemmas\<close>

subsection \<open>Properties\<close>

definition aligned_data :: "data_env \<Rightarrow> int \<Rightarrow> bytes \<Rightarrow> bool" where
  "aligned_data E dformat b =
     (dformat = 8 \<or> dformat = 16 \<and> length b mod 2 = 0 \<or> dformat = 32 \<and> length b mod d_long E = 0)"

text \<open>
  C36: the contents of a selection survive the trip: with no size policy and no filters, data in
  format 8, 16 or 32 that the sender's host can hold (a whole number of its integers) is accepted
  and the receiver gets the same bytes, when both hosts have the same size of \<^verbatim>\<open>long\<close>. This holds
  for every target and type but those that cannot be sent and atoms.
\<close>

theorem clipboard_data_roundtrip:
  assumes "aligned_data S dformat b" and "d_filters S = []" and "dtype \<notin> set unmarshalled_types"
    and "dtype \<notin> {''ATOM'', ''ATOM_PAIR''}" and "d_long R = d_long S" and "0 < d_long S"
    and "max_send \<le> 0" and "max_receive \<le> 0"
  shows "\<exists>enc wire. munge_raw_to_wire S max_send target dtype dformat (PBytes b) = Inr (Some (PBytes enc, wire))
    \<and> munge_wire_to_raw R max_receive (bytes_chars enc) dformat wire = Inr (PBytes b)"
proof -
  have enc: "bytes_chars (str_encode ''bytes'') = ''bytes''" "bytes_chars (str_encode ''integers'') = ''integers''"
    by (simp_all add: bytes_chars_encode)
  have ints: ?thesis if k: "0 < k" "length b mod k = 0"
      "do_munge_raw_to_wire S dtype dformat (PBytes b)
        = map_sum id (\<lambda>ints. Some (PBytes (str_encode ''integers''), PList ints)) (struct_unpack k (PBytes b))"
      "wire_int_size R dformat = Some k" for k
  proof -
    obtain ints where i: "struct_unpack k (PBytes b) = Inr ints" "struct_pack k ints = Inr b" "ints = [] \<longleftrightarrow> b = []"
      using struct_roundtrip [OF k(1,2)] by blast
    then show ?thesis using assms(3,4,7,8) k(3,4)
      by (auto simp: munge_raw_to_wire_def limit_data_def munge_wire_to_raw_def pval_len_def enc py_list_def py_sequence_def)
  qed
  show ?thesis
  proof (cases "dformat = 8")
    case True
    then show ?thesis using assms
      by (auto simp: munge_raw_to_wire_def limit_data_def munge_wire_to_raw_def do_munge_raw_to_wire_def pval_len_def enc)
  next
    case False
    then show ?thesis
      using assms ints [of 2] ints [of "d_long S"]
      by (auto simp: aligned_data_def do_munge_raw_to_wire_def pval_len_def wire_int_size_def sizeof_short_def)
  qed
qed

text \<open>
  The size policy is applied to the bytes as if they were items: on a host with 8-byte
  \<^verbatim>\<open>long\<close>s, data in format 32 is cut to an eighth of the policy's size, and unless that is a whole
  number of integers the conversion then raises, so the request is never answered.
\<close>

theorem clipboard_limit_raises:
  assumes "0 < max_send" and "max_send div 8 < int (length b)" and "max_send div 8 mod 8 \<noteq> 0" and "d_long E = 8"
    and "dtype \<notin> set unmarshalled_types" and "dtype \<notin> {''ATOM'', ''ATOM_PAIR''}"
  shows "munge_raw_to_wire E max_send target dtype 32 (PBytes b) = Inl StructError"
proof -
  have eight: "max_send * 8 div 64 = max_send div 8" by simp
  have "0 < max_send div 8 mod 8" using assms(3) by (simp add: order_less_le)
  moreover have "0 \<le> max_send div 8" using assms(1) by (simp add: pos_imp_zdiv_nonneg_iff)
  then have "nat (max_send div 8 mod 8) = nat (max_send div 8) mod 8" using nat_mod_distrib [of "max_send div 8" 8] by simp
  ultimately have "nat (max_send div 8) mod 8 \<noteq> 0" by linarith
  moreover have "nat (max_send div 8) < length b" using assms(1,2) by linarith
  ultimately show ?thesis
    using assms eight
    by (simp add: munge_raw_to_wire_def limit_data_def get_format_size_def pval_len_def py_take_def
        do_munge_raw_to_wire_def struct_unpack_def)
qed

text \<open>
  A configured filter never drops data: the patterns are texts and the contents of a selection
  are bytes, so matching raises \<^verbatim>\<open>TypeError\<close> for everything in format 8, matching or not.
\<close>

theorem clipboard_filters_raise:
  assumes "d_filters E \<noteq> []" and "dtype \<notin> set unmarshalled_types" and "max_send \<le> 0"
  shows "munge_raw_to_wire E max_send target dtype 8 (PBytes b) = Inl TypeError"
  using assms by (simp add: munge_raw_to_wire_def limit_data_def do_munge_raw_to_wire_def pval_len_def)

subsection \<open>Witnesses\<close>

definition linux_env :: data_env where
  "linux_env = \<lparr>d_rep = \<lambda>_. '''', d_posix = True, d_long = 8, d_filters = [], d_match = (\<lambda>_ _. False)\<rparr>"

theorem clipboard_data_roundtrip_witness:
  "\<exists>enc wire. munge_raw_to_wire linux_env (-1) ''x'' ''INTEGER'' 16 (PBytes [1, 2, 3, 4]) = Inr (Some (PBytes enc, wire))
    \<and> munge_wire_to_raw linux_env (-1) (bytes_chars enc) 16 wire = Inr (PBytes [1, 2, 3, 4])"
  by (rule clipboard_data_roundtrip) (simp_all add: linux_env_def aligned_data_def unmarshalled_types_def)

theorem clipboard_limit_raises_witness:
  "munge_raw_to_wire linux_env 100 ''x'' ''INTEGER'' 32 (PBytes (replicate 16 1)) = Inl StructError"
  by (rule clipboard_limit_raises) (simp_all add: linux_env_def unmarshalled_types_def)

theorem clipboard_filters_raise_witness:
  "munge_raw_to_wire (linux_env\<lparr>d_filters := [''secret'']\<rparr>) (-1) ''TEXT'' ''TEXT'' 8 (PBytes [65]) = Inl TypeError"
  by (rule clipboard_filters_raise) (simp_all add: linux_env_def unmarshalled_types_def)

end
