(* ===== verification/Clip_Core.thy ===== *)
theory Clip_Core
  imports Clip_Proxy Clip_Data
begin

text \<open>
  The clipboard protocol of one end (\<^verbatim>\<open>ClipboardProtocolHelperCore\<close> in
  \<^verbatim>\<open>xpra/clipboard/core.py\<close> and its extension with timeouts in \<^verbatim>\<open>timeout.py\<close>): tokens
  announce the owner of a selection, requests ask for its contents, and every request is answered
  with contents, with none, or by a timer. What the helper does to the outside is recorded in
  \<open>k_out\<close>: the packets sent, the progress calls, and the calls of the hooks the platform's proxy
  class implements (\<^verbatim>\<open>got_token\<close>, \<^verbatim>\<open>get_contents\<close>, \<^verbatim>\<open>got_contents\<close>). The non-text callback
  and the view of the Catlink bridge are parameters. A handler returns the new state and the
  exception it raised, if any.
\<close>

subsection \<open>State\<close>

datatype nontext_call =
    NtToken string "string list" "(string \<times> string \<times> int \<times> pval) option" int string
  | NtContents string string string int pval nat

record bridge_view =
  br_active :: bool
  br_selection :: "string option"
  br_duplicate :: bool
  br_request :: bool

record clip_env =
  c_data :: data_env
  c_greedy :: bool
  c_nontext :: "(nontext_call \<Rightarrow> py_error + bool) option"
  c_bridge :: bridge_view
  c_has_got_contents :: bool
  c_get_contents :: "string \<Rightarrow> string \<Rightarrow> py_error option"

datatype clip_item = CVal pval | CCompressible string bytes

datatype clip_event =
    CSend "clip_item list"
  | CProgress int int
  | CGotToken string "string list option" "(string \<times> string \<times> int \<times> pval) option" bool bool
  | CGetContents string string nat
  | CGotContents string string string int pval
  | CTimedOut string string
  | CBridgeRequest string string

record clip =
  k_proxies :: "(string \<times> proxy) list"
  k_can_send :: bool
  k_can_receive :: bool
  k_max_packet :: int
  k_max_receive :: int
  k_max_send :: int
  k_counter :: nat
  k_outstanding :: "(nat \<times> nat \<times> string \<times> string) list"
  k_started :: "(nat \<times> int) list"
  k_to_remote :: "(string \<times> string) list"
  k_to_local :: "(string \<times> string) list"
  k_want_targets :: bool
  k_sending :: bool
  k_loop :: "nat mainloop"
  k_out :: "clip_event list"
  k_answered :: "nat list"

text \<open>\<open>k_answered\<close> only records the requests that were answered or timed out; nothing reads it.\<close>

type_synonym clip_result = "clip \<times> py_error option"

definition MIN_CLIPBOARD_COMPRESS_SIZE :: nat where "MIN_CLIPBOARD_COMPRESS_SIZE = 512"
definition MAX_CLIPBOARD_PACKET_SIZE :: int where "MAX_CLIPBOARD_PACKET_SIZE = 16 * 1024 * 1024"
definition OBSERVE_MAX_AGE_MS :: int where "OBSERVE_MAX_AGE_MS = 60000"
definition TEST_DROP_CLIPBOARD_REQUESTS :: int where "TEST_DROP_CLIPBOARD_REQUESTS = 0"

definition clip_emit :: "clip_event \<Rightarrow> clip \<Rightarrow> clip" where
  "clip_emit e k = k\<lparr>k_out := k_out k @ [e]\<rparr>"

definition clip_send :: "clip_item list \<Rightarrow> clip \<Rightarrow> clip" where
  "clip_send items k = (if k_sending k then clip_emit (CSend items) k else k)"

definition progress :: "clip \<Rightarrow> clip" where
  "progress k = clip_emit (CProgress (int (length (k_outstanding k))) (-1)) k"

definition upd_proxy :: "string \<Rightarrow> proxy \<Rightarrow> clip \<Rightarrow> clip" where
  "upd_proxy name p k = k\<lparr>k_proxies := dict_set name p (k_proxies k)\<rparr>"

definition all_proxies :: "(proxy \<Rightarrow> proxy) \<Rightarrow> clip \<Rightarrow> clip" where
  "all_proxies f k = k\<lparr>k_proxies := map (\<lambda>(n, p). (n, f p)) (k_proxies k)\<rparr>"

subsection \<open>Set-up and settings\<close>

text \<open>The selection of one side: the environment's, else the option's, else the first one.\<close>

definition getselection :: "string option \<Rightarrow> string option \<Rightarrow> string list \<Rightarrow> string" where
  "getselection env_value v selections =
     (if selections = [] then ''''
      else case filter (\<lambda>x. x \<noteq> [] \<and> x \<in> set selections)
          ((case env_value of None \<Rightarrow> [] | Some e \<Rightarrow> [e]) @ (case v of None \<Rightarrow> [] | Some e \<Rightarrow> [e])) of
        x # _ \<Rightarrow> x
      | [] \<Rightarrow> hd selections)"

definition init_translation :: "string \<Rightarrow> string \<Rightarrow> (string \<times> string) list \<times> (string \<times> string) list" where
  "init_translation local' remote =
     (if local' \<noteq> [] \<and> remote \<noteq> [] then ([(local', remote)], [(remote, local')]) else ([], []))"

definition init_proxies :: "(string \<Rightarrow> proxy) \<Rightarrow> string list \<Rightarrow> (string \<times> proxy) list" where
  "init_proxies make_proxy selections = foldl (\<lambda>d s. dict_set s (make_proxy s) d) [] selections"

definition clip_init :: "(string \<Rightarrow> proxy) \<Rightarrow> string list \<Rightarrow> string \<Rightarrow> string \<Rightarrow> pdict \<Rightarrow> clip" where
  "clip_init make_proxy selections local' remote d = \<lparr>k_proxies = init_proxies make_proxy selections,
     k_can_send = boolget d ''can-send'' True, k_can_receive = boolget d ''can-receive'' True,
     k_max_packet = intget d ''max-packet-size'' MAX_CLIPBOARD_PACKET_SIZE,
     k_max_receive = intget d ''max-receive-size'' (-1), k_max_send = intget d ''max-send-size'' (-1),
     k_counter = 0, k_outstanding = [], k_started = [], k_to_remote = fst (init_translation local' remote),
     k_to_local = snd (init_translation local' remote), k_want_targets = False, k_sending = True,
     k_loop = ml_init, k_out = [], k_answered = []\<rparr>"

definition local_to_remote :: "clip \<Rightarrow> string \<Rightarrow> string" where
  "local_to_remote k s = (case map_of (k_to_remote k) s of Some r \<Rightarrow> r | None \<Rightarrow> s)"

definition remote_to_local :: "clip \<Rightarrow> string \<Rightarrow> string" where
  "remote_to_local k s = (case map_of (k_to_local k) s of Some r \<Rightarrow> r | None \<Rightarrow> s)"

definition get_remote_selections :: "clip \<Rightarrow> string list" where
  "get_remote_selections k = map (local_to_remote k \<circ> fst) (k_proxies k)"

definition set_want_targets_client :: "bool \<Rightarrow> clip \<Rightarrow> clip" where
  "set_want_targets_client w k = all_proxies (set_want_targets w) (k\<lparr>k_want_targets := w\<rparr>)"

definition set_limits :: "int option \<Rightarrow> int option \<Rightarrow> clip \<Rightarrow> clip" where
  "set_limits max_send max_receive k =
     (let k1 = (case max_send of Some n \<Rightarrow> k\<lparr>k_max_send := n\<rparr> | None \<Rightarrow> k)
      in case max_receive of Some n \<Rightarrow> k1\<lparr>k_max_receive := n\<rparr> | None \<Rightarrow> k1)"

definition clip_set_direction :: "bool \<Rightarrow> bool \<Rightarrow> int option \<Rightarrow> int option \<Rightarrow> clip \<Rightarrow> clip" where
  "clip_set_direction can_send can_receive max_send max_receive k =
     all_proxies (proxy_set_direction can_send can_receive)
       (set_limits max_send max_receive (k\<lparr>k_can_send := can_send, k_can_receive := can_receive\<rparr>))"

definition enable_selections :: "pval list \<Rightarrow> clip \<Rightarrow> clip" where
  "enable_selections selections k =
     k\<lparr>k_proxies := map (\<lambda>(n, p). (n, set_enabled (PStr n \<in> set selections) p)) (k_proxies k)\<rparr>"

definition clip_set_greedy :: "bool \<Rightarrow> clip \<Rightarrow> clip" where
  "clip_set_greedy g k = all_proxies (proxy_set_greedy g) k"

definition clip_set_preferred :: "string list \<Rightarrow> clip \<Rightarrow> clip" where
  "clip_set_preferred ts k = all_proxies (proxy_set_preferred ts) k"

definition send_tokens :: "string list \<Rightarrow> clip \<Rightarrow> clip" where
  "send_tokens selections k =
     fold (\<lambda>s k. case map_of (k_proxies k) s of
        Some p \<Rightarrow> upd_proxy s (do_emit_token (p\<lparr>x_have_token := False\<rparr>)) k
      | None \<Rightarrow> k) selections k"

definition send_all_tokens :: "clip \<Rightarrow> clip" where
  "send_all_tokens k = send_tokens (map fst (k_proxies k)) k"

definition prune_request_started :: "int \<Rightarrow> clip \<Rightarrow> clip" where
  "prune_request_started now k =
     (if OBSERVE_MAX_AGE_MS \<le> 0 \<or> k_started k = [] then k
      else k\<lparr>k_started := filter (\<lambda>(_, v). \<not> v < now - OBSERVE_MAX_AGE_MS) (k_started k)\<rparr>)"

subsection \<open>Compression of what is sent\<close>

definition may_compress :: "string \<Rightarrow> int \<Rightarrow> pval \<Rightarrow> clip \<Rightarrow> py_error + clip_item option" where
  "may_compress dtype dformat wire k =
     (case pval_len wire of
        None \<Rightarrow> Inl TypeError
      | Some n \<Rightarrow>
          if int n > k_max_packet k then Inr None
          else
            let name = ''clipboard: '' @ dtype @ '' / '' @ show_int dformat in
            case wire of
              PStr s \<Rightarrow> Inr (Some (if n \<ge> MIN_CLIPBOARD_COMPRESS_SIZE then CCompressible name (str_encode s) else CVal wire))
            | PBytes b \<Rightarrow> Inr (Some (if n \<ge> MIN_CLIPBOARD_COMPRESS_SIZE then CCompressible name b else CVal wire))
            | _ \<Rightarrow> Inr (Some (CVal wire)))"

definition item_truth :: "clip_item \<Rightarrow> bool" where
  "item_truth c = (case c of CVal v \<Rightarrow> py_bool v | CCompressible _ b \<Rightarrow> b \<noteq> [])"

subsection \<open>Requests to the other end\<close>

definition send_clipboard_request :: "string \<Rightarrow> string \<Rightarrow> clip \<Rightarrow> clip" where
  "send_clipboard_request selection target k =
     (let request_id = k_counter k;
          k1 = k\<lparr>k_counter := Suc request_id\<rparr>;
          (timer, m) = ml_add request_id (k_loop k1);
          k2 = k1\<lparr>k_loop := m, k_outstanding := dict_set request_id (timer, selection, target) (k_outstanding k1)\<rparr>
      in clip_send [CVal (PStr ''clipboard-request''), CVal (PInt (int request_id)), CVal (PStr (local_to_remote k selection)),
           CVal (PStr target)] (progress k2))"

text \<open>\<^verbatim>\<open>nontext_callback\<close>: an exception counts as not handled.\<close>

definition nontext_handled :: "clip_env \<Rightarrow> nontext_call \<Rightarrow> bool" where
  "nontext_handled E c = (case c_nontext E of None \<Rightarrow> False | Some f \<Rightarrow> f c = Inr True)"

definition proxy_hook :: "clip_env \<Rightarrow> string \<Rightarrow> clip_event \<Rightarrow> clip \<Rightarrow> clip" where
  "proxy_hook E selection e k =
     (if map_of (k_proxies k) selection \<noteq> None \<and> c_has_got_contents E then clip_emit e k else k)"

definition forget_request :: "nat \<Rightarrow> clip \<Rightarrow> clip" where
  "forget_request request_id k =
     k\<lparr>k_outstanding := dict_pop request_id (k_outstanding k), k_answered := k_answered k @ [request_id]\<rparr>"

definition timeout_request :: "clip_env \<Rightarrow> nat \<Rightarrow> clip \<Rightarrow> clip" where
  "timeout_request E request_id k =
     (case map_of (k_outstanding k) request_id of
        None \<Rightarrow> progress k
      | Some (_, selection, target) \<Rightarrow>
          let k1 = progress (forget_request request_id k) in
          if nontext_handled E (NtContents selection target '''' 0 PNone request_id) then k1
          else proxy_hook E selection (CTimedOut selection target) k1)"

text \<open>The main loop forgets a timer whose callback returned \<^verbatim>\<open>None\<close>.\<close>

definition run_request_timer :: "clip_env \<Rightarrow> nat \<Rightarrow> nat \<Rightarrow> clip \<Rightarrow> clip" where
  "run_request_timer E timer request_id k = timeout_request E request_id (k\<lparr>k_loop := ml_remove timer (k_loop k)\<rparr>)"

definition clipboard_got_contents :: "clip_env \<Rightarrow> nat \<Rightarrow> string \<Rightarrow> int \<Rightarrow> pval \<Rightarrow> clip \<Rightarrow> clip" where
  "clipboard_got_contents E request_id dtype dformat data k =
     (case map_of (k_outstanding k) request_id of
        None \<Rightarrow> progress k
      | Some (timer, selection, target) \<Rightarrow>
          let k1 = progress (forget_request request_id k);
              k2 = k1\<lparr>k_loop := ml_remove timer (k_loop k1)\<rparr>
          in if nontext_handled E (NtContents selection target dtype dformat data request_id) then k2
             else proxy_hook E selection (CGotContents selection target dtype dformat data) k2)"

definition clip_cleanup :: "clip_env \<Rightarrow> clip \<Rightarrow> clip" where
  "clip_cleanup E k =
     (let k1 = fold (\<lambda>i k. clipboard_got_contents E i '''' 0 PNone k) (map fst (k_outstanding k)) k;
          k2 = k1\<lparr>k_outstanding := [], k_sending := False, k_started := []\<rparr>
      in (all_proxies proxy_cleanup k2)\<lparr>k_proxies := []\<rparr>)"

text \<open>The dictionary is replaced before the requests are answered from it.\<close>

definition client_reset :: "clip_env \<Rightarrow> clip \<Rightarrow> clip" where
  "client_reset E k =
     (if k_outstanding k = [] then k
      else fold (\<lambda>i k. clipboard_got_contents E i '''' 0 PNone k) (map fst (k_outstanding k)) (k\<lparr>k_outstanding := []\<rparr>))"

subsection \<open>Requests from the other end\<close>

definition send_contents_none :: "int \<Rightarrow> string \<Rightarrow> clip \<Rightarrow> clip" where
  "send_contents_none request_id selection k =
     clip_send [CVal (PStr ''clipboard-contents-none''), CVal (PInt request_id), CVal (PStr selection)] k"

definition end_request :: "int \<Rightarrow> clip \<Rightarrow> clip" where
  "end_request request_id k = k\<lparr>k_started := dict_pop (nat request_id) (k_started k)\<rparr>"

definition process_clipboard_request :: "clip_env \<Rightarrow> int \<Rightarrow> packet \<Rightarrow> clip \<Rightarrow> clip_result" where
  "process_clipboard_request E now pkt k =
     (case (get_u64 pkt 1, get_str (d_rep (c_data E)) pkt 2, get_str (d_rep (c_data E)) pkt 3) of
        (Inl e, _, _) \<Rightarrow> (k, Some e)
      | (_, Inl e, _) \<Rightarrow> (k, Some e)
      | (_, _, Inl e) \<Rightarrow> (k, Some e)
      | (Inr request_id, Inr selection, Inr target) \<Rightarrow>
          let k1 = prune_request_started now k;
              k2 = k1\<lparr>k_started := dict_set (nat request_id) now (k_started k1)\<rparr>;
              none = (send_contents_none request_id selection (end_request request_id k2), None);
              name = remote_to_local k2 selection
          in if must_discard target then none
             else case map_of (k_proxies k2) name of
               None \<Rightarrow> none
             | Some p \<Rightarrow>
                 if \<not> x_enabled p then none
                 else if \<not> x_can_send p then none
                 else if TEST_DROP_CLIPBOARD_REQUESTS > 0 \<and> request_id mod TEST_DROP_CLIPBOARD_REQUESTS = 0
                 then (end_request request_id k2, None)
                 else case c_get_contents E name target of
                     Some e \<Rightarrow> (end_request request_id k2, Some e)
                   | None \<Rightarrow> (clip_emit (CGetContents name target (nat request_id)) k2, None))"

text \<open>The callback given to \<^verbatim>\<open>get_contents\<close>.\<close>

definition contents_packet :: "int \<Rightarrow> string \<Rightarrow> string \<Rightarrow> int \<Rightarrow> pval \<Rightarrow> clip_item \<Rightarrow> nat \<Rightarrow> clip_item list" where
  "contents_packet request_id selection dtype dformat enc wire truncated =
     [CVal (PStr ''clipboard-contents''), CVal (PInt request_id), CVal (PStr selection), CVal (PStr dtype), CVal (PInt dformat),
      CVal enc, wire, CVal (PInt (int truncated))]"

definition proxy_got_contents :: "clip_env \<Rightarrow> int \<Rightarrow> string \<Rightarrow> string \<Rightarrow> pval \<Rightarrow> int \<Rightarrow> pval \<Rightarrow> clip \<Rightarrow> clip_result" where
  "proxy_got_contents E request_id selection target dtype0 dformat data k =
     (let k1 = end_request request_id k;
          dtype = bytestostr (d_rep (c_data E)) dtype0
      in if data = PNone \<or> (dformat = 0 \<and> \<not> py_bool data) then (send_contents_none request_id selection k1, None)
         else case limit_data (c_data E) (k_max_send k) dformat data of
           Inl e \<Rightarrow> (k1, Some e)
         | Inr kept \<Rightarrow>
             let truncated = (case (pval_len data, pval_len kept) of (Some n, Some c) \<Rightarrow> n - c | _ \<Rightarrow> 0) in
             (case munge_raw_to_wire (c_data E) (k_max_send k) target dtype dformat kept of
                Inl e \<Rightarrow> (k1, Some e)
              | Inr None \<Rightarrow> (send_contents_none request_id selection k1, None)
              | Inr (Some (enc, wire)) \<Rightarrow>
                  (case may_compress dtype dformat wire k1 of
                     Inl e \<Rightarrow> (k1, Some e)
                   | Inr None \<Rightarrow> (k1, None)
                   | Inr (Some item) \<Rightarrow>
                       (clip_send (contents_packet request_id selection dtype dformat enc item truncated) k1, None))))"

subsection \<open>Answers\<close>

definition process_clipboard_contents :: "clip_env \<Rightarrow> packet \<Rightarrow> clip \<Rightarrow> clip_result" where
  "process_clipboard_contents E pkt k =
     (let rep = d_rep (c_data E) in
      case (get_u64 pkt 1, get_str rep pkt 2, get_str rep pkt 3, get_u8 pkt 4, get_str rep pkt 5, pkt_get pkt 6) of
        (Inl e, _) \<Rightarrow> (k, Some e)
      | (_, Inl e, _) \<Rightarrow> (k, Some e)
      | (_, _, Inl e, _) \<Rightarrow> (k, Some e)
      | (_, _, _, Inl e, _) \<Rightarrow> (k, Some e)
      | (_, _, _, _, Inl e, _) \<Rightarrow> (k, Some e)
      | (_, _, _, _, _, Inl e) \<Rightarrow> (k, Some e)
      | (Inr request_id, Inr _, Inr dtype, Inr dformat, Inr encoding, Inr wire) \<Rightarrow>
          (case munge_wire_to_raw (c_data E) (k_max_receive k) encoding dformat wire of
             Inl e \<Rightarrow> (k, Some e)
           | Inr data \<Rightarrow> (clipboard_got_contents E (nat request_id) dtype dformat data k, None)))"

definition process_clipboard_contents_none :: "clip_env \<Rightarrow> packet \<Rightarrow> clip \<Rightarrow> clip_result" where
  "process_clipboard_contents_none E pkt k =
     (case get_u64 pkt 1 of
        Inl e \<Rightarrow> (k, Some e)
      | Inr request_id \<Rightarrow> (clipboard_got_contents E (nat request_id) '''' 8 (PBytes []) k, None))"

definition process_clipboard_pending_requests :: "packet \<Rightarrow> clip \<Rightarrow> clip_result" where
  "process_clipboard_pending_requests pkt k =
     (case get_u8 pkt 1 of Inl e \<Rightarrow> (k, Some e) | Inr pending \<Rightarrow> (clip_emit (CProgress (-1) pending) k, None))"

definition process_clipboard_enable_selections :: "packet \<Rightarrow> clip \<Rightarrow> clip_result" where
  "process_clipboard_enable_selections pkt k =
     (case pkt_get pkt 1 of
        Inl e \<Rightarrow> (k, Some e)
      | Inr v \<Rightarrow> (case py_list v of Inl e \<Rightarrow> (k, Some e) | Inr xs \<Rightarrow> (enable_selections xs k, None)))"

subsection \<open>Tokens\<close>

text \<open>
  The elements after the targets of what a proxy passes to \<^verbatim>\<open>_send_clipboard_token_handler\<close>:
  metadata, the number of an offer, or the data of one target.
\<close>

datatype token_extra = ExtraMeta pdict | ExtraOffer int | ExtraData string string int pval

definition dict_update :: "pdict \<Rightarrow> pdict \<Rightarrow> pdict" where
  "dict_update d new = foldl (\<lambda>a (key, v). dict_set key v a) d new"

text \<open>The data of the token in wire form, if it can be sent.\<close>

definition token_data :: "clip_env \<Rightarrow> proxy \<Rightarrow> string \<Rightarrow> string \<Rightarrow> int \<Rightarrow> pval \<Rightarrow> clip \<Rightarrow> py_error + clip_item list" where
  "token_data E p target dtype dformat data k =
     (case munge_raw_to_wire (c_data E) (k_max_send k) target dtype dformat data of
        Inl e \<Rightarrow> Inl e
      | Inr None \<Rightarrow> Inr []
      | Inr (Some (enc, wire)) \<Rightarrow>
          (case may_compress dtype dformat wire k of
             Inl e \<Rightarrow> Inl e
           | Inr None \<Rightarrow> Inr []
           | Inr (Some item) \<Rightarrow>
               Inr (if item_truth item then
                      [CVal (PStr target), CVal (PStr dtype), CVal (PInt dformat), CVal enc, item,
                       CVal (PBool (x_can_send p)), CVal (PBool (c_greedy E))]
                    else [])))"

definition send_clipboard_token :: "clip_env \<Rightarrow> string \<Rightarrow> (pval \<times> token_extra list) option \<Rightarrow> clip \<Rightarrow> clip_result" where
  "send_clipboard_token E name packet_data k =
     (case map_of (k_proxies k) name of
        None \<Rightarrow> (k, None)
      | Some p \<Rightarrow>
          let (metadata, p1) = get_clipboard_token_metadata p;
              k1 = upd_proxy name p1 k;
              header = [CVal (PStr ''clipboard-token''), CVal (PStr (local_to_remote k (x_selection p1)))]
          in case packet_data of
               None \<Rightarrow> (clip_send (header @ [CVal (PList []), CVal (PDict metadata)]) k1, None)
             | Some (targets, extras) \<Rightarrow>
                 let second = (case extras of x # _ \<Rightarrow> Some x | [] \<Rightarrow> None);
                     third = (case extras of _ # y # _ \<Rightarrow> Some y | _ \<Rightarrow> None);
                     meta1 = (case second of Some (ExtraMeta m) \<Rightarrow> dict_update metadata m | _ \<Rightarrow> metadata);
                     offer1 = (case second of Some (ExtraOffer i) \<Rightarrow> i | _ \<Rightarrow> 0);
                     data = (case second of Some (ExtraData t dt df v) \<Rightarrow> token_data E p1 t dt df v k1 | _ \<Rightarrow> Inr []);
                     meta2 = (case third of Some (ExtraMeta m) \<Rightarrow> dict_update meta1 m | _ \<Rightarrow> meta1);
                     offer2 = (case third of Some (ExtraOffer i) \<Rightarrow> if offer1 = 0 then i else offer1 | _ \<Rightarrow> offer1);
                     meta3 = (if offer2 \<noteq> 0 then dict_set (PStr ''offer-id'') (PInt offer2) meta2 else meta2)
                 in (case data of
                       Inl e \<Rightarrow> (k1, Some e)
                     | Inr items \<Rightarrow>
                         let body = header @ [CVal targets] @ items;
                             body1 = (if length body \<ge> 10 then body @ [CVal (PBool False)] else body)
                         in (clip_send (body1 @ [CVal (PDict meta3)]) k1, None)))"

text \<open>\<^verbatim>\<open>metadata = packet[-1]\<close> of a packet of at least four elements, when it is a dictionary.\<close>

definition token_metadata :: "packet \<Rightarrow> pdict" where
  "token_metadata pkt = (if length pkt \<ge> 4 then (case last pkt of PDict d \<Rightarrow> d | _ \<Rightarrow> []) else [])"

text \<open>\<^verbatim>\<open>target_data\<close>: at most one target with its type, format and data.\<close>

type_synonym target_contents = "(string \<times> string \<times> int \<times> pval) option"

definition token_target_data :: "clip_env \<Rightarrow> int \<Rightarrow> packet \<Rightarrow> py_error + target_contents" where
  "token_target_data E max_receive pkt =
     (let rep = d_rep (c_data E) in
      case (get_str rep pkt 3, get_str rep pkt 4, get_u8 pkt 5, get_str rep pkt 6, get_buffer pkt 7) of
        (Inl e, _) \<Rightarrow> Inl e
      | (_, Inl e, _) \<Rightarrow> Inl e
      | (_, _, Inl e, _) \<Rightarrow> Inl e
      | (_, _, _, Inl e, _) \<Rightarrow> Inl e
      | (_, _, _, _, Inl e) \<Rightarrow> Inl e
      | (Inr target, Inr dtype, Inr dformat, Inr encoding, Inr wire) \<Rightarrow>
          if target = [] then Inr None
          else if dformat \<notin> {8, 16, 32} then Inl ValueError
          else if must_discard target then Inr None
          else case munge_wire_to_raw (c_data E) max_receive encoding dformat (PBytes wire) of
              Inl e \<Rightarrow> Inl e
            | Inr raw \<Rightarrow> Inr (Some (target, dtype, dformat, raw)))"

definition token_contents :: "clip_env \<Rightarrow> clip \<Rightarrow> proxy \<Rightarrow> packet \<Rightarrow> py_error + (string list option \<times> target_contents)" where
  "token_contents E k p pkt =
     (if \<not> x_can_receive p then Inr (None, None)
      else
        (case (if length pkt \<ge> 3 then map_sum id (Some \<circ> filter_targets (c_data E)) (py_list (pkt ! 2)) else Inr None) of
           Inl e \<Rightarrow> Inl e
         | Inr targets \<Rightarrow>
             if length pkt \<ge> 8 then map_sum id (Pair targets) (token_target_data E (k_max_receive k) pkt)
             else Inr (targets, None)))"

definition bridge_target :: "string \<Rightarrow> bool" where
  "bridge_target x = (startswith x ''image/'' \<or> x = ''text/uri-list'' \<or> startswith x ''text/html'')"

text \<open>The targets asked for when the non-text callback took the token, richest first.\<close>

definition bridge_requests :: "string list \<Rightarrow> string list" where
  "bridge_requests targets =
     (let images = filter (\<lambda>x. startswith x ''image/'') targets;
          htmls = filter (\<lambda>x. startswith x ''text/html'') targets
      in if images \<noteq> [] then
           let preferred = (case filter (\<lambda>x. x \<in> set images) [''image/png'', ''image/jpeg''] of x # _ \<Rightarrow> x | [] \<Rightarrow> hd images)
           in if ''text/uri-list'' \<in> set targets then [preferred, ''text/uri-list''] else [preferred]
         else if ''text/uri-list'' \<in> set targets then [''text/uri-list'']
         else if htmls \<noteq> [] then [if ''text/html'' \<in> set htmls then ''text/html'' else hd htmls]
         else [])"

definition bridge_request :: "clip_env \<Rightarrow> string \<Rightarrow> string \<Rightarrow> clip \<Rightarrow> clip" where
  "bridge_request E name target k =
     (if br_request (c_bridge E) then clip_emit (CBridgeRequest name target) k
      else send_clipboard_request name target k)"

text \<open>\<^verbatim>\<open>int(metadata.get("offer-id", 0) or 0)\<close>\<close>

definition token_offer_id :: "pdict \<Rightarrow> py_error + int" where
  "token_offer_id metadata =
     (case map_of metadata (PStr ''offer-id'') of
        None \<Rightarrow> Inr 0
      | Some v \<Rightarrow> if py_bool v then py_int v else Inr 0)"

text \<open>The end of the handler: the token goes to the bridge or to the proxy.\<close>

definition deliver_token :: "clip_env \<Rightarrow> string \<Rightarrow> string list option \<Rightarrow> target_contents \<Rightarrow> bool \<Rightarrow> bool \<Rightarrow> int \<Rightarrow> string
    \<Rightarrow> clip \<Rightarrow> clip" where
  "deliver_token E name targets target_data claim synchronous offer_id origin k =
     (let normalized = (case targets of None \<Rightarrow> [] | Some ts \<Rightarrow> ts);
          bridge_active = (br_active (c_bridge E) \<and> (case br_selection (c_bridge E) of None \<Rightarrow> True | Some s \<Rightarrow> s = name))
      in if (filter bridge_target normalized \<noteq> [] \<or> bridge_active)
            \<and> nontext_handled E (NtToken name normalized target_data offer_id origin)
         then
           let k1 = clip_emit (CGotToken name targets target_data False synchronous) k in
           if br_duplicate (c_bridge E) then k1
           else fold (\<lambda>t k. case target_data of
                Some (t', _) \<Rightarrow> if t' = t then k else bridge_request E name t k
              | None \<Rightarrow> bridge_request E name t k) (bridge_requests normalized) k1
         else clip_emit (CGotToken name targets target_data claim synchronous) k)"

definition process_clipboard_token :: "clip_env \<Rightarrow> packet \<Rightarrow> clip \<Rightarrow> clip_result" where
  "process_clipboard_token E pkt k =
     (case get_str (d_rep (c_data E)) pkt 1 of
        Inl e \<Rightarrow> (k, Some e)
      | Inr selection \<Rightarrow>
          let name = remote_to_local k selection in
          case map_of (k_proxies k) name of
            None \<Rightarrow> (k, None)
          | Some p \<Rightarrow>
              if \<not> x_enabled p then (k, None)
              else
                let metadata = token_metadata pkt;
                    origin = (case map_of metadata (PStr ''origin'') of
                                None \<Rightarrow> '''' | Some v \<Rightarrow> bytestostr (d_rep (c_data E)) v)
                in if is_local_clipboard_origin origin p then (k, None)
                else
                  let p1 = set_remote_clipboard_origin origin p;
                      k1 = upd_proxy name p1 k
                  in case token_contents E k1 p1 pkt of
                       Inl e \<Rightarrow> (k1, Some e)
                     | Inr (targets, target_data) \<Rightarrow>
                         let (claim, k2) = (if length pkt \<ge> 10
                               then (py_bool (pkt ! 8), upd_proxy name (p1\<lparr>x_greedy := py_bool (pkt ! 9)\<rparr>) k1)
                               else (True, k1));
                             synchronous = (length pkt \<ge> 11 \<and> py_bool (pkt ! 10))
                         in case token_offer_id metadata of
                              Inl e \<Rightarrow> (k2, Some e)
                            | Inr offer_id \<Rightarrow> (deliver_token E name targets target_data claim synchronous offer_id origin k2, None))"

subsection \<open>Dispatch\<close>

definition process_clipboard_packet :: "clip_env \<Rightarrow> int \<Rightarrow> packet \<Rightarrow> clip \<Rightarrow> clip_result" where
  "process_clipboard_packet E now pkt k =
     (case get_type (d_rep (c_data E)) pkt of
        Inl e \<Rightarrow> (k, Some e)
      | Inr t \<Rightarrow>
          if t = ''clipboard-token'' then process_clipboard_token E pkt k
          else if t = ''clipboard-request'' then process_clipboard_request E now pkt k
          else if t = ''clipboard-contents'' then process_clipboard_contents E pkt k
          else if t = ''clipboard-contents-none'' then process_clipboard_contents_none E pkt k
          else if t = ''clipboard-pending-requests'' then process_clipboard_pending_requests pkt k
          else if t = ''clipboard-enable-selections'' then process_clipboard_enable_selections pkt k
          else (k, None))"

subsection \<open>Runs\<close>

text \<open>
  Any sequence of the operations, except \<^verbatim>\<open>client_reset\<close>, with any packets, timers and replies
  of the hooks.
\<close>

inductive clip_run :: "clip_env \<Rightarrow> clip \<Rightarrow> clip \<Rightarrow> bool" for E k0 where
  start: "clip_run E k0 k0"
| request: "clip_run E k0 k \<Longrightarrow> clip_run E k0 (send_clipboard_request selection target k)"
| timer: "clip_run E k0 k \<Longrightarrow> (t, i) \<in> set (ml_sources (k_loop k)) \<Longrightarrow> clip_run E k0 (run_request_timer E t i k)"
| packet: "clip_run E k0 k \<Longrightarrow> clip_run E k0 (fst (process_clipboard_packet E now pkt k))"
| contents: "clip_run E k0 k \<Longrightarrow> clip_run E k0 (fst (proxy_got_contents E rid selection target dt df v k))"
| token: "clip_run E k0 k \<Longrightarrow> clip_run E k0 (fst (send_clipboard_token E name data k))"
| proxy: "clip_run E k0 k \<Longrightarrow> clip_run E k0 (upd_proxy name p k)"
| direction: "clip_run E k0 k \<Longrightarrow> clip_run E k0 (clip_set_direction a b ms mr k)"
| settings: "clip_run E k0 k \<Longrightarrow> clip_run E k0 (all_proxies f (k\<lparr>k_want_targets := w\<rparr>))"
| tokens: "clip_run E k0 k \<Longrightarrow> clip_run E k0 (send_tokens names k)"
| cleanup: "clip_run E k0 k \<Longrightarrow> clip_run E k0 (clip_cleanup E k)"

text \<open>
  Every request the helper made is outstanding, with its timer pending, or was answered once. The
  pending timers are those of the outstanding requests.
\<close>

definition requests_ok :: "clip \<Rightarrow> bool" where
  "requests_ok k \<longleftrightarrow>
     ml_ok (k_loop k) \<and> distinct (map fst (k_outstanding k)) \<and> distinct (k_answered k)
     \<and> set (k_answered k) \<inter> fst ` set (k_outstanding k) = {}
     \<and> set (k_answered k) \<union> fst ` set (k_outstanding k) = {..<k_counter k}
     \<and> set (ml_sources (k_loop k)) = (\<lambda>(i, t, _). (t, i)) ` set (k_outstanding k)"

definition request_core :: "clip \<Rightarrow> _" where
  "request_core k = (k_outstanding k, k_loop k, k_answered k, k_counter k)"

lemma request_core_updates [simp]:
  "request_core (clip_emit e k) = request_core k" "request_core (clip_send items k) = request_core k"
  "request_core (upd_proxy name p k) = request_core k" "request_core (all_proxies f k) = request_core k"
  "request_core (progress k) = request_core k" "request_core (k\<lparr>k_proxies := ps\<rparr>) = request_core k"
  "request_core (k\<lparr>k_started := st\<rparr>) = request_core k" "request_core (k\<lparr>k_want_targets := w\<rparr>) = request_core k"
  "request_core (end_request rid k) = request_core k" "request_core (prune_request_started now k) = request_core k"
  "request_core (send_contents_none rid s k) = request_core k" "request_core (enable_selections xs k) = request_core k"
  "request_core (proxy_hook E s e k) = request_core k" "request_core (k\<lparr>k_sending := b\<rparr>) = request_core k"
  by (auto simp: request_core_def clip_emit_def clip_send_def upd_proxy_def all_proxies_def progress_def end_request_def
      prune_request_started_def send_contents_none_def enable_selections_def proxy_hook_def)

lemma requests_ok_core: "request_core k' = request_core k \<Longrightarrow> requests_ok k' = requests_ok k"
  by (simp add: request_core_def requests_ok_def)

lemma send_request_ok: "requests_ok k \<Longrightarrow> requests_ok (send_clipboard_request selection target k)"
proof -
  assume ok: "requests_ok k"
  let ?i = "k_counter k"
  have new: "map_of (k_outstanding k) ?i = None" "?i \<notin> set (k_answered k)"
    using ok by (auto simp: requests_ok_def map_of_eq_None_iff)
  define m where "m = ml_add ?i (k_loop k)"
  define k1 where "k1 = k\<lparr>k_counter := Suc ?i, k_loop := snd m,
    k_outstanding := k_outstanding k @ [(?i, ml_next (k_loop k), selection, target)]\<rparr>"
  have "requests_ok k1"
    using ok new unfolding requests_ok_def k1_def m_def
    by (auto simp: map_of_eq_None_iff image_iff lessThan_Suc)
  moreover have "request_core (send_clipboard_request selection target k) = request_core k1"
    using dict_set_new [OF new(1)] by (simp add: send_clipboard_request_def Let_def case_prod_beta k1_def m_def)
  ultimately show ?thesis using requests_ok_core by blast
qed

lemma filter_image: "(\<And>y. y \<in> A \<Longrightarrow> P (h y) \<longleftrightarrow> Q y) \<Longrightarrow> {x \<in> h ` A. P x} = h ` {y \<in> A. Q y}"
  by blast

lemma answer_ok:
  assumes ok: "requests_ok k" and i: "map_of (k_outstanding k) i = Some (t, s, g)"
  shows "requests_ok ((forget_request i k)\<lparr>k_loop := ml_remove t (k_loop k)\<rparr>)"
proof -
  have mem: "(i, t, s, g) \<in> set (k_outstanding k)" using i by (rule map_of_SomeD)
  have src: "set (ml_sources (k_loop k)) = (\<lambda>(i, t, _). (t, i)) ` set (k_outstanding k)"
    using ok by (simp add: requests_ok_def)
  have uniq: "j = i" if "(j, t, x) \<in> set (k_outstanding k)" for j x
  proof -
    have "(t, j) \<in> set (ml_sources (k_loop k))" "(t, i) \<in> set (ml_sources (k_loop k))"
      unfolding src using that mem by force+
    then show ?thesis using ml_ok_unique ok unfolding requests_ok_def by metis
  qed
  have key: "u = t" if "(i, u, x) \<in> set (k_outstanding k)" for u x
    using that mem ok unfolding requests_ok_def by (metis Pair_inject eq_key_imp_eq_value)
  have "fst ((\<lambda>(i, t, _). (t, i)) y) \<noteq> t \<longleftrightarrow> fst y \<noteq> i" if "y \<in> set (k_outstanding k)" for y
  proof -
    obtain j u x where y: "y = (j, u, x)" by (cases y)
    have "u = t \<longleftrightarrow> j = i" using uniq [of j x] key [of u x] that unfolding y by blast
    then show ?thesis by (simp add: y)
  qed
  then have "{x \<in> set (ml_sources (k_loop k)). fst x \<noteq> t}
      = (\<lambda>(i, t, _). (t, i)) ` {y \<in> set (k_outstanding k). fst y \<noteq> i}"
    unfolding src by (rule filter_image)
  moreover have "set (ml_sources (ml_remove t (k_loop k))) = {x \<in> set (ml_sources (k_loop k)). fst x \<noteq> t}"
    by (auto simp: ml_remove_sources)
  moreover have o: "set (k_outstanding (forget_request i k)) = {y \<in> set (k_outstanding k). fst y \<noteq> i}"
    by (auto simp: forget_request_def dict_pop_def)
  ultimately have "set (ml_sources (ml_remove t (k_loop k))) = (\<lambda>(i, t, _). (t, i)) ` set (k_outstanding (forget_request i k))"
    by simp
  moreover have "fst ` set (k_outstanding (forget_request i k)) = fst ` set (k_outstanding k) - {i}"
    unfolding o by auto
  moreover have "i \<in> fst ` set (k_outstanding k)" using mem by force
  moreover have "distinct (map fst (k_outstanding (forget_request i k)))"
    using ok by (simp add: requests_ok_def forget_request_def)
  ultimately show ?thesis
    using ok unfolding requests_ok_def by (auto simp: forget_request_def)
qed

lemma got_contents_ok: "requests_ok k \<Longrightarrow> requests_ok (clipboard_got_contents E i dt df v k)"
proof (cases "map_of (k_outstanding k) i")
  case None
  then show "requests_ok k \<Longrightarrow> ?thesis" using requests_ok_core [of "progress k" k] by (simp add: clipboard_got_contents_def)
next
  case (Some e)
  then obtain t s g where e: "map_of (k_outstanding k) i = Some (t, s, g)" by (cases e) auto
  assume "requests_ok k"
  then have a: "requests_ok ((forget_request i k)\<lparr>k_loop := ml_remove t (k_loop k)\<rparr>)" using e by (rule answer_ok)
  have "k_loop (progress (forget_request i k)) = k_loop k" by (simp add: progress_def clip_emit_def forget_request_def)
  moreover have "request_core ((progress (forget_request i k))\<lparr>k_loop := l\<rparr>) = request_core ((forget_request i k)\<lparr>k_loop := l\<rparr>)" for l
    by (simp add: progress_def clip_emit_def request_core_def)
  ultimately have "request_core (clipboard_got_contents E i dt df v k)
      = request_core ((forget_request i k)\<lparr>k_loop := ml_remove t (k_loop k)\<rparr>)"
    using e by (simp add: clipboard_got_contents_def Let_def)
  then show ?thesis using a requests_ok_core by blast
qed

lemma outstanding_timer:
  assumes ok: "requests_ok k" and m: "map_of (k_outstanding k) i = Some (t, s, g)"
  shows "(t, i) \<in> set (ml_sources (k_loop k))"
proof -
  have "(case (i, t, s, g) of (i, t, _) \<Rightarrow> (t, i)) \<in> (\<lambda>(i, t, _). (t, i)) ` set (k_outstanding k)"
    by (rule imageI [OF map_of_SomeD [OF m]])
  then show ?thesis using ok by (simp add: requests_ok_def)
qed

lemma request_timer_ok:
  assumes ok: "requests_ok k" and t: "(t, i) \<in> set (ml_sources (k_loop k))"
  shows "requests_ok (run_request_timer E t i k)" and "i \<in> set (k_answered (run_request_timer E t i k))"
proof -
  obtain s g where "(i, t, s, g) \<in> set (k_outstanding k)" using ok t unfolding requests_ok_def by auto
  then have e: "map_of (k_outstanding k) i = Some (t, s, g)" using ok by (simp add: requests_ok_def)
  let ?k = "k\<lparr>k_loop := ml_remove t (k_loop k)\<rparr>"
  have f: "forget_request i ?k = (forget_request i k)\<lparr>k_loop := ml_remove t (k_loop k)\<rparr>"
    by (simp add: forget_request_def)
  have "request_core (run_request_timer E t i k) = request_core (forget_request i ?k)"
    using e by (simp add: run_request_timer_def timeout_request_def Let_def)
  moreover have "requests_ok (forget_request i ?k)" unfolding f using ok e by (rule answer_ok)
  ultimately show "requests_ok (run_request_timer E t i k)" and "i \<in> set (k_answered (run_request_timer E t i k))"
    using requests_ok_core by (blast, simp add: request_core_def forget_request_def)
qed

lemma process_request_core: "request_core (fst (process_clipboard_request E now pkt k)) = request_core k"
proof (cases "get_u64 pkt 1"; cases "get_str (d_rep (c_data E)) pkt 2"; cases "get_str (d_rep (c_data E)) pkt 3")
  fix rid selection target
  assume "get_u64 pkt 1 = Inr rid" "get_str (d_rep (c_data E)) pkt 2 = Inr selection"
    "get_str (d_rep (c_data E)) pkt 3 = Inr target"
  then show ?thesis
    by (simp add: process_clipboard_request_def Let_def split: option.split)
qed (simp_all add: process_clipboard_request_def)

lemma got_contents_core: "request_core (fst (proxy_got_contents E rid selection target dt df v k)) = request_core k"
  by (simp add: proxy_got_contents_def Let_def split: sum.split option.split)

lemma send_token_core: "request_core (fst (send_clipboard_token E name data k)) = request_core k"
  by (simp add: send_clipboard_token_def Let_def case_prod_beta split: sum.split option.split)

lemma send_tokens_core: "request_core (send_tokens names k) = request_core k"
proof -
  have "request_core (fold (\<lambda>s k. case map_of (k_proxies k) s of
        Some p \<Rightarrow> upd_proxy s (do_emit_token (p\<lparr>x_have_token := False\<rparr>)) k | None \<Rightarrow> k) names k) = request_core k"
    by (induction names arbitrary: k) (auto split: option.split)
  then show ?thesis by (simp add: send_tokens_def)
qed

lemma bridge_request_ok: "requests_ok k \<Longrightarrow> requests_ok (bridge_request E name t k)"
  using requests_ok_core [of "clip_emit (CBridgeRequest name t) k" k] by (simp add: bridge_request_def send_request_ok)

lemma deliver_token_ok:
  assumes "requests_ok k"
  shows "requests_ok (deliver_token E name targets target_data claim sync oid origin k)"
proof -
  have f: "requests_ok (fold (\<lambda>t k. case target_data of
      Some (t', _) \<Rightarrow> if t' = t then k else bridge_request E name t k | None \<Rightarrow> bridge_request E name t k) ts k)"
    if "requests_ok k" for ts k
    using that by (induction ts arbitrary: k) (auto simp: bridge_request_ok split: option.split)
  have "requests_ok (clip_emit e k)" for e using assms requests_ok_core [of "clip_emit e k" k] by simp
  then show ?thesis using f by (simp add: deliver_token_def Let_def)
qed

lemma process_token_ok: "requests_ok k \<Longrightarrow> requests_ok (fst (process_clipboard_token E pkt k))"
proof -
  assume ok: "requests_ok k"
  have u: "requests_ok (upd_proxy n p k')" if "requests_ok k'" for n p k'
    using that requests_ok_core [of "upd_proxy n p k'" k'] by simp
  show ?thesis
    using ok by (auto simp: process_clipboard_token_def Let_def u intro!: deliver_token_ok split: sum.split option.split)
qed

lemma process_contents_ok: "requests_ok k \<Longrightarrow> requests_ok (fst (process_clipboard_contents E pkt k))"
  by (simp add: process_clipboard_contents_def Let_def got_contents_ok split: prod.split sum.split)

lemma process_packet_ok:
  assumes ok: "requests_ok k"
  shows "requests_ok (fst (process_clipboard_packet E now pkt k))"
proof -
  have "requests_ok (fst (process_clipboard_request E now pkt k))"
    using ok requests_ok_core process_request_core by blast
  moreover have "requests_ok (fst (process_clipboard_contents_none E pkt k))"
    by (simp add: process_clipboard_contents_none_def ok got_contents_ok split: sum.split)
  moreover have "requests_ok (fst (process_clipboard_pending_requests pkt k))"
    using ok requests_ok_core [of "clip_emit _ k" k]
    by (simp add: process_clipboard_pending_requests_def split: sum.split)
  moreover have "requests_ok (fst (process_clipboard_enable_selections pkt k))"
    using ok requests_ok_core [of "enable_selections _ k" k]
    by (simp add: process_clipboard_enable_selections_def split: sum.split)
  ultimately show ?thesis
    using ok process_token_ok process_contents_ok by (simp add: process_clipboard_packet_def split: sum.split)
qed

lemma fold_requests_ok:
  "requests_ok k \<Longrightarrow> requests_ok (fold (\<lambda>i k. clipboard_got_contents E i dt df v k) ids k)"
  by (induction ids arbitrary: k) (auto simp: got_contents_ok)

lemma got_contents_outstanding:
  "k_outstanding (clipboard_got_contents E i dt df v k) = dict_pop i (k_outstanding k)"
proof (cases "map_of (k_outstanding k) i")
  case None
  then have "dict_pop i (k_outstanding k) = k_outstanding k"
    by (force simp: dict_pop_def filter_id_conv map_of_eq_None_iff)
  then show ?thesis using None by (simp add: clipboard_got_contents_def progress_def clip_emit_def)
next
  case (Some e)
  then show ?thesis
    by (cases e) (simp add: clipboard_got_contents_def progress_def clip_emit_def forget_request_def proxy_hook_def Let_def)
qed

lemma fold_outstanding:
  "k_outstanding (fold (\<lambda>i k. clipboard_got_contents E i dt df v k) ids k)
    = filter (\<lambda>(i, _). i \<notin> set ids) (k_outstanding k)"
  by (induction ids arbitrary: k) (auto simp: got_contents_outstanding dict_pop_def intro: filter_cong)

lemma cleanup_ok: "requests_ok k \<Longrightarrow> requests_ok (clip_cleanup E k)"
proof -
  assume ok: "requests_ok k"
  define k1 where "k1 = fold (\<lambda>i k. clipboard_got_contents E i '''' 0 PNone k) (map fst (k_outstanding k)) k"
  have "requests_ok k1" using ok by (simp add: k1_def fold_requests_ok)
  moreover have "k_outstanding k1 = []"
    unfolding k1_def fold_outstanding by (force simp: filter_empty_conv)
  ultimately show ?thesis
    using requests_ok_core [of "clip_cleanup E k" k1]
    by (simp add: clip_cleanup_def Let_def k1_def [symmetric] request_core_def all_proxies_def)
qed

lemma clip_run_requests_ok: "clip_run E k0 k \<Longrightarrow> requests_ok k0 \<Longrightarrow> requests_ok k"
proof (induction rule: clip_run.induct)
  case (contents k rid selection target dt df v)
  then show ?case using requests_ok_core got_contents_core by blast
next
  case (token k name data)
  then show ?case using requests_ok_core send_token_core by blast
next
  case (proxy k name p)
  then show ?case using requests_ok_core [of "upd_proxy name p k" k] by simp
next
  case (direction k a b ms mr)
  have "request_core (clip_set_direction a b ms mr k) = request_core k"
    by (simp add: clip_set_direction_def set_limits_def Let_def request_core_def all_proxies_def split: option.split)
  then show ?case using direction requests_ok_core by blast
next
  case (settings k f w)
  then show ?case using requests_ok_core [of "all_proxies f (k\<lparr>k_want_targets := w\<rparr>)" k] by simp
next
  case (tokens k names)
  then show ?case using requests_ok_core send_tokens_core by blast
qed (auto intro: send_request_ok request_timer_ok(1) process_packet_ok cleanup_ok)

lemma clip_init_ok: "requests_ok (clip_init mp sels l r d)"
  by (simp add: requests_ok_def clip_init_def ml_ok_def ml_init_def)

subsection \<open>Properties\<close>


text \<open>
  \<^verbatim>\<open>client_reset\<close>, which means to answer all outstanding requests, answers none: it empties the
  dictionary before it looks the requests up in it, so all it does is forget them and report
  progress; their timers stay pending and the applications waiting for the contents are not told.
\<close>

theorem client_reset_answers_nothing:
  "client_reset E k
    = k\<lparr>k_outstanding := [], k_out := k_out k @ replicate (length (k_outstanding k)) (CProgress 0 (-1))\<rparr>"
proof -
  have "fold (\<lambda>i k. clipboard_got_contents E i '''' 0 PNone k) ids k'
      = k'\<lparr>k_out := k_out k' @ replicate (length ids) (CProgress 0 (-1))\<rparr>" if "k_outstanding k' = []" for ids k'
    using that
  proof (induction ids arbitrary: k')
    case (Cons i ids)
    have "clipboard_got_contents E i '''' 0 PNone k' = k'\<lparr>k_out := k_out k' @ [CProgress 0 (-1)]\<rparr>"
      using Cons(2) by (simp add: clipboard_got_contents_def progress_def clip_emit_def)
    then show ?case using Cons by (simp add: replicate_append_same)
  qed simp
  from this [of "k\<lparr>k_outstanding := []\<rparr>" "map fst (k_outstanding k)"]
  show ?thesis by (simp add: client_reset_def)
qed

text \<open>
  A token does not come back to its sender: the token a helper sends for a selection carries
  metadata such that any token with that metadata for that selection, whatever its targets and
  data, is ignored by the helper: no hook is called, nothing is sent and no state changes.
\<close>

theorem token_echo_ignored:
  assumes "map_of (k_proxies k) name = Some p" and "proxy_run (proxy_init ns sel) p" and "x_enabled p" and "k_sending k"
  shows "\<exists>k1 md. send_clipboard_token E name None k = (k1, None)
    \<and> k_out k1 = k_out k @ [CSend [CVal (PStr ''clipboard-token''), CVal (PStr (local_to_remote k (x_selection p))),
        CVal (PList []), CVal (PDict md)]]
    \<and> (\<forall>pkt s. get_str (d_rep (c_data E)) pkt 1 = Inr s \<and> remote_to_local k1 s = name \<and> 4 \<le> length pkt \<and> last pkt = PDict md
        \<longrightarrow> process_clipboard_token E pkt k1 = (k1, None))"
proof -
  define p1 where "p1 = snd (get_clipboard_token_metadata p)"
  have md: "get_clipboard_token_metadata p = ([(PStr ''origin'', PStr (x_origin p1))], p1)"
    by (simp add: p1_def get_clipboard_token_metadata_def Let_def)
  have ok: "proxy_ok p1" unfolding p1_def by (rule metadata_ok [OF proxy_run_ok [OF assms(2) proxy_init_ok]])
  have "x_origin p1 \<noteq> []"
    by (simp add: p1_def get_clipboard_token_metadata_def Let_def set_local_clipboard_origin_def record_origin_def make_origin_def)
  then have loc: "is_local_clipboard_origin (x_origin p1) p1" using ok by (simp add: is_local_clipboard_origin_def proxy_ok_def)
  have same: "x_selection p1 = x_selection p" "x_enabled p1 = x_enabled p"
    by (simp_all add: p1_def get_clipboard_token_metadata_def Let_def set_local_clipboard_origin_def record_origin_def)
  define k1 where "k1 = fst (send_clipboard_token E name None k)"
  have send: "send_clipboard_token E name None k = (k1, None)"
    using assms(1) by (simp add: k1_def send_clipboard_token_def md)
  have out: "k_out k1 = k_out k @ [CSend [CVal (PStr ''clipboard-token''), CVal (PStr (local_to_remote k (x_selection p))),
      CVal (PList []), CVal (PDict [(PStr ''origin'', PStr (x_origin p1))])]]"
    using assms(1,4) by (simp add: k1_def send_clipboard_token_def md clip_send_def clip_emit_def upd_proxy_def same)
  have "map_of (k_proxies k1) name = Some p1"
    using assms(1) by (simp add: k1_def send_clipboard_token_def md clip_send_def clip_emit_def upd_proxy_def Let_def)
  then have "process_clipboard_token E pkt k1 = (k1, None)"
    if "get_str (d_rep (c_data E)) pkt 1 = Inr s" "remote_to_local k1 s = name" "4 \<le> length pkt"
      "last pkt = PDict [(PStr ''origin'', PStr (x_origin p1))]" for pkt s
    using that loc by (simp add: process_clipboard_token_def token_metadata_def bytestostr_def py_str_def same assms(3))
  then show ?thesis using send out by blast
qed

text \<open>
  Contents over the packet limit are dropped without a word: the request is forgotten and
  neither contents nor none are sent, so the other end waits for its timer.
\<close>

theorem oversized_contents_unanswered:
  assumes "k_max_packet k < int (length b)" and "k_max_send k \<le> 0" and "d_filters (c_data E) = []"
    and "bytestostr (d_rep (c_data E)) dtype \<notin> set unmarshalled_types"
  shows "proxy_got_contents E request_id selection target dtype 8 (PBytes b) k = (end_request request_id k, None)"
  using assms
  by (simp add: proxy_got_contents_def Let_def limit_data_def munge_raw_to_wire_def do_munge_raw_to_wire_def pval_len_def
      may_compress_def end_request_def)

subsection \<open>Witnesses\<close>

definition demo_clip_env :: clip_env where
  "demo_clip_env = \<lparr>c_data = linux_env, c_greedy = False, c_nontext = None,
     c_bridge = \<lparr>br_active = False, br_selection = None, br_duplicate = False, br_request = False\<rparr>,
     c_has_got_contents = True, c_get_contents = (\<lambda>_ _. None)\<rparr>"

definition demo_clip :: clip where
  "demo_clip = clip_init (proxy_init ''ns'') [''CLIPBOARD''] '''' '''' []"


theorem token_echo_ignored_witness:
  "\<exists>k1. send_clipboard_token demo_clip_env ''CLIPBOARD'' None (enable_selections [PStr ''CLIPBOARD''] demo_clip) = (k1, None)"
proof -
  define p where "p = set_enabled True (proxy_init ''ns'' ''CLIPBOARD'')"
  have "proxy_run (proxy_init ''ns'' ''CLIPBOARD'') p" unfolding p_def by (intro proxy_run.enabled proxy_run.start)
  moreover have "map_of (k_proxies (enable_selections [PStr ''CLIPBOARD''] demo_clip)) ''CLIPBOARD'' = Some p"
    by (simp add: enable_selections_def demo_clip_def clip_init_def init_proxies_def p_def)
  moreover have "x_enabled p" by (simp add: p_def set_enabled_def)
  moreover have "k_sending (enable_selections [PStr ''CLIPBOARD''] demo_clip)"
    by (simp add: enable_selections_def demo_clip_def clip_init_def)
  ultimately show ?thesis using token_echo_ignored by blast
qed

theorem oversized_contents_unanswered_witness:
  "proxy_got_contents demo_clip_env 3 ''CLIPBOARD'' ''TEXT'' (PStr ''TEXT'') 8 (PBytes [1, 2, 3]) (demo_clip\<lparr>k_max_packet := 2\<rparr>)
    = (end_request 3 (demo_clip\<lparr>k_max_packet := 2\<rparr>), None)"
  by (rule oversized_contents_unanswered)
    (simp_all add: demo_clip_def clip_init_def demo_clip_env_def linux_env_def bytestostr_def py_str_def
      unmarshalled_types_def intget_def conv_get_def conv_find.simps split_dot_def)

end
