(* ===== verification/File_Paths.thy ===== *)
theory File_Paths
  imports Net_Packet
begin

text \<open>
  Where a downloaded file is saved (\<^verbatim>\<open>basename\<close> and \<^verbatim>\<open>safe_open_download_file\<close> of
  \<^verbatim>\<open>xpra/net/file_transfer.py\<close>), on POSIX, with the functions of Python's \<^verbatim>\<open>posixpath\<close> it uses.
  The download directory is an absolute path, and \<open>taken\<close> is the list of the paths that exist.
\<close>

subsection \<open>\<open>posixpath\<close>\<close>

abbreviation slash :: char where "slash \<equiv> CHR ''/''"
abbreviation backslash :: char where "backslash \<equiv> CHR 0x5C"
abbreviation dot :: char where "dot \<equiv> CHR ''.''"

text \<open>\<^verbatim>\<open>path[path.rfind(sep) + 1:]\<close>: what follows the last separator, or the whole.\<close>

definition after_last :: "char \<Rightarrow> string \<Rightarrow> string" where
  "after_last sep s = rev (takeWhile (\<lambda>c. c \<noteq> sep) (rev s))"

definition posix_join :: "string \<Rightarrow> string \<Rightarrow> string" where
  "posix_join a b =
     (if startswith b [slash] then b
      else if a = [] \<or> endswith a [slash] then a @ b
      else a @ [slash] @ b)"

fun split_on :: "char \<Rightarrow> string \<Rightarrow> string list" where
  "split_on sep [] = [[]]"
| "split_on sep (c # cs) =
     (if c = sep then [] # split_on sep cs
      else case split_on sep cs of [] \<Rightarrow> [[c]] | p # ps \<Rightarrow> (c # p) # ps)"

fun join_with :: "string \<Rightarrow> string list \<Rightarrow> string" where
  "join_with sep [] = []"
| "join_with sep [p] = p"
| "join_with sep (p # q # ps) = p @ sep @ join_with sep (q # ps)"

text \<open>
  \<^verbatim>\<open>normpath\<close> of an absolute path: empty and \<open>.\<close> components go, \<open>..\<close> removes the one before
  it. The components are kept last first. Two leading slashes are kept, as POSIX allows.
\<close>

fun norm_parts :: "string list \<Rightarrow> string list \<Rightarrow> string list" where
  "norm_parts acc [] = rev acc"
| "norm_parts acc (p # ps) =
     (if p = [] \<or> p = [dot] then norm_parts acc ps
      else if p = [dot, dot] then norm_parts (drop 1 acc) ps
      else norm_parts (p # acc) ps)"

definition norm_abspath :: "string \<Rightarrow> string" where
  "norm_abspath path =
     (let lead = takeWhile (\<lambda>c. c = slash) path;
          root = (if length lead = 2 then [slash, slash] else [slash])
      in root @ join_with [slash] (norm_parts [] (split_on slash path)))"

text \<open>\<^verbatim>\<open>splitext\<close>: the extension starts at the last dot of the last component, unless only dots precede it.\<close>

definition splitext :: "string \<Rightarrow> string \<times> string" where
  "splitext path =
     (let name = after_last slash path;
          dir = take (length path - length name) path;
          ext = after_last dot name;
          stem = take (length name - length ext - 1) name
      in if ext = name \<or> (\<forall>c \<in> set stem. c = dot) then (path, [])
         else (dir @ stem, dot # ext))"

subsection \<open>The file name of a download\<close>

definition base_name :: "string \<Rightarrow> string" where
  "base_name filename = after_last slash (after_last slash (after_last backslash filename))"

definition MIMETYPE_EXTS :: "(string \<times> string) list" where
  "MIMETYPE_EXTS = [(''application/postscript'', ''ps''), (''application/pdf'', ''pdf''), (''raw'', ''raw'')]"

definition add_extension :: "string \<Rightarrow> string \<Rightarrow> string" where
  "add_extension mimetype filename =
     (case map_of MIMETYPE_EXTS mimetype of
        Some ext \<Rightarrow> if endswith filename (dot # ext) then filename else filename @ [dot] @ ext
      | None \<Rightarrow> filename)"

definition wanted_path :: "string \<Rightarrow> string \<Rightarrow> string \<Rightarrow> string" where
  "wanted_path dd basefilename mimetype =
     add_extension mimetype (norm_abspath (posix_join dd (base_name basefilename)))"

definition numbered :: "string \<Rightarrow> string \<Rightarrow> nat \<Rightarrow> string" where
  "numbered root ext n = root @ [CHR ''-''] @ show_nat n @ ext"

text \<open>
  The loop that looks for a path that does not exist yet. There is one more candidate than
  taken paths, so the fuel is enough.
\<close>

fun next_free :: "nat \<Rightarrow> string list \<Rightarrow> string \<Rightarrow> string \<Rightarrow> nat \<Rightarrow> string \<Rightarrow> string option" where
  "next_free 0 taken root ext base filename = None"
| "next_free (Suc k) taken root ext base filename =
     (if filename \<in> set taken then next_free k taken root ext (Suc base) (numbered root ext (Suc base))
      else Some filename)"

definition download_path :: "string list \<Rightarrow> string \<Rightarrow> string \<Rightarrow> string \<Rightarrow> string option" where
  "download_path taken dd basefilename mimetype =
     (let filename = wanted_path dd basefilename mimetype;
          (root, ext) = splitext filename
      in next_free (Suc (Suc (length taken))) taken root ext 0 filename)"

subsection \<open>Names\<close>

lemma after_last_notin: "sep \<notin> set (after_last sep s)"
  unfolding after_last_def by (auto dest: set_takeWhileD)

lemma after_last_subset: "set (after_last sep s) \<subseteq> set s"
  unfolding after_last_def by (auto dest: set_takeWhileD)

lemma after_last_suffix: "\<exists>p. s = p @ after_last sep s"
proof -
  have "rev s = takeWhile (\<lambda>c. c \<noteq> sep) (rev s) @ dropWhile (\<lambda>c. c \<noteq> sep) (rev s)" by simp
  then have "s = rev (dropWhile (\<lambda>c. c \<noteq> sep) (rev s)) @ after_last sep s"
    unfolding after_last_def by (metis rev_append rev_rev_ident)
  then show ?thesis by blast
qed

lemma after_last_id: "sep \<notin> set s \<Longrightarrow> after_last sep s = s"
proof -
  assume "sep \<notin> set s"
  then have "takeWhile (\<lambda>c. c \<noteq> sep) (rev s) = rev s" by (intro takeWhile_eq_all_conv [THEN iffD2]) auto
  then show ?thesis unfolding after_last_def by (simp only: rev_rev_ident)
qed

lemma after_last_append: "sep \<notin> set b \<Longrightarrow> after_last sep (a @ sep # b) = b"
proof -
  assume "sep \<notin> set b"
  then have "takeWhile (\<lambda>c. c \<noteq> sep) (rev b @ sep # rev a) = rev b"
    by (subst takeWhile_append2) auto
  then show ?thesis by (simp add: after_last_def)
qed

lemma base_name_clean: "slash \<notin> set (base_name f)" "backslash \<notin> set (base_name f)"
proof -
  show "slash \<notin> set (base_name f)" unfolding base_name_def by (rule after_last_notin)
  show "backslash \<notin> set (base_name f)"
  proof
    assume "backslash \<in> set (base_name f)"
    then have "backslash \<in> set (after_last slash (after_last backslash f))"
      unfolding base_name_def by (rule subsetD [OF after_last_subset])
    then have "backslash \<in> set (after_last backslash f)" by (rule subsetD [OF after_last_subset])
    then show False by (rule notE [OF after_last_notin])
  qed
qed

subsection \<open>Numbered names never repeat\<close>

lemma numbered_inj: "numbered root ext m = numbered root ext n \<Longrightarrow> m = n"
proof -
  assume "numbered root ext m = numbered root ext n"
  then have "show_nat m = show_nat n" by (simp add: numbered_def)
  then have "read_nat (show_nat m) = read_nat (show_nat n)" by (rule arg_cong)
  then show "m = n" unfolding read_show_nat by (rule option.inject [THEN iffD1])
qed

text \<open>The candidates the loop tries from one on: the current one and the numbered ones after it.\<close>

lemma next_free_result:
  "next_free k taken root ext base f = Some r \<Longrightarrow> r \<notin> set taken \<and> (r = f \<or> (\<exists>n > base. r = numbered root ext n))"
proof (induction k taken root ext base f rule: next_free.induct)
  case (2 k taken root ext base f)
  then show ?case by (cases "f \<in> set taken") (auto dest: Suc_lessD)
qed simp

lemma next_free_fails:
  assumes "next_free k taken root ext base f = None" and "0 < k"
  shows "f \<in> set taken \<and> (\<forall>n. base < n \<and> n < base + k \<longrightarrow> numbered root ext n \<in> set taken)"
  using assms
proof (induction k taken root ext base f rule: next_free.induct)
  case (2 k taken root ext base f)
  have f: "f \<in> set taken" using 2(2) by (simp split: if_splits)
  show ?case
  proof (cases "k = 0")
    case False
    then have "numbered root ext (Suc base) \<in> set taken
      \<and> (\<forall>n. Suc base < n \<and> n < Suc base + k \<longrightarrow> numbered root ext n \<in> set taken)"
      using 2(1) [OF f] 2(2) f by simp
    then have "numbered root ext n \<in> set taken" if "base < n" "n < base + Suc k" for n
      using that by (cases "n = Suc base") auto
    then show ?thesis using f by blast
  qed (use f in auto)
qed simp

lemma next_free_returns: "\<exists>r. next_free (Suc (Suc (length taken))) taken root ext base f = Some r"
proof (rule ccontr)
  assume "\<not> ?thesis"
  then have none: "next_free (Suc (Suc (length taken))) taken root ext base f = None" by auto
  let ?N = "{n. base < n \<and> n < base + Suc (Suc (length taken))}"
  have "numbered root ext ` ?N \<subseteq> set taken" using next_free_fails [OF none] by auto
  then have "card (numbered root ext ` ?N) \<le> card (set taken)" by (rule card_mono [rotated]) simp
  moreover have "card (numbered root ext ` ?N) = card ?N"
    by (rule card_image) (auto intro: inj_onI dest: numbered_inj)
  moreover have "card ?N = Suc (length taken)"
    using card_greaterThanLessThan [of base "base + Suc (Suc (length taken))"]
    by (simp add: greaterThanLessThan_def greaterThan_def lessThan_def Int_def conj_commute)
  moreover have "card (set taken) \<le> length taken" by (rule card_length)
  ultimately show False by linarith
qed

subsection \<open>Where the file ends up\<close>

lemma split_on_nonempty: "split_on sep s \<noteq> []"
  by (induction sep s rule: split_on.induct) (auto split: list.splits)

lemma split_on_simple: "sep \<notin> set b \<Longrightarrow> split_on sep b = [b]"
  by (induction sep b rule: split_on.induct) auto

lemma split_on_append: "sep \<notin> set b \<Longrightarrow> split_on sep (a @ sep # b) = split_on sep a @ [b]"
  by (induction sep a rule: split_on.induct) (auto simp: split_on_simple split_on_nonempty split: list.splits)

definition plain_name :: "string \<Rightarrow> bool" where
  "plain_name b \<longleftrightarrow> b \<noteq> [] \<and> b \<noteq> [dot] \<and> b \<noteq> [dot, dot] \<and> slash \<notin> set b"

lemma norm_parts_snoc: "plain_name b \<Longrightarrow> norm_parts acc (ps @ [b]) = norm_parts acc ps @ [b]"
  by (induction acc ps rule: norm_parts.induct) (auto simp: plain_name_def)

lemma join_with_snoc: "ps \<noteq> [] \<Longrightarrow> join_with sep (ps @ [b]) = join_with sep ps @ sep @ b"
  by (induction sep ps rule: join_with.induct) auto

text \<open>A directory path as \<^verbatim>\<open>abspath\<close> gives it, other than the root.\<close>

definition clean_dir :: "string \<Rightarrow> bool" where
  "clean_dir dd \<longleftrightarrow> norm_abspath dd = dd \<and> \<not> set dd \<subseteq> {slash} \<and> last dd \<noteq> slash"

lemma takeWhile_lead: "\<not> set dd \<subseteq> {slash} \<Longrightarrow> takeWhile (\<lambda>c. c = slash) (dd @ xs) = takeWhile (\<lambda>c. c = slash) dd"
  by (induction dd) auto

lemma norm_abspath_child:
  assumes "clean_dir dd" and "plain_name b"
  shows "norm_abspath (dd @ slash # b) = dd @ slash # b"
proof -
  let ?ps = "norm_parts [] (split_on slash dd)"
  define root where "root = (if length (takeWhile (\<lambda>c. c = slash) dd) = 2 then [slash, slash] else [slash])"
  have dd: "dd = root @ join_with [slash] ?ps" and ns: "\<not> set dd \<subseteq> {slash}"
    using assms(1) by (auto simp: clean_dir_def norm_abspath_def Let_def root_def)
  have "?ps \<noteq> []"
  proof
    assume "?ps = []"
    then have "dd = root" using dd by simp
    then show False using ns by (auto simp: root_def split: if_splits)
  qed
  moreover have "split_on slash (dd @ slash # b) = split_on slash dd @ [b]"
    using assms(2) by (simp add: split_on_append plain_name_def)
  ultimately have "norm_abspath (dd @ slash # b) = root @ join_with [slash] ?ps @ slash # b"
    using ns by (simp add: norm_abspath_def Let_def root_def norm_parts_snoc [OF assms(2)] join_with_snoc takeWhile_lead)
  then show ?thesis using dd by (metis append.assoc)
qed

lemma posix_join_child:
  assumes "clean_dir dd" and "plain_name b"
  shows "posix_join dd b = dd @ slash # b"
proof -
  have "dd \<noteq> []" using assms(1) by (auto simp: clean_dir_def)
  then have "\<not> endswith dd [slash]"
    using assms(1) by (cases dd rule: rev_cases) (auto simp: clean_dir_def endswith_def)
  moreover have "\<not> startswith b [slash]" using assms(2) by (cases b) (auto simp: plain_name_def startswith_def)
  ultimately show ?thesis using \<open>dd \<noteq> []\<close> by (simp add: posix_join_def)
qed

lemma add_extension_child:
  "\<exists>n. add_extension m (dd @ slash # b) = dd @ slash # b @ n \<and> slash \<notin> set n"
  by (auto simp: add_extension_def MIMETYPE_EXTS_def)

lemma splitext_child:
  assumes "slash \<notin> set b"
  shows "\<exists>stem ext. splitext (dd @ slash # b) = (dd @ slash # stem, ext) \<and> slash \<notin> set stem \<and> slash \<notin> set ext"
proof -
  have name: "after_last slash (dd @ slash # b) = b" by (rule after_last_append [OF assms])
  have ext: "slash \<notin> set (dot # after_last dot b)" using after_last_subset [of dot b] assms by auto
  show ?thesis
  proof (cases "splitext (dd @ slash # b) = (dd @ slash # b, [])")
    case True
    then show ?thesis using assms by auto
  next
    case False
    let ?stem = "take (length b - length (after_last dot b) - 1) b"
    have "splitext (dd @ slash # b) = ((dd @ [slash]) @ ?stem, dot # after_last dot b)"
      using False name by (simp add: splitext_def Let_def split: if_splits)
    moreover have "slash \<notin> set ?stem" using assms in_set_takeD by fastforce
    ultimately show ?thesis using ext by auto
  qed
qed

lemma digit_not_slash: "d < 10 \<Longrightarrow> digit_char d \<noteq> slash"
proof
  assume "d < 10" and "digit_char d = slash"
  then have "(of_char (digit_char d) :: nat) = 47" by simp
  then show False using \<open>d < 10\<close> by (simp add: digit_char_def)
qed

lemma show_nat_no_slash: "slash \<notin> set (show_nat n)"
proof (induction n rule: show_nat.induct)
  case (1 n)
  have "n mod 10 < 10" by simp
  then show ?case using 1 digit_not_slash [of n] digit_not_slash [of "n mod 10"]
    by (subst show_nat.simps) (auto simp del: mod_less_divisor)
qed

lemma download_path_inside:
  assumes "clean_dir dd" and "plain_name (base_name f)" and "download_path taken dd f m = Some r"
  shows "r \<notin> set taken \<and> (\<exists>n. r = dd @ slash # n \<and> slash \<notin> set n)"
proof -
  obtain n where w: "wanted_path dd f m = dd @ slash # base_name f @ n" "slash \<notin> set n"
    using add_extension_child [of m dd "base_name f"]
    by (auto simp: wanted_path_def posix_join_child [OF assms(1,2)] norm_abspath_child [OF assms(1,2)])
  have clean: "slash \<notin> set (base_name f @ n)" using w(2) base_name_clean(1) by simp
  obtain stem ext where s: "splitext (wanted_path dd f m) = (dd @ slash # stem, ext)" "slash \<notin> set stem" "slash \<notin> set ext"
    using splitext_child [OF clean, of dd] w(1) by metis
  have "r \<notin> set taken \<and> (r = wanted_path dd f m \<or> (\<exists>k > 0. r = numbered (dd @ slash # stem) ext k))"
    using assms(3) s(1) by (intro next_free_result [of "Suc (Suc (length taken))"]) (simp add: download_path_def Let_def del: next_free.simps)
  moreover have "\<exists>n'. numbered (dd @ slash # stem) ext k = dd @ slash # n' \<and> slash \<notin> set n'" for k
    by (rule exI [of _ "stem @ CHR ''-'' # show_nat k @ ext"]) (simp add: numbered_def s(2,3) show_nat_no_slash)
  ultimately show ?thesis using w clean by auto
qed

lemma download_path_exists: "\<exists>r. download_path taken dd f m = Some r"
  unfolding download_path_def Let_def by (cases "splitext (wanted_path dd f m)") (simp only: prod.case next_free_returns)

subsection \<open>Properties\<close>

text \<open>
  C26: whatever name and type a peer announces, a path is always found, it does not exist yet,
  and unless the last component of the name is empty, \<open>.\<close> or \<open>..\<close> it is directly inside the
  download directory.
\<close>

theorem download_path_safe:
  assumes "clean_dir dd"
  shows "\<exists>r. download_path taken dd f m = Some r
    \<and> (base_name f \<notin> {[], [dot], [dot, dot]} \<longrightarrow> r \<notin> set taken \<and> (\<exists>n. r = dd @ slash # n \<and> slash \<notin> set n))"
proof -
  obtain r where r: "download_path taken dd f m = Some r" using download_path_exists by blast
  then show ?thesis using download_path_inside [OF assms _ r] base_name_clean(1) [of f]
    by (simp add: plain_name_def)
qed

theorem download_path_safe_witness:
  "\<exists>r. download_path [''/home/u/dl/a.txt''] ''/home/u/dl'' ''../x/a.txt'' [] = Some r
    \<and> r \<notin> {''/home/u/dl/a.txt''} \<and> (\<exists>n. r = ''/home/u/dl'' @ slash # n \<and> slash \<notin> set n)"
proof -
  have "clean_dir ''/home/u/dl''" by (simp add: clean_dir_def norm_abspath_def Let_def)
  moreover have "base_name ''../x/a.txt'' = ''a.txt''" by (simp add: base_name_def after_last_def)
  ultimately show ?thesis
    using download_path_safe [of "''/home/u/dl''" "[''/home/u/dl/a.txt'']" "''../x/a.txt''" "[]"] by auto
qed


end
