(* ===== verification/Catlink_Bridge.thy ===== *)
theory Catlink_Bridge
  imports Clip_Core File_Paths
begin

text \<open>
  The bridge from the clipboard of the client to the Catlink host
  (\<^verbatim>\<open>xpra/clipboard/catlink_bridge.py\<close>): rich offers (images, HTML, file lists) of the remote
  clipboard are numbered by a generation, announced to the host over a socket, and served to local
  applications by a native clipboard provider that waits for the host.

  The handlers run on the main thread, which alone changes the generation; the threads they start
  are jobs, run in any order between the handlers, each up to its next locked section. What the
  bridge only calls is in \<open>bridge_env\<close>: the selections of the proxies, the HTTP service that
  registers files, the size of an encoded JSON header, and the parsing of URI lists and of HTML
  attributes. Writing to the socket does not fail, except for its size limits. The ghost fields
  \<open>b_sent\<close>, \<open>b_jobs\<close>, \<open>b_idles\<close> and \<open>b_native\<close> hold the messages sent, the unfinished threads,
  the pending idle callbacks and the calls to GTK.
\<close>

subsection \<open>Targets and data\<close>

definition MAX_IPC_HEADER_SIZE :: nat where "MAX_IPC_HEADER_SIZE = 2 ^ 20"
definition MAX_IPC_BINARY_SIZE :: nat where "MAX_IPC_BINARY_SIZE = 128 * 2 ^ 20"

definition is_html_target :: "string \<Rightarrow> bool" where
  "is_html_target target = startswith (str_lower target) ''text/html''"

definition is_image_request_target :: "string \<Rightarrow> bool" where
  "is_image_request_target target =
     (startswith (str_lower target) ''image/'' \<or> str_lower target = ''application/x-qt-image'')"

definition as_bytes :: "pval \<Rightarrow> py_error + bytes" where
  "as_bytes data = (case data of PStr s \<Rightarrow> Inr (str_encode s) | _ \<Rightarrow> py_bytes data)"

definition same_source_offer :: "string \<Rightarrow> string \<Rightarrow> bool" where
  "same_source_offer previous_origin origin = (origin \<noteq> [] \<and> origin = previous_origin)"

text \<open>\<^verbatim>\<open>data.decode("utf8", "replace")\<close>: every ill-formed part becomes one U+FFFD.\<close>

definition replacement_char :: bytes where
  "replacement_char = [0xEF, 0xBF, 0xBD]"

text \<open>The length of the longest start of a well-formed sequence, and whether it is whole.\<close>

fun utf8_start :: "bytes \<Rightarrow> nat \<times> bool" where
  "utf8_start [] = (0, False)"
| "utf8_start (a # bs) =
     (let n = unat a; cont = (\<lambda>i lo hi. i < length bs \<and> lo \<le> unat (bs ! i) \<and> unat (bs ! i) < hi) in
      if n < 128 then (1, True)
      else if 194 \<le> n \<and> n < 224 then (if cont 0 128 192 then (2, True) else (1, False))
      else if 224 \<le> n \<and> n < 240 then
        (if \<not> cont 0 (if n = 224 then 160 else 128) (if n = 237 then 160 else 192) then (1, False)
         else if \<not> cont 1 128 192 then (2, False) else (3, True))
      else if 240 \<le> n \<and> n < 245 then
        (if \<not> cont 0 (if n = 240 then 144 else 128) (if n = 244 then 144 else 192) then (1, False)
         else if \<not> cont 1 128 192 then (2, False)
         else if \<not> cont 2 128 192 then (3, False) else (4, True))
      else (1, False))"

function utf8_replace :: "bytes \<Rightarrow> bytes" where
  "utf8_replace [] = []"
| "utf8_replace (a # bs) =
     (let (n, ok) = utf8_start (a # bs) in
      (if ok then take n (a # bs) else replacement_char) @ utf8_replace (drop (max n 1) (a # bs)))"
  by pat_completeness auto
termination by (relation "measure length") auto

definition text_of :: "(pval \<Rightarrow> string) \<Rightarrow> pval \<Rightarrow> string" where
  "text_of rep v = (case v of PBytes b \<Rightarrow> bytes_chars (utf8_replace b) | _ \<Rightarrow> py_str rep v)"

text \<open>Whether every line of a text that is not blank is a file URI.\<close>

definition is_remote_file_uri_text :: "string list \<Rightarrow> bool" where
  "is_remote_file_uri_text lines =
     (let ls = filter (\<lambda>l. l \<noteq> []) lines in ls \<noteq> [] \<and> list_all (\<lambda>l. startswith (str_lower l) ''file://'') ls)"

definition image_data_complete :: "string \<Rightarrow> bytes \<Rightarrow> bool" where
  "image_data_complete dtype raw =
     (let kind = str_lower dtype in
      if kind = ''image/bmp'' then
        length raw \<ge> 6 \<and> take 2 raw = [66, 77] \<and> le_val (take 4 (drop 2 raw)) \<le> length raw
      else if kind = ''image/png'' then
        length raw \<ge> 20 \<and> startswith raw [137, 80, 78, 71, 13, 10, 26, 10]
        \<and> take 4 (drop (length raw - 8) raw) = [73, 69, 78, 68]
      else if kind = ''image/jpeg'' \<or> kind = ''image/jpg'' then
        length raw \<ge> 4 \<and> startswith raw [255, 216] \<and> endswith raw [255, 217]
      else if kind = ''image/webp'' then
        length raw \<ge> 12 \<and> take 4 raw = [82, 73, 70, 70] \<and> take 4 (drop 8 raw) = [87, 69, 66, 80]
        \<and> le_val (take 4 (drop 4 raw)) + 8 \<le> length raw
      else True)"

subsection \<open>The state\<close>

type_synonym content_key = "nat \<times> string"

record offered_file =
  of_handle :: string
  of_name :: string
  of_size :: int
  of_source :: "string option"

datatype ipc =
    IpcHello
  | IpcOffer nat "string list" string
  | IpcReset nat
  | IpcUnavailable nat string
  | IpcImage nat string bytes
  | IpcHtml nat string "offered_file list" bytes
  | IpcPrepareFiles nat "offered_file list"
  | IpcStartFiles nat
  | IpcDataRequest nat string

text \<open>Threads: the file list before and after its locked section, and an HTML document.\<close>

datatype job =
    UriFiles string nat
  | UriOffers "string list" nat
  | SendHtml bytes nat string

datatype native_call = NativeSet nat bool | NativeClear "nat option"

record bridge_env =
  be_selection :: "nat \<Rightarrow> string"
  be_has_clipboard :: "nat \<Rightarrow> bool"
  be_header_len :: "ipc \<Rightarrow> nat"
  be_post :: "string \<Rightarrow> (string option \<times> string option \<times> int option) option"
  be_uri_lines :: "string \<Rightarrow> string list"
  be_uri_paths :: "string \<Rightarrow> string list"
  be_html_refs :: "bytes \<Rightarrow> (string \<times> string) list"
  be_platform :: string
  be_rep :: "pval \<Rightarrow> string"

record bridge =
  b_enabled :: bool
  b_sock :: bool
  b_generation :: nat
  b_responses :: "content_key \<rightharpoonup> string \<times> bytes"
  b_inline :: "content_key \<rightharpoonup> string \<times> int \<times> pval"
  b_targets :: "string list"
  b_active :: bool
  b_received :: "content_key \<rightharpoonup> pval"
  b_requested :: "content_key set"
  b_request_generations :: "nat \<rightharpoonup> content_key"
  b_uri_file_offers :: "nat set"
  b_unavailable :: "content_key set"
  b_proxy :: "nat option"
  b_selection_name :: string
  b_offer_text :: string
  b_source_origin :: string
  b_source_offer_id :: int
  b_fingerprint :: "(string list \<times> (string \<times> bytes) list) option"
  b_last_token_duplicate :: bool
  b_claimed_proxy :: "nat option"
  b_claimed_targets :: "string list"
  b_claimed_generation :: nat
  b_clear_nonce :: nat
  b_native_owner :: "nat option"
  b_local_owner :: "nat \<Rightarrow> bool"
  b_sent :: "ipc list"
  b_jobs :: "job list"
  b_idles :: "(nat \<times> nat \<times> nat) list"
  b_native :: "native_call list"

text \<open>A bridge that has connected to the host; one that has not accepts no proxy.\<close>

definition bridge_init :: bridge where
  "bridge_init = \<lparr>b_enabled = True, b_sock = True, b_generation = 0, b_responses = Map.empty, b_inline = Map.empty,
     b_targets = [], b_active = False, b_received = Map.empty, b_requested = {}, b_request_generations = Map.empty,
     b_uri_file_offers = {}, b_unavailable = {}, b_proxy = None, b_selection_name = [], b_offer_text = [],
     b_source_origin = [], b_source_offer_id = 0, b_fingerprint = None, b_last_token_duplicate = False,
     b_claimed_proxy = None, b_claimed_targets = [], b_claimed_generation = 0, b_clear_nonce = 0, b_native_owner = None,
     b_local_owner = (\<lambda>_. False), b_sent = [IpcHello], b_jobs = [], b_idles = [], b_native = []\<rparr>"

subsection \<open>Sending\<close>

fun ipc_binary :: "ipc \<Rightarrow> bytes" where
  "ipc_binary (IpcImage g t d) = d"
| "ipc_binary (IpcHtml g t fs d) = d"
| "ipc_binary _ = []"

type_synonym outcome = "bridge \<times> py_error option"

definition b_send :: "bridge_env \<Rightarrow> ipc \<Rightarrow> bridge \<Rightarrow> outcome" where
  "b_send E m s =
     (if \<not> b_sock s then (s, None)
      else if length (ipc_binary m) > MAX_IPC_BINARY_SIZE then (s, Some ValueError)
      else if be_header_len E m > MAX_IPC_HEADER_SIZE then (s, Some ValueError)
      else (s\<lparr>b_sent := b_sent s @ [m]\<rparr>, None))"

definition b_then :: "outcome \<Rightarrow> (bridge \<Rightarrow> outcome) \<Rightarrow> outcome" where
  "b_then r f = (case r of (s, None) \<Rightarrow> f s | (s, Some e) \<Rightarrow> (s, Some e))"

definition start_job :: "job \<Rightarrow> bridge \<Rightarrow> bridge" where
  "start_job j s = s\<lparr>b_jobs := b_jobs s @ [j]\<rparr>"

definition accepts :: "bridge_env \<Rightarrow> nat \<Rightarrow> bridge \<Rightarrow> bool" where
  "accepts E proxy s = (b_enabled s \<and> b_sock s \<and> be_selection E proxy = ''CLIPBOARD'')"

text \<open>The host is gone: the socket is dropped and the waiters wake up.\<close>

definition reader_stopped :: "bridge \<Rightarrow> bridge" where
  "reader_stopped s = s\<lparr>b_sock := False\<rparr>"

text \<open>A \<^verbatim>\<open>data-response\<close> of the host; its generation is any number.\<close>

definition host_data_response :: "int \<Rightarrow> string \<Rightarrow> bytes \<Rightarrow> bridge \<Rightarrow> bridge" where
  "host_data_response generation target data s =
     (if \<not> b_sock s \<or> generation \<noteq> int (b_generation s) \<or> \<not> b_active s then s
      else
        let key = (b_generation s, target) in
        if data \<noteq> [] \<or> b_responses s key = None then s\<lparr>b_responses := (b_responses s)(key \<mapsto> (target, data))\<rparr> else s)"

subsection \<open>Requests\<close>

text \<open>
  \<open>rid\<close> is what \<^verbatim>\<open>request_target\<close> returns if it is called: the number of the request it sent.
\<close>

definition request_remote_for :: "nat \<Rightarrow> string \<Rightarrow> nat option \<Rightarrow> bridge \<Rightarrow> bridge" where
  "request_remote_for generation target rid s =
     (let target = (if target = ''application/x-qt-image'' then ''image/png'' else target); key = (generation, target) in
      if \<not> b_active s \<or> generation \<noteq> b_generation s \<or> key \<in> b_requested s then s
      else
        let s = s\<lparr>b_requested := insert key (b_requested s)\<rparr> in
        case b_proxy s of
          None \<Rightarrow> s
        | Some _ \<Rightarrow>
            (case rid of
               None \<Rightarrow> s
             | Some n \<Rightarrow> s\<lparr>b_request_generations := (b_request_generations s)(n \<mapsto> (generation, target))\<rparr>))"

definition request_remote :: "nat \<Rightarrow> string \<Rightarrow> nat option \<Rightarrow> bridge \<Rightarrow> bridge" where
  "request_remote proxy target rid s = request_remote_for (b_generation s) target rid (s\<lparr>b_proxy := Some proxy\<rparr>)"

subsection \<open>Retiring an offer\<close>

definition schedule_native_clear :: "nat \<Rightarrow> nat \<Rightarrow> bridge \<Rightarrow> bridge" where
  "schedule_native_clear proxy generation s = s\<lparr>b_idles := b_idles s @ [(proxy, generation, b_clear_nonce s)]\<rparr>"

definition mark_native_replaced :: "bridge \<Rightarrow> bridge" where
  "mark_native_replaced s = s\<lparr>b_clear_nonce := b_clear_nonce s + 1\<rparr>"

text \<open>\<open>owner\<close> is the local owner of the selection, as the proxy finds it.\<close>

definition owns_native :: "nat option \<Rightarrow> bridge \<Rightarrow> bool" where
  "owns_native owner s = (b_native_owner s \<noteq> None \<and> owner = b_native_owner s)"

definition clear_if_stale :: "nat option \<Rightarrow> nat \<times> nat \<times> nat \<Rightarrow> bridge \<Rightarrow> bridge" where
  "clear_if_stale owner c s =
     (case c of (proxy, generation, nonce) \<Rightarrow>
        if b_generation s \<noteq> generation + 1 \<or> b_active s \<or> b_clear_nonce s \<noteq> nonce then s
        else if \<not> owns_native owner s then s
        else s\<lparr>b_native := b_native s @ [NativeClear owner]\<rparr>)"

definition invalidate_native :: "bridge_env \<Rightarrow> nat \<Rightarrow> bool \<Rightarrow> bridge \<Rightarrow> outcome" where
  "invalidate_native E proxy clear s =
     (if \<not> accepts E proxy s \<or> \<not> (b_active s \<or> b_claimed_proxy s = Some proxy) then (s, None)
      else
        let stale_generation = b_generation s;
            s = s\<lparr>b_generation := b_generation s + 1, b_active := False, b_targets := [], b_requested := {},
                  b_responses := Map.empty, b_inline := Map.empty, b_source_offer_id := 0, b_source_origin := [],
                  b_fingerprint := None, b_claimed_proxy := None, b_claimed_targets := [], b_claimed_generation := 0\<rparr> in
        b_then (b_send E (IpcReset (b_generation s)) s) (\<lambda>s.
          let s = s\<lparr>b_local_owner := (b_local_owner s)(proxy := True)\<rparr> in
          (if clear then schedule_native_clear proxy stale_generation s else s, None)))"

subsection \<open>Tokens\<close>

text \<open>Eager data of a token: its target, type, format and contents.\<close>

type_synonym token_entry = "string \<times> string \<times> int \<times> pval"

definition receive_image :: "bridge_env \<Rightarrow> string \<Rightarrow> string \<Rightarrow> pval \<Rightarrow> bridge \<Rightarrow> outcome" where
  "receive_image E target dtype data s =
     (let key = (b_generation s, target); s = s\<lparr>b_requested := insert key (b_requested s)\<rparr> in
      case (if py_bool data then py_bytes data else Inr []) of
        Inl e \<Rightarrow> (s, Some e)
      | Inr raw \<Rightarrow>
          if \<not> image_data_complete dtype raw then
            b_send E (IpcUnavailable (b_generation s) target) (s\<lparr>b_unavailable := insert key (b_unavailable s)\<rparr>)
          else
            b_send E (IpcImage (b_generation s) dtype raw) (s\<lparr>b_unavailable := b_unavailable s - {key}\<rparr>))"

definition text_targets :: "string list" where
  "text_targets = [''UTF8_STRING'', ''TEXT'', ''STRING'', ''text/plain'', ''text/plain;charset=utf-8'']"

fun eager_text :: "(pval \<Rightarrow> string) \<Rightarrow> token_entry list \<Rightarrow> string" where
  "eager_text rep [] = []"
| "eager_text rep ((target, dtype, dformat, data) # td) =
     (if target \<in> set text_targets then text_of rep data else eager_text rep td)"

text \<open>Data that \<^verbatim>\<open>bytes()\<close> refuses, a \<^verbatim>\<open>str\<close> for one, is left out.\<close>

definition fingerprint_data :: "token_entry list \<Rightarrow> (string \<times> bytes) list" where
  "fingerprint_data td =
     concat (map (\<lambda>(target, dtype, dformat, data). case py_bytes data of Inl _ \<Rightarrow> [] | Inr b \<Rightarrow> [(target, b)]) td)"

definition token_entry_data :: "bridge_env \<Rightarrow> token_entry \<Rightarrow> bridge \<Rightarrow> outcome" where
  "token_entry_data E entry s =
     (case entry of (target, dtype, dformat, data) \<Rightarrow>
        let key = (b_generation s, target);
            s = (if \<not> startswith target ''image/'' \<and> target \<noteq> ''text/uri-list''
                 then s\<lparr>b_inline := (b_inline s)(key \<mapsto> (dtype, dformat, data))\<rparr> else s) in
        b_then
          (if is_html_target target \<and> py_bool data then
             (case as_bytes data of
                Inl e \<Rightarrow> (s, Some e)
              | Inr b \<Rightarrow> (start_job (SendHtml b (b_generation s) target) s, None))
           else (s, None)) (\<lambda>s.
        b_then
          (if target = ''text/uri-list'' then
             (case as_bytes data of
                Inl e \<Rightarrow> (s, Some e)
              | Inr b \<Rightarrow> (start_job (UriFiles (bytes_chars (utf8_replace b)) (b_generation s))
                             (s\<lparr>b_requested := insert key (b_requested s)\<rparr>), None))
           else (s, None)) (\<lambda>s.
        if startswith target ''image/'' \<and> py_bool data then receive_image E target dtype data s else (s, None))))"

fun bridge_token_data :: "bridge_env \<Rightarrow> token_entry list \<Rightarrow> bridge \<Rightarrow> outcome" where
  "bridge_token_data E [] s = (s, None)"
| "bridge_token_data E (entry # td) s = b_then (token_entry_data E entry s) (bridge_token_data E td)"

definition is_nontext :: "string \<Rightarrow> bool" where
  "is_nontext x = (startswith x ''image/'' \<or> x = ''text/uri-list'')"

definition managed_targets :: "bool \<Rightarrow> string list \<Rightarrow> string list" where
  "managed_targets has_clipboard targets =
     filter is_nontext targets @ (if has_clipboard then filter is_html_target targets else [])"

text \<open>\<^verbatim>\<open>tuple(dict.fromkeys(...))\<close>\<close>

fun without_repeats :: "string list \<Rightarrow> string list \<Rightarrow> string list" where
  "without_repeats seen [] = []"
| "without_repeats seen (x # xs) = (if x \<in> set seen then without_repeats seen xs else x # without_repeats (x # seen) xs)"

text \<open>What a handler returns, or the exception it raises.\<close>

type_synonym handled = "bridge \<times> (py_error + bool)"

definition handled_as :: "bool \<Rightarrow> outcome \<Rightarrow> handled" where
  "handled_as v r = (case r of (s, None) \<Rightarrow> (s, Inr v) | (s, Some e) \<Rightarrow> (s, Inl e))"

definition new_offer ::
  "bridge_env \<Rightarrow> nat \<Rightarrow> string list \<Rightarrow> string \<Rightarrow> int \<Rightarrow> string \<Rightarrow> string list \<times> (string \<times> bytes) list \<Rightarrow> bridge \<Rightarrow> outcome" where
  "new_offer E proxy targets text source_offer_id source_origin fingerprint s =
     (let s = s\<lparr>b_generation := b_generation s + 1, b_targets := targets, b_inline := Map.empty, b_responses := Map.empty,
                b_received := Map.empty, b_requested := {}, b_unavailable := {}, b_uri_file_offers := {},
                b_proxy := Some proxy, b_offer_text := text, b_source_origin := source_origin,
                b_source_offer_id := source_offer_id, b_fingerprint := Some fingerprint\<rparr>
      in b_send E (IpcOffer (b_generation s) targets text) s)"

definition handle_token ::
  "bridge_env \<Rightarrow> nat \<Rightarrow> string \<Rightarrow> string list \<Rightarrow> token_entry list \<Rightarrow> int \<Rightarrow> string \<Rightarrow> bridge \<Rightarrow> handled" where
  "handle_token E proxy selection targets td source_offer_id source_origin s =
     (let s = s\<lparr>b_last_token_duplicate := False\<rparr>; proxy_selection = be_selection E proxy in
      if proxy_selection \<noteq> [] \<and> selection \<noteq> proxy_selection then (s, Inr False)
      else if b_selection_name s \<noteq> [] \<and> selection \<noteq> b_selection_name s then (s, Inr False)
      else if managed_targets (be_has_clipboard E proxy) targets = [] then handled_as False (invalidate_native E proxy True s)
      else
        let s = s\<lparr>b_active := True\<rparr>;
            text = eager_text (be_rep E) td;
            fingerprint = (targets, fingerprint_data td);
            merge = (source_offer_id \<noteq> 0 \<and> source_offer_id = b_source_offer_id s
                     \<and> same_source_offer (b_source_origin s) source_origin) in
        if source_origin = [] \<and> source_offer_id = 0 \<and> b_fingerprint s = Some fingerprint then
          (s\<lparr>b_last_token_duplicate := True\<rparr>, Inr True)
        else
          handled_as True
            (b_then
              (if merge then
                 (s\<lparr>b_targets := without_repeats [] (b_targets s @ targets),
                    b_offer_text := (if text \<noteq> [] then text else b_offer_text s), b_proxy := Some proxy\<rparr>, None)
               else new_offer E proxy targets text source_offer_id source_origin fingerprint s)
              (bridge_token_data E td)))"

subsection \<open>Contents\<close>

definition unavailable :: "bridge_env \<Rightarrow> string \<Rightarrow> bridge \<Rightarrow> outcome" where
  "unavailable E target s =
     (let key = (b_generation s, target) in
      b_send E (IpcUnavailable (b_generation s) target)
        (s\<lparr>b_requested := insert key (b_requested s), b_unavailable := insert key (b_unavailable s)\<rparr>))"

text \<open>\<^verbatim>\<open>bytes(data)\<close> for bytes, \<^verbatim>\<open>str(data or "")\<close> for anything else.\<close>

definition content_value :: "(pval \<Rightarrow> string) \<Rightarrow> pval \<Rightarrow> pval" where
  "content_value rep data =
     (case data of PBytes b \<Rightarrow> PBytes b | _ \<Rightarrow> PStr (if py_bool data then py_str rep data else []))"

definition accept_contents :: "bridge_env \<Rightarrow> string \<Rightarrow> string \<Rightarrow> int \<Rightarrow> pval \<Rightarrow> bridge \<Rightarrow> outcome" where
  "accept_contents E target dtype dformat data s =
     (let key = (b_generation s, target); s = s\<lparr>b_requested := insert key (b_requested s)\<rparr>; v = content_value (be_rep E) data in
      if b_received s key = Some v then (s, None)
      else
        let s = s\<lparr>b_received := (b_received s)(key \<mapsto> v)\<rparr> in
        if target = ''text/uri-list'' then
          (start_job (UriFiles (case data of PBytes b \<Rightarrow> bytes_chars (utf8_replace b)
             | _ \<Rightarrow> if py_bool data then py_str (be_rep E) data else []) (b_generation s)) s, None)
        else if is_html_target target then
          (case as_bytes data of
             Inl e \<Rightarrow> (s, Some e)
           | Inr b \<Rightarrow> (start_job (SendHtml b (b_generation s) target) s, None))
        else if startswith dtype ''image/'' \<and> py_bool data then receive_image E target dtype data s
        else (s\<lparr>b_inline := (b_inline s)(key \<mapsto> (dtype, dformat, data))\<rparr>, None))"

definition handle_contents ::
  "bridge_env \<Rightarrow> string \<Rightarrow> string \<Rightarrow> int \<Rightarrow> pval \<Rightarrow> nat option \<Rightarrow> bridge \<Rightarrow> handled" where
  "handle_contents E target dtype dformat data request_id s =
     (case (case request_id of None \<Rightarrow> None | Some n \<Rightarrow> b_request_generations s n) of
        None \<Rightarrow> (s, Inr False)
      | Some (generation, request_target) \<Rightarrow>
          let s = s\<lparr>b_request_generations := (b_request_generations s)(the request_id := None)\<rparr> in
          if generation \<noteq> b_generation s \<or> request_target \<noteq> target then (s, Inr True)
          else if \<not> b_active s \<or> target \<notin> set (b_targets s) then (s, Inr False)
          else if dtype = [] \<or> data = PNone then
            (if target = ''text/uri-list'' \<and> is_remote_file_uri_text (be_uri_lines E (b_offer_text s))
             then (start_job (UriFiles (b_offer_text s) (b_generation s)) s, Inr True)
             else handled_as True (unavailable E target s))
          else handled_as True (accept_contents E target dtype dformat data s))"

datatype bridge_call =
    BridgeToken "string list" "token_entry list" int string
  | BridgeContents string string int pval "nat option"

definition handle :: "bridge_env \<Rightarrow> bridge_call \<Rightarrow> nat \<Rightarrow> string \<Rightarrow> bridge \<Rightarrow> handled" where
  "handle E kind proxy selection s =
     (if \<not> accepts E proxy s \<or> selection \<noteq> ''CLIPBOARD'' then (s, Inr False)
      else case kind of
        BridgeToken targets td offer_id origin \<Rightarrow> handle_token E proxy selection targets td offer_id origin s
      | BridgeContents target dtype dformat data request_id \<Rightarrow> handle_contents E target dtype dformat data request_id s)"

subsection \<open>Threads\<close>

definition offer_file :: "bridge_env \<Rightarrow> string \<Rightarrow> offered_file option" where
  "offer_file E path =
     map_option (\<lambda>(handle, name, size).
         \<lparr>of_handle = (case handle of None \<Rightarrow> path | Some h \<Rightarrow> h),
          of_name = (case name of Some n \<Rightarrow> n
             | None \<Rightarrow> let n = after_last slash (rev (dropWhile (\<lambda>c. c = slash) (rev path))) in if n = [] then ''file'' else n),
          of_size = (case size of None \<Rightarrow> 0 | Some n \<Rightarrow> n), of_source = None\<rparr>)
       (be_post E path)"

definition send_uri_files :: "bridge_env \<Rightarrow> string \<Rightarrow> nat \<Rightarrow> bridge \<Rightarrow> bridge" where
  "send_uri_files E raw generation s =
     (if generation \<noteq> b_generation s \<or> \<not> b_active s then s
      else if generation \<in> b_uri_file_offers s then s
      else start_job (UriOffers (be_uri_paths E raw) generation)
        (s\<lparr>b_uri_file_offers := insert generation (b_uri_file_offers s)\<rparr>))"

text \<open>An exception ends the thread that sends.\<close>

definition send_uri_offers :: "bridge_env \<Rightarrow> string list \<Rightarrow> nat \<Rightarrow> bridge \<Rightarrow> bridge" where
  "send_uri_offers E paths generation s =
     (let files = map (offer_file E) paths in
      fst (if None \<in> set files then b_send E (IpcUnavailable generation ''text/uri-list'') s
           else
             b_then (b_send E (IpcPrepareFiles generation (map the files)) s) (\<lambda>s.
               if be_platform E \<noteq> ''darwin'' then b_send E (IpcStartFiles generation) s else (s, None))))"

definition send_html :: "bridge_env \<Rightarrow> bytes \<Rightarrow> nat \<Rightarrow> string \<Rightarrow> bridge \<Rightarrow> bridge" where
  "send_html E data generation target s =
     (let files = List.map_filter (\<lambda>(source, path). map_option (\<lambda>f. f\<lparr>of_source := Some source\<rparr>) (offer_file E path)) (be_html_refs E data)
      in fst (b_send E (IpcHtml generation target files data) s))"

definition run_job :: "bridge_env \<Rightarrow> job \<Rightarrow> bridge \<Rightarrow> bridge" where
  "run_job E j s =
     (case j of
        UriFiles raw generation \<Rightarrow> send_uri_files E raw generation s
      | UriOffers paths generation \<Rightarrow> send_uri_offers E paths generation s
      | SendHtml data generation target \<Rightarrow> send_html E data generation target s)"

subsection \<open>The native provider\<close>

text \<open>One round of a wait: the response, giving up, or another round. \<open>expired\<close> is the deadline.\<close>

datatype 'a poll = Again | Give "'a option"

definition wait_response :: "nat \<Rightarrow> string \<Rightarrow> bool \<Rightarrow> bridge \<Rightarrow> (string \<times> bytes) poll" where
  "wait_response generation target expired s =
     (if \<not> (target = ''text/uri-list'' \<and> b_sock s \<or> \<not> expired) then Give None
      else if \<not> b_sock s then Give None
      else if generation \<noteq> b_generation s \<or> \<not> b_active s then Give None
      else case b_responses s (generation, target) of None \<Rightarrow> Again | Some r \<Rightarrow> Give (Some r))"

definition wait_inline :: "nat \<Rightarrow> string \<Rightarrow> bool \<Rightarrow> bridge \<Rightarrow> py_error + (string \<times> bytes) poll" where
  "wait_inline generation target expired s =
     (if expired then Inr (Give None)
      else if generation \<noteq> b_generation s \<or> \<not> b_active s then Inr (Give None)
      else case b_inline s (generation, target) of
        Some (dtype, dformat, data) \<Rightarrow> map_sum id (\<lambda>b. Give (Some (dtype, b))) (as_bytes data)
      | None \<Rightarrow> if (generation, target) \<in> b_unavailable s then Inr (Give None) else Inr Again)"

text \<open>What the provider of an offer was installed with.\<close>

record provider =
  pr_generation :: nat
  pr_proxy :: nat
  pr_normalized :: "string list"
  pr_offered :: "string list"
  pr_suppress_uri_text :: bool

datatype wait_for = WaitResponse string | WaitInline string

definition file_alias :: "provider \<Rightarrow> string \<Rightarrow> bool" where
  "file_alias pr target =
     (''text/uri-list'' \<in> set (pr_normalized pr)
      \<and> (target \<in> {''x-special/gnome-copied-files'', ''text/x-moz-url'', ''Shell IDList Array''}
         \<or> pr_suppress_uri_text pr
           \<and> target \<in> {''UTF8_STRING'', ''text/plain'', ''text/plain;charset=utf-8'', ''TEXT'', ''STRING''}))"

text \<open>The first half of \<^verbatim>\<open>get_data\<close>: what is requested, and what is then waited for.\<close>

definition provider_request :: "bridge_env \<Rightarrow> provider \<Rightarrow> nat \<Rightarrow> nat option \<Rightarrow> bridge \<Rightarrow> outcome \<times> (string \<times> wait_for) option" where
  "provider_request E pr info rid s =
     (if pr_generation pr \<noteq> b_generation s \<or> \<not> b_active s \<or> length (pr_offered pr) \<le> info then ((s, None), None)
      else
        let generation = pr_generation pr; target = pr_offered pr ! info; local_uri_text = file_alias pr target;
            s = (if local_uri_text then s else request_remote_for generation target rid s);
            ask = (\<lambda>t. (b_send E (IpcDataRequest generation t) s, Some (target, WaitResponse t)))
        in if target = ''text/uri-list'' then ask target
           else if local_uri_text then ask ''text/uri-list''
           else if is_html_target target then ask target
           else if is_image_request_target target then
             ask (if target = ''application/x-qt-image'' then ''image/png'' else target)
           else ((s, None), Some (target, WaitInline target)))"

text \<open>
  The second half, once a wait ended: the type and the bytes given to the application. The file
  list formats other than GNOME's are the parameter \<open>local_file\<close>.
\<close>

definition provider_answer ::
  "(string \<Rightarrow> bytes \<Rightarrow> py_error + bytes) \<Rightarrow> provider \<Rightarrow> string \<Rightarrow> (string \<times> bytes) option \<Rightarrow> bridge \<Rightarrow> (string \<times> bytes) option" where
  "provider_answer local_file pr target response s =
     (case response of
        None \<Rightarrow> None
      | Some (dtype, data) \<Rightarrow>
          if pr_generation pr \<noteq> b_generation s \<or> \<not> b_active s then None
          else if file_alias pr target then
            (case local_file target data of Inl _ \<Rightarrow> None | Inr d \<Rightarrow> Some (target, d))
          else if target = ''application/x-qt-image'' then Some (target, data)
          else Some (if dtype = [] then target else dtype, data))"

text \<open>The targets GTK is given; GTK itself serves the first four.\<close>

definition GTK_MANAGED_TARGETS :: "string list" where
  "GTK_MANAGED_TARGETS = [''TARGETS'', ''MULTIPLE'', ''TIMESTAMP'', ''SAVE_TARGETS'']"

definition suppresses_uri_text :: "bridge_env \<Rightarrow> string list \<Rightarrow> token_entry list \<Rightarrow> bool" where
  "suppresses_uri_text E normalized td =
     (if ''text/uri-list'' \<in> set normalized then
        (case filter (\<lambda>(k, _). k \<in> set text_targets) td of
           [] \<Rightarrow> True
         | (_, _, _, data) # _ \<Rightarrow> is_remote_file_uri_text (be_uri_lines E (text_of (be_rep E) data)))
      else False)"

definition offered_targets :: "string \<Rightarrow> bool \<Rightarrow> string list \<Rightarrow> string list" where
  "offered_targets platform suppress_uri_text normalized =
     (let offered = filter (\<lambda>x. x \<notin> set GTK_MANAGED_TARGETS) normalized;
          files = (''text/uri-list'' \<in> set normalized);
          offered = (if files \<and> ''x-special/gnome-copied-files'' \<notin> set offered
                     then offered @ [''x-special/gnome-copied-files''] else offered)
      in if platform = ''win32'' \<and> files then
           filter (\<lambda>x. x \<notin> {''text/uri-list'', ''text/x-moz-url''} \<and> \<not> startswith x ''x-special/gnome-''
             \<and> \<not> (suppress_uri_text \<and> (x \<in> {''UTF8_STRING'', ''TEXT'', ''STRING'', ''text/plain''}
                  \<or> startswith (str_lower x) ''text/plain;charset=''))) offered @ [''Shell IDList Array'']
         else offered)"

text \<open>
  Claiming the native clipboard. \<open>gtk\<close> is the outcome of GTK's calls: \<open>None\<close> where its library is
  missing, else whether it took the provider; \<open>owner\<close> is the selection's owner afterwards.
\<close>

definition claim :: "bridge_env \<Rightarrow> nat \<Rightarrow> string list \<Rightarrow> token_entry list \<Rightarrow> bool option \<Rightarrow> nat option \<Rightarrow> bridge
    \<Rightarrow> bridge \<times> provider option" where
  "claim E proxy targets td gtk owner s =
     (if \<not> accepts E proxy s then (s, None)
      else
        let s = s\<lparr>b_selection_name := be_selection E proxy\<rparr> in
        if filter (\<lambda>x. is_nontext x \<or> is_html_target x) targets = [] then (s, None)
        else
          let s = s\<lparr>b_claimed_proxy := None\<rparr>;
              suppress = suppresses_uri_text E targets td;
              offered = offered_targets (be_platform E) suppress targets
          in case gtk of
               None \<Rightarrow> (s, None)
             | Some claimed \<Rightarrow>
                 let s = s\<lparr>b_local_owner := (b_local_owner s)(proxy := False), b_clear_nonce := b_clear_nonce s + 1,
                           b_native := b_native s @ [NativeSet (b_generation s) claimed],
                           b_claimed_proxy := (if claimed then Some proxy else None), b_claimed_targets := targets,
                           b_claimed_generation := b_generation s, b_native_owner := (if claimed then owner else None)\<rparr>
                 in (s, if claimed then Some \<lparr>pr_generation = b_generation s, pr_proxy = proxy, pr_normalized = targets,
                                            pr_offered = offered, pr_suppress_uri_text = suppress\<rparr> else None))"

definition is_claimed :: "nat \<Rightarrow> string list option \<Rightarrow> bridge \<Rightarrow> bool" where
  "is_claimed proxy targets s =
     (b_active s \<and> b_claimed_proxy s = Some proxy \<and> b_claimed_generation s = b_generation s
      \<and> (case targets of None \<Rightarrow> True | Some ts \<Rightarrow> ts = b_claimed_targets s))"

text \<open>GTK's notice that another application took the clipboard (not our own replacement).\<close>

definition clear_data :: "bridge_env \<Rightarrow> provider \<Rightarrow> bridge \<Rightarrow> outcome" where
  "clear_data E pr s =
     (let s = s\<lparr>b_native_owner := None\<rparr> in
      if b_claimed_proxy s = Some (pr_proxy pr) \<and> b_claimed_generation s = pr_generation pr then
        b_then (invalidate_native E (pr_proxy pr) False s) (\<lambda>s.
          (s\<lparr>b_local_owner := (b_local_owner s)(pr_proxy pr := True)\<rparr>, None))
      else (s, None))"

subsection \<open>Everything that can happen\<close>

datatype bridge_event =
    EvHandle bridge_call nat string
  | EvRequest nat string "nat option"
  | EvResponse int string bytes
  | EvReaderStopped
  | EvInvalidate nat bool
  | EvReplaced
  | EvClaim nat "string list" "token_entry list" "bool option" "nat option"
  | EvProvide provider nat "nat option"
  | EvCleared provider
  | EvJob nat
  | EvIdle nat "nat option"

definition remove_nth :: "nat \<Rightarrow> 'a list \<Rightarrow> 'a list" where
  "remove_nth i xs = take i xs @ drop (Suc i) xs"

definition bridge_step :: "bridge_env \<Rightarrow> bridge \<Rightarrow> bridge_event \<Rightarrow> bridge" where
  "bridge_step E s ev =
     (case ev of
        EvHandle c proxy selection \<Rightarrow> fst (handle E c proxy selection s)
      | EvRequest proxy target rid \<Rightarrow> request_remote proxy target rid s
      | EvResponse generation target data \<Rightarrow> host_data_response generation target data s
      | EvReaderStopped \<Rightarrow> reader_stopped s
      | EvInvalidate proxy clear \<Rightarrow> fst (invalidate_native E proxy clear s)
      | EvReplaced \<Rightarrow> mark_native_replaced s
      | EvClaim proxy targets td gtk owner \<Rightarrow> fst (claim E proxy targets td gtk owner s)
      | EvProvide pr info rid \<Rightarrow> fst (fst (provider_request E pr info rid s))
      | EvCleared pr \<Rightarrow> fst (clear_data E pr s)
      | EvJob i \<Rightarrow> if i < length (b_jobs s) then run_job E (b_jobs s ! i) (s\<lparr>b_jobs := remove_nth i (b_jobs s)\<rparr>) else s
      | EvIdle i owner \<Rightarrow>
          if i < length (b_idles s) then clear_if_stale owner (b_idles s ! i) (s\<lparr>b_idles := remove_nth i (b_idles s)\<rparr>) else s)"

definition bridge_run :: "bridge_env \<Rightarrow> bridge_event list \<Rightarrow> bridge" where
  "bridge_run E evs = foldl (bridge_step E) bridge_init evs"

subsection \<open>The messages to the host\<close>

fun new_generation :: "ipc \<Rightarrow> nat option" where
  "new_generation (IpcOffer g ts t) = Some g"
| "new_generation (IpcReset g) = Some g"
| "new_generation _ = None"

fun about_generation :: "ipc \<Rightarrow> nat option" where
  "about_generation (IpcUnavailable g t) = Some g"
| "about_generation (IpcImage g t d) = Some g"
| "about_generation (IpcHtml g t fs d) = Some g"
| "about_generation (IpcPrepareFiles g fs) = Some g"
| "about_generation (IpcStartFiles g) = Some g"
| "about_generation (IpcDataRequest g t) = Some g"
| "about_generation _ = None"

definition offered_in :: "ipc list \<Rightarrow> nat \<Rightarrow> bool" where
  "offered_in ms g = list_ex (\<lambda>m. case m of IpcOffer g' _ _ \<Rightarrow> g' = g | _ \<Rightarrow> False) ms"

text \<open>
  A message may follow others: an offer or a reset has a number greater than all before, any
  other message is about a generation that was offered.
\<close>

definition may_follow :: "ipc list \<Rightarrow> ipc \<Rightarrow> bool" where
  "may_follow ms m =
     ((case new_generation m of None \<Rightarrow> True
       | Some g \<Rightarrow> list_all (\<lambda>m'. case new_generation m' of None \<Rightarrow> True | Some g' \<Rightarrow> g' < g) ms)
      \<and> (case about_generation m of None \<Rightarrow> True | Some g \<Rightarrow> offered_in ms g))"

fun trace_ok :: "ipc list \<Rightarrow> ipc list \<Rightarrow> bool" where
  "trace_ok before [] = True"
| "trace_ok before (m # ms) = (may_follow before m \<and> trace_ok (before @ [m]) ms)"

lemma trace_ok_snoc: "trace_ok before (ms @ [m]) \<longleftrightarrow> trace_ok before ms \<and> may_follow (before @ ms) m"
  by (induction before ms rule: trace_ok.induct) auto

lemma offered_in_append [simp]: "offered_in (ms @ ns) g \<longleftrightarrow> offered_in ms g \<or> offered_in ns g"
  by (simp add: offered_in_def)

lemma offered_in_Nil [simp]: "\<not> offered_in [] g"
  by (simp add: offered_in_def)

lemma offered_in_single [simp]: "offered_in [m] g \<longleftrightarrow> (\<exists>ts t. m = IpcOffer g ts t)"
  by (cases m) (auto simp: offered_in_def)

subsection \<open>The invariant\<close>

fun job_generation :: "job \<Rightarrow> nat" where
  "job_generation (UriFiles raw g) = g"
| "job_generation (UriOffers ps g) = g"
| "job_generation (SendHtml d g t) = g"

definition batches :: "nat \<Rightarrow> ipc list \<Rightarrow> nat" where
  "batches g ms = length (filter (\<lambda>m. case m of IpcPrepareFiles g' _ \<Rightarrow> g' = g | _ \<Rightarrow> False) ms)"

definition batch_jobs :: "nat \<Rightarrow> job list \<Rightarrow> nat" where
  "batch_jobs g js = length (filter (\<lambda>j. case j of UriOffers _ g' \<Rightarrow> g' = g | _ \<Rightarrow> False) js)"

definition keys_current :: "bridge \<Rightarrow> bool" where
  "keys_current s = (\<forall>k \<in> dom (b_responses s) \<union> dom (b_inline s). fst k = b_generation s)"

definition jobs_offered :: "bridge \<Rightarrow> bool" where
  "jobs_offered s = list_all (\<lambda>j. offered_in (b_sent s) (job_generation j)) (b_jobs s)"

definition numbers_upto :: "nat \<Rightarrow> ipc list \<Rightarrow> bool" where
  "numbers_upto n ms = list_all (\<lambda>m. case new_generation m of None \<Rightarrow> True | Some g \<Rightarrow> g \<le> n) ms"

definition sent_ok :: "bridge \<Rightarrow> bool" where
  "sent_ok s = (trace_ok [] (b_sent s) \<and> numbers_upto (b_generation s) (b_sent s))"

definition live_offered :: "bridge \<Rightarrow> bool" where
  "live_offered s = (b_active s \<or> b_source_offer_id s \<noteq> 0 \<or> b_fingerprint s \<noteq> None \<longrightarrow> offered_in (b_sent s) (b_generation s))"

definition batches_ok :: "bridge \<Rightarrow> bool" where
  "batches_ok s = (\<forall>g. batches g (b_sent s) + batch_jobs g (b_jobs s)
     \<le> (if b_generation s < g \<or> g = b_generation s \<and> g \<notin> b_uri_file_offers s then 0 else 1))"

definition bridge_ok :: "bridge \<Rightarrow> bool" where
  "bridge_ok s = (keys_current s \<and> jobs_offered s \<and> sent_ok s \<and> live_offered s \<and> batches_ok s)"

lemmas bridge_ok_defs = bridge_ok_def keys_current_def jobs_offered_def sent_ok_def live_offered_def batches_ok_def

lemma batch_simps [simp]:
  "batches g [] = 0" "batches g (ms @ ns) = batches g ms + batches g ns"
  "batches g [m] = (case m of IpcPrepareFiles g' _ \<Rightarrow> if g' = g then 1 else 0 | _ \<Rightarrow> 0)"
  "batch_jobs g [] = 0" "batch_jobs g (js @ ks) = batch_jobs g js + batch_jobs g ks"
  "batch_jobs g [j] = (case j of UriOffers _ g' \<Rightarrow> if g' = g then 1 else 0 | _ \<Rightarrow> 0)"
  by (auto simp: batches_def batch_jobs_def split: ipc.splits job.splits)

lemma numbers_upto_simps [simp]:
  "numbers_upto n []" "numbers_upto n (ms @ ks) \<longleftrightarrow> numbers_upto n ms \<and> numbers_upto n ks"
  "numbers_upto n [m] \<longleftrightarrow> (case new_generation m of None \<Rightarrow> True | Some g \<Rightarrow> g \<le> n)"
  by (simp_all add: numbers_upto_def)

lemma numbers_upto_mono: "numbers_upto n ms \<Longrightarrow> n \<le> k \<Longrightarrow> numbers_upto k ms"
  by (fastforce simp: numbers_upto_def list_all_iff split: option.splits)

lemma bridge_init_ok: "bridge_ok bridge_init"
  by (simp add: bridge_ok_defs bridge_init_def may_follow_def batches_def batch_jobs_def)

lemma bridge_ok_unrelated [simp]:
  "bridge_ok (s\<lparr>b_requested := rq\<rparr>) = bridge_ok s" "bridge_ok (s\<lparr>b_unavailable := ua\<rparr>) = bridge_ok s"
  "bridge_ok (s\<lparr>b_received := rc\<rparr>) = bridge_ok s" "bridge_ok (s\<lparr>b_request_generations := rg\<rparr>) = bridge_ok s"
  "bridge_ok (s\<lparr>b_proxy := pr\<rparr>) = bridge_ok s" "bridge_ok (s\<lparr>b_targets := ts\<rparr>) = bridge_ok s"
  "bridge_ok (s\<lparr>b_offer_text := t\<rparr>) = bridge_ok s" "bridge_ok (s\<lparr>b_local_owner := lo\<rparr>) = bridge_ok s"
  "bridge_ok (s\<lparr>b_native := nc\<rparr>) = bridge_ok s" "bridge_ok (s\<lparr>b_idles := il\<rparr>) = bridge_ok s"
  "bridge_ok (s\<lparr>b_clear_nonce := n\<rparr>) = bridge_ok s" "bridge_ok (s\<lparr>b_sock := b\<rparr>) = bridge_ok s"
  "bridge_ok (s\<lparr>b_last_token_duplicate := b\<rparr>) = bridge_ok s" "bridge_ok (s\<lparr>b_selection_name := nm\<rparr>) = bridge_ok s"
  "bridge_ok (s\<lparr>b_claimed_proxy := cp\<rparr>) = bridge_ok s" "bridge_ok (s\<lparr>b_claimed_targets := ct\<rparr>) = bridge_ok s"
  "bridge_ok (s\<lparr>b_claimed_generation := cg\<rparr>) = bridge_ok s" "bridge_ok (s\<lparr>b_native_owner := no\<rparr>) = bridge_ok s"
  by (simp_all add: bridge_ok_defs)

text \<open>A state in which the current generation was announced to the host.\<close>

definition serving :: "bridge \<Rightarrow> bool" where
  "serving s = (bridge_ok s \<and> offered_in (b_sent s) (b_generation s))"

lemma serving_unrelated [simp]:
  "serving (s\<lparr>b_requested := rq\<rparr>) = serving s" "serving (s\<lparr>b_unavailable := ua\<rparr>) = serving s"
  "serving (s\<lparr>b_received := rc\<rparr>) = serving s" "serving (s\<lparr>b_request_generations := rg\<rparr>) = serving s"
  "serving (s\<lparr>b_proxy := pr\<rparr>) = serving s" "serving (s\<lparr>b_targets := ts\<rparr>) = serving s"
  "serving (s\<lparr>b_offer_text := t\<rparr>) = serving s"
  by (simp_all add: serving_def)

lemma b_send_cases:
  "fst (b_send E m s) = s \<or> fst (b_send E m s) = s\<lparr>b_sent := b_sent s @ [m]\<rparr>"
  by (simp add: b_send_def)

text \<open>A message about an offered generation, other than the announcement of a file batch.\<close>

lemma sent_about_ok:
  assumes "bridge_ok s" and "about_generation m = Some g" and "offered_in (b_sent s) g" and "\<And>fs. m \<noteq> IpcPrepareFiles g fs"
  shows "bridge_ok (s\<lparr>b_sent := b_sent s @ [m]\<rparr>)"
proof -
  have n: "new_generation m = None" using assms(2) by (cases m) auto
  have b: "batches g' [m] = 0" for g' using assms(2,4) by (cases m) auto
  have "list_all (\<lambda>j. offered_in (b_sent s @ [m]) (job_generation j)) (b_jobs s)"
    using assms(1) by (auto simp: bridge_ok_defs list_all_iff)
  then show ?thesis
    using assms(1-3) n b by (simp add: bridge_ok_defs trace_ok_snoc may_follow_def del: batch_simps(3))
qed

lemma send_about_ok:
  "\<lbrakk>bridge_ok s; about_generation m = Some g; offered_in (b_sent s) g; \<And>fs. m \<noteq> IpcPrepareFiles g fs\<rbrakk>
    \<Longrightarrow> bridge_ok (fst (b_send E m s))"
  using b_send_cases[of E m s] by (auto simp: sent_about_ok)

lemma serving_send:
  "\<lbrakk>serving s; about_generation m = Some (b_generation s); \<And>fs. m \<noteq> IpcPrepareFiles (b_generation s) fs\<rbrakk>
    \<Longrightarrow> serving (fst (b_send E m s))"
  using b_send_cases[of E m s] by (auto simp: serving_def sent_about_ok)

lemma start_job_ok:
  "\<lbrakk>bridge_ok s; offered_in (b_sent s) (job_generation j); \<And>ps g. j \<noteq> UriOffers ps g\<rbrakk> \<Longrightarrow> bridge_ok (start_job j s)"
  by (cases j) (simp_all add: bridge_ok_defs start_job_def)

lemma serving_job:
  "\<lbrakk>serving s; job_generation j = b_generation s; \<And>ps g. j \<noteq> UriOffers ps g\<rbrakk> \<Longrightarrow> serving (start_job j s)"
  unfolding serving_def by (simp add: start_job_ok) (simp add: start_job_def)

lemma serving_inline:
  "serving s \<Longrightarrow> serving (s\<lparr>b_inline := (b_inline s)((b_generation s, t) \<mapsto> v)\<rparr>)"
  unfolding serving_def bridge_ok_def
  by (simp add: jobs_offered_def sent_ok_def live_offered_def batches_ok_def) (auto simp: keys_current_def)

lemma serving_then:
  "serving (fst r) \<Longrightarrow> (\<And>s. serving s \<Longrightarrow> serving (fst (f s))) \<Longrightarrow> serving (fst (b_then r f))"
  by (cases r; cases "snd r") (auto simp: b_then_def)

lemma serving_if:
  "(c \<Longrightarrow> serving (fst a)) \<Longrightarrow> (\<not> c \<Longrightarrow> serving (fst b)) \<Longrightarrow> serving (fst (if c then a else b))"
  by simp

lemma serving_sum:
  "(\<And>e. serving (fst (f e))) \<Longrightarrow> (\<And>b. serving (fst (g b))) \<Longrightarrow> serving (fst (case r of Inl e \<Rightarrow> f e | Inr b \<Rightarrow> g b))"
  by (cases r) simp_all

lemmas serving_rules = serving_then serving_if serving_sum serving_job serving_send

lemma receive_image_serving: "serving s \<Longrightarrow> serving (fst (receive_image E target dtype data s))"
  unfolding receive_image_def Let_def by (rule serving_sum serving_if | simp add: serving_send)+

lemma token_entry_data_serving:
  assumes "serving s" shows "serving (fst (token_entry_data E entry s))"
proof -
  obtain target dtype dformat data where e: "entry = (target, dtype, dformat, data)" by (cases entry) auto
  have start: "serving (if c then s\<lparr>b_inline := (b_inline s)((b_generation s, target) \<mapsto> v)\<rparr> else s)" for c v
    by (simp add: assms serving_inline)
  show ?thesis
    unfolding token_entry_data_def Let_def e prod.case
    by (rule serving_then serving_if serving_sum receive_image_serving | simp only: fst_conv
      | (rule serving_job; simp add: start; fail) | rule start | assumption)+
qed

lemma token_data_serving: "serving s \<Longrightarrow> serving (fst (bridge_token_data E td s))"
  by (induction td arbitrary: s) (simp_all add: serving_then token_entry_data_serving)

lemma unavailable_serving: "serving s \<Longrightarrow> serving (fst (unavailable E target s))"
  by (simp add: unavailable_def Let_def serving_send)

lemma accept_contents_serving:
  assumes "serving s" shows "serving (fst (accept_contents E target dtype dformat data s))"
proof -
  have inline: "serving (s\<lparr>b_requested := rq, b_received := rc, b_inline := (b_inline s)((b_generation s, target) \<mapsto> v)\<rparr>)" for rq rc v
    using serving_inline[of "s\<lparr>b_requested := rq, b_received := rc\<rparr>" target v] assms by simp
  show ?thesis
    unfolding accept_contents_def Let_def
    by (rule serving_if serving_sum receive_image_serving | (simp add: assms inline; fail)
      | (simp only: fst_conv, rule serving_job; simp add: assms; fail) | simp only: fst_conv)+
qed

text \<open>The handlers. An offer is sent: its header is small and the socket is there.\<close>

definition small_offers :: "bridge_env \<Rightarrow> bool" where
  "small_offers E = (\<forall>g ts t. be_header_len E (IpcOffer g ts t) \<le> MAX_IPC_HEADER_SIZE)"

lemma announced_ok:
  assumes "bridge_ok s" and "new_generation m = Some (Suc (b_generation s))"
    and "b_generation s' = Suc (b_generation s)" and "b_sent s' = b_sent s @ [m]" and "b_jobs s' = b_jobs s"
    and "b_responses s' = Map.empty" and "b_inline s' = Map.empty"
    and "live_offered s'"
  shows "bridge_ok s'"
proof -
  have b: "batches g [m] = 0" for g using assms(2) by (cases m) auto
  have a: "about_generation m = None" using assms(2) by (cases m) auto
  have old: "numbers_upto (b_generation s) (b_sent s)" and t: "trace_ok [] (b_sent s)"
    using assms(1) by (simp_all add: bridge_ok_defs)
  have m: "may_follow (b_sent s) m"
    using old assms(2) a by (fastforce simp: may_follow_def numbers_upto_def list_all_iff split: option.splits)
  have n: "numbers_upto (Suc (b_generation s)) (b_sent s)" by (rule numbers_upto_mono[OF old]) simp
  have j: "jobs_offered s'" using assms(1,4,5) by (auto simp: bridge_ok_defs list_all_iff)
  have "batches_ok s'"
    unfolding batches_ok_def
  proof
    fix g
    have "batches g (b_sent s) + batch_jobs g (b_jobs s)
        \<le> (if b_generation s < g \<or> g = b_generation s \<and> g \<notin> b_uri_file_offers s then 0 else 1)"
      using assms(1) by (simp add: bridge_ok_defs)
    then show "batches g (b_sent s') + batch_jobs g (b_jobs s')
        \<le> (if b_generation s' < g \<or> g = b_generation s' \<and> g \<notin> b_uri_file_offers s' then 0 else 1)"
      using assms(3-5) b by (auto simp del: batch_simps(3) split: if_splits)
  qed
  then show ?thesis
    using assms(2-8) j m n t by (simp add: bridge_ok_def keys_current_def sent_ok_def trace_ok_snoc)
qed

lemma bridge_ok_then:
  "bridge_ok (fst r) \<Longrightarrow> (\<And>s. bridge_ok s \<Longrightarrow> bridge_ok (fst (f s))) \<Longrightarrow> bridge_ok (fst (b_then r f))"
  by (cases r; cases "snd r") (auto simp: b_then_def)

lemma bridge_ok_if:
  "(c \<Longrightarrow> bridge_ok (fst a)) \<Longrightarrow> (\<not> c \<Longrightarrow> bridge_ok (fst b)) \<Longrightarrow> bridge_ok (fst (if c then a else b))"
  by simp

lemma serving_ok: "serving s \<Longrightarrow> bridge_ok s"
  by (simp add: serving_def)

lemma fst_handled_as [simp]: "fst (handled_as v r) = fst r"
  by (cases r; cases "snd r") (auto simp: handled_as_def)

text \<open>The number of an offer that is retired is passed, even if the host cannot be told.\<close>

lemma retired_ok:
  assumes "bridge_ok s" and "b_generation s' = Suc (b_generation s)" and "b_sent s' = b_sent s" and "b_jobs s' = b_jobs s"
    and "b_responses s' = Map.empty" and "b_inline s' = Map.empty"
    and "\<not> b_active s'" and "b_source_offer_id s' = 0" and "b_fingerprint s' = None"
  shows "bridge_ok s'"
proof -
  have n: "numbers_upto (Suc (b_generation s)) (b_sent s)"
    by (rule numbers_upto_mono[of "b_generation s"]) (use assms(1) in \<open>simp_all add: bridge_ok_defs\<close>)
  have "batches_ok s'"
    unfolding batches_ok_def
  proof
    fix g
    have "batches g (b_sent s) + batch_jobs g (b_jobs s)
        \<le> (if b_generation s < g \<or> g = b_generation s \<and> g \<notin> b_uri_file_offers s then 0 else 1)"
      using assms(1) by (simp add: bridge_ok_defs)
    then show "batches g (b_sent s') + batch_jobs g (b_jobs s')
        \<le> (if b_generation s' < g \<or> g = b_generation s' \<and> g \<notin> b_uri_file_offers s' then 0 else 1)"
      using assms(2-4) by (auto split: if_splits)
  qed
  then show ?thesis using assms n by (simp add: bridge_ok_def keys_current_def jobs_offered_def sent_ok_def live_offered_def)
qed

lemma invalidate_native_ok:
  assumes "bridge_ok s" shows "bridge_ok (fst (invalidate_native E proxy clear s))"
proof (cases "\<not> accepts E proxy s \<or> \<not> (b_active s \<or> b_claimed_proxy s = Some proxy)")
  case True then show ?thesis using assms by (simp add: invalidate_native_def)
next
  case False
  define t where "t = s\<lparr>b_generation := b_generation s + 1, b_active := False, b_targets := [], b_requested := {},
    b_responses := Map.empty, b_inline := Map.empty, b_source_offer_id := 0, b_source_origin := [],
    b_fingerprint := None, b_claimed_proxy := None, b_claimed_targets := [], b_claimed_generation := 0\<rparr>"
  have "bridge_ok t" by (rule retired_ok[OF assms]) (simp_all add: t_def)
  moreover have "bridge_ok (t\<lparr>b_sent := b_sent t @ [IpcReset (b_generation t)]\<rparr>)"
    by (rule announced_ok[OF assms, of "IpcReset (b_generation t)"]) (simp_all add: t_def live_offered_def)
  ultimately have "bridge_ok (fst (b_send E (IpcReset (b_generation t)) t))"
    using b_send_cases[of E "IpcReset (b_generation t)" t] by auto
  then have "bridge_ok (fst (b_then (b_send E (IpcReset (b_generation t)) t) (\<lambda>s.
      (if clear then schedule_native_clear proxy g (s\<lparr>b_local_owner := (b_local_owner s)(proxy := True)\<rparr>)
       else s\<lparr>b_local_owner := (b_local_owner s)(proxy := True)\<rparr>, None))))" for g
    by (rule bridge_ok_then) (simp add: schedule_native_clear_def)
  then show ?thesis using False unfolding invalidate_native_def Let_def t_def by (simp only: if_False)
qed

lemma new_offer_serving:
  assumes "bridge_ok s" and "b_sock s" and "small_offers E"
  shows "serving (fst (new_offer E proxy targets text source_offer_id source_origin fingerprint (s\<lparr>b_active := True\<rparr>)))"
proof -
  define t where "t = s\<lparr>b_active := True, b_generation := b_generation s + 1, b_targets := targets, b_inline := Map.empty, b_responses := Map.empty,
    b_received := Map.empty, b_requested := {}, b_unavailable := {}, b_uri_file_offers := {},
    b_proxy := Some proxy, b_offer_text := text, b_source_origin := source_origin,
    b_source_offer_id := source_offer_id, b_fingerprint := Some fingerprint\<rparr>"
  have sent: "b_send E (IpcOffer (b_generation t) targets text) t = (t\<lparr>b_sent := b_sent t @ [IpcOffer (b_generation t) targets text]\<rparr>, None)"
    using assms(2,3) by (simp add: b_send_def t_def small_offers_def not_less)
  have "bridge_ok (t\<lparr>b_sent := b_sent t @ [IpcOffer (b_generation t) targets text]\<rparr>)"
    by (rule announced_ok[OF assms(1), of "IpcOffer (b_generation t) targets text"]) (simp_all add: t_def live_offered_def)
  then have "serving (fst (b_send E (IpcOffer (b_generation t) targets text) t))"
    by (simp add: sent serving_def)
  then show ?thesis unfolding new_offer_def Let_def t_def by simp
qed

lemma handle_token_ok:
  assumes "bridge_ok s" and "b_sock s" and "small_offers E"
  shows "bridge_ok (fst (handle_token E proxy selection targets td source_offer_id source_origin s))"
proof -
  define t where "t = s\<lparr>b_last_token_duplicate := False\<rparr>"
  define etx where "etx = eager_text (be_rep E) td"
  define fp where "fp = (targets, fingerprint_data td)"
  have t: "bridge_ok t" "b_sock t" using assms by (simp_all add: t_def)
  have known: "serving (t\<lparr>b_active := True\<rparr>)" if "b_source_offer_id t \<noteq> 0 \<or> b_fingerprint t \<noteq> None"
    using t(1) that by (auto simp: serving_def bridge_ok_defs)
  have merged: "serving (t\<lparr>b_active := True\<rparr>)"
    if "source_offer_id \<noteq> 0 \<and> source_offer_id = b_source_offer_id t \<and> same" for same
    by (rule known) (use that in auto)
  have told: "bridge_ok (t\<lparr>b_active := True, b_last_token_duplicate := True\<rparr>)"
    if "none \<and> zero \<and> b_fingerprint t = Some fp" for none zero
    using serving_ok[OF known] that by simp
  have offer: "bridge_ok (fst (b_then
      (if source_offer_id \<noteq> 0 \<and> source_offer_id = b_source_offer_id t \<and> same
       then (t\<lparr>b_active := True, b_targets := ts, b_offer_text := tx, b_proxy := Some proxy\<rparr>, None)
       else new_offer E proxy targets etx source_offer_id source_origin fp (t\<lparr>b_active := True\<rparr>))
      (bridge_token_data E td)))" for same ts tx
    by (rule serving_ok, rule serving_then, rule serving_if)
      (simp_all add: merged new_offer_serving[OF t assms(3)] token_data_serving)
  have fields: "b_fingerprint (t\<lparr>b_active := True\<rparr>) = b_fingerprint t" "b_source_offer_id (t\<lparr>b_active := True\<rparr>) = b_source_offer_id t"
    "b_source_origin (t\<lparr>b_active := True\<rparr>) = b_source_origin t" "b_targets (t\<lparr>b_active := True\<rparr>) = b_targets t"
    "b_offer_text (t\<lparr>b_active := True\<rparr>) = b_offer_text t"
    by simp_all
  show ?thesis
    unfolding handle_token_def Let_def t_def[symmetric] etx_def[symmetric] fp_def[symmetric] fields
    by (rule bridge_ok_if | (simp only: fst_conv; erule told)
      | (simp only: fst_conv fst_handled_as; rule t(1) invalidate_native_ok[OF t(1)])
      | (simp only: fst_handled_as; rule offer))+
qed

lemma active_serving: "bridge_ok s \<Longrightarrow> b_active s \<Longrightarrow> serving s"
  by (simp add: serving_def bridge_ok_defs)

lemma handle_contents_ok:
  assumes "bridge_ok s" shows "bridge_ok (fst (handle_contents E target dtype dformat data request_id s))"
proof (cases "case request_id of None \<Rightarrow> None | Some n \<Rightarrow> b_request_generations s n")
  case None then show ?thesis using assms by (simp add: handle_contents_def)
next
  case (Some p)
  obtain generation request_target where p: "p = (generation, request_target)" by (cases p)
  define t where "t = s\<lparr>b_request_generations := (b_request_generations s)(the request_id := None)\<rparr>"
  have t: "bridge_ok t" using assms by (simp add: t_def)
  have serving: "serving t" if "\<not> (\<not> b_active t \<or> other)" for other
    using active_serving[OF t] that by simp
  show ?thesis
    unfolding handle_contents_def Let_def Some p option.case prod.case t_def[symmetric]
    by (rule bridge_ok_if | (simp only: fst_conv, rule t) | (simp only: fst_conv fst_handled_as, rule serving_ok)
      | rule unavailable_serving accept_contents_serving | (rule serving_job, erule serving; simp; fail) | erule serving)+
qed

lemma handle_ok:
  "\<lbrakk>bridge_ok s; small_offers E\<rbrakk> \<Longrightarrow> bridge_ok (fst (handle E kind proxy selection s))"
  by (cases kind) (simp_all add: handle_def accepts_def handle_token_ok handle_contents_ok)

lemma request_remote_ok: "bridge_ok s \<Longrightarrow> bridge_ok (request_remote_for g target rid s)"
  by (simp add: request_remote_for_def Let_def split: option.split)

lemma request_remote_for_keeps [simp]:
  "b_generation (request_remote_for g target rid s) = b_generation s" "b_active (request_remote_for g target rid s) = b_active s"
  "b_sent (request_remote_for g target rid s) = b_sent s"
  by (simp_all add: request_remote_for_def Let_def split: option.split)

lemma host_data_response_ok: "bridge_ok s \<Longrightarrow> bridge_ok (host_data_response g target data s)"
  unfolding host_data_response_def Let_def bridge_ok_def
  by (simp add: jobs_offered_def sent_ok_def live_offered_def batches_ok_def) (auto simp: keys_current_def)

lemma provider_request_ok:
  assumes "bridge_ok s" shows "bridge_ok (fst (fst (provider_request E pr info rid s)))"
proof (cases "pr_generation pr \<noteq> b_generation s \<or> \<not> b_active s \<or> length (pr_offered pr) \<le> info")
  case True then show ?thesis using assms by (simp add: provider_request_def)
next
  case False
  define t where "t = (if file_alias pr (pr_offered pr ! info) then s
    else request_remote_for (pr_generation pr) (pr_offered pr ! info) rid s)"
  have t: "serving t" and g: "b_generation t = pr_generation pr"
    using active_serving[OF assms] False by (auto simp: t_def serving_def request_remote_ok)
  have "bridge_ok (fst (b_send E (IpcDataRequest (pr_generation pr) x) t))" for x
    by (rule serving_ok, rule serving_send) (simp_all add: t g)
  then have sends: "bridge_ok (fst (fst (b_send E (IpcDataRequest (pr_generation pr) x) t, w)))" for x and w :: "(string \<times> wait_for) option"
    by simp
  have one: "bridge_ok (fst (fst (if c then a else b)))"
    if "bridge_ok (fst (fst a))" and "bridge_ok (fst (fst b))" for c and a b :: "outcome \<times> (string \<times> wait_for) option"
    using that by simp
  show ?thesis
    unfolding provider_request_def Let_def t_def[symmetric] if_not_P[OF False]
    by (rule sends one | (simp only: fst_conv; rule serving_ok[OF t]))+
qed

lemma claim_ok: "bridge_ok s \<Longrightarrow> bridge_ok (fst (claim E proxy targets td gtk owner s))"
  by (simp add: claim_def Let_def split: option.split)

lemma clear_data_ok: "bridge_ok s \<Longrightarrow> bridge_ok (fst (clear_data E pr s))"
  by (simp add: clear_data_def Let_def bridge_ok_then invalidate_native_ok)

lemma clear_if_stale_ok: "bridge_ok s \<Longrightarrow> bridge_ok (clear_if_stale owner c s)"
  by (cases c) (simp add: clear_if_stale_def)

text \<open>A job is taken out before it runs; the batch it may announce is the only one of its generation.\<close>

lemma remove_nth_split: "i < length xs \<Longrightarrow> xs = take i xs @ [xs ! i] @ drop (Suc i) xs"
  by (simp add: id_take_nth_drop)

lemma batch_jobs_remove:
  "i < length js \<Longrightarrow> batch_jobs g js = batch_jobs g [js ! i] + batch_jobs g (remove_nth i js)"
  using arg_cong[OF remove_nth_split[of i js], of "batch_jobs g"] unfolding batch_simps(5) remove_nth_def by linarith

lemma set_remove_nth: "set (remove_nth i xs) \<subseteq> set xs"
  by (auto simp: remove_nth_def dest: in_set_takeD in_set_dropD)

lemma remove_job_ok:
  assumes "bridge_ok s" and "i < length (b_jobs s)" and "t = s\<lparr>b_jobs := remove_nth i (b_jobs s)\<rparr>"
  shows "bridge_ok t" and "offered_in (b_sent t) (job_generation (b_jobs s ! i))"
    and "batches_ok (t\<lparr>b_jobs := b_jobs t @ [b_jobs s ! i]\<rparr>)"
proof -
  have le: "batches g (b_sent s) + batch_jobs g (b_jobs s)
      \<le> (if b_generation s < g \<or> g = b_generation s \<and> g \<notin> b_uri_file_offers s then 0 else 1)" for g
    using assms(1) by (simp add: bridge_ok_defs)
  have split: "batch_jobs g (b_jobs s) = batch_jobs g [b_jobs s ! i] + batch_jobs g (b_jobs t)" for g
    using batch_jobs_remove[OF assms(2)] by (simp add: assms(3))
  have jobs: "set (b_jobs t) \<subseteq> set (b_jobs s)" by (simp add: assms(3) set_remove_nth)
  have "batches g (b_sent t) + batch_jobs g (b_jobs t)
      \<le> (if b_generation t < g \<or> g = b_generation t \<and> g \<notin> b_uri_file_offers t then 0 else 1)" for g
    using le[of g] unfolding split[of g] by (simp add: assms(3) del: batch_simps(6))
  then have "batches_ok t" by (simp add: batches_ok_def)
  moreover have "jobs_offered t" using assms(1) jobs by (auto simp: bridge_ok_defs list_all_iff assms(3))
  ultimately show "bridge_ok t"
    using assms(1,3) by (simp add: bridge_ok_def keys_current_def sent_ok_def live_offered_def)
  show "offered_in (b_sent t) (job_generation (b_jobs s ! i))"
    using assms(1,2) by (simp add: bridge_ok_defs list_all_length assms(3))
  have "batches g (b_sent t) + batch_jobs g (b_jobs t @ [b_jobs s ! i])
      \<le> (if b_generation t < g \<or> g = b_generation t \<and> g \<notin> b_uri_file_offers t then 0 else 1)" for g
    using le[of g] unfolding split[of g] batch_simps(5) by (simp add: assms(3) add.commute del: batch_simps(6))
  then show "batches_ok (t\<lparr>b_jobs := b_jobs t @ [b_jobs s ! i]\<rparr>)" by (simp add: batches_ok_def)
qed

lemma send_uri_files_ok:
  assumes "bridge_ok s" shows "bridge_ok (send_uri_files E raw g s)"
proof (cases "g \<noteq> b_generation s \<or> \<not> b_active s \<or> g \<in> b_uri_file_offers s")
  case True then show ?thesis using assms by (auto simp: send_uri_files_def)
next
  case False
  then have offered: "offered_in (b_sent s) g" using active_serving[OF assms] by (simp add: serving_def)
  define t where "t = start_job (UriOffers (be_uri_paths E raw) g) (s\<lparr>b_uri_file_offers := insert g (b_uri_file_offers s)\<rparr>)"
  have "batches_ok t"
    unfolding batches_ok_def
  proof
    fix g'
    have "batches g' (b_sent s) + batch_jobs g' (b_jobs s)
        \<le> (if b_generation s < g' \<or> g' = b_generation s \<and> g' \<notin> b_uri_file_offers s then 0 else 1)"
      using assms by (simp add: bridge_ok_defs)
    then show "batches g' (b_sent t) + batch_jobs g' (b_jobs t)
        \<le> (if b_generation t < g' \<or> g' = b_generation t \<and> g' \<notin> b_uri_file_offers t then 0 else 1)"
      using False by (auto simp: t_def start_job_def split: if_splits)
  qed
  then have "bridge_ok t"
    using assms offered by (simp add: bridge_ok_def t_def start_job_def keys_current_def jobs_offered_def sent_ok_def live_offered_def)
  then show ?thesis using False by (simp add: send_uri_files_def t_def)
qed

lemma send_uri_offers_ok:
  assumes ok: "bridge_ok s" and off: "offered_in (b_sent s) g"
    and room: "\<And>ps. batches_ok (s\<lparr>b_jobs := b_jobs s @ [UriOffers ps g]\<rparr>)"
  shows "bridge_ok (send_uri_offers E paths g s)"
proof -
  have prepared: "bridge_ok (s\<lparr>b_sent := b_sent s @ [IpcPrepareFiles g fs]\<rparr>)" for fs
  proof -
    have "batches_ok (s\<lparr>b_sent := b_sent s @ [IpcPrepareFiles g fs]\<rparr>)"
      using room[of "[]"] by (simp add: batches_ok_def add.commute add.left_commute)
    then show ?thesis
      using ok off
      by (simp add: bridge_ok_def keys_current_def jobs_offered_def sent_ok_def live_offered_def trace_ok_snoc may_follow_def)
  qed
  have then_start: "bridge_ok (fst (b_then (b_send E (IpcPrepareFiles g fs) s)
      (\<lambda>s. if d then b_send E (IpcStartFiles g) s else (s, None))))" for fs d
  proof -
    let ?r = "b_send E (IpcPrepareFiles g fs) s"
    have r: "bridge_ok (fst ?r)" "offered_in (b_sent (fst ?r)) g"
      using b_send_cases[of E "IpcPrepareFiles g fs" s] ok off prepared[of fs] by auto
    then show ?thesis
      using send_about_ok[of "fst ?r" "IpcStartFiles g" g E]
      by (cases ?r; cases "snd ?r") (auto simp: b_then_def)
  qed
  show ?thesis
    unfolding send_uri_offers_def Let_def
    by (rule bridge_ok_if) (simp_all add: then_start send_about_ok[OF ok _ off])
qed

lemma run_job_ok:
  assumes "bridge_ok s" and "i < length (b_jobs s)"
  shows "bridge_ok (run_job E (b_jobs s ! i) (s\<lparr>b_jobs := remove_nth i (b_jobs s)\<rparr>))"
proof -
  note t = remove_job_ok[OF assms refl]
  show ?thesis
  proof (cases "b_jobs s ! i")
    case (UriFiles raw g) then show ?thesis by (simp add: run_job_def send_uri_files_ok t(1))
  next
    case (UriOffers ps g)
    have "batches_ok ((s\<lparr>b_jobs := remove_nth i (b_jobs s)\<rparr>)\<lparr>b_jobs := b_jobs (s\<lparr>b_jobs := remove_nth i (b_jobs s)\<rparr>) @ [UriOffers qs g]\<rparr>)" for qs
      using t(3) by (simp add: UriOffers batches_ok_def)
    then show ?thesis using t(1,2) UriOffers by (simp add: run_job_def send_uri_offers_ok)
  next
    case (SendHtml d g target)
    then show ?thesis using t(2) by (simp add: run_job_def send_html_def send_about_ok[OF t(1)])
  qed
qed

lemma bridge_step_ok: "\<lbrakk>bridge_ok s; small_offers E\<rbrakk> \<Longrightarrow> bridge_ok (bridge_step E s ev)"
  by (cases ev)
    (simp_all add: bridge_step_def handle_ok request_remote_def request_remote_ok host_data_response_ok reader_stopped_def
      invalidate_native_ok mark_native_replaced_def claim_ok provider_request_ok clear_data_ok run_job_ok clear_if_stale_ok)

lemma bridge_run_ok: "small_offers E \<Longrightarrow> bridge_ok (bridge_run E evs)"
  unfolding bridge_run_def
  by (induction evs rule: rev_induct) (simp_all add: bridge_init_ok bridge_step_ok)


subsection \<open>Replies\<close>

text \<open>The request an event registers.\<close>

fun registers :: "bridge_event \<Rightarrow> nat option" where
  "registers (EvRequest proxy target rid) = rid"
| "registers (EvProvide pr info rid) = rid"
| "registers _ = None"

definition request_gone_or :: "nat \<Rightarrow> content_key option \<Rightarrow> bridge \<Rightarrow> bool" where
  "request_gone_or n k s = (b_request_generations s n = None \<or> b_request_generations s n = k)"

text \<open>What leaves the table of requests alone.\<close>

lemma requests_of_send [simp]: "b_request_generations (fst (b_send E m s)) = b_request_generations s"
  by (simp add: b_send_def)

lemma requests_of_then:
  "\<lbrakk>b_request_generations (fst r) = rg; \<And>s. b_request_generations s = rg \<Longrightarrow> b_request_generations (fst (f s)) = rg\<rbrakk>
    \<Longrightarrow> b_request_generations (fst (b_then r f)) = rg"
  by (cases r; cases "snd r") (auto simp: b_then_def)

lemma requests_of_if:
  "\<lbrakk>b_request_generations (fst a) = rg; b_request_generations (fst b) = rg\<rbrakk>
    \<Longrightarrow> b_request_generations (fst (if c then a else b)) = rg"
  by simp

lemma requests_of_sum:
  "\<lbrakk>\<And>e. b_request_generations (fst (f e)) = rg; \<And>b. b_request_generations (fst (g b)) = rg\<rbrakk>
    \<Longrightarrow> b_request_generations (fst (case r of Inl e \<Rightarrow> f e | Inr b \<Rightarrow> g b)) = rg"
  by (cases r) simp_all

lemmas requests_rules = requests_of_then requests_of_if requests_of_sum

lemma requests_of_start_job [simp]: "b_request_generations (start_job j s) = b_request_generations s"
  by (simp add: start_job_def)

lemma requests_of_receive_image [simp]:
  "b_request_generations (fst (receive_image E target dtype data s)) = b_request_generations s"
  by (simp add: receive_image_def Let_def split: sum.split)

lemma requests_of_token_entry [simp]:
  "b_request_generations (fst (token_entry_data E entry s)) = b_request_generations s"
  unfolding token_entry_data_def Let_def
  by (cases entry; simp only: prod.case) (rule requests_rules | (simp; fail))+

lemma requests_of_token_data [simp]:
  "b_request_generations (fst (bridge_token_data E td s)) = b_request_generations s"
  by (induction td arbitrary: s) (simp_all add: requests_of_then)

lemma requests_of_invalidate [simp]:
  "b_request_generations (fst (invalidate_native E proxy clear s)) = b_request_generations s"
  unfolding invalidate_native_def Let_def by (rule requests_rules | (simp add: schedule_native_clear_def; fail))+

lemma requests_of_token [simp]:
  "b_request_generations (fst (handle_token E proxy selection targets td i origin s)) = b_request_generations s"
  unfolding handle_token_def new_offer_def Let_def
  by (rule requests_of_if | simp only: fst_handled_as | rule requests_of_then | (simp; fail))+

lemma requests_of_unavailable [simp]: "b_request_generations (fst (unavailable E target s)) = b_request_generations s"
  by (simp add: unavailable_def Let_def)

lemma requests_of_accept [simp]:
  "b_request_generations (fst (accept_contents E target dtype dformat data s)) = b_request_generations s"
  unfolding accept_contents_def Let_def by (rule requests_rules | (simp; fail))+

lemma requests_of_contents:
  "b_request_generations (fst (handle_contents E target dtype dformat data rid s)) = b_request_generations s
   \<or> b_request_generations (fst (handle_contents E target dtype dformat data rid s)) = (b_request_generations s)(the rid := None)"
proof (cases "case rid of None \<Rightarrow> None | Some n \<Rightarrow> b_request_generations s n")
  case None then show ?thesis by (simp add: handle_contents_def)
next
  case (Some p)
  obtain generation request_target where p: "p = (generation, request_target)" by (cases p)
  show ?thesis
    unfolding handle_contents_def Let_def Some p option.case prod.case
    by (rule disjI2) (rule requests_of_if | simp only: fst_handled_as | (simp; fail))+
qed

lemma request_gone_or_step:
  assumes "request_gone_or n k s" and "registers ev \<noteq> Some n"
  shows "request_gone_or n k (bridge_step E s ev)"
proof (cases ev)
  case (EvHandle c proxy selection)
  then show ?thesis
    using assms(1) requests_of_contents
    by (cases c) (simp_all add: bridge_step_def handle_def request_gone_or_def, metis fun_upd_apply)
next
  case (EvProvide pr info rid)
  then have "request_gone_or n k (request_remote_for g target rid s)" for g target
    using assms by (auto simp: request_gone_or_def request_remote_for_def Let_def split: option.split)
  then show ?thesis using EvProvide assms(1)
    by (simp add: bridge_step_def provider_request_def request_gone_or_def Let_def)
next
  case (EvJob i)
  then show ?thesis using assms(1)
    by (cases "b_jobs s ! i") (simp_all add: bridge_step_def request_gone_or_def run_job_def send_uri_files_def
      send_uri_offers_def send_html_def Let_def requests_of_then)
next
  case (EvCleared pr)
  have "b_request_generations (fst (clear_data E pr s)) = b_request_generations s"
    unfolding clear_data_def Let_def by (rule requests_rules | (simp; fail))+
  then show ?thesis using assms(1) EvCleared by (simp add: bridge_step_def request_gone_or_def)
next
  case (EvIdle i owner)
  then show ?thesis using assms(1)
    by (cases "b_idles s ! i") (simp add: bridge_step_def request_gone_or_def clear_if_stale_def)
qed (use assms in \<open>auto simp: bridge_step_def request_gone_or_def request_remote_def request_remote_for_def host_data_response_def
  reader_stopped_def mark_native_replaced_def claim_def Let_def split: option.split\<close>)

lemma request_gone_or_run:
  "\<lbrakk>request_gone_or n k s; \<forall>ev \<in> set evs. registers ev \<noteq> Some n\<rbrakk> \<Longrightarrow> request_gone_or n k (foldl (bridge_step E) s evs)"
  by (induction evs rule: rev_induct) (simp_all add: request_gone_or_step)



subsection \<open>Examples\<close>

text \<open>
  An offer of an image, its request, a second offer and the reply to the first; and an offer of
  files, whose eager list and whose list on request are both announced by threads.
\<close>

definition example_env :: bridge_env where
  "example_env = \<lparr>be_selection = (\<lambda>_. ''CLIPBOARD''), be_has_clipboard = (\<lambda>_. True), be_header_len = (\<lambda>_. 100),
     be_post = (\<lambda>path. Some (Some path, None, Some 3)), be_uri_lines = (\<lambda>x. [x]), be_uri_paths = (\<lambda>x. [x]),
     be_html_refs = (\<lambda>_. []), be_platform = ''linux'', be_rep = (\<lambda>_. [])\<rparr>"

definition image_offer :: bridge_event where
  "image_offer = EvHandle (BridgeToken [''image/png''] [] 0 ''host'') 1 ''CLIPBOARD''"

definition file_offer :: bridge_event where
  "file_offer = EvHandle (BridgeToken [''text/uri-list''] [(''text/uri-list'', ''text/uri-list'', 8, PBytes [102])] 0 ''host'') 1 ''CLIPBOARD''"

lemmas example_run = bridge_run_def bridge_step_def handle_def handle_token_def new_offer_def b_send_def b_then_def handled_as_def
  token_entry_data_def start_job_def accepts_def managed_targets_def is_nontext_def request_remote_def request_remote_for_def
  bridge_init_def example_env_def image_offer_def file_offer_def MAX_IPC_HEADER_SIZE_def MAX_IPC_BINARY_SIZE_def
  same_source_offer_def startswith_def as_bytes_def py_bytes_def

lemma small_offers_example: "small_offers example_env"
  by (simp add: small_offers_def example_env_def MAX_IPC_HEADER_SIZE_def)


definition asked_image :: bridge where
  "asked_image = bridge_run example_env [image_offer, EvRequest 1 ''image/png'' (Some 7)]"

definition late_reply :: bridge_call where
  "late_reply = BridgeContents ''image/png'' ''image/png'' 8 (PBytes [1, 2]) (Some 7)"



end
