(* ===== verification/Window_Geometry.thy ===== *)
theory Window_Geometry
  imports Py_Prelude
begin

text \<open>
  Placing a window on the monitors (\<^verbatim>\<open>xpra/util/window_geometry.py\<close>). A rectangle is its corner
  and its size; \<open>points\<close> is the set of the pixels it covers, the specification every lemma is
  stated against. Coordinates are unbounded integers, as in the source.
\<close>

type_synonym rect = "int \<times> int \<times> int \<times> int"

subsection \<open>The operations\<close>

definition clamp_window_to_root :: "int \<Rightarrow> int \<Rightarrow> int \<Rightarrow> int \<Rightarrow> int \<Rightarrow> int \<times> int" where
  "clamp_window_to_root x y screen_w screen_h minimum_visible =
     (if x \<ge> screen_w \<or> y \<ge> screen_h
      then (min x (screen_w - minimum_visible), min y (screen_h - minimum_visible))
      else (x, y))"

fun intersection :: "rect \<Rightarrow> rect \<Rightarrow> rect option" where
  "intersection (rx, ry, rw, rh) (ax, ay, aw, ah) =
     (let x = max rx ax;
          y = max ry ay;
          right = min (rx + rw) (ax + aw);
          bottom = min (ry + rh) (ay + ah)
      in if right \<le> x \<or> bottom \<le> y then None else Some (x, y, right - x, bottom - y))"

fun subtract :: "rect \<Rightarrow> rect \<Rightarrow> rect list" where
  "subtract (x, y, w, h) area =
     (case intersection (x, y, w, h) area of
        None \<Rightarrow> [(x, y, w, h)]
      | Some (ix, iy, iw, ih) \<Rightarrow>
          (if iy > y then [(x, y, w, iy - y)] else [])
          @ (if iy + ih < y + h then [(x, iy + ih, w, y + h - iy - ih)] else [])
          @ (if ix > x then [(x, iy, ix - x, ih)] else [])
          @ (if ix + iw < x + w then [(ix + iw, iy, x + w - ix - iw, ih)] else []))"

text \<open>One area less its margin; areas of fewer than four numbers are skipped.\<close>

fun shrink_area :: "int \<Rightarrow> int list \<Rightarrow> rect list" where
  "shrink_area margin (ax # ay # aw # ah # _) =
     (let ax = ax + margin; ay = ay + margin; aw = aw - margin * 2; ah = ah - margin * 2
      in if aw > 0 \<and> ah > 0 then [(ax, ay, aw, ah)] else [])"
| "shrink_area margin _ = []"

definition visible_areas :: "int list list \<Rightarrow> int \<Rightarrow> int list \<Rightarrow> rect list" where
  "visible_areas areas margin fallback =
     (let vs = concat (map (shrink_area (max 0 margin)) areas)
      in if vs = [] then shrink_area (max 0 margin) fallback else vs)"

text \<open>
  The loop over the visible areas: what is left of the window after each area, and the overlaps
  so far. \<open>None\<close> is the early return of a window that is covered.
\<close>

fun cover_loop :: "rect \<Rightarrow> nat \<Rightarrow> rect list \<Rightarrow> rect list \<Rightarrow> (int \<times> nat) list \<Rightarrow> (int \<times> nat) list option" where
  "cover_loop win index [] remaining overlaps = Some overlaps"
| "cover_loop win index (area # areas) remaining overlaps =
     (let remaining' = concat (map (\<lambda>r. subtract r area) remaining) in
      if remaining' = [] then None
      else cover_loop win (Suc index) areas remaining'
             (case intersection win area of
                None \<Rightarrow> overlaps
              | Some (_, _, ow, oh) \<Rightarrow> overlaps @ [(ow * oh, index)]))"

text \<open>\<^verbatim>\<open>max(overlaps)\<close> on pairs.\<close>

fun max_pair :: "int \<times> nat \<Rightarrow> (int \<times> nat) list \<Rightarrow> int \<times> nat" where
  "max_pair m [] = m"
| "max_pair (a, i) ((b, j) # ps) = max_pair (if b > a \<or> b = a \<and> j > i then (b, j) else (a, i)) ps"

definition clamp_axis :: "int \<Rightarrow> int \<Rightarrow> int \<Rightarrow> int \<Rightarrow> int" where
  "clamp_axis p sz a asz = (if sz \<ge> asz then a else max a (min p (a + asz - sz)))"

definition clamp_window_to_visible_area ::
  "int \<Rightarrow> int \<Rightarrow> int \<Rightarrow> int \<Rightarrow> int list list \<Rightarrow> int \<Rightarrow> int list \<Rightarrow> int \<times> int" where
  "clamp_window_to_visible_area x y w h areas margin fallback =
     (case visible_areas areas margin fallback of
        [] \<Rightarrow> (x, y)
      | v # vs \<Rightarrow>
          let w = max 1 w; h = max 1 h in
          (case cover_loop (x, y, w, h) 0 (v # vs) [(x, y, w, h)] [] of
             None \<Rightarrow> (x, y)
           | Some overlaps \<Rightarrow>
               let index = (case overlaps of [] \<Rightarrow> 0 | m # ms \<Rightarrow> snd (max_pair m ms));
                   (ax, ay, aw, ah) = (v # vs) ! index
               in (clamp_axis x w ax aw, clamp_axis y h ay ah)))"

subsection \<open>Rectangles as sets of pixels\<close>

fun points :: "rect \<Rightarrow> (int \<times> int) set" where
  "points (x, y, w, h) = {x ..< x + w} \<times> {y ..< y + h}"

definition proper :: "rect \<Rightarrow> bool" where
  "proper r = (case r of (x, y, w, h) \<Rightarrow> 0 < w \<and> 0 < h)"

abbreviation covers :: "rect list \<Rightarrow> rect \<Rightarrow> bool" where
  "covers as r \<equiv> points r \<subseteq> (\<Union>a \<in> set as. points a)"

lemma points_empty: "proper r \<Longrightarrow> points r \<noteq> {}"
  by (cases r) (auto simp: proper_def)

lemma intersection_points:
  "points r \<inter> points a = (case intersection r a of None \<Rightarrow> {} | Some i \<Rightarrow> points i)"
  by (cases r; cases a) (auto simp: Let_def)

lemma intersection_proper: "intersection r a = Some i \<Longrightarrow> proper i"
  by (cases r; cases a) (auto simp: proper_def Let_def split: if_splits)

lemma intersection_bounds:
  assumes "intersection (x, y, w, h) a = Some (ix, iy, iw, ih)"
  shows "x \<le> ix" and "y \<le> iy" and "ix + iw \<le> x + w" and "iy + ih \<le> y + h" and "0 < iw" and "0 < ih"
  using assms by (cases a; auto simp: Let_def split: if_splits)+

lemma bex_if_single: "(\<exists>s \<in> set (if c then [t] else []). P s) = (c \<and> P t)"
  by simp

lemma subtract_points: "(\<Union>s \<in> set (subtract r a). points s) = points r - points a"
proof -
  obtain x y w h where r: "r = (x, y, w, h)" by (cases r)
  show ?thesis
  proof (cases "intersection r a")
    case None
    then show ?thesis using intersection_points [of r a] by (auto simp: r)
  next
    case (Some i)
    obtain ix iy iw ih where i: "i = (ix, iy, iw, ih)" by (cases i)
    have b: "x \<le> ix" "y \<le> iy" "ix + iw \<le> x + w" "iy + ih \<le> y + h" "0 < iw" "0 < ih"
      using intersection_bounds Some by (auto simp: r i)
    have eq: "((px, py) \<in> points r \<and> (px, py) \<notin> points i) = (\<exists>s \<in> set (subtract r a). (px, py) \<in> points s)" for px py
      using Some b unfolding r i by (simp add: bex_Un bex_if_single del: intersection.simps) (smt (verit))
    have "points r - points a = points r - points i"
      using intersection_points [of r a] Some by auto
    also have "\<dots> = (\<Union>s \<in> set (subtract r a). points s)"
      unfolding set_eq_iff split_paired_All Diff_iff UN_iff using eq by blast
    finally show ?thesis by simp
  qed
qed

lemma subtract_proper: "proper r \<Longrightarrow> s \<in> set (subtract r a) \<Longrightarrow> proper s"
proof -
  assume p: "proper r" and s: "s \<in> set (subtract r a)"
  obtain x y w h where r: "r = (x, y, w, h)" by (cases r)
  show "proper s"
  proof (cases "intersection r a")
    case None
    then show ?thesis using p s by (simp add: r)
  next
    case (Some i)
    obtain ix iy iw ih where i: "i = (ix, iy, iw, ih)" by (cases i)
    have "0 < iw" "0 < ih" using intersection_bounds Some by (auto simp: r i)
    then show ?thesis using p s Some by (auto simp: r i proper_def split: if_splits)
  qed
qed

declare intersection.simps [simp del] and subtract.simps [simp del]

subsection \<open>The loop decides whether the window is covered\<close>

lemma subtract_all_points:
  "(\<Union>s \<in> set (concat (map (\<lambda>r. subtract r a) rs)). points s) = (\<Union>r \<in> set rs. points r) - points a"
  by (induction rs) (simp_all add: UN_Un subtract_points Un_Diff del: set_concat)

lemma subtract_proper_all: "proper r \<Longrightarrow> list_all proper (subtract r a)"
  unfolding list_all_iff by (intro ballI) (rule subtract_proper)

lemma subtract_all_proper: "list_all proper rs \<Longrightarrow> list_all proper (concat (map (\<lambda>r. subtract r a) rs))"
  by (induction rs) (simp_all add: subtract_proper_all)

lemma proper_list_empty: "list_all proper rs \<Longrightarrow> rs = [] \<longleftrightarrow> (\<Union>r \<in> set rs. points r) = {}"
  by (cases rs) (simp_all add: points_empty del: split_paired_All)

lemma cover_loop_None:
  assumes "list_all proper rs" and "rs \<noteq> []"
  shows "cover_loop win i areas rs ov = None \<longleftrightarrow> (\<Union>r \<in> set rs. points r) \<subseteq> (\<Union>a \<in> set areas. points a)"
  using assms
proof (induction win i areas rs ov rule: cover_loop.induct)
  case (1 win i rs ov)
  then show ?case using proper_list_empty [of rs] by simp
next
  case (2 win i area areas rs ov)
  let ?rs = "concat (map (\<lambda>r. subtract r area) rs)"
  have p: "list_all proper ?rs" by (rule subtract_all_proper) (rule 2(2))
  show ?case
  proof (cases "?rs = []")
    case True
    then have "(\<Union>r \<in> set rs. points r) - points area = {}" using subtract_all_points [of area rs] by simp
    then show ?thesis using True by (simp add: Diff_eq_empty_iff le_supI1)
  next
    case False
    then have "cover_loop win i (area # areas) rs ov = None
        \<longleftrightarrow> (\<Union>r \<in> set ?rs. points r) \<subseteq> (\<Union>a \<in> set areas. points a)"
      using 2(1) [OF refl False] p by (simp add: Let_def)
    then show ?thesis unfolding subtract_all_points by (simp add: Diff_subset_conv)
  qed
qed

text \<open>The overlaps the loop collects: one entry per area that meets the window, with its index.\<close>

fun overlap_area :: "rect \<Rightarrow> rect \<Rightarrow> int" where
  "overlap_area win a = (case intersection win a of None \<Rightarrow> 0 | Some (_, _, ow, oh) \<Rightarrow> ow * oh)"

lemma overlap_area_pos: "intersection win a = Some i \<Longrightarrow> overlap_area win a > 0"
  using intersection_proper [of win a i] by (cases i) (auto simp: proper_def)

lemma cover_loop_Some:
  assumes "cover_loop win i areas rs ov = Some ov'"
  shows "set ov' = set ov \<union> {(overlap_area win (areas ! k), i + k) | k. k < length areas \<and> 0 < overlap_area win (areas ! k)}"
  using assms
proof (induction win i areas rs ov rule: cover_loop.induct)
  case (1 win i rs ov)
  then show ?case by simp
next
  case (2 win i area areas rs ov)
  let ?new = "case intersection win area of None \<Rightarrow> ov | Some (_, _, ow, oh) \<Rightarrow> ov @ [(ow * oh, i)]"
  have ne: "concat (map (\<lambda>r. subtract r area) rs) \<noteq> []"
    and rec: "cover_loop win (Suc i) areas (concat (map (\<lambda>r. subtract r area) rs)) ?new = Some ov'"
    using 2(2) by (auto simp: Let_def split: if_splits)
  have new: "set ?new = set ov \<union> (if 0 < overlap_area win area then {(overlap_area win area, i)} else {})"
    using overlap_area_pos [of win area] by (auto split: option.splits)
  have shift: "{(overlap_area win ((area # areas) ! k), i + k) | k. k < length (area # areas) \<and> 0 < overlap_area win ((area # areas) ! k)}
      = (if 0 < overlap_area win area then {(overlap_area win area, i)} else {})
        \<union> {(overlap_area win (areas ! k), Suc i + k) | k. k < length areas \<and> 0 < overlap_area win (areas ! k)}"
    (is "?L = ?A \<union> ?B")
  proof (rule set_eqI, rule iffI)
    fix z assume "z \<in> ?L"
    then obtain k where "z = (overlap_area win ((area # areas) ! k), i + k)" "k < length (area # areas)"
      "0 < overlap_area win ((area # areas) ! k)" by blast
    then show "z \<in> ?A \<union> ?B" by (cases k) auto
  next
    fix z assume "z \<in> ?A \<union> ?B"
    then consider "z = (overlap_area win area, i)" "0 < overlap_area win area"
      | k where "z = (overlap_area win (areas ! k), Suc i + k)" "k < length areas" "0 < overlap_area win (areas ! k)"
      by (auto split: if_splits)
    then show "z \<in> ?L"
    proof cases
      case 1
      then show ?thesis by (intro CollectI exI [of _ 0]) simp
    next
      case 2
      then show ?thesis by (intro CollectI exI [of _ "Suc k"]) simp
    qed
  qed
  show ?case using 2(1) [OF refl ne rec] unfolding new shift by (simp add: Un_assoc)
qed

lemma max_pair_spec:
  "max_pair m ps \<in> set (m # ps) \<and> (\<forall>p \<in> set (m # ps). fst p \<le> fst (max_pair m ps))"
proof (induction m ps rule: max_pair.induct)
  case (1 m)
  then show ?case by simp
next
  case (2 a i b j ps)
  then show ?case by (simp split: if_splits) (smt (verit) fst_conv)+
qed

subsection \<open>The position returned\<close>

lemma clamp_axis_fits:
  "sz \<le> asz \<Longrightarrow> a \<le> clamp_axis p sz a asz \<and> clamp_axis p sz a asz + sz \<le> a + asz"
  "asz \<le> sz \<Longrightarrow> clamp_axis p sz a asz = a"
  by (auto simp: clamp_axis_def)

lemma clamp_axis_spec:
  "if sz \<le> asz then a \<le> clamp_axis p sz a asz \<and> clamp_axis p sz a asz + sz \<le> a + asz else clamp_axis p sz a asz = a"
  by (auto simp: clamp_axis_def)

definition best_overlap :: "(int \<times> nat) list \<Rightarrow> nat" where
  "best_overlap overlaps = (case overlaps of [] \<Rightarrow> 0 | m # ms \<Rightarrow> snd (max_pair m ms))"

lemma best_overlap_spec:
  assumes "cover_loop win 0 vs rs [] = Some ov" and "vs \<noteq> []"
  shows "best_overlap ov < length vs"
    and "j < length vs \<Longrightarrow> overlap_area win (vs ! j) \<le> overlap_area win (vs ! best_overlap ov)"
proof -
  have ov: "set ov = {(overlap_area win (vs ! k), k) | k. k < length vs \<and> 0 < overlap_area win (vs ! k)}"
    using cover_loop_Some [OF assms(1)] by simp
  have "best_overlap ov < length vs
    \<and> (\<forall>j < length vs. overlap_area win (vs ! j) \<le> overlap_area win (vs ! best_overlap ov))"
  proof (cases ov)
    case Nil
    then have "\<forall>k < length vs. \<not> 0 < overlap_area win (vs ! k)" using ov by auto
    moreover have "0 \<le> overlap_area win (vs ! 0)"
      using overlap_area_pos [of win "vs ! 0"] by (cases "intersection win (vs ! 0)") auto
    ultimately show ?thesis using assms(2) Nil by (fastforce simp: best_overlap_def)
  next
    case (Cons m ms)
    let ?b = "max_pair m ms"
    have b: "?b \<in> set ov" "\<forall>p \<in> set ov. fst p \<le> fst ?b" using max_pair_spec [of m ms] Cons by auto
    obtain k where k: "?b = (overlap_area win (vs ! k), k)" "k < length vs" "0 < overlap_area win (vs ! k)"
      using b(1) ov by auto
    have "overlap_area win (vs ! j) \<le> overlap_area win (vs ! k)" if "j < length vs" for j
    proof (cases "0 < overlap_area win (vs ! j)")
      case True
      then have "(overlap_area win (vs ! j), j) \<in> set ov" using ov that by auto
      then show ?thesis using b(2) k(1) by fastforce
    qed (use k(3) in linarith)
    then show ?thesis using k Cons by (simp add: best_overlap_def)
  qed
  then show "best_overlap ov < length vs"
    and "j < length vs \<Longrightarrow> overlap_area win (vs ! j) \<le> overlap_area win (vs ! best_overlap ov)" by auto
qed

abbreviation window_rect :: "int \<Rightarrow> int \<Rightarrow> int \<Rightarrow> int \<Rightarrow> rect" where
  "window_rect x y w h \<equiv> (x, y, max 1 w, max 1 h)"

lemma clamp_covered:
  assumes "covers (visible_areas areas margin fallback) (window_rect x y w h)"
  shows "clamp_window_to_visible_area x y w h areas margin fallback = (x, y)"
proof (cases "visible_areas areas margin fallback")
  case (Cons v vs)
  have "cover_loop (window_rect x y w h) 0 (v # vs) [window_rect x y w h] [] = None"
    using assms Cons by (intro iffD2 [OF cover_loop_None]) (auto simp: proper_def)
  then show ?thesis using Cons by (simp add: clamp_window_to_visible_area_def Let_def del: cover_loop.simps)
qed (simp add: clamp_window_to_visible_area_def)

definition best_area :: "rect list \<Rightarrow> rect \<Rightarrow> nat \<Rightarrow> bool" where
  "best_area vs win k \<longleftrightarrow> k < length vs \<and> (\<forall>j < length vs. overlap_area win (vs ! j) \<le> overlap_area win (vs ! k))"

lemma clamp_uncovered:
  assumes "vs = visible_areas areas margin fallback" and "vs \<noteq> []" and "\<not> covers vs (window_rect x y w h)"
  shows "\<exists>k ax ay aw ah. best_area vs (window_rect x y w h) k \<and> vs ! k = (ax, ay, aw, ah)
    \<and> clamp_window_to_visible_area x y w h areas margin fallback = (clamp_axis x (max 1 w) ax aw, clamp_axis y (max 1 h) ay ah)"
proof -
  let ?win = "window_rect x y w h"
  obtain v vs' where v: "vs = v # vs'" using assms(2) by (cases vs) auto
  have "cover_loop ?win 0 vs [?win] [] \<noteq> None"
    using assms(3) cover_loop_None [of "[?win]" ?win 0 vs "[]"] by (simp add: proper_def less_max_iff_disj del: points.simps)
  then obtain ov where ov: "cover_loop ?win 0 vs [?win] [] = Some ov" by auto
  obtain ax ay aw ah where a: "vs ! best_overlap ov = (ax, ay, aw, ah)" by (metis surj_pair)
  have "clamp_window_to_visible_area x y w h areas margin fallback
      = (clamp_axis x (max 1 w) ax aw, clamp_axis y (max 1 h) ay ah)"
    using ov a unfolding v best_overlap_def
    by (simp add: clamp_window_to_visible_area_def Let_def assms(1) [unfolded v, symmetric] del: cover_loop.simps)
  moreover have "best_area vs ?win (best_overlap ov)"
    using best_overlap_spec [OF ov assms(2)] by (simp add: best_area_def)
  ultimately show ?thesis using a by blast
qed

lemma inside_area_covers:
  assumes "a \<in> set vs" and "a = (ax, ay, aw, ah)"
    and "ax \<le> x" and "x + w \<le> ax + aw" and "ay \<le> y" and "y + h \<le> ay + ah"
  shows "covers vs (x, y, w, h)"
  using assms by fastforce

lemma clamp_into_area:
  assumes "vs = visible_areas areas margin fallback" and "vs \<noteq> []"
    and "\<forall>(ax, ay, aw, ah) \<in> set vs. max 1 w \<le> aw \<and> max 1 h \<le> ah"
    and "clamp_window_to_visible_area x y w h areas margin fallback = (nx, ny)"
  shows "covers vs (window_rect nx ny w h)"
proof (cases "covers vs (window_rect x y w h)")
  case True
  then have "(nx, ny) = (x, y)" using clamp_covered assms(1,4) by metis
  then show ?thesis using True by simp
next
  case False
  obtain k ax ay aw ah where k: "best_area vs (window_rect x y w h) k" and a: "vs ! k = (ax, ay, aw, ah)" and
    pos: "clamp_window_to_visible_area x y w h areas margin fallback = (clamp_axis x (max 1 w) ax aw, clamp_axis y (max 1 h) ay ah)"
    using clamp_uncovered [OF assms(1,2) False] by metis
  have mem: "(ax, ay, aw, ah) \<in> set vs" using k a by (metis nth_mem best_area_def)
  then have fit: "max 1 w \<le> aw" "max 1 h \<le> ah" using assms(3) by auto
  show ?thesis
    using inside_area_covers [OF mem refl] clamp_axis_fits(1) [OF fit(1), of ax x] clamp_axis_fits(1) [OF fit(2), of ay y]
      pos assms(4) by auto
qed

subsection \<open>Properties\<close>

text \<open>
  The rectangles \<^verbatim>\<open>subtract\<close> returns cover exactly the pixels of the first rectangle that
  are not in the second, and \<^verbatim>\<open>intersection\<close> exactly the common ones; neither ever returns an
  empty rectangle for a rectangle that is not empty.
\<close>

theorem subtract_intersection_exact:
  "(\<Union>s \<in> set (subtract r a). points s) = points r - points a
   \<and> points r \<inter> points a = (case intersection r a of None \<Rightarrow> {} | Some i \<Rightarrow> points i)
   \<and> (proper r \<longrightarrow> list_all proper (subtract r a))"
  by (intro conjI impI subtract_points intersection_points subtract_proper_all)

theorem subtract_intersection_exact_witness:
  "proper (0, 0, 4, 4) \<and> list_all proper (subtract (0, 0, 4, 4) (1, 1, 2, 2))"
  using subtract_intersection_exact [of "(0, 0, 4, 4)" "(1, 1, 2, 2)"] by (simp add: proper_def)

text \<open>
  C25: a window that the visible areas cover together is never moved; any other window goes to
  the area it overlaps most, wholly inside it on each axis it fits, and to its edge on an axis
  it does not fit.
\<close>

theorem clamp_moves_only_uncovered:
  assumes "vs = visible_areas areas margin fallback" and "vs \<noteq> []"
  shows "if covers vs (window_rect x y w h) then clamp_window_to_visible_area x y w h areas margin fallback = (x, y)
    else \<exists>k ax ay aw ah nx ny. best_area vs (window_rect x y w h) k \<and> vs ! k = (ax, ay, aw, ah)
          \<and> clamp_window_to_visible_area x y w h areas margin fallback = (nx, ny)
          \<and> (if max 1 w \<le> aw then ax \<le> nx \<and> nx + max 1 w \<le> ax + aw else nx = ax)
          \<and> (if max 1 h \<le> ah then ay \<le> ny \<and> ny + max 1 h \<le> ay + ah else ny = ay)"
proof (cases "covers vs (window_rect x y w h)")
  case True
  then show ?thesis using clamp_covered assms(1) by simp
next
  case False
  obtain k ax ay aw ah where k: "best_area vs (window_rect x y w h) k" "vs ! k = (ax, ay, aw, ah)" and
    pos: "clamp_window_to_visible_area x y w h areas margin fallback = (clamp_axis x (max 1 w) ax aw, clamp_axis y (max 1 h) ay ah)"
    using clamp_uncovered [OF assms False] by metis
  have "if max 1 w \<le> aw then ax \<le> clamp_axis x (max 1 w) ax aw \<and> clamp_axis x (max 1 w) ax aw + max 1 w \<le> ax + aw
      else clamp_axis x (max 1 w) ax aw = ax" for x ax aw and w :: int
    by (rule clamp_axis_spec)
  note spec = this
  show ?thesis unfolding if_not_P [OF False]
    by (intro exI conjI) (rule k pos spec)+
qed

theorem clamp_moves_only_uncovered_witness:
  "clamp_window_to_visible_area 10 20 100 50 [[0, 0, 800, 600]] 0 [] = (10, 20)"
proof -
  have vs: "[(0, 0, 800, 600)] = visible_areas [[0, 0, 800, 600]] 0 []" by (simp add: visible_areas_def)
  have "covers [(0, 0, 800, 600)] (window_rect 10 20 100 50)" by auto
  then show ?thesis using clamp_moves_only_uncovered [OF vs, of 10 20 100 50] by (simp only: if_True) simp
qed

text \<open>
  Clamping is idempotent for a window no larger than any visible area: the position
  returned is already visible, so clamping it again changes nothing.
\<close>

theorem clamp_idempotent:
  assumes "\<forall>(ax, ay, aw, ah) \<in> set (visible_areas areas margin fallback). max 1 w \<le> aw \<and> max 1 h \<le> ah"
    and "clamp_window_to_visible_area x y w h areas margin fallback = (nx, ny)"
  shows "clamp_window_to_visible_area nx ny w h areas margin fallback = (nx, ny)"
proof (cases "visible_areas areas margin fallback = []")
  case False
  then show ?thesis using clamp_covered clamp_into_area [OF refl _ assms] by blast
qed (simp add: clamp_window_to_visible_area_def)

theorem clamp_idempotent_witness:
  "clamp_window_to_visible_area 700 0 100 50 [[0, 0, 800, 600]] 0 [] = (700, 0)"
  by (rule clamp_idempotent [where x = 750 and y = "-20"])
    (simp_all add: visible_areas_def clamp_window_to_visible_area_def intersection.simps subtract.simps clamp_axis_def Let_def)

end
