(* ===== verification/Rect_Regions.thy ===== *)
theory Rect_Regions
  imports Net_Packet Window_Geometry
begin

text \<open>
  The rectangles of the damage and refresh regions (\<^verbatim>\<open>xpra/util/rectangle.pyx\<close>). The fields and
  the local variables are C integers of 32 bits, so every sum, difference and product is wrapped
  (\<open>cint\<close>); \<open>on_screen\<close> bounds the rectangles for which nothing wraps. A list of regions is
  changed in place by the source and passed and returned here. The hash, which depends on shifts
  past the width of the type, is not modelled: it takes no part in the operations below.
\<close>

subsection \<open>C integers\<close>

definition cint :: "int \<Rightarrow> int" where
  "cint i = (i + 2 ^ 31) mod 2 ^ 32 - 2 ^ 31"

lemma cint_id: "- (2 ^ 31) \<le> i \<Longrightarrow> i < 2 ^ 31 \<Longrightarrow> cint i = i"
  by (simp add: cint_def)

subsection \<open>The class rectangle\<close>

definition mk_rectangle :: "int \<Rightarrow> int \<Rightarrow> int \<Rightarrow> int \<Rightarrow> py_error + rect" where
  "mk_rectangle x y w h = (if w < 0 \<or> h < 0 then Inl ValueError else Inr (x, y, w, h))"

text \<open>The comparisons, by the number Cython gives them.\<close>

fun rectangle_richcmp :: "rect \<Rightarrow> rect \<Rightarrow> nat \<Rightarrow> py_error + bool" where
  "rectangle_richcmp (sx, sy, sw, sh) (ox, oy, ow, oh) cmp =
     (if cmp = 2 then Inr (sx = ox \<and> sy = oy \<and> sw = ow \<and> sh = oh)
      else if cmp = 3 then Inr (sx \<noteq> ox \<or> sy \<noteq> oy \<or> sw \<noteq> ow \<or> sh \<noteq> oh)
      else if cmp = 0 then Inr (sx < ox \<or> sy < oy \<or> sw < ow \<or> sh < oh)
      else if cmp = 1 then Inr (sx \<le> ox \<or> sy \<le> oy \<or> sw \<le> ow \<or> sh \<le> oh)
      else if cmp = 4 then Inr (sx > ox \<or> sy > oy \<or> sw > ow \<or> sh > oh)
      else if cmp = 5 then Inr (sx \<ge> ox \<or> sy \<ge> oy \<or> sw \<ge> ow \<or> sh \<ge> oh)
      else Inl ValueError)"

fun rectangle_intersects :: "rect \<Rightarrow> int \<Rightarrow> int \<Rightarrow> int \<Rightarrow> int \<Rightarrow> bool" where
  "rectangle_intersects (sx, sy, sw, sh) x y w h =
     (let ix = max sx x; iw = cint (min (cint (sx + sw)) (cint (x + w)) - ix) in
      if iw \<le> 0 then False
      else let iy = max sy y; ih = cint (min (cint (sy + sh)) (cint (y + h)) - iy) in ih > 0)"

fun rectangle_intersects_rect :: "rect \<Rightarrow> rect \<Rightarrow> bool" where
  "rectangle_intersects_rect self (x, y, w, h) = rectangle_intersects self x y w h"

fun rectangle_intersection :: "rect \<Rightarrow> int \<Rightarrow> int \<Rightarrow> int \<Rightarrow> int \<Rightarrow> py_error + rect option" where
  "rectangle_intersection (sx, sy, sw, sh) x y w h =
     (let ix = max sx x; iw = cint (min (cint (sx + sw)) (cint (x + w)) - ix) in
      if iw \<le> 0 then Inr None
      else let iy = max sy y; ih = cint (min (cint (sy + sh)) (cint (y + h)) - iy) in
           if ih \<le> 0 then Inr None else map_sum id Some (mk_rectangle ix iy iw ih))"

fun rectangle_intersection_rect :: "rect \<Rightarrow> rect \<Rightarrow> py_error + rect option" where
  "rectangle_intersection_rect self (x, y, w, h) = rectangle_intersection self x y w h"

fun rectangle_contains :: "rect \<Rightarrow> int \<Rightarrow> int \<Rightarrow> int \<Rightarrow> int \<Rightarrow> bool" where
  "rectangle_contains (sx, sy, sw, sh) x y w h =
     (sx \<le> x \<and> sy \<le> y \<and> cint (sx + sw) \<ge> cint (x + w) \<and> cint (sy + sh) \<ge> cint (y + h))"

fun rectangle_contains_rect :: "rect \<Rightarrow> rect \<Rightarrow> bool" where
  "rectangle_contains_rect self (x, y, w, h) = rectangle_contains self x y w h"

fun rectangle_subtract :: "rect \<Rightarrow> int \<Rightarrow> int \<Rightarrow> int \<Rightarrow> int \<Rightarrow> py_error + rect list" where
  "rectangle_subtract (sx, sy, sw, sh) x y w h =
     (let sx2 = cint (sx + sw); sy2 = cint (sy + sh); x2 = cint (x + w); y2 = cint (y + h) in
      if w = 0 \<or> h = 0 \<or> sw = 0 \<or> sh = 0 then Inr [(sx, sy, sw, sh)]
      else if sx2 \<le> x \<or> sy2 \<le> y \<or> x2 \<le> sx \<or> y2 \<le> sy then Inr [(sx, sy, sw, sh)]
      else if x \<le> sx \<and> y \<le> sy \<and> x2 \<ge> sx2 \<and> y2 \<ge> sy2 then Inr []
      else
        let cy = max sy y; ch = cint (min sy2 y2 - cy) in
        seq_results
          ((if sy < y then [mk_rectangle sx sy sw (cint (y - sy))] else [])
           @ (if ch > 0 \<and> sx < x then [mk_rectangle sx cy (cint (x - sx)) ch] else [])
           @ (if ch > 0 \<and> sx2 > x2 then [mk_rectangle x2 cy (cint (sx2 - x2)) ch] else [])
           @ (if sy2 > y2 then [mk_rectangle sx y2 sw (cint (sy2 - y2))] else [])))"

fun rectangle_subtract_rect :: "rect \<Rightarrow> rect \<Rightarrow> py_error + rect list" where
  "rectangle_subtract_rect self (x, y, w, h) = rectangle_subtract self x y w h"

subsection \<open>Lists of regions\<close>

fun regions_contain :: "rect list \<Rightarrow> int \<Rightarrow> int \<Rightarrow> int \<Rightarrow> int \<Rightarrow> bool" where
  "regions_contain [] x y w h = False"
| "regions_contain ((rx, ry, rw, rh) # regions) x y w h =
     (if x \<ge> rx \<and> y \<ge> ry \<and> cint (x + w) \<le> rx + rw \<and> cint (y + h) \<le> ry + rh then True
      else regions_contain regions x y w h)"

fun regions_contain_rect :: "rect list \<Rightarrow> rect \<Rightarrow> bool" where
  "regions_contain_rect regions (x, y, w, h) = regions_contain regions x y w h"

text \<open>The first region that contains or intersects the new one.\<close>

fun first_hit :: "rect list \<Rightarrow> rect \<Rightarrow> rect option" where
  "first_hit [] region = None"
| "first_hit (r # regions) region =
     (if rectangle_contains_rect r region \<or> rectangle_intersects_rect r region then Some r else first_hit regions region)"

primrec add_parts ::
  "(rect list \<Rightarrow> rect \<Rightarrow> (py_error + rect list \<times> int) option) \<Rightarrow> rect list \<Rightarrow> rect list \<Rightarrow> int
    \<Rightarrow> (py_error + rect list \<times> int) option" where
  "add_parts add [] regions sofar = Some (Inr (regions, sofar))"
| "add_parts add (sub # subs) regions sofar =
     (case add regions sub of
        None \<Rightarrow> None
      | Some (Inl e) \<Rightarrow> Some (Inl e)
      | Some (Inr (regions', n)) \<Rightarrow> add_parts add subs regions' (sofar + n))"

text \<open>Each level of fuel is a call; a part has fewer pixels than the whole.\<close>

primrec add_rectangle :: "nat \<Rightarrow> rect list \<Rightarrow> rect \<Rightarrow> (py_error + rect list \<times> int) option" where
  "add_rectangle 0 regions region = None"
| "add_rectangle (Suc fuel) regions region =
     (case first_hit regions region of
        None \<Rightarrow> (case region of (x, y, w, h) \<Rightarrow> Some (Inr (regions @ [region], cint (w * h))))
      | Some r \<Rightarrow>
          if rectangle_contains_rect r region then Some (Inr (regions, 0))
          else
            (case rectangle_subtract_rect region r of
               Inl e \<Rightarrow> Some (Inl e)
             | Inr subs \<Rightarrow> add_parts (add_rectangle fuel) subs regions 0))"

definition remove_rectangle :: "rect list \<Rightarrow> rect \<Rightarrow> py_error + rect list" where
  "remove_rectangle regions region = map_sum id concat (seq_results (map (\<lambda>r. rectangle_subtract_rect r region) regions))"

text \<open>The corners of the smallest rectangle around all; a rectangle is never false.\<close>

fun merge_step :: "int \<times> int \<times> int \<times> int \<Rightarrow> rect \<Rightarrow> int \<times> int \<times> int \<times> int" where
  "merge_step (rx, ry, rx2, ry2) (x, y, w, h) =
     (let rx' = (if x < rx then x else rx); ry' = (if y < ry then y else ry);
          x2 = cint (x + w); y2 = cint (y + h)
      in (rx', ry', if x2 > rx2 then x2 else rx2, if y2 > ry2 then y2 else ry2))"

definition merge_all :: "rect list \<Rightarrow> py_error + rect" where
  "merge_all rects =
     (case rects of
        [] \<Rightarrow> Inl ValueError
      | (x, y, w, h) # _ \<Rightarrow>
          (case foldl merge_step (x, y, cint (x + w), cint (y + h)) rects of
             (rx, ry, rx2, ry2) \<Rightarrow> mk_rectangle rx ry (cint (rx2 - rx)) (cint (ry2 - ry))))"

subsection \<open>Rectangles on a screen\<close>

definition on_screen :: "rect \<Rightarrow> bool" where
  "on_screen r = (case r of (x, y, w, h) \<Rightarrow>
     - (2 ^ 29) \<le> x \<and> - (2 ^ 29) \<le> y \<and> x + w \<le> 2 ^ 29 \<and> y + h \<le> 2 ^ 29
     \<and> 0 \<le> w \<and> w \<le> 2 ^ 15 \<and> 0 \<le> h \<and> h \<le> 2 ^ 15)"

abbreviation apart :: "rect list \<Rightarrow> bool" where
  "apart \<equiv> sorted_wrt (\<lambda>r s. points r \<inter> points s = {})"

abbreviation pixels :: "rect list \<Rightarrow> (int \<times> int) set" where
  "pixels rs \<equiv> \<Union>r \<in> set rs. points r"

lemma card_points: "card (points (x, y, w, h)) = nat w * nat h"
  by (simp add: card_cartesian_product)

lemma finite_points [simp]: "finite (points r)"
  by (cases r) simp

lemma intersects_points:
  assumes "on_screen r" and "on_screen s"
  shows "rectangle_intersects_rect r s \<longleftrightarrow> points r \<inter> points s \<noteq> {}"
proof -
  obtain x y w h where r: "r = (x, y, w, h)" by (cases r)
  obtain x' y' w' h' where s: "s = (x', y', w', h')" by (cases s)
  have c: "cint (x + w) = x + w" "cint (y + h) = y + h" "cint (x' + w') = x' + w'" "cint (y' + h') = y' + h'"
    "cint (min (x + w) (x' + w') - max x x') = min (x + w) (x' + w') - max x x'"
    "cint (min (y + h) (y' + h') - max y y') = min (y + h) (y' + h') - max y y'"
    using assms by (auto simp: r s on_screen_def intro!: cint_id)
  have "points r \<inter> points s = {max x x' ..< min (x + w) (x' + w')} \<times> {max y y' ..< min (y + h) (y' + h')}"
    by (auto simp: r s)
  then have "points r \<inter> points s \<noteq> {} \<longleftrightarrow> max x x' < min (x + w) (x' + w') \<and> max y y' < min (y + h) (y' + h')"
    by (simp only: times_eq_iff) auto
  then show ?thesis by (simp only: r s rectangle_intersects_rect.simps rectangle_intersects.simps Let_def c) (smt (verit))
qed

lemma contains_points:
  assumes "on_screen r" and "on_screen s" and "rectangle_contains_rect r s"
  shows "points s \<subseteq> points r"
proof -
  obtain x y w h where r: "r = (x, y, w, h)" by (cases r)
  obtain x' y' w' h' where s: "s = (x', y', w', h')" by (cases s)
  have "cint (x + w) = x + w" "cint (y + h) = y + h" "cint (x' + w') = x' + w'" "cint (y' + h') = y' + h'"
    using assms by (auto simp: r s on_screen_def intro!: cint_id)
  then show ?thesis using assms(3) by (auto simp: r s)
qed

text \<open>The parts that are left when no sum wraps.\<close>

definition parts_left :: "rect \<Rightarrow> rect \<Rightarrow> rect list" where
  "parts_left s a = (case (s, a) of ((sx, sy, sw, sh), (x, y, w, h)) \<Rightarrow>
     let cy = max sy y; ch = min (sy + sh) (y + h) - cy in
     (if sy < y then [(sx, sy, sw, y - sy)] else [])
     @ (if ch > 0 \<and> sx < x then [(sx, cy, x - sx, ch)] else [])
     @ (if ch > 0 \<and> sx + sw > x + w then [(x + w, cy, sx + sw - (x + w), ch)] else [])
     @ (if sy + sh > y + h then [(sx, y + h, sw, sy + sh - (y + h))] else []))"

lemma parts_left_eq:
  assumes "cy = max sy y" and "ch = min (sy + sh) (y + h) - cy" and "0 < ch"
  shows "parts_left (sx, sy, sw, sh) (x, y, w, h) =
      (if sy < y then [(sx, sy, sw, y - sy)] else []) @ (if sx < x then [(sx, cy, x - sx, ch)] else [])
      @ (if sx + sw > x + w then [(x + w, cy, sx + sw - (x + w), ch)] else [])
      @ (if sy + sh > y + h then [(sx, y + h, sw, sy + sh - (y + h))] else [])"
  using assms(3) unfolding parts_left_def Let_def prod.case assms(1) [symmetric] assms(2) [symmetric] by simp

lemma subtract_parts:
  assumes "on_screen s" and "on_screen a" and "points s \<inter> points a \<noteq> {}"
  shows "rectangle_subtract_rect s a = Inr (if points s \<subseteq> points a then [] else parts_left s a)"
    and "list_all on_screen (parts_left s a)"
proof -
  obtain sx sy sw sh where s: "s = (sx, sy, sw, sh)" by (cases s)
  obtain x y w h where a: "a = (x, y, w, h)" by (cases a)
  have meet: "max sx x < min (sx + sw) (x + w)" "max sy y < min (sy + sh) (y + h)"
    using assms(3) by (auto simp: s a)
  have b: "- (2 ^ 29) \<le> sx" "- (2 ^ 29) \<le> sy" "sx + sw \<le> 2 ^ 29" "sy + sh \<le> 2 ^ 29" "sw \<le> 2 ^ 15" "sh \<le> 2 ^ 15"
    "- (2 ^ 29) \<le> x" "- (2 ^ 29) \<le> y" "x + w \<le> 2 ^ 29" "y + h \<le> 2 ^ 29" "w \<le> 2 ^ 15" "h \<le> 2 ^ 15"
    "0 < sw" "0 < sh" "0 < w" "0 < h"
    using assms(1,2) meet by (auto simp: s a on_screen_def)
  have c: "cint (sx + sw) = sx + sw" "cint (sy + sh) = sy + sh" "cint (x + w) = x + w" "cint (y + h) = y + h"
    "cint (min (sy + sh) (y + h) - max sy y) = min (sy + sh) (y + h) - max sy y"
    "cint (y - sy) = y - sy" "cint (x - sx) = x - sx" "cint (sx + sw - (x + w)) = sx + sw - (x + w)"
    "cint (sy + sh - (y + h)) = sy + sh - (y + h)"
    using b by (auto intro!: cint_id)
  have mk: "mk_rectangle p q u v = Inr (p, q, u, v)" if "0 \<le> u" "0 \<le> v" for p q u v
    using that by (simp add: mk_rectangle_def)
  have sub: "points s \<subseteq> points a \<longleftrightarrow> x \<le> sx \<and> y \<le> sy \<and> sx + sw \<le> x + w \<and> sy + sh \<le> y + h"
    unfolding s a points.simps using b by (subst times_subset_iff) auto
  define cy where "cy = max sy y"
  define ch where "ch = min (sy + sh) (y + h) - cy"
  have ch: "0 < ch" "cint ch = ch" using c(5) meet by (simp_all add: ch_def cy_def)
  have m: "x < sx + sw" "sx < x + w" "y < sy + sh" "sy < y + h" using meet by auto
  have k: "- (2 ^ 29) \<le> cy" "cy + ch \<le> 2 ^ 29" "ch \<le> 2 ^ 15" using b meet by (auto simp: ch_def cy_def)
  show "list_all on_screen (parts_left s a)"
    unfolding s a parts_left_eq [OF cy_def ch_def ch(1)] list_all_append by (intro conjI) (use b ch k m in \<open>auto simp: on_screen_def\<close>)
  have g: "\<not> (w = 0 \<or> h = 0 \<or> sw = 0 \<or> sh = 0)" "\<not> (sx + sw \<le> x \<or> sy + sh \<le> y \<or> x + w \<le> sx \<or> y + h \<le> sy)"
    using b m by auto
  have "rectangle_subtract_rect s a = (if points s \<subseteq> points a then Inr [] else
      seq_results ((if sy < y then [mk_rectangle sx sy sw (y - sy)] else [])
        @ (if sx < x then [mk_rectangle sx cy (x - sx) ch] else [])
        @ (if x + w < sx + sw then [mk_rectangle (x + w) cy (sx + sw - (x + w)) ch] else [])
        @ (if y + h < sy + sh then [mk_rectangle sx (y + h) sw (sy + sh - (y + h))] else [])))"
    by (simp only: s a rectangle_subtract_rect.simps rectangle_subtract.simps Let_def c cy_def [symmetric] ch_def [symmetric]
        ch g if_False simp_thms sub [unfolded s a])
  also have "\<dots> = Inr (if points s \<subseteq> points a then [] else parts_left s a)"
    using b ch mk unfolding s a parts_left_eq [OF cy_def ch_def ch(1)] by (simp del: points.simps)
  finally show "rectangle_subtract_rect s a = Inr (if points s \<subseteq> points a then [] else parts_left s a)" .
qed

lemma parts_left_pixels:
  assumes "points s \<inter> points a \<noteq> {}"
  shows "pixels (parts_left s a) = points s - points a" and "apart (parts_left s a)"
proof -
  obtain sx sy sw sh where s: "s = (sx, sy, sw, sh)" by (cases s)
  obtain x y w h where a: "a = (x, y, w, h)" by (cases a)
  define cy where "cy = max sy y"
  define ch where "ch = min (sy + sh) (y + h) - cy"
  have m: "x < sx + sw" "sx < x + w" "y < sy + sh" "sy < y + h" "0 < sw" "0 < w" "0 < sh" "0 < h"
    using assms by (auto simp: s a)
  have c: "sy \<le> cy" "y \<le> cy" "cy = sy \<or> cy = y" "cy + ch \<le> sy + sh" "cy + ch \<le> y + h"
    "cy + ch = sy + sh \<or> cy + ch = y + h" "0 < ch"
    using m by (auto simp: cy_def ch_def)
  have parts: "parts_left s a =
      (if sy < y then [(sx, sy, sw, y - sy)] else []) @ (if sx < x then [(sx, cy, x - sx, ch)] else [])
      @ (if sx + sw > x + w then [(x + w, cy, sx + sw - (x + w), ch)] else [])
      @ (if sy + sh > y + h then [(sx, y + h, sw, sy + sh - (y + h))] else [])"
    unfolding s a by (rule parts_left_eq [OF cy_def ch_def c(7)])
  have "((px, py) \<in> points s \<and> (px, py) \<notin> points a) = (\<exists>p \<in> set (parts_left s a). (px, py) \<in> points p)" for px py
    using m c unfolding parts unfolding s a by (simp add: bex_Un bex_if_single) (smt (verit))
  then show "pixels (parts_left s a) = points s - points a"
    unfolding set_eq_iff split_paired_All Diff_iff UN_iff by blast
  have "points (sx, sy, sw, y - sy) \<inter> points (sx, cy, x - sx, ch) = {}"
    "points (sx, sy, sw, y - sy) \<inter> points (x + w, cy, sx + sw - (x + w), ch) = {}"
    "points (sx, sy, sw, y - sy) \<inter> points (sx, y + h, sw, sy + sh - (y + h)) = {}"
    "points (sx, cy, x - sx, ch) \<inter> points (x + w, cy, sx + sw - (x + w), ch) = {}"
    "points (sx, cy, x - sx, ch) \<inter> points (sx, y + h, sw, sy + sh - (y + h)) = {}"
    "points (x + w, cy, sx + sw - (x + w), ch) \<inter> points (sx, y + h, sw, sy + sh - (y + h)) = {}"
    using m c by auto
  then show "apart (parts_left s a)" by (simp add: parts sorted_wrt_append del: points.simps)
qed

lemma subtract_rect_disjoint:
  assumes "on_screen s" and "on_screen a" and "points s \<inter> points a = {}"
  shows "rectangle_subtract_rect s a = Inr [s]"
proof -
  obtain sx sy sw sh where s: "s = (sx, sy, sw, sh)" by (cases s)
  obtain x y w h where a: "a = (x, y, w, h)" by (cases a)
  have c: "cint (sx + sw) = sx + sw" "cint (sy + sh) = sy + sh" "cint (x + w) = x + w" "cint (y + h) = y + h"
    using assms by (auto simp: s a on_screen_def intro!: cint_id)
  have pos: "0 \<le> sw" "0 \<le> sh" "0 \<le> w" "0 \<le> h" using assms by (auto simp: s a on_screen_def)
  have "(max sx x, max sy y) \<notin> points s \<inter> points a" using assms(3) by blast
  then have "w = 0 \<or> h = 0 \<or> sw = 0 \<or> sh = 0 \<or> sx + sw \<le> x \<or> sy + sh \<le> y \<or> x + w \<le> sx \<or> y + h \<le> sy"
    using pos by (simp add: s a) (smt (verit))
  then consider "w = 0 \<or> h = 0 \<or> sw = 0 \<or> sh = 0"
    | "\<not> (w = 0 \<or> h = 0 \<or> sw = 0 \<or> sh = 0)" "sx + sw \<le> x \<or> sy + sh \<le> y \<or> x + w \<le> sx \<or> y + h \<le> sy" by blast
  then show ?thesis
    by cases (simp_all only: s a rectangle_subtract_rect.simps rectangle_subtract.simps Let_def c if_True if_False simp_thms)
qed

text \<open>The contract of \<^verbatim>\<open>subtract_rect\<close> on a screen.\<close>

lemma subtract_rect_ok:
  assumes "on_screen s" and "on_screen a"
  obtains ps where "rectangle_subtract_rect s a = Inr ps" and "pixels ps = points s - points a"
    and "apart ps" and "list_all on_screen ps"
proof (cases "points s \<inter> points a = {}")
  case True
  then show ?thesis using that [of "[s]"] subtract_rect_disjoint [OF assms True] assms(1) by auto
next
  case False
  show ?thesis
  proof (cases "points s \<subseteq> points a")
    case True
    then show ?thesis using that [of "[]"] subtract_parts(1) [OF assms False] by auto
  next
    case sub: False
    show ?thesis
      using that [of "parts_left s a"] subtract_parts [OF assms False] parts_left_pixels [OF False] sub by simp
  qed
qed

subsection \<open>Adding to a list of regions\<close>

definition regions_ok :: "rect list \<Rightarrow> bool" where
  "regions_ok regions = (list_all on_screen regions \<and> apart regions)"

text \<open>The outcome of adding the pixels \<open>S\<close>: new regions that cover just what was missing, and its size.\<close>

definition grown :: "rect list \<Rightarrow> (int \<times> int) set \<Rightarrow> int \<Rightarrow> (py_error + rect list \<times> int) option \<Rightarrow> bool" where
  "grown regions S sofar m =
     (\<exists>new. m = Some (Inr (regions @ new, sofar + int (card (S - pixels regions)))) \<and> regions_ok (regions @ new)
        \<and> pixels new = S - pixels regions)"

lemma first_hit_None:
  "first_hit regions region = None \<Longrightarrow> list_all on_screen regions \<Longrightarrow> on_screen region \<Longrightarrow> points region \<inter> pixels regions = {}"
proof (induction regions)
  case (Cons r regions)
  then have "points r \<inter> points region = {}" using intersects_points [of r region] by (auto split: if_splits)
  then show ?case using Cons by (auto split: if_splits)
qed simp

lemma first_hit_Some:
  "first_hit regions region = Some r \<Longrightarrow>
   r \<in> set regions \<and> (rectangle_contains_rect r region \<or> rectangle_intersects_rect r region)"
  by (induction regions) (auto split: if_splits)

lemma regions_ok_pixels: "finite (pixels rs)"
  by simp

lemma grown_parts:
  assumes add: "\<And>regions s. regions_ok regions \<Longrightarrow> s \<in> set subs \<Longrightarrow> grown regions (points s) 0 (add regions s)"
  shows "regions_ok regions \<Longrightarrow> apart subs \<Longrightarrow> grown regions (pixels subs) sofar (add_parts add subs regions sofar)"
  using assms
proof (induction subs arbitrary: regions sofar)
  case Nil
  then show ?case by (simp add: grown_def)
next
  case (Cons s subs)
  obtain new where new: "add regions s = Some (Inr (regions @ new, int (card (points s - pixels regions))))"
    "regions_ok (regions @ new)" "pixels new = points s - pixels regions"
    using Cons.prems(3) [OF Cons.prems(1), of s] by (auto simp: grown_def)
  have rest: "grown (regions @ new) (pixels subs) (sofar + int (card (points s - pixels regions)))
      (add_parts add subs (regions @ new) (sofar + int (card (points s - pixels regions))))"
    using Cons.IH [OF new(2)] Cons.prems by simp
  have "points s \<inter> pixels subs = {}" using Cons.prems(2) by auto
  then have split: "pixels subs - pixels (regions @ new) = pixels subs - pixels regions"
    "pixels (s # subs) - pixels regions = (points s - pixels regions) \<union> (pixels subs - pixels regions)"
    "(points s - pixels regions) \<inter> (pixels subs - pixels regions) = {}"
    using new(3) by auto
  have "card (pixels (s # subs) - pixels regions) = card (points s - pixels regions) + card (pixels subs - pixels regions)"
    unfolding split(2) by (rule card_Un_disjoint [OF _ _ split(3)]) simp_all
  then show ?case
    using rest new split(1,2) by (auto simp: grown_def)
qed

lemma add_rectangle_grown:
  "regions_ok regions \<Longrightarrow> on_screen region \<Longrightarrow> card (points region) < fuel \<Longrightarrow>
   grown regions (points region) 0 (add_rectangle fuel regions region)"
proof (induction fuel arbitrary: regions region)
  case (Suc fuel)
  have ok: "list_all on_screen regions" "apart regions" using Suc.prems(1) by (auto simp: regions_ok_def)
  obtain x y w h where reg: "region = (x, y, w, h)" by (cases region)
  show ?case
  proof (cases "first_hit regions region")
    case None
    have free: "points region \<inter> pixels regions = {}" by (rule first_hit_None [OF None ok(1) Suc.prems(2)])
    have "0 \<le> w" "0 \<le> h" "w * h \<le> 2 ^ 15 * 2 ^ 15"
      using Suc.prems(2) mult_mono [of w "2 ^ 15" h "2 ^ 15"] by (auto simp: reg on_screen_def)
    then have "cint (w * h) = w * h" by (intro cint_id) (auto intro: order_trans [of _ 0])
    moreover have "points region - pixels regions = points region" using free by auto
    moreover have "int (card (points region)) = w * h" using \<open>0 \<le> w\<close> \<open>0 \<le> h\<close> unfolding reg card_points by simp
    moreover have "regions_ok (regions @ [region])"
      using ok Suc.prems(2) free by (auto simp: regions_ok_def sorted_wrt_append)
    ultimately show ?thesis unfolding grown_def using None by (intro exI [of _ "[region]"]) (simp add: reg)
  next
    case (Some r)
    then have r: "r \<in> set regions" "on_screen r" using first_hit_Some [OF Some] ok(1) by (auto simp: list_all_iff)
    show ?thesis
    proof (cases "rectangle_contains_rect r region")
      case True
      then have "points region \<subseteq> pixels regions" using contains_points [OF r(2) Suc.prems(2)] r(1) by blast
      then have none: "points region - pixels regions = {}" by blast
      show ?thesis unfolding grown_def none using Some True Suc.prems(1) by (intro exI [of _ "[]"]) simp
    next
      case False
      then have meet: "points r \<inter> points region \<noteq> {}"
        using first_hit_Some [OF Some] intersects_points [OF r(2) Suc.prems(2)] by blast
      obtain ps where ps: "rectangle_subtract_rect region r = Inr ps" "pixels ps = points region - points r" "apart ps"
          "list_all on_screen ps"
        by (rule subtract_rect_ok [OF Suc.prems(2) r(2)])
      have "card (points s) < fuel" if "s \<in> set ps" for s
      proof -
        have "points s \<subset> points region" using ps(2) that meet by blast
        then have "card (points s) < card (points region)" by (intro psubset_card_mono) simp_all
        then show ?thesis using Suc.prems(3) by simp
      qed
      then have "grown regions (pixels ps) 0 (add_parts (add_rectangle fuel) ps regions 0)"
        using ps(4) by (intro grown_parts Suc.IH Suc.prems(1) ps(3)) (auto simp: list_all_iff)
      moreover have "pixels ps - pixels regions = points region - pixels regions" using ps(2) r(1) by blast
      ultimately show ?thesis using Some False ps(1) by (simp add: grown_def)
    qed
  qed
qed simp

lemma remove_rectangle_ok:
  assumes "regions_ok regions" and "on_screen region"
  shows "\<exists>rs. remove_rectangle regions region = Inr rs \<and> regions_ok rs \<and> pixels rs = pixels regions - points region"
  using assms(1)
proof (induction regions)
  case Nil
  then show ?case by (simp add: remove_rectangle_def regions_ok_def)
next
  case (Cons r regions)
  then have r: "on_screen r" "points r \<inter> pixels regions = {}" "regions_ok regions" by (auto simp: regions_ok_def)
  obtain rs where rs: "remove_rectangle regions region = Inr rs" "regions_ok rs" "pixels rs = pixels regions - points region"
    using Cons.IH [OF r(3)] by blast
  obtain ps where ps: "rectangle_subtract_rect r region = Inr ps" "pixels ps = points r - points region" "apart ps"
      "list_all on_screen ps"
    by (rule subtract_rect_ok [OF r(1) assms(2)])
  have "remove_rectangle (r # regions) region = Inr (ps @ rs)"
    using rs(1) ps(1) by (auto simp: remove_rectangle_def)
  moreover have "pixels (ps @ rs) = pixels (r # regions) - points region"
    unfolding set_append UN_Un ps(2) rs(3) by auto
  moreover have "pixels ps \<inter> pixels rs = {}" using ps(2) rs(3) r(2) by blast
  then have "regions_ok (ps @ rs)" using ps rs(2) by (auto simp: regions_ok_def sorted_wrt_append)
  ultimately show ?case by blast
qed

subsection \<open>The smallest rectangle around a list\<close>

definition edges :: "(rect \<Rightarrow> int) \<Rightarrow> rect list \<Rightarrow> int set" where
  "edges edge rects = edge ` set rects"

definition left_edge :: "rect \<Rightarrow> int" where "left_edge r = fst r"
definition top_edge :: "rect \<Rightarrow> int" where "top_edge r = fst (snd r)"
definition right_edge :: "rect \<Rightarrow> int" where "right_edge r = fst r + fst (snd (snd r))"
definition bottom_edge :: "rect \<Rightarrow> int" where "bottom_edge r = fst (snd r) + snd (snd (snd r))"

lemmas edge_defs = edges_def left_edge_def top_edge_def right_edge_def bottom_edge_def

lemma foldl_merge:
  "list_all on_screen rects \<Longrightarrow> foldl merge_step (a, b, c, d) rects =
     (Min (insert a (edges left_edge rects)), Min (insert b (edges top_edge rects)),
      Max (insert c (edges right_edge rects)), Max (insert d (edges bottom_edge rects)))"
proof (induction rects arbitrary: a b c d)
  case Nil
  then show ?case by (simp add: edges_def)
next
  case (Cons r rects)
  obtain x y w h where r: "r = (x, y, w, h)" by (cases r)
  have "cint (x + w) = x + w" "cint (y + h) = y + h" using Cons.prems by (auto simp: r on_screen_def intro!: cint_id)
  then have "merge_step (a, b, c, d) r = (min a (left_edge r), min b (top_edge r), max c (right_edge r), max d (bottom_edge r))"
    by (simp add: r edge_defs Let_def min_def max_def)
  moreover have "Min (insert (min u v) S) = Min (insert u (insert v S))" "Max (insert (max u v) S) = Max (insert u (insert v S))"
    if "finite S" for u v :: int and S
    using that by (cases "S = {}"; simp add: min.assoc max.assoc)+
  moreover have "finite (edges e rects)" for e by (simp add: edges_def)
  ultimately show ?case using Cons by (simp add: edges_def)
qed

lemma merge_all_bounds:
  assumes "list_all on_screen rects" and "rects \<noteq> []"
  shows "merge_all rects = Inr (Min (edges left_edge rects), Min (edges top_edge rects),
    Max (edges right_edge rects) - Min (edges left_edge rects), Max (edges bottom_edge rects) - Min (edges top_edge rects))"
proof -
  obtain x y w h rs where rects: "rects = (x, y, w, h) # rs" using assms(2) by (cases rects) auto
  let ?l = "Min (edges left_edge rects)" and ?t = "Min (edges top_edge rects)"
  let ?r = "Max (edges right_edge rects)" and ?b = "Max (edges bottom_edge rects)"
  have first: "left_edge (x, y, w, h) = x" "top_edge (x, y, w, h) = y" "right_edge (x, y, w, h) = x + w" "bottom_edge (x, y, w, h) = y + h"
    by (simp_all add: edge_defs)
  have hd: "cint (x + w) = x + w" "cint (y + h) = y + h" using assms(1) by (auto simp: rects on_screen_def intro!: cint_id)
  have "insert (e (x, y, w, h)) (edges e rects) = edges e rects" for e by (auto simp: edges_def rects)
  then have fold: "foldl merge_step (x, y, cint (x + w), cint (y + h)) rects = (?l, ?t, ?r, ?b)"
    using foldl_merge [OF assms(1), of x y "x + w" "y + h"] first by (metis hd)
  have fin: "finite (edges e rects)" "edges e rects \<noteq> {}" for e by (simp_all add: edges_def rects)
  have mem: "left_edge (x, y, w, h) \<in> edges left_edge rects" "top_edge (x, y, w, h) \<in> edges top_edge rects"
    "right_edge (x, y, w, h) \<in> edges right_edge rects" "bottom_edge (x, y, w, h) \<in> edges bottom_edge rects"
    by (simp_all add: edges_def rects)
  have scr: "- (2 ^ 29) \<le> left_edge s" "- (2 ^ 29) \<le> top_edge s" "right_edge s \<le> 2 ^ 29" "bottom_edge s \<le> 2 ^ 29"
    "left_edge s \<le> right_edge s" "top_edge s \<le> bottom_edge s" if "s \<in> set rects" for s
    using that assms(1) by (cases s; auto simp: list_all_iff on_screen_def edge_defs)+
  have lo: "- (2 ^ 29) \<le> ?l" "- (2 ^ 29) \<le> ?t" and hi: "?r \<le> 2 ^ 29" "?b \<le> 2 ^ 29"
    using fin scr by (auto simp: edges_def)
  have "?l \<le> x" "?t \<le> y" "x + w \<le> ?r" "y + h \<le> ?b"
    using Min_le [OF fin(1) mem(1)] Min_le [OF fin(1) mem(2)] Max_ge [OF fin(1) mem(3)] Max_ge [OF fin(1) mem(4)]
    by (simp_all only: first)
  then have size: "0 \<le> ?r - ?l" "0 \<le> ?b - ?t" using assms(1) by (auto simp: rects on_screen_def)
  then have "cint (?r - ?l) = ?r - ?l" "cint (?b - ?t) = ?b - ?t" using lo hi by (simp_all add: cint_id)
  then have "merge_all rects = mk_rectangle ?l ?t (?r - ?l) (?b - ?t)"
    using fold by (simp add: merge_all_def rects del: foldl_Cons)
  then show ?thesis using size by (simp add: mk_rectangle_def)
qed

subsection \<open>Properties\<close>

text \<open>The updates of a list of regions, with fuel for the pixels of the rectangle.\<close>

datatype region_op = Add rect | Remove rect

fun apply_op :: "region_op \<Rightarrow> rect list \<Rightarrow> (py_error + rect list) option" where
  "apply_op (Add (x, y, w, h)) regions =
     map_option (map_sum id fst) (add_rectangle (Suc (nat w * nat h)) regions (x, y, w, h))"
| "apply_op (Remove r) regions = Some (remove_rectangle regions r)"

fun apply_ops :: "region_op list \<Rightarrow> rect list \<Rightarrow> (py_error + rect list) option" where
  "apply_ops [] regions = Some (Inr regions)"
| "apply_ops (u # us) regions =
     (case apply_op u regions of Some (Inr regions') \<Rightarrow> apply_ops us regions' | m \<Rightarrow> m)"

fun op_rect :: "region_op \<Rightarrow> rect" where
  "op_rect (Add r) = r"
| "op_rect (Remove r) = r"

text \<open>The abstract region: a set of pixels.\<close>

fun pixels_op :: "region_op \<Rightarrow> (int \<times> int) set \<Rightarrow> (int \<times> int) set" where
  "pixels_op (Add r) S = S \<union> points r"
| "pixels_op (Remove r) S = S - points r"

lemma apply_op_ok:
  assumes "regions_ok regions" and "on_screen (op_rect u)"
  obtains rs where "apply_op u regions = Some (Inr rs)" and "regions_ok rs" and "pixels rs = pixels_op u (pixels regions)"
proof (cases u)
  case (Add r)
  obtain x y w h where r: "r = (x, y, w, h)" by (cases r)
  have "grown regions (points r) 0 (add_rectangle (Suc (nat w * nat h)) regions r)"
    by (rule add_rectangle_grown) (use assms in \<open>simp_all add: Add r card_points del: points.simps\<close>)
  then obtain new n where "apply_op u regions = Some (Inr (regions @ new))" "regions_ok (regions @ new)"
      "pixels new = points r - pixels regions"
    by (auto simp: grown_def Add r)
  then show ?thesis using that [of "regions @ new"] by (simp add: Add)
next
  case (Remove r)
  then show ?thesis using remove_rectangle_ok [OF assms(1), of r] assms(2) that by auto
qed

text \<open>
  C17: a list of regions implements a set of pixels. Starting from no region, any sequence of
  additions and removals of rectangles on a screen succeeds; the regions then cover exactly the
  pixels added and not removed since, and no two of them overlap.
\<close>

theorem regions_implement_pixel_set:
  assumes "list_all (on_screen \<circ> op_rect) us"
  shows "\<exists>rs. apply_ops us [] = Some (Inr rs) \<and> pixels rs = fold pixels_op us {} \<and> apart rs"
proof -
  have "\<exists>rs. apply_ops us regions = Some (Inr rs) \<and> regions_ok rs \<and> pixels rs = fold pixels_op us (pixels regions)"
    if "regions_ok regions" "list_all (on_screen \<circ> op_rect) us" for us regions
    using that
  proof (induction us arbitrary: regions)
    case (Cons u us)
    obtain rs where "apply_op u regions = Some (Inr rs)" "regions_ok rs" "pixels rs = pixels_op u (pixels regions)"
      by (rule apply_op_ok [OF Cons.prems(1), of u]) (use Cons.prems(2) in auto)
    then show ?case using Cons.IH [of rs] Cons.prems(2) by simp
  qed simp
  from this [of "[]", OF _ assms] show ?thesis by (auto simp: regions_ok_def)
qed

theorem regions_implement_pixel_set_witness:
  "pixels [(1, 0, 1, 1), (0, 1, 2, 1), (2, 1, 1, 1), (1, 2, 2, 1)] = (points (0, 0, 2, 2) \<union> points (1, 1, 2, 2)) - points (0, 0, 1, 1)"
proof -
  let ?us = "[Add (0, 0, 2, 2), Add (1, 1, 2, 2), Remove (0, 0, 1, 1)]"
  have ok: "list_all (on_screen \<circ> op_rect) ?us" by (simp add: on_screen_def)
  have "apply_ops ?us [] = Some (Inr [(1, 0, 1, 1), (0, 1, 2, 1), (2, 1, 1, 1), (1, 2, 2, 1)])" by code_simp
  then show ?thesis using regions_implement_pixel_set [OF ok] by simp
qed

text \<open>
  \<^verbatim>\<open>add_rectangle\<close> returns the number of pixels it really added: those of the rectangle that
  no region covered.
\<close>

theorem add_rectangle_counts_new_pixels:
  assumes "regions_ok regions" and "on_screen region" and "card (points region) < fuel"
  shows "\<exists>rs. add_rectangle fuel regions region = Some (Inr (rs, int (card (pixels rs - pixels regions))))
    \<and> pixels rs = pixels regions \<union> points region"
proof -
  obtain new where new: "add_rectangle fuel regions region = Some (Inr (regions @ new, int (card (points region - pixels regions))))"
      "pixels new = points region - pixels regions"
    using add_rectangle_grown [OF assms] by (auto simp: grown_def)
  then have "pixels (regions @ new) - pixels regions = points region - pixels regions"
    "pixels (regions @ new) = pixels regions \<union> points region" by auto
  then show ?thesis using new(1) by metis
qed

theorem add_rectangle_counts_new_pixels_witness:
  "card (pixels [(0, 0, 2, 2), (2, 1, 1, 1), (1, 2, 2, 1)] - points (0, 0, 2, 2)) = 3"
proof -
  have ok: "regions_ok [(0, 0, 2, 2)]" "on_screen (1, 1, 2, 2)" by (simp_all add: regions_ok_def on_screen_def)
  have f: "card (points (1, 1, 2, 2)) < Suc (Suc (Suc (Suc (Suc 0))))" unfolding card_points by simp
  have "add_rectangle (Suc (Suc (Suc (Suc (Suc 0))))) [(0, 0, 2, 2)] (1, 1, 2, 2) =
      Some (Inr ([(0, 0, 2, 2), (2, 1, 1, 1), (1, 2, 2, 1)], 3))" by code_simp
  with add_rectangle_counts_new_pixels [OF ok f] have
    "3 = int (card (pixels [(0, 0, 2, 2), (2, 1, 1, 1), (1, 2, 2, 1)] - pixels [(0, 0, 2, 2)]))"
    by (simp only: option.inject sum.inject prod.inject) blast
  then show ?thesis by (simp del: points.simps)
qed

text \<open>
  \<^verbatim>\<open>merge_all\<close> is the bounding box: it starts at the smallest left and top edges of its
  rectangles and ends at the largest right and bottom edges. It raises only for no rectangle.
\<close>

theorem merge_all_is_bounding_box:
  assumes "list_all on_screen rects"
  shows "merge_all rects = (if rects = [] then Inl ValueError else
    Inr (Min (edges left_edge rects), Min (edges top_edge rects),
      Max (edges right_edge rects) - Min (edges left_edge rects), Max (edges bottom_edge rects) - Min (edges top_edge rects)))"
  using merge_all_bounds [OF assms] by (auto simp: merge_all_def)

theorem merge_all_is_bounding_box_witness: "merge_all [(0, 5, 2, 2), (-3, 7, 2, 10)] = Inr (-3, 5, 5, 12)"
proof -
  have "list_all on_screen [(0, 5, 2, 2), (-3, 7, 2, 10)]" by (simp add: on_screen_def)
  from merge_all_is_bounding_box [OF this] show ?thesis by (simp add: edge_defs)
qed

text \<open>The comparison operators are no order: two rectangles can each be less than the other.\<close>

theorem rectangle_less_both_ways:
  "rectangle_richcmp (0, 1, w, h) (1, 0, w, h) 0 = Inr True \<and> rectangle_richcmp (1, 0, w, h) (0, 1, w, h) 0 = Inr True"
  by simp

end
