(* ===== verification/Xsettings.thy ===== *)
theory Xsettings
  imports Typed_Dict Py_Struct
begin

text \<open>
  The desktop settings a client sends to its server and the server sets on the display: the
  XSETTINGS property (\<^verbatim>\<open>xpra/x11/subsystem/xsettings_prop.py\<close>). The module keeps the last parsed
  property in a global variable, which is passed and returned here. The host is little-endian.
  A position past the end of the data is the empty rest: both fail every check of \<^verbatim>\<open>req\<close>.
\<close>

subsection \<open>Parsing\<close>

definition LITTLE_ENDIAN :: nat where "LITTLE_ENDIAN = 0"

definition XSettingsInteger :: nat where "XSettingsInteger = 0"
definition XSettingsString :: nat where "XSettingsString = 1"
definition XSettingsColor :: nat where "XSettingsColor = 2"

type_synonym xcache = "int \<times> pval list"

definition XSETTINGS_CACHE :: xcache where "XSETTINGS_CACHE = (0, [])"

text \<open>\<^verbatim>\<open>(n + 0x3) & ~0x3\<close>\<close>

definition padded :: "nat \<Rightarrow> nat" where
  "padded n = 4 * ((n + 3) div 4)"

definition setting_of :: "nat \<Rightarrow> bytes \<Rightarrow> pval \<Rightarrow> nat \<Rightarrow> pval" where
  "setting_of setting_type prop_name v last_change_serial =
     PList [PInt (int setting_type), PBytes prop_name, v, PInt (int last_change_serial)]"

text \<open>The value of a setting: \<open>None\<close> for a type that is not known.\<close>

definition parse_value :: "nat \<Rightarrow> bytes \<Rightarrow> py_error + (pval \<times> bytes) option" where
  "parse_value setting_type b =
     (if setting_type = XSettingsInteger then
        (if length b < 4 then Inl ValueError else Inr (Some (PInt (int (le_val (take 4 b))), drop 4 b)))
      else if setting_type = XSettingsString then
        (if length b < 4 then Inl ValueError
         else let value_len = le_val (take 4 b); r = drop 4 b in
              if length r < value_len then Inl ValueError
              else Inr (Some (PBytes (take value_len r), drop (padded value_len) r)))
      else if setting_type = XSettingsColor then
        (if length b < 8 then Inl ValueError else Inr (Some (PList (unpack_ints 2 4 (take 8 b)), drop 8 b)))
      else Inr None)"

definition parse_setting :: "bytes \<Rightarrow> py_error + (pval \<times> bytes) option" where
  "parse_setting b =
     (if length b < 4 then Inl ValueError
      else
        let setting_type = unat (b ! 0); name_len = le_val (take 2 (drop 2 b)); r = drop 4 b;
            prop_name = take name_len r; r = drop (padded name_len) r in
        if length r < 4 then Inl ValueError
        else
          let last_change_serial = le_val (take 4 r) in
          map_sum id (map_option (map_prod (\<lambda>v. setting_of setting_type prop_name v last_change_serial) id))
            (parse_value setting_type (drop 4 r)))"

text \<open>The loop, for as many settings as are still missing.\<close>

primrec parse_settings :: "nat \<Rightarrow> bytes \<Rightarrow> py_error + pval list" where
  "parse_settings 0 b = Inr []"
| "parse_settings (Suc n) b =
     (case parse_setting b of
        Inl e \<Rightarrow> Inl e
      | Inr None \<Rightarrow> Inr []
      | Inr (Some (s, r)) \<Rightarrow> map_sum id (Cons s) (parse_settings n r))"

definition bytes_to_xsettings :: "xcache \<Rightarrow> bytes \<Rightarrow> xcache \<times> (py_error + pval)" where
  "bytes_to_xsettings cache d =
     (if length d < 12 then (cache, Inl AssertionError)
      else
        let serial = int (le_val (take 4 (drop 4 d))); n_settings = le_val (take 4 (drop 8 d)) in
        if fst cache = serial then (cache, Inr (PList [PInt (fst cache), PList (snd cache)]))
        else
          (case parse_settings n_settings (drop 12 d) of
             Inl e \<Rightarrow> (cache, Inl e)
           | Inr settings \<Rightarrow> ((serial, settings), Inr (PList [PInt serial, PList settings]))))"

subsection \<open>Printing\<close>

definition and_do :: "py_error + 'a \<Rightarrow> ('a \<Rightarrow> py_error + 'b) \<Rightarrow> py_error + 'b" where
  "and_do m g = (case m of Inl e \<Rightarrow> Inl e | Inr x \<Rightarrow> g x)"

definition with_padding :: "bytes \<Rightarrow> bytes" where
  "with_padding b = b @ replicate (padded (length b) - length b) 0"

text \<open>The body of the \<^verbatim>\<open>try\<close>: \<open>None\<close> is the \<^verbatim>\<open>continue\<close> of an unknown type.\<close>

definition value_bytes :: "(pval \<Rightarrow> string) \<Rightarrow> int \<Rightarrow> pval \<Rightarrow> py_error + bytes option" where
  "value_bytes rep setting_type v =
     (if setting_type = int XSettingsInteger then
        (case v of
           PInt _ \<Rightarrow> map_sum id Some (pack_int 4 v)
         | PBool _ \<Rightarrow> map_sum id Some (pack_int 4 v)
         | _ \<Rightarrow> Inl AssertionError)
      else if setting_type = int XSettingsString then
        (let b = strtobytes rep v in
         map_sum id (\<lambda>n. Some (n @ with_padding b)) (pack_int 4 (PInt (int (length b)))))
      else if setting_type = int XSettingsColor then
        and_do (py_list v) (\<lambda>vs. if length vs = 4 then map_sum id Some (struct_pack 2 vs) else Inl ValueError)
      else Inr None)"

definition setting_body :: "(pval \<Rightarrow> string) \<Rightarrow> pval \<Rightarrow> bytes \<Rightarrow> pval \<Rightarrow> pval \<Rightarrow> py_error + bytes option" where
  "setting_body rep setting_type prop_name v last_change_serial =
     and_do (pack_int 1 setting_type) (\<lambda>t.
     and_do (pack_int 2 (PInt (int (length prop_name)))) (\<lambda>n.
     and_do (pack_int 4 last_change_serial) (\<lambda>s.
     map_sum id (map_option (\<lambda>x. t @ [0] @ n @ with_padding prop_name @ s @ x))
       (value_bytes rep (int (le_val t)) v))))"

text \<open>
  A setting that cannot be printed is left out; one that is no sequence of four raises, and so does
  a type that cannot be looked up in \<^verbatim>\<open>XSettingsNames\<close> for the log.
\<close>

definition setting_bytes :: "(pval \<Rightarrow> string) \<Rightarrow> pval \<Rightarrow> py_error + bytes option" where
  "setting_bytes rep setting =
     and_do (py_list setting) (\<lambda>vs.
       (case vs of
          [setting_type, prop_name, v, last_change_serial] \<Rightarrow>
            if \<not> hashable setting_type then Inl TypeError
            else
              (case setting_body rep setting_type (strtobytes rep prop_name) v last_change_serial of
                 Inl _ \<Rightarrow> Inr None
               | Inr r \<Rightarrow> Inr r)
        | _ \<Rightarrow> Inl ValueError))"

definition xsettings_to_bytes :: "(pval \<Rightarrow> string) \<Rightarrow> pval list \<Rightarrow> py_error + bytes" where
  "xsettings_to_bytes rep d =
     (case d of
        [serial, settings] \<Rightarrow>
          and_do (py_list settings) (\<lambda>ss.
          and_do (map_sum id (List.map_filter (\<lambda>r. r)) (seq_results (map (setting_bytes rep) ss))) (\<lambda>all_bin_settings.
          and_do (pack_int 4 serial) (\<lambda>s.
          and_do (pack_int 4 (PInt (int (length all_bin_settings)))) (\<lambda>n.
            Inr ([of_nat LITTLE_ENDIAN, 0, 0, 0] @ s @ n @ concat all_bin_settings @ [0])))))
      | _ \<Rightarrow> Inl ValueError)"

subsection \<open>Settings that can be printed\<close>

fun xsetting_value_ok :: "nat \<Rightarrow> pval \<Rightarrow> bool" where
  "xsetting_value_ok t (PInt i) = (t = XSettingsInteger \<and> 0 \<le> i \<and> i < 256 ^ 4)"
| "xsetting_value_ok t (PBytes b) = (t = XSettingsString \<and> length b < 256 ^ 4)"
| "xsetting_value_ok t (PList [PInt r, PInt g, PInt b, PInt a]) =
     (t = XSettingsColor \<and> 0 \<le> r \<and> r < 256 ^ 2 \<and> 0 \<le> g \<and> g < 256 ^ 2 \<and> 0 \<le> b \<and> b < 256 ^ 2 \<and> 0 \<le> a \<and> a < 256 ^ 2)"
| "xsetting_value_ok t _ = False"

fun xsetting_ok :: "pval \<Rightarrow> bool" where
  "xsetting_ok (PList [PInt t, PBytes name, v, PInt last_serial]) =
     (0 \<le> t \<and> xsetting_value_ok (nat t) v \<and> length name < 256 ^ 2 \<and> 0 \<le> last_serial \<and> last_serial < 256 ^ 4)"
| "xsetting_ok _ = False"

lemma and_do_Inr [simp]: "and_do (Inr x) g = g x" and and_do_Inl [simp]: "and_do (Inl e) g = Inl e"
  by (simp_all add: and_do_def)

lemma padded_ge: "n \<le> padded n"
  unfolding padded_def by presburger

lemma length_with_padding [simp]: "length (with_padding b) = padded (length b)"
  using padded_ge [of "length b"] by (simp add: with_padding_def)

lemma take_with_padding [simp]: "take (length b) (with_padding b @ r) = b"
  by (simp add: with_padding_def)

lemma drop_with_padding [simp]: "drop (padded (length b)) (with_padding b @ r) = r"
  using length_with_padding [of b] by (metis append_eq_conv_conj)

lemma pack_int_ok: "0 \<le> i \<Longrightarrow> i < 256 ^ k \<Longrightarrow> pack_int k (PInt i) = Inr (le_bytes k (nat i))"
  by (simp add: pack_int_def)

lemma le_val_int:
  assumes "0 \<le> i" and "i < 256 ^ k"
  shows "int (le_val (le_bytes k (nat i))) = i"
proof -
  have "int (le_val (le_bytes k (nat i))) = int (nat i) mod 256 ^ k" by (simp add: le_val_le_bytes zmod_int)
  then show ?thesis using assms by simp
qed

lemma take_le_bytes [simp]: "take k (le_bytes k n @ r) = le_bytes k n" "drop k (le_bytes k n @ r) = r"
  by simp_all

lemma pack_four:
  assumes "0 \<le> a" "a < 256 ^ 2" "0 \<le> b" "b < 256 ^ 2" "0 \<le> c" "c < 256 ^ 2" "0 \<le> d" "d < 256 ^ 2"
  shows "struct_pack 2 [PInt a, PInt b, PInt c, PInt d] =
      Inr (le_bytes 2 (nat a) @ le_bytes 2 (nat b) @ le_bytes 2 (nat c) @ le_bytes 2 (nat d))"
  using assms by (simp add: struct_pack_def pack_int_def)

lemma unpack_step: "length x = k \<Longrightarrow> unpack_ints k (Suc n) (x @ r) = PInt (int (le_val x)) # unpack_ints k n r"
  by simp

lemma unpack_four:
  assumes "0 \<le> a" "a < 256 ^ 2" "0 \<le> b" "b < 256 ^ 2" "0 \<le> c" "c < 256 ^ 2" "0 \<le> d" "d < 256 ^ 2"
  shows "unpack_ints 2 4 (le_bytes 2 (nat a) @ le_bytes 2 (nat b) @ le_bytes 2 (nat c) @ le_bytes 2 (nat d)) =
      [PInt a, PInt b, PInt c, PInt d]"
proof -
  have "unpack_ints 2 (Suc (Suc (Suc (Suc 0))))
      (le_bytes 2 (nat a) @ le_bytes 2 (nat b) @ le_bytes 2 (nat c) @ le_bytes 2 (nat d) @ []) = [PInt a, PInt b, PInt c, PInt d]"
    by (simp only: unpack_step length_le_bytes le_val_int [OF assms(1,2)] le_val_int [OF assms(3,4)] le_val_int [OF assms(5,6)]
        le_val_int [OF assms(7,8)] unpack_ints.simps(1))
  then show ?thesis by (simp only: append_Nil2 eval_nat_numeral One_nat_def BitM.simps)
qed

lemma value_roundtrip:
  assumes "xsetting_value_ok t v"
  shows "\<exists>x. value_bytes rep (int t) v = Inr (Some x) \<and> (\<forall>r. parse_value t (x @ r) = Inr (Some (v, r)))"
  using assms
proof (cases "(t, v)" rule: xsetting_value_ok.cases)
  case (1 t i)
  then show ?thesis using assms le_val_int [of i 4]
    by (auto simp: value_bytes_def parse_value_def pack_int_ok XSettingsInteger_def simp del: take_append drop_append)
next
  case (2 t b)
  then have "length b < 256 ^ 4" "t = XSettingsString" using assms by auto
  moreover have "le_val (le_bytes 4 (length b)) = length b" using \<open>length b < 256 ^ 4\<close> by (simp add: le_val_le_bytes)
  ultimately show ?thesis using 2 padded_ge [of "length b"]
    by (auto simp: value_bytes_def parse_value_def pack_int_def strtobytes_def Let_def XSettingsInteger_def XSettingsString_def
        simp del: take_append drop_append)
next
  case (3 t r g b a)
  let ?x = "le_bytes 2 (nat r) @ le_bytes 2 (nat g) @ le_bytes 2 (nat b) @ le_bytes 2 (nat a)"
  have ok: "0 \<le> r" "r < 256 ^ 2" "0 \<le> g" "g < 256 ^ 2" "0 \<le> b" "b < 256 ^ 2" "0 \<le> a" "a < 256 ^ 2" and t: "t = XSettingsColor"
    using assms 3 by auto
  have "value_bytes rep (int XSettingsColor) (PList [PInt r, PInt g, PInt b, PInt a]) = Inr (Some ?x)"
    using pack_four [OF ok] by (simp add: value_bytes_def XSettingsInteger_def XSettingsString_def XSettingsColor_def py_list_def py_sequence_def)
  moreover have "parse_value XSettingsColor (?x @ q) = Inr (Some (PList [PInt r, PInt g, PInt b, PInt a], q))" for q
  proof -
    have "length ?x = 8" by simp
    then have "take 8 (?x @ q) = ?x" "drop 8 (?x @ q) = q" by (metis append_eq_conv_conj)+
    then show ?thesis using unpack_four [OF ok]
      by (simp add: parse_value_def XSettingsInteger_def XSettingsString_def XSettingsColor_def del: take_append drop_append)
  qed
  ultimately show ?thesis using 3 t by auto
qed auto

lemma xsetting_okE:
  assumes "xsetting_ok s"
  obtains t name v last_serial where "s = PList [PInt (int t), PBytes name, v, PInt last_serial]" and "xsetting_value_ok t v"
    and "length name < 256 ^ 2" and "0 \<le> last_serial" and "last_serial < 256 ^ 4"
  using assms by (cases s rule: xsetting_ok.cases) (auto intro: that [of "nat _"])

lemma value_type_small: "xsetting_value_ok t v \<Longrightarrow> t < 3"
  by (cases "(t, v)" rule: xsetting_value_ok.cases) (auto simp: XSettingsInteger_def XSettingsString_def XSettingsColor_def)

lemma setting_roundtrip:
  assumes "xsetting_ok s"
  shows "\<exists>b. setting_bytes rep s = Inr (Some b) \<and> (\<forall>r. parse_setting (b @ r) = Inr (Some (s, r)))"
proof -
  obtain t name v ls where s: "s = PList [PInt (int t), PBytes name, v, PInt ls]" and v: "xsetting_value_ok t v"
    and len: "length name < 256 ^ 2" and ls: "0 \<le> ls" "ls < 256 ^ 4"
    by (rule xsetting_okE [OF assms])
  obtain x where x: "value_bytes rep (int t) v = Inr (Some x)" "\<And>r. parse_value t (x @ r) = Inr (Some (v, r))"
    using value_roundtrip [OF v] by blast
  have t: "t < 3" by (rule value_type_small [OF v])
  have one: "le_bytes 1 t = [of_nat t]" by simp
  let ?n = "le_bytes 2 (length name)" and ?s = "le_bytes 4 (nat ls)"
  define b where "b = of_nat t # 0 # ?n @ with_padding name @ ?s @ x"
  have vals: "le_val ?n = length name" "le_val ?s = nat ls" "le_val [of_nat t] = t"
    using len ls t by (simp_all add: le_val_le_bytes nat_less_iff)
  have "setting_body rep (PInt (int t)) name v (PInt ls) = Inr (Some b)"
    using x(1) t len ls vals(3) one by (simp add: setting_body_def pack_int_def b_def)
  then have "setting_bytes rep s = Inr (Some b)"
    by (simp add: setting_bytes_def s py_list_def py_sequence_def strtobytes_def)
  moreover have "parse_setting (b @ r) = Inr (Some (s, r))" for r
  proof -
    have two: "drop 2 (b @ r) = ?n @ with_padding name @ ?s @ x @ r" by (simp add: b_def)
    then have "drop 2 (drop 2 (b @ r)) = with_padding name @ ?s @ x @ r" by simp
    then have four: "drop 4 (b @ r) = with_padding name @ ?s @ x @ r" by (simp del: drop_append)
    have "take 2 (drop 2 (b @ r)) = ?n" "unat ((b @ r) ! 0) = t" "\<not> length (b @ r) < 4"
      using t by (simp_all add: two) (simp_all add: b_def)
    note four = four this
    have rest: "\<not> length (?s @ x @ r) < 4" "take 4 (?s @ x @ r) = ?s" "drop 4 (?s @ x @ r) = x @ r" by simp_all
    show ?thesis
      using ls by (simp only: parse_setting_def Let_def four vals if_False take_with_padding drop_with_padding rest x(2))
        (simp add: setting_of_def s)
  qed
  ultimately show ?thesis by blast
qed

lemma settings_roundtrip:
  "list_all xsetting_ok ss \<Longrightarrow> \<exists>bs. seq_results (map (setting_bytes rep) ss) = Inr (map Some bs)
     \<and> (\<forall>r. parse_settings (length ss) (concat bs @ r) = Inr ss)"
proof (induction ss)
  case (Cons s ss)
  obtain b where b: "setting_bytes rep s = Inr (Some b)" "\<And>r. parse_setting (b @ r) = Inr (Some (s, r))"
    using setting_roundtrip [of s rep] Cons.prems by auto
  obtain bs where bs: "seq_results (map (setting_bytes rep) ss) = Inr (map Some bs)"
      "\<And>r. parse_settings (length ss) (concat bs @ r) = Inr ss"
    using Cons by auto
  show ?case by (rule exI [of _ "b # bs"]) (simp add: b bs)
qed (auto intro: exI [of _ "[]"])

subsection \<open>Properties\<close>

lemma xsettings_header:
  assumes "0 \<le> s" and "s < 256 ^ 4" and "n < 256 ^ 4" and "d = [0, 0, 0, 0] @ le_bytes 4 (nat s) @ le_bytes 4 n @ body"
  shows "\<not> length d < 12" and "int (le_val (take 4 (drop 4 d))) = s" and "le_val (take 4 (drop 8 d)) = n" and "drop 12 d = body"
proof -
  have d: "drop 4 d = le_bytes 4 (nat s) @ le_bytes 4 n @ body" by (simp add: assms(4))
  then have "drop 4 (drop 4 d) = le_bytes 4 n @ body" by simp
  then have e: "drop 8 d = le_bytes 4 n @ body" by simp
  then have "drop 4 (drop 8 d) = body" by simp
  then show "drop 12 d = body" by simp
  show "int (le_val (take 4 (drop 4 d))) = s" by (simp only: d take_le_bytes le_val_int [OF assms(1,2)])
  show "le_val (take 4 (drop 8 d)) = n" using assms(3) by (simp only: e take_le_bytes) (simp add: le_val_le_bytes)
  show "\<not> length d < 12" by (simp add: assms(4))
qed

text \<open>
  C38: settings of the three types, printed for the X11 property and parsed again, come back
  unchanged with their serial and become the cached value, unless the cache already holds that
  serial.
\<close>

theorem xsettings_roundtrip:
  assumes "list_all xsetting_ok ss" and "0 \<le> s" and "s < 256 ^ 4" and "length ss < 256 ^ 4" and "fst cache \<noteq> s"
  shows "\<exists>d. xsettings_to_bytes rep [PInt s, PList ss] = Inr d
    \<and> bytes_to_xsettings cache d = ((s, ss), Inr (PList [PInt s, PList ss]))"
proof -
  obtain bs where bs: "seq_results (map (setting_bytes rep) ss) = Inr (map Some bs)"
      "\<And>r. parse_settings (length ss) (concat bs @ r) = Inr ss"
    using settings_roundtrip [OF assms(1), of rep] by auto
  have len: "length bs = length ss" using bs(1) by (metis length_map list_all2_lengthD seq_results_Inr)
  have some: "List.map_filter (\<lambda>r. r) (map Some bs) = bs" by (simp add: List.map_filter_def comp_def)
  let ?d = "[0, 0, 0, 0] @ le_bytes 4 (nat s) @ le_bytes 4 (length ss) @ concat bs @ [0]"
  have "xsettings_to_bytes rep [PInt s, PList ss] = Inr ?d"
    using assms(2-4) bs(1) some len
    by (simp add: xsettings_to_bytes_def py_list_def py_sequence_def pack_int_def LITTLE_ENDIAN_def)
  moreover have "bytes_to_xsettings cache ?d = ((s, ss), Inr (PList [PInt s, PList ss]))"
    using assms(5) bs(2) by (simp only: bytes_to_xsettings_def Let_def xsettings_header [OF assms(2,3,4) refl]) simp
  ultimately show ?thesis by blast
qed

theorem xsettings_roundtrip_witness:
  "\<exists>d. xsettings_to_bytes (\<lambda>v. ''x'') [PInt 7, PList [PList [PInt 0, PBytes [65], PInt 3, PInt 1], PList [PInt 1, PBytes [66], PBytes [67, 68], PInt 2]]] = Inr d
    \<and> fst (fst (bytes_to_xsettings XSETTINGS_CACHE d)) = 7"
proof -
  let ?ss = "[PList [PInt 0, PBytes [65], PInt 3, PInt 1], PList [PInt 1, PBytes [66], PBytes [67, 68], PInt 2]]"
  have ok: "list_all xsetting_ok ?ss" by (simp add: XSettingsInteger_def XSettingsString_def)
  have "fst XSETTINGS_CACHE \<noteq> 7" by (simp add: XSETTINGS_CACHE_def)
  from xsettings_roundtrip [OF ok _ _ _ this, of "\<lambda>v. ''x''"] show ?thesis by fastforce
qed

text \<open>
  The cache is keyed on the serial alone: another property with the same serial is not read, and
  before anything was read a property with serial zero has no settings.
\<close>

theorem xsettings_cache_hides_changes:
  assumes "12 \<le> length d" and "int (le_val (take 4 (drop 4 d))) = s"
  shows "bytes_to_xsettings (s, old) d = ((s, old), Inr (PList [PInt s, PList old]))"
  using assms by (simp add: bytes_to_xsettings_def)

corollary xsettings_serial_zero_empty:
  assumes "12 \<le> length d" and "take 4 (drop 4 d) = [0, 0, 0, 0]"
  shows "bytes_to_xsettings XSETTINGS_CACHE d = (XSETTINGS_CACHE, Inr (PList [PInt 0, PList []]))"
  using xsettings_cache_hides_changes [of d 0 "[]"] assms by (simp add: XSETTINGS_CACHE_def)

end
