(* ===== verification/File_Transfer.thy ===== *)
theory File_Transfer
  imports File_Paths Typed_Dict Proto_Encode
begin

text \<open>
  \<^verbatim>\<open>FileTransferHandler\<close> of \<^verbatim>\<open>xpra/net/file_transfer.py\<close>: sending and receiving files, whole or in
  acknowledged chunks, and asking for permission first. One record holds the attributes of the
  handler and the part of the operating system it acts on: files, descriptors and GLib timers.
  Packets sent are appended to \<open>ft_out\<close>, other effects to \<open>ft_events\<close>. Printing and running the
  command that opens a file are events; times are not modelled.
\<close>

subsection \<open>The environment\<close>

datatype ft_msg =
    MsgNotFound string | MsgChunkMismatch | MsgWriteFailed | MsgTooMuchData | MsgChecksum
  | MsgSizeMismatch int nat | MsgTooManyFiles nat | MsgSaveFailed | MsgNoData | MsgCancelled string

text \<open>
  \<open>fe_write\<close> is what the n-th \<^verbatim>\<open>os.write\<close> of so many bytes does: the number it wrote, or an
  \<^verbatim>\<open>OSError\<close>. \<open>fe_hash\<close> is the hexadecimal digest of \<^verbatim>\<open>hashlib\<close>, \<open>fe_wrap\<close> the subclass's
  \<^verbatim>\<open>compressed_wrapper\<close>, \<open>fe_msg\<close> the texts of the messages.
\<close>

record fenv =
  fe_rep :: "pval \<Rightarrow> string"
  fe_msg :: "ft_msg \<Rightarrow> string"
  fe_download_dir :: string
  fe_open_fails :: "string \<Rightarrow> bool"
  fe_write :: "nat \<Rightarrow> nat \<Rightarrow> nat option"
  fe_hash :: "string \<Rightarrow> bytes \<Rightarrow> string"
  fe_uuid :: "nat \<Rightarrow> string"
  fe_wrap :: "string \<Rightarrow> bytes \<Rightarrow> py_error + compressed"

definition FILE_CHUNKS_SIZE :: nat where "FILE_CHUNKS_SIZE = 65536"
definition MAX_CONCURRENT_FILES :: nat where "MAX_CONCURRENT_FILES = 10"
definition DENY :: int where "DENY = 0"
definition ACCEPT :: int where "ACCEPT = 1"
definition OPEN :: int where "OPEN = 2"

subsection \<open>The state\<close>

record recv_chunk =
  rc_fd :: nat
  rc_filename :: string
  rc_mimetype :: string
  rc_printit :: bool
  rc_openit :: bool
  rc_filesize :: nat
  rc_options :: pdict
  rc_digest :: "(string \<times> bytes) option"
  rc_written :: nat
  rc_cancelled :: bool
  rc_send_id :: string
  rc_timer :: nat
  rc_chunk :: nat

record send_chunk =
  sc_data :: bytes
  sc_chunk_size :: nat
  sc_timer :: nat
  sc_chunk :: nat

record pending =
  pd_datatype :: string
  pd_url :: string
  pd_mimetype :: string
  pd_data :: bytes
  pd_filesize :: nat
  pd_printit :: bool
  pd_openit :: bool
  pd_options :: pdict

datatype timer_cb =
    CheckReceiving string nat | CheckSending string nat | CleanReceive string | AskTimeout string

datatype ft_event =
    Progress bool string int nat "string option"
  | RequestCallback string string nat
  | ProcessThread string string bool bool nat pdict
  | OpenFile string
  | OpenUrl string
  | PrintFile string string pdict

record ft =
  ft_file_transfer :: bool
  ft_file_transfer_ask :: bool
  ft_size_limit :: nat
  ft_file_chunks :: nat
  ft_printing :: bool
  ft_printing_ask :: bool
  ft_open_files :: bool
  ft_open_files_ask :: bool
  ft_open_url :: bool
  ft_open_url_ask :: bool
  ft_requested :: "(string \<times> bool) list"
  ft_accepted :: "(string \<times> bool) list"
  ft_callbacks :: "string list"
  fr_file_transfer :: bool
  fr_file_transfer_ask :: bool
  fr_printing :: bool
  fr_printing_ask :: bool
  fr_open_files :: bool
  fr_open_files_ask :: bool
  fr_open_url :: bool
  fr_open_url_ask :: bool
  fr_ask_timeout :: int
  fr_size_limit :: int
  fr_chunks :: nat
  ft_pending :: "(string \<times> pending) list"
  ft_pending_timers :: "(string \<times> nat) list"
  ft_sending :: "(string \<times> send_chunk) list"
  ft_receiving :: "(string \<times> recv_chunk) list"
  ft_fds :: "nat list"
  ft_files :: "(string \<times> nat) list"
  ft_dirs :: "string list"
  ft_data :: "nat \<Rightarrow> bytes"
  ft_next_inode :: nat
  ft_open :: "(nat \<times> nat) list"
  ft_writes :: nat
  ft_timers :: "(nat \<times> timer_cb) list"
  ft_next_timer :: nat
  ft_uuids :: nat
  ft_out :: "item list list"
  ft_events :: "ft_event list"

text \<open>A handler ends with an exception or without; its effects up to then remain.\<close>

type_synonym fres = "py_error option \<times> ft"

definition andthen :: "fres \<Rightarrow> (ft \<Rightarrow> fres) \<Rightarrow> fres" where
  "andthen r f = (case r of (Some e, s) \<Rightarrow> (Some e, s) | (None, s) \<Rightarrow> f s)"

definition with_arg :: "py_error + 'a \<Rightarrow> ft \<Rightarrow> ('a \<Rightarrow> fres) \<Rightarrow> fres" where
  "with_arg r s f = (case r of Inl e \<Rightarrow> (Some e, s) | Inr a \<Rightarrow> f a)"

lemma with_arg_simps [simp]: "with_arg (Inr a) s f = f a" "with_arg (Inl e) s f = (Some e, s)"
  by (simp_all add: with_arg_def)

lemma andthen_simps [simp]: "andthen (None, s) f = f s" "andthen (Some e, s) f = (Some e, s)"
  by (simp_all add: andthen_def)

subsection \<open>The operating system\<close>

definition ft_send :: "item list \<Rightarrow> ft \<Rightarrow> ft" where
  "ft_send packet s = s\<lparr>ft_out := ft_out s @ [packet]\<rparr>"

definition ft_emit :: "ft_event \<Rightarrow> ft \<Rightarrow> ft" where
  "ft_emit e s = s\<lparr>ft_events := ft_events s @ [e]\<rparr>"

definition timeout_add :: "timer_cb \<Rightarrow> ft \<Rightarrow> nat \<times> ft" where
  "timeout_add cb s = (ft_next_timer s, s\<lparr>ft_next_timer := Suc (ft_next_timer s), ft_timers := ft_timers s @ [(ft_next_timer s, cb)]\<rparr>)"

definition source_remove :: "nat \<Rightarrow> ft \<Rightarrow> ft" where
  "source_remove i s = s\<lparr>ft_timers := dict_pop i (ft_timers s)\<rparr>"

text \<open>POSIX gives the lowest descriptor that is not in use; the first three are the standard streams.\<close>

definition lowest_fd :: "nat list \<Rightarrow> nat" where
  "lowest_fd used = hd (filter (\<lambda>n. n \<notin> set used) [3..<4 + length used])"

definition os_open :: "fenv \<Rightarrow> string \<Rightarrow> ft \<Rightarrow> py_error + (nat \<times> ft)" where
  "os_open E filename s =
     (if fe_open_fails E filename then Inl OSError
      else
        let fd = lowest_fd (map fst (ft_open s)); ino = ft_next_inode s in
        Inr (fd, s\<lparr>ft_next_inode := Suc ino, ft_files := dict_set filename ino (ft_files s),
                   ft_data := (ft_data s)(ino := []), ft_open := dict_set fd ino (ft_open s)\<rparr>))"

definition os_write :: "fenv \<Rightarrow> nat \<Rightarrow> bytes \<Rightarrow> ft \<Rightarrow> fres" where
  "os_write E fd d s =
     (case map_of (ft_open s) fd of
        None \<Rightarrow> (Some OSError, s)
      | Some ino \<Rightarrow>
          let s' = s\<lparr>ft_writes := Suc (ft_writes s)\<rparr> in
          (case fe_write E (ft_writes s) (length d) of
             None \<Rightarrow> (Some OSError, s')
           | Some n \<Rightarrow> (None, s'\<lparr>ft_data := (ft_data s)(ino := ft_data s ino @ take n d)\<rparr>)))"

definition osclose :: "nat \<Rightarrow> ft \<Rightarrow> ft" where
  "osclose fd s = (if fd = 0 then s else s\<lparr>ft_open := dict_pop fd (ft_open s)\<rparr>)"

text \<open>\<^verbatim>\<open>os.unlink\<close>, whose failure is always caught.\<close>

definition unlink :: "string \<Rightarrow> ft \<Rightarrow> ft" where
  "unlink filename s = s\<lparr>ft_files := dict_pop filename (ft_files s)\<rparr>"

definition safe_open_download_file :: "fenv \<Rightarrow> string \<Rightarrow> string \<Rightarrow> ft \<Rightarrow> py_error + (string \<times> nat \<times> ft)" where
  "safe_open_download_file E basefilename mimetype s =
     (case download_path (map fst (ft_files s) @ ft_dirs s) (fe_download_dir E) basefilename mimetype of
        None \<Rightarrow> Inl OtherError
      | Some filename \<Rightarrow>
          (case os_open E filename s of Inl e \<Rightarrow> Inl e | Inr (fd, s') \<Rightarrow> Inr (filename, fd, s')))"

subsection \<open>Receiving\<close>

definition str_item :: "string \<Rightarrow> item" where "str_item t = Value (PStr t)"
definition bool_item :: "bool \<Rightarrow> item" where "bool_item b = Value (PBool b)"
definition int_item :: "int \<Rightarrow> item" where "int_item i = Value (PInt i)"

definition ack_packet :: "string \<Rightarrow> bool \<Rightarrow> pval \<Rightarrow> nat \<Rightarrow> item list" where
  "ack_packet chunk_id ok message chunk =
     [str_item ''ack-file-chunk'', str_item chunk_id, bool_item ok, Value message, int_item (int chunk)]"

definition check_chunk_receiving :: "string \<Rightarrow> nat \<Rightarrow> ft \<Rightarrow> ft" where
  "check_chunk_receiving chunk_id chunk_no s =
     (case map_of (ft_receiving s) chunk_id of
        None \<Rightarrow> s
      | Some c \<Rightarrow>
          if rc_cancelled c then s
          else if rc_chunk c = chunk_no then s\<lparr>ft_receiving := dict_pop chunk_id (ft_receiving s)\<rparr>
          else s\<lparr>ft_receiving := dict_set chunk_id (c\<lparr>rc_timer := 0\<rparr>) (ft_receiving s)\<rparr>)"

definition cancel_file :: "string \<Rightarrow> string \<Rightarrow> nat \<Rightarrow> ft \<Rightarrow> ft" where
  "cancel_file chunk_id message chunk s =
     (let s' = (case map_of (ft_receiving s) chunk_id of
          None \<Rightarrow> s
        | Some c \<Rightarrow>
            let s1 = s\<lparr>ft_receiving := dict_set chunk_id (c\<lparr>rc_cancelled := True, rc_timer := 0\<rparr>) (ft_receiving s)\<rparr>;
                s2 = (if rc_timer c \<noteq> 0 then source_remove (rc_timer c) s1 else s1);
                s3 = osclose (rc_fd c) s2
            in unlink (rc_filename c) (snd (timeout_add (CleanReceive chunk_id) s3)))
      in ft_send (ack_packet chunk_id False (PStr message) chunk) s')"

definition cancel_download :: "fenv \<Rightarrow> string \<Rightarrow> string \<Rightarrow> ft \<Rightarrow> ft" where
  "cancel_download E send_id message s =
     (case find (\<lambda>(_, c). rc_send_id c = send_id) (ft_receiving s) of
        Some (chunk_id, _) \<Rightarrow> cancel_file chunk_id message 0 s
      | None \<Rightarrow> s)"

definition recv_progress :: "recv_chunk option \<Rightarrow> int \<Rightarrow> string \<Rightarrow> ft \<Rightarrow> fres" where
  "recv_progress st position err s =
     (case st of
        None \<Rightarrow> (Some AttributeError, s)
      | Some c \<Rightarrow> (None, ft_emit (Progress False (rc_send_id c) position (rc_filesize c) (Some err)) s))"

text \<open>The local function \<^verbatim>\<open>error\<close> of \<^verbatim>\<open>_process_send_file_chunk\<close>.\<close>

definition chunk_error :: "fenv \<Rightarrow> string \<Rightarrow> nat \<Rightarrow> recv_chunk option \<Rightarrow> ft_msg \<Rightarrow> ft \<Rightarrow> fres" where
  "chunk_error E chunk_id chunk st m s =
     (let s1 = cancel_file chunk_id (fe_msg E m) chunk s;
          s2 = (case st of None \<Rightarrow> s1
                | Some c \<Rightarrow> let s1' = osclose (rc_fd c) s1 in if rc_filename c \<noteq> [] then unlink (rc_filename c) s1' else s1')
      in recv_progress st (-1) (fe_msg E m) s2)"

text \<open>\<^verbatim>\<open>len(v)\<close> of the file data of a packet, and writing it: only bytes can be written.\<close>

definition has_len :: "pval \<Rightarrow> bool" where
  "has_len v = (pval_len v \<noteq> None)"

definition write_chunk :: "fenv \<Rightarrow> string \<Rightarrow> recv_chunk \<Rightarrow> nat \<Rightarrow> pval \<Rightarrow> ft \<Rightarrow> (py_error option \<times> recv_chunk) \<times> ft" where
  "write_chunk E chunk_id c chunk file_data s =
     (let c1 = c\<lparr>rc_chunk := chunk\<rparr>; s1 = s\<lparr>ft_receiving := dict_set chunk_id c1 (ft_receiving s)\<rparr> in
      case file_data of
        PBytes d \<Rightarrow>
          (case os_write E (rc_fd c) d s1 of
             (Some e, s2) \<Rightarrow> ((Some e, c1), s2)
           | (None, s2) \<Rightarrow>
               let c2 = c1\<lparr>rc_digest := map_option (\<lambda>(h, acc). (h, acc @ d)) (rc_digest c1),
                           rc_written := rc_written c1 + length d\<rparr>
               in ((None, c2), s2\<lparr>ft_receiving := dict_set chunk_id c2 (ft_receiving s2)\<rparr>))
      | _ \<Rightarrow> ((Some TypeError, c1), s1))"

definition process_downloaded_file :: "fenv \<Rightarrow> string \<Rightarrow> string \<Rightarrow> bool \<Rightarrow> bool \<Rightarrow> nat \<Rightarrow> pdict \<Rightarrow> ft \<Rightarrow> fres" where
  "process_downloaded_file E filename mimetype printit openit filesize options s =
     with_arg (tupleget (fe_rep E) options ''request-file'' [] AnyItem None None) s (\<lambda>rf.
       let go = (if printit \<or> openit
                 then (None, ft_emit (ProcessThread filename mimetype printit openit filesize options) s)
                 else (None, s)) in
       case rf of
         argf # _ # _ \<Rightarrow>
           (case argf of
              PStr a \<Rightarrow>
                if a \<in> set (ft_callbacks s)
                then (None, ft_emit (RequestCallback a filename filesize) (s\<lparr>ft_callbacks := removeAll a (ft_callbacks s)\<rparr>))
                else go
            | PList _ \<Rightarrow> (Some TypeError, s)
            | PDict _ \<Rightarrow> (Some TypeError, s)
            | _ \<Rightarrow> go)
       | _ \<Rightarrow> go)"

definition do_process_downloaded_file :: "string \<Rightarrow> string \<Rightarrow> bool \<Rightarrow> bool \<Rightarrow> pdict \<Rightarrow> ft \<Rightarrow> ft" where
  "do_process_downloaded_file filename mimetype printit openit options s =
     (if printit then ft_emit (PrintFile filename mimetype options) s
      else if openit \<and> ft_open_files s then ft_emit (OpenFile filename) s
      else s)"

text \<open>The last chunk has been written: the transfer is closed, and its size and digest checked.\<close>

definition chunks_complete :: "fenv \<Rightarrow> string \<Rightarrow> nat \<Rightarrow> recv_chunk \<Rightarrow> ft \<Rightarrow> fres" where
  "chunks_complete E chunk_id chunk c s =
     (let s1 = osclose (rc_fd c) (s\<lparr>ft_receiving := dict_pop chunk_id (ft_receiving s)\<rparr>);
          bad_digest = (case rc_digest c of
             None \<Rightarrow> False
           | Some (h, acc) \<Rightarrow>
               let expected = strget (fe_rep E) (rc_options c) h '''' in expected \<noteq> '''' \<and> fe_hash E h acc \<noteq> expected)
      in if bad_digest then chunk_error E chunk_id chunk (Some c) MsgChecksum s1
         else if rc_written c \<noteq> rc_filesize c
         then chunk_error E chunk_id chunk (Some c) (MsgSizeMismatch (int (rc_filesize c)) (rc_written c)) s1
         else andthen (recv_progress (Some c) (int (rc_written c)) '''' s1) (\<lambda>s2.
           process_downloaded_file E (rc_filename c) (rc_mimetype c) (rc_printit c) (rc_openit c) (rc_filesize c) (rc_options c) s2))"

definition chunk_received :: "fenv \<Rightarrow> string \<Rightarrow> nat \<Rightarrow> pval \<Rightarrow> bool \<Rightarrow> ft \<Rightarrow> fres" where
  "chunk_received E chunk_id chunk file_data has_more s =
     (case map_of (ft_receiving s) chunk_id of
        None \<Rightarrow> chunk_error E chunk_id chunk None (MsgNotFound chunk_id) s
      | Some c \<Rightarrow>
          if rc_cancelled c then (None, s)
          else if rc_chunk c + 1 \<noteq> chunk then chunk_error E chunk_id chunk (Some c) MsgChunkMismatch s
          else
            (case write_chunk E chunk_id c chunk file_data s of
               ((Some e, c1), s1) \<Rightarrow>
                 if e = OSError then chunk_error E chunk_id chunk (Some c1) MsgWriteFailed s1 else (Some e, s1)
             | ((None, c1), s1) \<Rightarrow>
                 if rc_written c1 > rc_filesize c1 then chunk_error E chunk_id chunk (Some c1) MsgTooMuchData s1
                 else
                   let s2 = ft_send (ack_packet chunk_id True (PStr '''') chunk) s1 in
                   if has_more then
                     andthen (recv_progress (Some c1) (int (rc_written c1)) '''' s2) (\<lambda>s3.
                       let s4 = (if rc_timer c1 \<noteq> 0 then source_remove (rc_timer c1) s3 else s3);
                           (timer, s5) = timeout_add (CheckReceiving chunk_id chunk) s4
                       in (None, s5\<lparr>ft_receiving := dict_set chunk_id (c1\<lparr>rc_timer := timer\<rparr>) (ft_receiving s5)\<rparr>))
                   else chunks_complete E chunk_id chunk c1 s2))"

definition process_send_file_chunk :: "fenv \<Rightarrow> packet \<Rightarrow> ft \<Rightarrow> fres" where
  "process_send_file_chunk E p s =
     with_arg (get_str (fe_rep E) p 1) s (\<lambda>chunk_id.
     with_arg (get_u32 p 2) s (\<lambda>chunk.
     with_arg (pkt_get p 3) s (\<lambda>file_data.
     with_arg (get_bool p 4) s (\<lambda>has_more.
       if \<not> has_len file_data then (Some TypeError, s)
       else chunk_received E chunk_id (nat chunk) file_data has_more s))))"

definition accept_data :: "string \<Rightarrow> bool \<Rightarrow> bool \<Rightarrow> ft \<Rightarrow> (bool \<times> bool \<times> bool) \<times> ft" where
  "accept_data send_id printit openit s =
     (let s' = s\<lparr>ft_accepted := dict_pop send_id (ft_accepted s)\<rparr> in
      case map_of (ft_accepted s) send_id of
        Some req \<Rightarrow> ((True, False, req), s')
      | None \<Rightarrow>
          if \<not> printit \<and> (\<not> ft_file_transfer s \<or> ft_file_transfer_ask s) then ((False, False, False), s')
          else
            ((True, printit \<and> ft_printing s \<and> \<not> ft_printing_ask s, openit \<and> ft_open_files s \<and> \<not> ft_open_files_ask s), s'))"

definition find_digest :: "fenv \<Rightarrow> pdict \<Rightarrow> (string \<times> bytes) option" where
  "find_digest E options =
     map_option (\<lambda>h. (h, [])) (find (\<lambda>h. strget (fe_rep E) options h '''' \<noteq> '''')
       [''sha512'', ''sha384'', ''sha256'', ''sha224'', ''sha1''])"

text \<open>The local function \<^verbatim>\<open>error\<close> of \<^verbatim>\<open>_process_send_file\<close>, once the file is open.\<close>

definition file_error :: "fenv \<Rightarrow> string \<Rightarrow> nat \<Rightarrow> ft_msg \<Rightarrow> ft \<Rightarrow> ft" where
  "file_error E chunk_id fd m s =
     (let s1 = (if chunk_id \<noteq> '''' then cancel_file chunk_id (fe_msg E m) 0 s else s) in
      if fd \<noteq> 0 \<and> map_of (ft_open s1) fd \<noteq> None
      then (osclose fd s1)\<lparr>ft_fds := removeAll fd (ft_fds s1)\<rparr>
      else s1)"

text \<open>
  A file that is accepted and open. \<^verbatim>\<open>chunk\<close> is a local variable that is only assigned here, and
  \<^verbatim>\<open>log\<close> just before the file is opened: a rejection before that point raises \<^verbatim>\<open>NameError\<close>.
\<close>

definition receive_opened :: "fenv \<Rightarrow> string \<Rightarrow> bool \<Rightarrow> bool \<Rightarrow> nat \<Rightarrow> bytes \<Rightarrow> pdict \<Rightarrow> string \<Rightarrow> string \<Rightarrow> string \<Rightarrow> nat
    \<Rightarrow> ft \<Rightarrow> fres" where
  "receive_opened E mimetype printit openit filesize file_data options send_id chunk_id filename fd s =
     (let digest = find_digest E options in
      if chunk_id \<noteq> '''' then
        (if length (ft_receiving s) \<ge> MAX_CONCURRENT_FILES
         then (None, file_error E chunk_id fd (MsgTooManyFiles (length (ft_receiving s))) s)
         else
           let (timer, s1) = timeout_add (CheckReceiving chunk_id 0) s;
               c = \<lparr>rc_fd = fd, rc_filename = filename, rc_mimetype = mimetype, rc_printit = printit, rc_openit = openit,
                    rc_filesize = filesize, rc_options = options, rc_digest = digest, rc_written = 0,
                    rc_cancelled = False, rc_send_id = send_id, rc_timer = timer, rc_chunk = 0\<rparr>
           in (None, ft_send (ack_packet chunk_id True (PBytes []) 0)
                 (s1\<lparr>ft_receiving := dict_set chunk_id c (ft_receiving s1)\<rparr>)))
      else if file_data = [] then (None, file_error E chunk_id fd MsgNoData s)
      else if length file_data \<noteq> filesize
      then (None, file_error E chunk_id fd (MsgSizeMismatch (int filesize) (length file_data)) s)
      else if (case digest of
                 None \<Rightarrow> False
               | Some (h, _) \<Rightarrow>
                   let expected = strget (fe_rep E) options h '''' in expected \<noteq> '''' \<and> fe_hash E h file_data \<noteq> expected)
      then (None, file_error E chunk_id fd MsgChecksum s)
      else
        (case os_write E fd file_data s of
           (Some e, s1) \<Rightarrow> (None, osclose fd (file_error E chunk_id fd MsgWriteFailed s1))
         | (None, s1) \<Rightarrow>
             process_downloaded_file E filename mimetype printit openit filesize options
               (ft_emit (Progress False send_id (int filesize) filesize None) (osclose fd s1))))"

definition receive_file :: "fenv \<Rightarrow> string \<Rightarrow> string \<Rightarrow> bool \<Rightarrow> bool \<Rightarrow> nat \<Rightarrow> bytes \<Rightarrow> pdict \<Rightarrow> string \<Rightarrow> ft \<Rightarrow> fres" where
  "receive_file E basefilename mimetype printit0 openit0 filesize file_data options send_id s =
     (let chunk_id = strget (fe_rep E) options ''file-chunk-id'' '''' in
      if filesize = 0 \<or> filesize > ft_size_limit s then (Some NameError, s)
      else
        let ((acceptit, printit, openit), s1) = accept_data send_id printit0 openit0 s in
        if \<not> acceptit then (Some NameError, s1)
        else if (if printit then \<not> ft_printing s1 else \<not> ft_file_transfer s1) then (Some AssertionError, s1)
        else
          (case safe_open_download_file E basefilename mimetype s1 of
             Inl e \<Rightarrow> if e = OSError then (if chunk_id \<noteq> '''' then Some NameError else None, s1) else (Some e, s1)
           | Inr (filename, fd, s2) \<Rightarrow>
               receive_opened E mimetype printit openit filesize file_data options send_id chunk_id filename fd
                 (s2\<lparr>ft_fds := List.insert fd (ft_fds s2)\<rparr>)))"

definition process_send_file :: "fenv \<Rightarrow> packet \<Rightarrow> ft \<Rightarrow> fres" where
  "process_send_file E p s =
     with_arg (get_str (fe_rep E) p 1) s (\<lambda>basefilename.
     with_arg (get_str (fe_rep E) p 2) s (\<lambda>mimetype.
     with_arg (get_bool p 3) s (\<lambda>printit.
     with_arg (get_bool p 4) s (\<lambda>openit.
     with_arg (get_u64 p 5) s (\<lambda>filesize.
     with_arg (get_buffer p 6) s (\<lambda>file_data.
     with_arg (get_dict p 7) s (\<lambda>options.
     with_arg (if length p \<ge> 9 then get_str (fe_rep E) p 8 else Inr '''') s (\<lambda>send_id.
       receive_file E basefilename mimetype printit openit (nat filesize) file_data options send_id s))))))))"

subsection \<open>Sending\<close>

definition check_file_size :: "nat \<Rightarrow> ft \<Rightarrow> bool" where
  "check_file_size filesize s = (filesize \<le> ft_size_limit s \<and> int filesize \<le> fr_size_limit s)"

definition cancel_sending :: "string \<Rightarrow> ft \<Rightarrow> ft" where
  "cancel_sending chunk_id s =
     (case map_of (ft_sending s) chunk_id of
        None \<Rightarrow> s
      | Some c \<Rightarrow>
          let s1 = s\<lparr>ft_sending := dict_pop chunk_id (ft_sending s)\<rparr>
          in if sc_timer c \<noteq> 0 then source_remove (sc_timer c) s1 else s1)"

definition check_chunk_sending :: "string \<Rightarrow> nat \<Rightarrow> ft \<Rightarrow> ft" where
  "check_chunk_sending chunk_id chunk_no s =
     (case map_of (ft_sending s) chunk_id of
        None \<Rightarrow> s
      | Some c \<Rightarrow>
          let s1 = s\<lparr>ft_sending := dict_set chunk_id (c\<lparr>sc_timer := 0\<rparr>) (ft_sending s)\<rparr>
          in if sc_chunk c = chunk_no then cancel_sending chunk_id s1 else s1)"

definition uuid_hex :: "fenv \<Rightarrow> ft \<Rightarrow> string \<times> ft" where
  "uuid_hex E s = (fe_uuid E (ft_uuids s), s\<lparr>ft_uuids := Suc (ft_uuids s)\<rparr>)"

definition file_packet :: "string \<Rightarrow> string \<Rightarrow> bool \<Rightarrow> bool \<Rightarrow> nat \<Rightarrow> item \<Rightarrow> pdict \<Rightarrow> string \<Rightarrow> item list" where
  "file_packet basefilename mimetype printit openit filesize cdata options send_id =
     [str_item ''send-file'', str_item basefilename, str_item mimetype, bool_item printit, bool_item openit,
      int_item (int filesize), cdata, Value (PDict options), str_item send_id]"

definition chunk_packet :: "string \<Rightarrow> nat \<Rightarrow> item \<Rightarrow> bool \<Rightarrow> item list" where
  "chunk_packet chunk_id chunk cdata has_more =
     [str_item ''send-file-chunk'', str_item chunk_id, int_item (int chunk), cdata, bool_item has_more]"

text \<open>The options as they are sent, and the flag \<^verbatim>\<open>do_send_file\<close> returns when no exception is raised.\<close>

definition do_send_file :: "fenv \<Rightarrow> string \<Rightarrow> string \<Rightarrow> bytes \<Rightarrow> nat \<Rightarrow> bool \<Rightarrow> bool \<Rightarrow> pdict \<Rightarrow> string \<Rightarrow> ft
    \<Rightarrow> (py_error + bool \<times> pdict) \<times> ft" where
  "do_send_file E filename mimetype data filesize printit openit options send_id s =
     (if \<not> check_file_size filesize s then (Inr (False, options), s)
      else
        let options1 = dict_set (PStr ''sha256'') (PStr (fe_hash E ''sha256'' data)) options;
            chunk_size = min (ft_file_chunks s) (fr_chunks s)
        in if 0 < chunk_size \<and> chunk_size < filesize then
             (if length (ft_sending s) \<ge> MAX_CONCURRENT_FILES then (Inl RuntimeError, s)
              else
                let (chunk_id, s1) = uuid_hex E s;
                    options2 = dict_set (PStr ''file-chunk-id'') (PStr chunk_id) options1;
                    (timer, s2) = timeout_add (CheckSending chunk_id 0) s1;
                    c = \<lparr>sc_data = data, sc_chunk_size = chunk_size, sc_timer = timer, sc_chunk = 0\<rparr>
                in (Inr (True, options2),
                    ft_send (file_packet (after_last slash filename) mimetype printit openit filesize
                               (Value (PBytes [])) options2 send_id)
                      (s2\<lparr>ft_sending := dict_set chunk_id c (ft_sending s2)\<rparr>)))
           else
             (case fe_wrap E ''file-data'' data of
                Inl e \<Rightarrow> (Inl e, s)
              | Inr cdata \<Rightarrow>
                  if compressed_len cdata > filesize then (Inl AssertionError, s)
                  else (Inr (True, options1),
                    ft_send (file_packet (after_last slash filename) mimetype printit openit filesize
                               (CompItem cdata) options1 send_id) s)))"

definition send_data_request :: "fenv \<Rightarrow> string \<Rightarrow> string \<Rightarrow> string \<Rightarrow> bytes \<Rightarrow> nat \<Rightarrow> bool \<Rightarrow> bool \<Rightarrow> pdict \<Rightarrow> ft
    \<Rightarrow> string \<times> ft" where
  "send_data_request E dtype url mimetype data filesize printit openit options s =
     (let (send_id, s1) = uuid_hex E s in
      if length (ft_pending s1) \<ge> MAX_CONCURRENT_FILES then ('''', s1)
      else
        let spd = \<lparr>pd_datatype = dtype, pd_url = url, pd_mimetype = mimetype, pd_data = data, pd_filesize = filesize,
                   pd_printit = printit, pd_openit = openit, pd_options = options\<rparr>;
            (timer, s2) = timeout_add (AskTimeout send_id) s1;
            s3 = s2\<lparr>ft_pending := dict_set send_id spd (ft_pending s2),
                    ft_pending_timers := dict_set send_id timer (ft_pending_timers s2)\<rparr>
        in (send_id, ft_send [str_item ''send-data-request'', str_item dtype, str_item send_id, str_item url,
              str_item mimetype, int_item (int filesize), bool_item printit, bool_item openit, Value (PDict options)] s3))"

definition send_file :: "fenv \<Rightarrow> string \<Rightarrow> string \<Rightarrow> bytes \<Rightarrow> nat \<Rightarrow> bool \<Rightarrow> bool \<Rightarrow> pdict \<Rightarrow> ft
    \<Rightarrow> (py_error + bool) \<times> ft" where
  "send_file E filename mimetype data0 filesize printit openit0 options s =
     (if (if printit then \<not> ft_printing s \<or> \<not> fr_printing s else \<not> ft_file_transfer s \<or> \<not> fr_file_transfer s)
      then (Inr False, s)
      else
        let openit = (if printit then openit0 else openit0 \<and> fr_open_files s);
            ask = (if printit then fr_printing_ask s
                   else fr_file_transfer_ask s \<or> openit \<and> fr_open_files_ask s)
        in if length data0 < filesize then (Inl AssertionError, s)
           else
             let data = take filesize data0 in
             if \<not> check_file_size filesize s then (Inr False, s)
             else if ask then
               (case send_data_request E ''file'' filename mimetype data filesize printit openit options s of
                  (send_id, s1) \<Rightarrow> (Inr (send_id \<noteq> ''''), s1))
             else
               let (send_id, s1) = uuid_hex E s in
               (case do_send_file E filename mimetype data filesize printit openit options send_id s1 of
                  (Inl e, s2) \<Rightarrow> (Inl e, s2)
                | (Inr _, s2) \<Rightarrow> (Inr True, s2)))"

definition send_request_file :: "string \<Rightarrow> bool \<Rightarrow> ft \<Rightarrow> ft" where
  "send_request_file filename openit s =
     (ft_send [str_item ''request-file'', str_item filename, bool_item openit] s)
       \<lparr>ft_requested := dict_set filename openit (ft_requested s)\<rparr>"

definition do_send_open_url :: "string \<Rightarrow> string \<Rightarrow> ft \<Rightarrow> ft" where
  "do_send_open_url url send_id s = ft_send [str_item ''open-url'', str_item url, str_item send_id] s"

definition send_open_url :: "fenv \<Rightarrow> string \<Rightarrow> ft \<Rightarrow> bool \<times> ft" where
  "send_open_url E url s =
     (if \<not> fr_open_url s then (False, s)
      else if fr_open_url_ask s then
        (case send_data_request E ''url'' url '''' [] 0 False True [] s of (send_id, s1) \<Rightarrow> (send_id \<noteq> '''', s1))
      else (True, do_send_open_url url '''' s))"

definition process_open_url :: "fenv \<Rightarrow> packet \<Rightarrow> ft \<Rightarrow> fres" where
  "process_open_url E p s =
     with_arg (get_str (fe_rep E) p 1) s (\<lambda>url.
     with_arg (get_str (fe_rep E) p 2) s (\<lambda>send_id.
       if \<not> ft_open_url s then (None, s)
       else if ft_open_url_ask s then
         (case accept_data send_id False True s of
            ((acceptit, _), s1) \<Rightarrow> if acceptit then (None, ft_emit (OpenUrl url) s1) else (None, s1))
       else (None, ft_emit (OpenUrl url) s)))"

text \<open>The next chunk, if any is left.\<close>

definition ack_received :: "fenv \<Rightarrow> string \<Rightarrow> bool \<Rightarrow> nat \<Rightarrow> ft \<Rightarrow> fres" where
  "ack_received E chunk_id state chunk s =
     (if \<not> state then (None, cancel_sending chunk_id s)
      else
        case map_of (ft_sending s) chunk_id of
          None \<Rightarrow> (None, s)
        | Some c \<Rightarrow>
            if sc_chunk c \<noteq> chunk then (None, cancel_sending chunk_id s)
            else if sc_data c = [] then (None, cancel_sending chunk_id s)
            else if sc_chunk_size c = 0 then (Some AssertionError, s)
            else
              (case fe_wrap E ''file-data'' (take (sc_chunk_size c) (sc_data c)) of
                 Inl e \<Rightarrow> (Some e, s)
               | Inr cdata \<Rightarrow>
                   let rest = drop (sc_chunk_size c) (sc_data c);
                       s1 = (if sc_timer c \<noteq> 0 then source_remove (sc_timer c) s else s);
                       (timer, s2) = timeout_add (CheckSending chunk_id (Suc chunk)) s1;
                       c' = c\<lparr>sc_data := rest, sc_chunk := Suc chunk, sc_timer := timer\<rparr>
                   in (None, ft_send (chunk_packet chunk_id (Suc chunk) (CompItem cdata) (rest \<noteq> []))
                         (s2\<lparr>ft_sending := dict_set chunk_id c' (ft_sending s2)\<rparr>))))"

definition process_ack_file_chunk :: "fenv \<Rightarrow> packet \<Rightarrow> ft \<Rightarrow> fres" where
  "process_ack_file_chunk E p s =
     with_arg (get_str (fe_rep E) p 1) s (\<lambda>chunk_id.
     with_arg (get_bool p 2) s (\<lambda>state.
     with_arg (get_str (fe_rep E) p 3) s (\<lambda>_.
     with_arg (get_u32 p 4) s (\<lambda>chunk.
       ack_received E chunk_id state (nat chunk) s))))"

subsection \<open>Asking first\<close>

definition answer_request :: "string \<Rightarrow> bool \<Rightarrow> ft \<Rightarrow> ft" where
  "answer_request send_id accept s = ft_send [str_item ''send-data-response'', str_item send_id, bool_item accept] s"

definition ask_data_request :: "string \<Rightarrow> bool \<Rightarrow> bool \<Rightarrow> ft \<Rightarrow> ft" where
  "ask_data_request send_id printit openit s =
     (case accept_data send_id printit openit s of ((v, _), s1) \<Rightarrow> answer_request send_id v s1)"

definition data_request_rules :: "string \<Rightarrow> string \<Rightarrow> bool \<Rightarrow> bool \<Rightarrow> ft \<Rightarrow> ft" where
  "data_request_rules dtype send_id printit openit s =
     (if dtype = ''file'' then
        (if \<not> ft_file_transfer s then answer_request send_id False s
         else
           let ask = (if printit then ft_printing_ask s
                      else if openit then ft_file_transfer_ask s \<or> ft_open_files_ask s
                      else ft_file_transfer_ask s)
           in if ask then ask_data_request send_id printit openit s else answer_request send_id False s)
      else if dtype = ''url'' then
        (if \<not> ft_open_url s then answer_request send_id False s
         else if ft_open_url_ask s then ask_data_request send_id printit openit s
         else answer_request send_id False s)
      else answer_request send_id False s)"

definition do_process_send_data_request :: "fenv \<Rightarrow> string \<Rightarrow> string \<Rightarrow> bool \<Rightarrow> bool \<Rightarrow> pdict \<Rightarrow> ft \<Rightarrow> fres" where
  "do_process_send_data_request E dtype send_id printit openit options s =
     with_arg (tupleget (fe_rep E) options ''request-file'' [] AnyItem None None) s (\<lambda>rf.
       case rf of
         argf # _ # _ \<Rightarrow>
           (case argf of
              PStr a \<Rightarrow>
                let s1 = s\<lparr>ft_requested := dict_pop a (ft_requested s)\<rparr> in
                (case map_of (ft_requested s) a of
                   Some op \<Rightarrow> (None, answer_request send_id True (s1\<lparr>ft_accepted := dict_set send_id op (ft_accepted s1)\<rparr>))
                 | None \<Rightarrow> (None, data_request_rules dtype send_id printit False s1))
            | PList _ \<Rightarrow> (Some TypeError, s)
            | PDict _ \<Rightarrow> (Some TypeError, s)
            | _ \<Rightarrow> (None, data_request_rules dtype send_id printit False s))
       | _ \<Rightarrow> (None, data_request_rules dtype send_id printit openit s))"

definition process_send_data_request :: "fenv \<Rightarrow> packet \<Rightarrow> ft \<Rightarrow> fres" where
  "process_send_data_request E p s =
     with_arg (get_str (fe_rep E) p 1) s (\<lambda>dtype.
     with_arg (get_str (fe_rep E) p 2) s (\<lambda>send_id.
     with_arg (get_str (fe_rep E) p 3) s (\<lambda>url.
     with_arg (get_u64 p 5) s (\<lambda>filesize.
     with_arg (get_bool p 6) s (\<lambda>printit.
     with_arg (get_bool p 7) s (\<lambda>openit.
     with_arg (if length p \<ge> 9 then get_dict p 8 else Inr []) s (\<lambda>options.
       do_process_send_data_request E dtype send_id printit openit options s)))))))"

text \<open>
  \<^verbatim>\<open>_process_send_data_response\<close>: the pending entry is read, never removed. The options it holds,
  when there are any, are the dictionary \<^verbatim>\<open>do_send_file\<close> updates in place.
\<close>

definition response_accepted :: "fenv \<Rightarrow> string \<Rightarrow> int \<Rightarrow> pending \<Rightarrow> ft \<Rightarrow> fres" where
  "response_accepted E send_id accept spd s =
     (if pd_datatype spd = ''file'' then
        (if accept = ACCEPT then
           (case do_send_file E (pd_url spd) (pd_mimetype spd) (pd_data spd) (pd_filesize spd) (pd_printit spd)
                   (pd_openit spd) (pd_options spd) send_id s of
              (Inl e, s1) \<Rightarrow> (Some e, s1)
            | (Inr (_, options), s1) \<Rightarrow>
                (None, if pd_options spd = [] then s1
                       else s1\<lparr>ft_pending := dict_set send_id (spd\<lparr>pd_options := options\<rparr>) (ft_pending s1)\<rparr>))
         else if \<not> pd_openit spd then (Some AssertionError, s)
         else (None, ft_emit (OpenFile (pd_url spd)) s))
      else if pd_datatype spd = ''url'' then
        (if accept = ACCEPT then (None, do_send_open_url (pd_url spd) send_id s)
         else (None, ft_emit (OpenUrl (pd_url spd)) s))
      else (None, s))"

definition data_response :: "fenv \<Rightarrow> string \<Rightarrow> int \<Rightarrow> ft \<Rightarrow> fres" where
  "data_response E send_id accept s =
     (let s1 = (case map_of (ft_pending_timers s) send_id of
                  None \<Rightarrow> s
                | Some t \<Rightarrow>
                    let s' = s\<lparr>ft_pending_timers := dict_pop send_id (ft_pending_timers s)\<rparr>
                    in if t \<noteq> 0 then source_remove t s' else s')
      in case map_of (ft_pending s1) send_id of
           None \<Rightarrow> (None, s1)
         | Some spd \<Rightarrow>
             if accept = DENY then (None, s1)
             else if accept \<noteq> ACCEPT \<and> accept \<noteq> OPEN then (Some ValueError, s1)
             else response_accepted E send_id accept spd s1)"

definition process_send_data_response :: "fenv \<Rightarrow> packet \<Rightarrow> ft \<Rightarrow> fres" where
  "process_send_data_response E p s =
     with_arg (get_str (fe_rep E) p 1) s (\<lambda>send_id.
     with_arg (get_i8 p 2) s (\<lambda>accept. data_response E send_id accept s))"

definition send_data_ask_timeout :: "string \<Rightarrow> ft \<Rightarrow> ft" where
  "send_data_ask_timeout send_id s =
     s\<lparr>ft_pending_timers := dict_pop send_id (ft_pending_timers s), ft_pending := dict_pop send_id (ft_pending s)\<rparr>"

subsection \<open>Timers, capabilities and clean-up\<close>

definition run_callback :: "timer_cb \<Rightarrow> ft \<Rightarrow> ft" where
  "run_callback cb s =
     (case cb of
        CheckReceiving chunk_id n \<Rightarrow> check_chunk_receiving chunk_id n s
      | CheckSending chunk_id n \<Rightarrow> check_chunk_sending chunk_id n s
      | CleanReceive chunk_id \<Rightarrow> s\<lparr>ft_receiving := dict_pop chunk_id (ft_receiving s)\<rparr>
      | AskTimeout send_id \<Rightarrow> send_data_ask_timeout send_id s)"

text \<open>All the callbacks return a false value, which removes their source.\<close>

definition fire_timer :: "nat \<Rightarrow> ft \<Rightarrow> ft" where
  "fire_timer i s =
     (case map_of (ft_timers s) i of
        None \<Rightarrow> s
      | Some cb \<Rightarrow> run_callback cb (source_remove i s))"

definition file_caps :: "pdict \<Rightarrow> string \<Rightarrow> pdict" where
  "file_caps caps key = (case dictget caps key None of Some d \<Rightarrow> d | None \<Rightarrow> [])"

definition parse_file_transfer_caps :: "pdict \<Rightarrow> ft \<Rightarrow> ft" where
  "parse_file_transfer_caps caps s =
     (let fc = file_caps caps ''file'' in
      s\<lparr>fr_file_transfer := boolget fc ''enabled'' False, fr_file_transfer_ask := boolget fc ''ask'' False,
        fr_open_files := boolget fc ''open'' False, fr_open_files_ask := boolget fc ''open-ask'' False,
        fr_open_url := boolget fc ''open-url'' False, fr_open_url_ask := boolget fc ''open-url-ask'' False,
        fr_ask_timeout := intget fc ''ask-timeout'' 0,
        fr_size_limit := (let m = intget fc ''max-file-size'' 0 in if m \<noteq> 0 then m else intget fc ''size-limit'' 0),
        fr_chunks := nat (max 0 (intget fc ''chunks'' 0))\<rparr>)"

definition parse_printer_caps :: "pdict \<Rightarrow> ft \<Rightarrow> ft" where
  "parse_printer_caps caps s =
     (let fc = file_caps caps (if BACKWARDS_COMPATIBLE then ''file'' else ''printer'') in
      s\<lparr>fr_printing := boolget fc ''printing'' False, fr_printing_ask := boolget fc ''printing-ask'' False\<rparr>)"

definition FALSE_OPTIONS :: "string list" where "FALSE_OPTIONS = [''no'', ''false'', ''0'', ''off'']"

definition str_to_bool :: "string \<Rightarrow> bool \<Rightarrow> bool" where
  "str_to_bool v dflt =
     (let w = str_strip (str_lower v) in
      if w \<in> set TRUE_OPTIONS then True else if w \<in> set FALSE_OPTIONS then False else dflt)"

definition pask :: "string \<Rightarrow> bool" where
  "pask v = (str_lower v = ''ask'' \<or> str_lower v = ''auto'')"

definition option_on :: "string \<Rightarrow> bool" where
  "option_on v = (pask v \<or> str_to_bool v True)"

text \<open>\<open>size_limit\<close> is the number \<^verbatim>\<open>parse_with_unit\<close> reads in the option.\<close>

definition init_attributes :: "string \<Rightarrow> nat \<Rightarrow> string \<Rightarrow> string \<Rightarrow> string \<Rightarrow> bool \<Rightarrow> ft \<Rightarrow> ft" where
  "init_attributes file_transfer size_limit printing open_files open_url can_ask s =
     s\<lparr>ft_file_transfer_ask := pask file_transfer \<and> can_ask, ft_file_transfer := option_on file_transfer,
       ft_size_limit := size_limit, ft_file_chunks := FILE_CHUNKS_SIZE,
       ft_printing_ask := pask printing \<and> can_ask, ft_printing := option_on printing,
       ft_open_files_ask := pask open_files \<and> can_ask, ft_open_files := option_on open_files,
       ft_open_url_ask := pask open_url \<and> can_ask, ft_open_url := option_on open_url,
       ft_requested := [], ft_accepted := [], ft_callbacks := [],
       fr_file_transfer := False, fr_file_transfer_ask := False, fr_printing := False, fr_printing_ask := False,
       fr_open_files := False, fr_open_files_ask := False, fr_open_url := False, fr_open_url_ask := False,
       fr_ask_timeout := 3600, fr_size_limit := 0, fr_chunks := 0,
       ft_pending := [], ft_pending_timers := [], ft_sending := [], ft_receiving := [], ft_fds := []\<rparr>"

definition ft_cleanup :: "ft \<Rightarrow> ft" where
  "ft_cleanup s =
     (let s1 = fold source_remove (map snd (ft_pending_timers s)) s;
          s2 = fold source_remove (map (rc_timer \<circ> snd) (ft_receiving s)) (s1\<lparr>ft_pending_timers := []\<rparr>);
          s3 = fold (\<lambda>fd t. t\<lparr>ft_open := dict_pop fd (ft_open t)\<rparr>) (ft_fds s) (s2\<lparr>ft_receiving := []\<rparr>)
      in init_attributes ''no'' 1000000000 ''no'' ''no'' ''no'' True (s3\<lparr>ft_fds := []\<rparr>))"

end
