(* ===== verification/File_Exchange.thy ===== *)
theory File_Exchange
  imports File_Transfer
begin

text \<open>
  Two handlers of \<^verbatim>\<open>xpra/net/file_transfer.py\<close> connected to each other. The packets one has sent
  are dispatched at the other in order; the items of a packet arrive as the protocol delivers
  them. The result: a file sent in chunks is rebuilt on the other side, byte for byte.
\<close>

subsection \<open>Dispatching and delivering\<close>

definition ft_dispatch :: "fenv \<Rightarrow> packet \<Rightarrow> ft \<Rightarrow> fres" where
  "ft_dispatch E p s =
     (case p of
        PStr t # _ \<Rightarrow>
          if t = ''open-url'' then process_open_url E p s
          else if t = ''send-file'' then process_send_file E p s
          else if t = ''send-data-request'' then process_send_data_request E p s
          else if t = ''send-data-response'' then process_send_data_response E p s
          else if t = ''ack-file-chunk'' then process_ack_file_chunk E p s
          else if t = ''send-file-chunk'' then process_send_file_chunk E p s
          else (None, s)
      | _ \<Rightarrow> (None, s))"

text \<open>
  One end's oldest packet is taken and handled by the other; the first end goes first. An
  exception of a handler ends the run.
\<close>

fun exchange :: "fenv \<Rightarrow> fenv \<Rightarrow> (item \<Rightarrow> pval) \<Rightarrow> nat \<Rightarrow> ft \<times> ft \<Rightarrow> py_error option \<times> ft \<times> ft" where
  "exchange EA EB tr 0 (A, B) = (None, A, B)"
| "exchange EA EB tr (Suc n) (A, B) =
     (case ft_out A of
        packet # rest \<Rightarrow>
          (case ft_dispatch EB (map tr packet) B of
             (Some e, B') \<Rightarrow> (Some e, A\<lparr>ft_out := rest\<rparr>, B')
           | (None, B') \<Rightarrow> exchange EA EB tr n (A\<lparr>ft_out := rest\<rparr>, B'))
      | [] \<Rightarrow>
          (case ft_out B of
             packet # rest \<Rightarrow>
               (case ft_dispatch EA (map tr packet) A of
                  (Some e, A') \<Rightarrow> (Some e, A', B\<lparr>ft_out := rest\<rparr>)
                | (None, A') \<Rightarrow> exchange EA EB tr n (A', B\<lparr>ft_out := rest\<rparr>))
           | [] \<Rightarrow> (None, A, B)))"

declare exchange.simps [simp del]

lemma exchange_A:
  "ft_out A = packet # rest \<Longrightarrow> ft_dispatch EB (map tr packet) B = (None, B') \<Longrightarrow>
   exchange EA EB tr (Suc n) (A, B) = exchange EA EB tr n (A\<lparr>ft_out := rest\<rparr>, B')"
  by (simp add: exchange.simps)

lemma exchange_B:
  "ft_out A = [] \<Longrightarrow> ft_out B = packet # rest \<Longrightarrow> ft_dispatch EA (map tr packet) A = (None, A') \<Longrightarrow>
   exchange EA EB tr (Suc n) (A, B) = exchange EA EB tr n (A', B\<lparr>ft_out := rest\<rparr>)"
  by (simp add: exchange.simps)

lemma exchange_done: "ft_out A = [] \<Longrightarrow> ft_out B = [] \<Longrightarrow> exchange EA EB tr n (A, B) = (None, A, B)"
  by (cases n) (simp_all add: exchange.simps)

subsection \<open>What is assumed of the two ends\<close>

text \<open>
  The protocol delivers plain values as they are and the file data that \<^verbatim>\<open>compressed_wrapper\<close>
  prepared as it was before; writing to a file writes everything.
\<close>

definition file_link :: "fenv \<Rightarrow> fenv \<Rightarrow> (item \<Rightarrow> pval) \<Rightarrow> bool" where
  "file_link EA EB tr \<longleftrightarrow>
     (\<forall>v. tr (Value v) = v)
     \<and> (\<forall>d. \<exists>c. fe_wrap EA ''file-data'' d = Inr c \<and> tr (CompItem c) = PBytes d)
     \<and> (\<forall>k n. fe_write EB k n = Some n)
     \<and> fe_hash EB ''sha256'' = fe_hash EA ''sha256''"

lemma file_linkD:
  assumes "file_link EA EB tr"
  shows "tr (Value v) = v" and "\<exists>c. fe_wrap EA ''file-data'' d = Inr c \<and> tr (CompItem c) = PBytes d"
    and "fe_write EB k n = Some n" and "fe_hash EB ''sha256'' = fe_hash EA ''sha256''"
  using assms by (simp_all add: file_link_def)

lemmas pkt_simps = get_str_def pkt_get_def py_str_def get_u32_def get_u64_def get_ranged_def py_int_def get_bool_def
  get_buffer_def get_dict_def

subsection \<open>The acknowledgement of a chunk\<close>

text \<open>The sender after \<open>k\<close> chunks, with \<open>rest\<close> still to send.\<close>

definition sender_at :: "ft \<Rightarrow> string \<Rightarrow> nat \<Rightarrow> bytes \<Rightarrow> nat \<Rightarrow> bool" where
  "sender_at A cid cs rest k \<longleftrightarrow> ft_out A = [] \<and>
     (\<exists>t. map_of (ft_sending A) cid = Some \<lparr>sc_data = rest, sc_chunk_size = cs, sc_timer = t, sc_chunk = k\<rparr>)"

lemma dispatch_ack:
  assumes "k < 2 ^ 32" and "\<And>v. tr (Value v) = v" and "m = PStr '''' \<or> m = PBytes []"
  shows "ft_dispatch EA (map tr (ack_packet cid True m k)) A = ack_received EA cid True k A"
  using assms(1,3)
  by (auto simp: ft_dispatch_def ack_packet_def str_item_def bool_item_def int_item_def assms(2)
      process_ack_file_chunk_def pkt_simps utf8_decode_def bytes_chars_def)

lemma source_remove_fields [simp]:
  "ft_sending (source_remove i s) = ft_sending s" "ft_receiving (source_remove i s) = ft_receiving s"
  "ft_out (source_remove i s) = ft_out s" "ft_open (source_remove i s) = ft_open s"
  "ft_files (source_remove i s) = ft_files s" "ft_data (source_remove i s) = ft_data s"
  by (simp_all add: source_remove_def)

lemma ack_more:
  assumes "sender_at A cid cs rest k" and "rest \<noteq> []" and "0 < cs" and "file_link EA EB tr"
  shows "\<exists>A' c. ack_received EA cid True k A = (None, A'\<lparr>ft_out := [chunk_packet cid (Suc k) (CompItem c) (drop cs rest \<noteq> [])]\<rparr>)
    \<and> tr (CompItem c) = PBytes (take cs rest) \<and> sender_at A' cid cs (drop cs rest) (Suc k)
    \<and> fst ` set (ft_sending A') = fst ` set (ft_sending A)"
proof -
  obtain t where t: "map_of (ft_sending A) cid = Some \<lparr>sc_data = rest, sc_chunk_size = cs, sc_timer = t, sc_chunk = k\<rparr>"
    and out: "ft_out A = []" using assms(1) by (auto simp: sender_at_def)
  obtain c where c: "fe_wrap EA ''file-data'' (take cs rest) = Inr c" "tr (CompItem c) = PBytes (take cs rest)"
    using file_linkD(2) [OF assms(4)] by blast
  define s1 where "s1 = (if t \<noteq> 0 then source_remove t A else A)"
  define s2 where "s2 = snd (timeout_add (CheckSending cid (Suc k)) s1)"
  define A' where "A' = s2\<lparr>ft_sending := dict_set cid \<lparr>sc_data = drop cs rest, sc_chunk_size = cs,
    sc_timer = fst (timeout_add (CheckSending cid (Suc k)) s1), sc_chunk = Suc k\<rparr> (ft_sending s2)\<rparr>"
  have o: "ft_out A' = []" and snd2: "ft_sending s2 = ft_sending A"
    using out by (auto simp: A'_def s2_def s1_def timeout_add_def)
  have "ack_received EA cid True k A = (None, ft_send (chunk_packet cid (Suc k) (CompItem c) (drop cs rest \<noteq> [])) A')"
    using t c(1) assms(2,3)
    by (simp add: ack_received_def Let_def A'_def s2_def s1_def timeout_add_def)
  moreover have "sender_at A' cid cs (drop cs rest) (Suc k)" using o by (simp add: sender_at_def A'_def)
  moreover have "fst ` set (ft_sending A') = fst ` set (ft_sending A)"
    using map_of_SomeD [OF t] by (auto simp: A'_def snd2 keys_dict_set image_iff) force+
  ultimately show ?thesis using c(2) o by (intro exI [of _ A'] exI [of _ c]) (simp add: ft_send_def)
qed

lemma ack_last:
  assumes "sender_at A cid cs [] k"
  shows "\<exists>A'. ack_received EA cid True k A = (None, A') \<and> ft_out A' = [] \<and> map_of (ft_sending A') cid = None
    \<and> fst ` set (ft_sending A') = fst ` set (ft_sending A) - {cid}"
  using assms
  by (auto simp: sender_at_def ack_received_def cancel_sending_def Let_def keys_dict_pop)

subsection \<open>Receiving a chunk\<close>

definition at_chunk :: "recv_chunk \<Rightarrow> bytes \<Rightarrow> nat \<Rightarrow> nat \<Rightarrow> recv_chunk" where
  "at_chunk c acc t k = c\<lparr>rc_digest := Some (''sha256'', acc), rc_written := length acc, rc_timer := t, rc_chunk := k\<rparr>"

lemma at_chunk_fields [simp]:
  "rc_fd (at_chunk c acc t k) = rc_fd c" "rc_filename (at_chunk c acc t k) = rc_filename c"
  "rc_filesize (at_chunk c acc t k) = rc_filesize c" "rc_options (at_chunk c acc t k) = rc_options c"
  "rc_cancelled (at_chunk c acc t k) = rc_cancelled c" "rc_chunk (at_chunk c acc t k) = k"
  "rc_written (at_chunk c acc t k) = length acc" "rc_digest (at_chunk c acc t k) = Some (''sha256'', acc)"
  "(at_chunk c acc t k)\<lparr>rc_timer := t'\<rparr> = at_chunk c acc t' k"
  by (simp_all add: at_chunk_def)

lemma at_chunk_written:
  "(at_chunk c acc t k)\<lparr>rc_chunk := k', rc_digest := Some (''sha256'', acc @ d), rc_written := length acc + length d\<rparr>
   = at_chunk c (acc @ d) t k'"
  by (simp add: at_chunk_def)

text \<open>The receiver after \<open>k\<close> chunks: \<open>acc\<close> is on disk.\<close>

definition receiver_at :: "ft \<Rightarrow> string \<Rightarrow> recv_chunk \<Rightarrow> nat \<Rightarrow> bytes \<Rightarrow> nat \<Rightarrow> bool" where
  "receiver_at B cid c ino acc k \<longleftrightarrow>
     (\<exists>t m. map_of (ft_receiving B) cid = Some (at_chunk c acc t k)
        \<and> ft_out B = [ack_packet cid True m k] \<and> (m = PStr '''' \<or> m = PBytes []))
     \<and> map_of (ft_open B) (rc_fd c) = Some ino \<and> ft_data B ino = acc
     \<and> map_of (ft_files B) (rc_filename c) = Some ino"

definition open_transfer :: "fenv \<Rightarrow> recv_chunk \<Rightarrow> bytes \<Rightarrow> bool" where
  "open_transfer E c data \<longleftrightarrow>
     \<not> rc_cancelled c \<and> rc_filesize c = length data
     \<and> strget (fe_rep E) (rc_options c) ''sha256'' '''' = fe_hash E ''sha256'' data
     \<and> tupleget (fe_rep E) (rc_options c) ''request-file'' [] AnyItem None None = Inr []"

lemma dispatch_chunk:
  assumes "k < 2 ^ 32" and "\<And>v. tr (Value v) = v" and "tr (CompItem c) = PBytes d"
  shows "ft_dispatch EB (map tr (chunk_packet cid k (CompItem c) has_more)) B = chunk_received EB cid k (PBytes d) has_more B"
  using assms(1)
  by (simp add: ft_dispatch_def chunk_packet_def str_item_def bool_item_def int_item_def assms(2,3)
      process_send_file_chunk_def pkt_simps has_len_def pval_len_def)

lemma chunk_written:
  assumes "receiver_at B cid c ino acc k" and "open_transfer EB c data" and "file_link EA EB tr"
    and "length (acc @ d) \<le> length data"
  shows "\<exists>B' c1. write_chunk EB cid (the (map_of (ft_receiving B) cid)) (Suc k) (PBytes d) (B\<lparr>ft_out := []\<rparr>) = ((None, c1), B')
    \<and> ft_out B' = [] \<and> map_of (ft_receiving B') cid = Some c1 \<and> map_of (ft_open B') (rc_fd c) = Some ino
    \<and> ft_data B' ino = acc @ d \<and> map_of (ft_files B') (rc_filename c) = Some ino
    \<and> (\<exists>t. c1 = at_chunk c (acc @ d) t (Suc k))"
  using assms
  by (auto simp: receiver_at_def write_chunk_def os_write_def Let_def file_linkD(3) at_chunk_written)

lemma chunk_more:
  assumes "receiver_at B cid c ino acc k" and "open_transfer EB c data" and "file_link EA EB tr"
    and "length (acc @ d) \<le> length data"
  shows "\<exists>B'. chunk_received EB cid (Suc k) (PBytes d) True (B\<lparr>ft_out := []\<rparr>) = (None, B') \<and> receiver_at B' cid c ino (acc @ d) (Suc k)"
proof -
  obtain B1 c1 t where w: "write_chunk EB cid (the (map_of (ft_receiving B) cid)) (Suc k) (PBytes d) (B\<lparr>ft_out := []\<rparr>) = ((None, c1), B1)"
    and f: "ft_out B1 = []" "map_of (ft_receiving B1) cid = Some c1" "map_of (ft_open B1) (rc_fd c) = Some ino"
      "ft_data B1 ino = acc @ d" "map_of (ft_files B1) (rc_filename c) = Some ino"
    and c1: "c1 = at_chunk c (acc @ d) t (Suc k)"
    using chunk_written [OF assms] by metis
  obtain t0 where r: "map_of (ft_receiving B) cid = Some (at_chunk c acc t0 k)" using assms(1) by (auto simp: receiver_at_def)
  show ?thesis
    using assms(2,4) w f r unfolding c1
    by (auto simp: chunk_received_def open_transfer_def Let_def recv_progress_def ft_emit_def ft_send_def
        timeout_add_def receiver_at_def)
qed

lemma chunk_final:
  assumes "receiver_at B cid c ino acc k" and "open_transfer EB c data" and "file_link EA EB tr"
    and "acc @ d = data" and "rc_fd c \<noteq> 0"
  shows "\<exists>B'. chunk_received EB cid (Suc k) (PBytes d) False (B\<lparr>ft_out := []\<rparr>) = (None, B')
    \<and> ft_out B' = [ack_packet cid True (PStr '''') (Suc k)] \<and> map_of (ft_receiving B') cid = None
    \<and> map_of (ft_files B') (rc_filename c) = Some ino \<and> ft_data B' ino = data
    \<and> map_of (ft_open B') (rc_fd c) = None"
proof -
  have le: "length (acc @ d) \<le> length data" using assms(4) by simp
  obtain B1 c1 t where w: "write_chunk EB cid (the (map_of (ft_receiving B) cid)) (Suc k) (PBytes d) (B\<lparr>ft_out := []\<rparr>) = ((None, c1), B1)"
    and f: "ft_out B1 = []" "map_of (ft_receiving B1) cid = Some c1" "map_of (ft_open B1) (rc_fd c) = Some ino"
      "ft_data B1 ino = acc @ d" "map_of (ft_files B1) (rc_filename c) = Some ino"
    and c1: "c1 = at_chunk c (acc @ d) t (Suc k)"
    using chunk_written [OF assms(1-3) le] by metis
  obtain t0 where r: "map_of (ft_receiving B) cid = Some (at_chunk c acc t0 k)" using assms(1) by (auto simp: receiver_at_def)
  show ?thesis
    using assms(2,4,5) w f r unfolding c1
    by (simp add: chunk_received_def chunks_complete_def open_transfer_def Let_def recv_progress_def ft_emit_def ft_send_def
        osclose_def process_downloaded_file_def)
qed

subsection \<open>The rounds\<close>

definition delivered :: "ft \<Rightarrow> ft \<Rightarrow> string \<Rightarrow> string \<Rightarrow> bytes \<Rightarrow> bool" where
  "delivered A B cid filename data \<longleftrightarrow>
     ft_out A = [] \<and> ft_out B = [] \<and> map_of (ft_sending A) cid = None \<and> map_of (ft_receiving B) cid = None
     \<and> (\<exists>ino. map_of (ft_files B) filename = Some ino \<and> ft_data B ino = data)"

lemma ft_out_nil [simp]: "ft_out A = [] \<Longrightarrow> A\<lparr>ft_out := []\<rparr> = A"
  by (cases A) simp

lemma ack_round:
  assumes "sender_at A cid cs rest k" and "ft_out B = [ack_packet cid True m k]" and "m = PStr '''' \<or> m = PBytes []"
    and "file_link EA EB tr" and "k < 2 ^ 32" and "ack_received EA cid True k A = (None, A')"
  shows "exchange EA EB tr (Suc n) (A, B) = exchange EA EB tr n (A', B\<lparr>ft_out := []\<rparr>)"
proof -
  have out: "ft_out A = []" using assms(1) by (simp add: sender_at_def)
  have "ft_dispatch EA (map tr (ack_packet cid True m k)) A = (None, A')"
    using dispatch_ack [OF assms(5) file_linkD(1) [OF assms(4)] assms(3), of EA cid A] assms(6) by simp
  then show ?thesis by (rule exchange_B [OF out assms(2)])
qed

lemma chunk_round:
  assumes "ft_out A' = []" and "tr (CompItem ci) = PBytes d" and "file_link EA EB tr" and "Suc k < 2 ^ 32"
    and "chunk_received EB cid (Suc k) (PBytes d) has_more B = (None, B')"
  shows "exchange EA EB tr (Suc n) (A'\<lparr>ft_out := [chunk_packet cid (Suc k) (CompItem ci) has_more]\<rparr>, B)
    = exchange EA EB tr n (A', B')"
proof -
  have "ft_dispatch EB (map tr (chunk_packet cid (Suc k) (CompItem ci) has_more)) B = (None, B')"
    using dispatch_chunk [OF assms(4) file_linkD(1) [OF assms(3)] assms(2), of EB cid has_more B] assms(5) by simp
  then show ?thesis using exchange_A [of "A'\<lparr>ft_out := [chunk_packet cid (Suc k) (CompItem ci) has_more]\<rparr>" _ "[]"] assms(1)
    by simp
qed

lemma final_round:
  assumes "sender_at A cid cs [] k" and "ft_out B = [ack_packet cid True m k]" and "m = PStr '''' \<or> m = PBytes []"
    and "file_link EA EB tr" and "k < 2 ^ 32" and "map_of (ft_receiving B) cid = None"
    and "map_of (ft_files B) filename = Some ino" and "ft_data B ino = data"
  shows "\<exists>A' B'. exchange EA EB tr (Suc 0) (A, B) = (None, A', B') \<and> delivered A' B' cid filename data"
proof -
  obtain A' where a: "ack_received EA cid True k A = (None, A')" "ft_out A' = []" "map_of (ft_sending A') cid = None"
    using ack_last [OF assms(1)] by blast
  have "exchange EA EB tr (Suc 0) (A, B) = exchange EA EB tr 0 (A', B\<lparr>ft_out := []\<rparr>)"
    by (rule ack_round [OF assms(1-5) a(1)])
  then have "exchange EA EB tr (Suc 0) (A, B) = (None, A', B\<lparr>ft_out := []\<rparr>)" using a(2) by (simp add: exchange_done)
  moreover have "delivered A' (B\<lparr>ft_out := []\<rparr>) cid filename data" using a assms(6-8) by (simp add: delivered_def)
  ultimately show ?thesis by blast
qed

lemma transfer_rounds:
  assumes "sender_at A cid cs rest k" and "receiver_at B cid c ino acc k" and "acc @ rest = data" and "rest \<noteq> []"
    and "k + length rest < 2 ^ 32"
    and "open_transfer EB c data" and "file_link EA EB tr" and "0 < cs" and "rc_fd c \<noteq> 0"
  shows "\<exists>n A' B'. exchange EA EB tr n (A, B) = (None, A', B') \<and> delivered A' B' cid (rc_filename c) data"
  using assms(1-5)
proof (induction "length rest" arbitrary: A B acc rest k rule: less_induct)
  case less
  obtain m where m: "ft_out B = [ack_packet cid True m k]" "m = PStr '''' \<or> m = PBytes []"
    using less.prems(2) by (auto simp: receiver_at_def)
  obtain A1 ci where a: "ack_received EA cid True k A
        = (None, A1\<lparr>ft_out := [chunk_packet cid (Suc k) (CompItem ci) (drop cs rest \<noteq> [])]\<rparr>)"
      "tr (CompItem ci) = PBytes (take cs rest)" "sender_at A1 cid cs (drop cs rest) (Suc k)"
    using ack_more [OF less.prems(1,4) assms(8,7)] by metis
  have k: "k < 2 ^ 32" "Suc k < 2 ^ 32" using less.prems(4,5) by (cases rest; simp)+
  have out1: "ft_out A1 = []" using a(3) by (simp add: sender_at_def)
  note r1 = ack_round [OF less.prems(1) m assms(7) k(1) a(1)]
  show ?case
  proof (cases "drop cs rest = []")
    case False
    have "length (acc @ take cs rest) \<le> length data" using less.prems(3) by auto
    then obtain B1 where b: "chunk_received EB cid (Suc k) (PBytes (take cs rest)) True (B\<lparr>ft_out := []\<rparr>) = (None, B1)"
        "receiver_at B1 cid c ino (acc @ take cs rest) (Suc k)"
      using chunk_more [OF less.prems(2) assms(6,7)] by blast
    have r2: "exchange EA EB tr (Suc n) (A1\<lparr>ft_out := [chunk_packet cid (Suc k) (CompItem ci) True]\<rparr>, B\<lparr>ft_out := []\<rparr>)
        = exchange EA EB tr n (A1, B1)" for n
      by (rule chunk_round [OF out1 a(2) assms(7) k(2) b(1)])
    have "length (drop cs rest) < length rest" using assms(8) less.prems(4) by (simp add: length_greater_0_conv)
    moreover have "(acc @ take cs rest) @ drop cs rest = data" using less.prems(3) by simp
    moreover have "Suc k + length (drop cs rest) < 2 ^ 32" using less.prems(4,5) assms(8) by (cases rest; cases cs) auto
    ultimately obtain n A' B' where "exchange EA EB tr n (A1, B1) = (None, A', B')"
        "delivered A' B' cid (rc_filename c) data"
      using less.hyps [OF _ a(3) b(2) _ False] by blast
    then have "exchange EA EB tr (Suc (Suc n)) (A, B) = (None, A', B')" using r1 [of "Suc n"] r2 [of n] False by simp
    then show ?thesis using \<open>delivered A' B' cid (rc_filename c) data\<close> by blast
  next
    case True
    then have "acc @ take cs rest = data" using less.prems(3) by simp
    then obtain B1 where b: "chunk_received EB cid (Suc k) (PBytes (take cs rest)) False (B\<lparr>ft_out := []\<rparr>) = (None, B1)"
        "ft_out B1 = [ack_packet cid True (PStr '''') (Suc k)]" "map_of (ft_receiving B1) cid = None"
        "map_of (ft_files B1) (rc_filename c) = Some ino" "ft_data B1 ino = data"
      using chunk_final [OF less.prems(2) assms(6,7) _ assms(9)] by blast
    have r2: "exchange EA EB tr (Suc n) (A1\<lparr>ft_out := [chunk_packet cid (Suc k) (CompItem ci) False]\<rparr>, B\<lparr>ft_out := []\<rparr>)
        = exchange EA EB tr n (A1, B1)" for n
      by (rule chunk_round [OF out1 a(2) assms(7) k(2) b(1)])
    obtain A' B' where "exchange EA EB tr (Suc 0) (A1, B1) = (None, A', B')" "delivered A' B' cid (rc_filename c) data"
      using final_round [OF a(3) [unfolded True] b(2) _ assms(7) k(2) b(3-5)] by blast
    then have "exchange EA EB tr (Suc (Suc (Suc 0))) (A, B) = (None, A', B')"
      using r1 [of "Suc (Suc 0)"] r2 [of "Suc 0"] True by simp
    then show ?thesis using \<open>delivered A' B' cid (rc_filename c) data\<close> by blast
  qed
qed

subsection \<open>Opening the transfer\<close>

definition sender_ready :: "ft \<Rightarrow> nat \<Rightarrow> bool" where
  "sender_ready A filesize \<longleftrightarrow>
     ft_file_transfer A \<and> fr_file_transfer A \<and> \<not> fr_file_transfer_ask A \<and> check_file_size filesize A
     \<and> 0 < min (ft_file_chunks A) (fr_chunks A) \<and> min (ft_file_chunks A) (fr_chunks A) < filesize
     \<and> length (ft_sending A) < MAX_CONCURRENT_FILES \<and> ft_out A = []"

definition receiver_ready :: "fenv \<Rightarrow> ft \<Rightarrow> nat \<Rightarrow> bool" where
  "receiver_ready E B filesize \<longleftrightarrow>
     ft_file_transfer B \<and> \<not> ft_file_transfer_ask B \<and> filesize \<le> ft_size_limit B
     \<and> length (ft_receiving B) < MAX_CONCURRENT_FILES \<and> ft_out B = [] \<and> (\<forall>f. \<not> fe_open_fails E f)"

abbreviation sent_options :: "fenv \<Rightarrow> bytes \<Rightarrow> string \<Rightarrow> pdict" where
  "sent_options E data cid \<equiv> [(PStr ''sha256'', PStr (fe_hash E ''sha256'' data)), (PStr ''file-chunk-id'', PStr cid)]"

abbreviation taken_paths :: "ft \<Rightarrow> string list" where
  "taken_paths B \<equiv> map fst (ft_files B) @ ft_dirs B"

lemma send_file_chunked:
  assumes "sender_ready A (length data)"
  shows "\<exists>A'. send_file E filename mimetype data (length data) False False [] A
      = (Inr True, A'\<lparr>ft_out := [file_packet (after_last slash filename) mimetype False False (length data)
          (Value (PBytes [])) (sent_options E data (fe_uuid E (Suc (ft_uuids A)))) (fe_uuid E (ft_uuids A))]\<rparr>)
    \<and> sender_at A' (fe_uuid E (Suc (ft_uuids A))) (min (ft_file_chunks A) (fr_chunks A)) data 0"
proof -
  define B where "B = A\<lparr>ft_uuids := Suc (Suc (ft_uuids A))\<rparr>"
  define A' where "A' = snd (timeout_add (CheckSending (fe_uuid E (Suc (ft_uuids A))) 0) B)"
  define A'' where "A'' = A'\<lparr>ft_sending := dict_set (fe_uuid E (Suc (ft_uuids A)))
    \<lparr>sc_data = data, sc_chunk_size = min (ft_file_chunks A) (fr_chunks A),
     sc_timer = fst (timeout_add (CheckSending (fe_uuid E (Suc (ft_uuids A))) 0) B), sc_chunk = 0\<rparr> (ft_sending A')\<rparr>"
  have "sender_at A'' (fe_uuid E (Suc (ft_uuids A))) (min (ft_file_chunks A) (fr_chunks A)) data 0"
    using assms by (simp add: sender_at_def A''_def A'_def B_def timeout_add_def sender_ready_def)
  moreover have "send_file E filename mimetype data (length data) False False [] A
      = (Inr True, A''\<lparr>ft_out := [file_packet (after_last slash filename) mimetype False False (length data)
          (Value (PBytes [])) (sent_options E data (fe_uuid E (Suc (ft_uuids A)))) (fe_uuid E (ft_uuids A))]\<rparr>)"
    using assms
    by (simp add: sender_ready_def send_file_def Let_def uuid_hex_def do_send_file_def check_file_size_def
        timeout_add_def ft_send_def A''_def A'_def B_def)
  ultimately show ?thesis by blast
qed

lemma sent_options_lookup:
  "strget rep (sent_options E data cid) ''file-chunk-id'' '''' = cid"
  "strget rep (sent_options E data cid) ''sha256'' '''' = fe_hash E ''sha256'' data"
  "strget rep (sent_options E data cid) ''sha512'' '''' = ''''"
  "strget rep (sent_options E data cid) ''sha384'' '''' = ''''"
  "tupleget rep (sent_options E data cid) ''request-file'' [] AnyItem None None = Inr []"
  by (simp_all add: strget_def conv_get_def bytestostr_def py_str_def conv_find.simps split_dot_def Let_def
      tupleget_def listget_def typedict_get.simps)

lemma dispatch_file:
  assumes "\<And>v. tr (Value v) = v" and "filesize < 2 ^ 64"
  shows "ft_dispatch EB (map tr (file_packet f m False False filesize (Value (PBytes [])) opts sid)) B
    = receive_file EB f m False False filesize [] opts sid B"
  using assms(2)
  by (simp add: ft_dispatch_def file_packet_def str_item_def bool_item_def int_item_def assms(1)
      process_send_file_def pkt_simps)

lemma lowest_fd_ge: "3 \<le> lowest_fd used"
proof -
  have "\<exists>n \<in> {3..<4 + length used}. n \<notin> set used"
  proof (rule ccontr)
    assume "\<not> ?thesis"
    then have "{3..<4 + length used} \<subseteq> set used" by blast
    then have "card {3..<4 + length used} \<le> card (set used)" by (intro card_mono) simp_all
    then show False using card_length [of used] by simp
  qed
  then have "filter (\<lambda>n. n \<notin> set used) [3..<4 + length used] \<noteq> []" by (simp add: filter_empty_conv)
  then have "lowest_fd used \<in> set (filter (\<lambda>n. n \<notin> set used) [3..<4 + length used])"
    unfolding lowest_fd_def by (rule hd_in_set)
  then show ?thesis by simp
qed

lemma receive_file_opens:
  assumes "receiver_ready EB B (length data)" and "data \<noteq> []" and "cid \<noteq> ''''"
    and "map_of (ft_accepted B) sid = None" and "fe_hash EA ''sha256'' data \<noteq> ''''"
    and "fe_hash EB ''sha256'' = fe_hash EA ''sha256''"
  shows "\<exists>B' c ino path. receive_file EB f m False False (length data) [] (sent_options EA data cid) sid B = (None, B')
    \<and> download_path (taken_paths B) (fe_download_dir EB) f m = Some path \<and> rc_filename c = path
    \<and> receiver_at B' cid c ino [] 0 \<and> open_transfer EB c data \<and> rc_fd c \<noteq> 0"
proof -
  obtain path where path: "download_path (taken_paths B) (fe_download_dir EB) f m = Some path"
    using download_path_exists by blast
  define fd where "fd = lowest_fd (map fst (ft_open B))"
  define c where "c t = \<lparr>rc_fd = fd, rc_filename = path, rc_mimetype = m, rc_printit = False, rc_openit = False,
    rc_filesize = length data, rc_options = sent_options EA data cid, rc_digest = Some (''sha256'', []), rc_written = 0,
    rc_cancelled = False, rc_send_id = sid, rc_timer = t, rc_chunk = 0\<rparr>" for t
  have fd: "fd \<noteq> 0" using lowest_fd_ge [of "map fst (ft_open B)"] by (simp add: fd_def)
  have at: "at_chunk (c t) [] t 0 = c t" for t by (simp add: at_chunk_def c_def)
  have digest: "find_digest EB (sent_options EA data cid) = Some (''sha256'', [])"
    using assms(5) unfolding find_digest_def by (simp add: sent_options_lookup)
  have "open_transfer EB (c t) data" for t
    using assms(6) by (simp add: open_transfer_def c_def sent_options_lookup)
  moreover obtain B' t where "receive_file EB f m False False (length data) [] (sent_options EA data cid) sid B = (None, B')"
      "receiver_at B' cid (c t) (ft_next_inode B) [] 0"
    using assms(1-4) path digest fd
    by (auto simp: receive_file_def receiver_ready_def Let_def sent_options_lookup accept_data_def safe_open_download_file_def
        os_open_def receive_opened_def timeout_add_def ft_send_def fd_def [symmetric] receiver_at_def at c_def at_chunk_def)
  ultimately show ?thesis using path fd
    by (intro exI [of _ B'] exI [of _ "c t"] exI [of _ "ft_next_inode B"] exI [of _ path]) (simp add: c_def)
qed

subsection \<open>Properties\<close>

text \<open>
  C13: a file larger than the chunk size both ends allow, sent to a handler that accepts files,
  arrives: after finitely many packets nothing is left to deliver, no exception has been
  raised, both ends have forgotten the transfer, and the file at the path chosen in the
  download directory holds exactly the data. This covers any chunk size, and any compression
  that the protocol undoes.
\<close>

theorem chunked_file_delivered:
  assumes "sender_ready A (length data)" and "receiver_ready EB B (length data)" and "length data < 2 ^ 32"
    and "file_link EA EB tr" and "\<And>n. fe_uuid EA n \<noteq> ''''" and "fe_hash EA ''sha256'' data \<noteq> ''''"
    and "map_of (ft_accepted B) (fe_uuid EA (ft_uuids A)) = None"
  shows "\<exists>A1 n A2 B2 path. send_file EA filename mimetype data (length data) False False [] A = (Inr True, A1)
    \<and> exchange EA EB tr n (A1, B) = (None, A2, B2)
    \<and> download_path (taken_paths B) (fe_download_dir EB) (after_last slash filename) mimetype = Some path
    \<and> delivered A2 B2 (fe_uuid EA (Suc (ft_uuids A))) path data"
proof -
  let ?cid = "fe_uuid EA (Suc (ft_uuids A))" and ?sid = "fe_uuid EA (ft_uuids A)"
  let ?p = "file_packet (after_last slash filename) mimetype False False (length data) (Value (PBytes []))
      (sent_options EA data ?cid) ?sid"
  have ne: "data \<noteq> []" "0 < min (ft_file_chunks A) (fr_chunks A)" using assms(1) by (auto simp: sender_ready_def)
  obtain A1 where a: "send_file EA filename mimetype data (length data) False False [] A = (Inr True, A1\<lparr>ft_out := [?p]\<rparr>)"
      "sender_at A1 ?cid (min (ft_file_chunks A) (fr_chunks A)) data 0"
    using send_file_chunked [OF assms(1)] by blast
  obtain B1 c ino path where b: "receive_file EB (after_last slash filename) mimetype False False (length data) []
        (sent_options EA data ?cid) ?sid B = (None, B1)"
      "download_path (taken_paths B) (fe_download_dir EB) (after_last slash filename) mimetype = Some path"
      "rc_filename c = path" "receiver_at B1 ?cid c ino [] 0" "open_transfer EB c data" "rc_fd c \<noteq> 0"
    using receive_file_opens [OF assms(2) ne(1) assms(5) assms(7,6) file_linkD(4) [OF assms(4)]] by blast
  have "ft_dispatch EB (map tr ?p) B = (None, B1)"
    using dispatch_file [OF file_linkD(1) [OF assms(4)], of "length data"] assms(3) b(1) by simp
  then have first: "exchange EA EB tr (Suc n) (A1\<lparr>ft_out := [?p]\<rparr>, B) = exchange EA EB tr n (A1, B1)" for n
    using exchange_A [of "A1\<lparr>ft_out := [?p]\<rparr>" ?p "[]" EB tr B B1 EA n] a(2) by (simp add: sender_at_def)
  obtain n A2 B2 where "exchange EA EB tr n (A1, B1) = (None, A2, B2)" "delivered A2 B2 ?cid (rc_filename c) data"
    using transfer_rounds [OF a(2) b(4) _ ne(1) _ b(5) assms(4) ne(2) b(6)] assms(3) by auto
  then show ?thesis using a(1) b(2,3) first [of n] by (intro exI conjI) auto
qed

definition plain_fenv :: fenv where
  "plain_fenv = \<lparr>fe_rep = (\<lambda>_. ''''), fe_msg = (\<lambda>_. ''error''), fe_download_dir = ''/dl'', fe_open_fails = (\<lambda>_. False),
     fe_write = (\<lambda>k n. Some n), fe_hash = (\<lambda>h d. CHR ''h'' # bytes_chars d), fe_uuid = (\<lambda>n. CHR ''u'' # replicate n CHR ''x''),
     fe_wrap = (\<lambda>t d. Inr (Compressed t d False))\<rparr>"

definition idle_ft :: ft where
  "idle_ft = \<lparr>ft_file_transfer = True, ft_file_transfer_ask = False, ft_size_limit = 1000, ft_file_chunks = 2,
     ft_printing = False, ft_printing_ask = False, ft_open_files = False, ft_open_files_ask = False,
     ft_open_url = False, ft_open_url_ask = False, ft_requested = [], ft_accepted = [], ft_callbacks = [],
     fr_file_transfer = True, fr_file_transfer_ask = False, fr_printing = False, fr_printing_ask = False,
     fr_open_files = False, fr_open_files_ask = False, fr_open_url = False, fr_open_url_ask = False,
     fr_ask_timeout = 3600, fr_size_limit = 1000, fr_chunks = 2, ft_pending = [], ft_pending_timers = [],
     ft_sending = [], ft_receiving = [], ft_fds = [], ft_files = [], ft_dirs = [], ft_data = (\<lambda>_. []),
     ft_next_inode = 1, ft_open = [], ft_writes = 0, ft_timers = [], ft_next_timer = 1, ft_uuids = 0,
     ft_out = [], ft_events = []\<rparr>"

theorem chunked_file_delivered_witness:
  "\<exists>A1 n A2 B2 path. send_file plain_fenv ''a/b'' '''' [1, 2, 3, 4, 5] 5 False False [] idle_ft = (Inr True, A1)
    \<and> exchange plain_fenv plain_fenv item_value n (A1, idle_ft) = (None, A2, B2)
    \<and> download_path [] ''/dl'' ''b'' '''' = Some path \<and> delivered A2 B2 ''ux'' path [1, 2, 3, 4, 5]"
proof -
  have s: "sender_ready idle_ft (length [1, 2, 3, 4, 5 :: 8 word])"
    by (simp add: sender_ready_def idle_ft_def check_file_size_def MAX_CONCURRENT_FILES_def)
  have r: "receiver_ready plain_fenv idle_ft (length [1, 2, 3, 4, 5 :: 8 word])"
    by (simp add: receiver_ready_def idle_ft_def plain_fenv_def MAX_CONCURRENT_FILES_def)
  have l: "file_link plain_fenv plain_fenv item_value"
    by (simp add: file_link_def plain_fenv_def item_value_def)
  have u: "fe_uuid plain_fenv n \<noteq> ''''" "fe_hash plain_fenv ''sha256'' d \<noteq> ''''" for n d by (simp_all add: plain_fenv_def)
  have len: "length [1, 2, 3, 4, 5 :: 8 word] < 2 ^ 32" by simp
  have acc: "map_of (ft_accepted idle_ft) (fe_uuid plain_fenv (ft_uuids idle_ft)) = None" by (simp add: idle_ft_def)
  have id: "taken_paths idle_ft = []" "fe_download_dir plain_fenv = ''/dl''" "fe_uuid plain_fenv (Suc (ft_uuids idle_ft)) = ''ux''"
    "after_last slash ''a/b'' = ''b''" "length [1, 2, 3, 4, 5 :: 8 word] = 5"
    by (simp_all add: idle_ft_def plain_fenv_def after_last_def)
  show ?thesis
    using chunked_file_delivered [OF s r len l u acc, of "''a/b''" "''''"] unfolding id .
qed



text \<open>
  A chunk for an unknown transfer is refused with a negative acknowledgement, and then the
  handler raises \<^verbatim>\<open>AttributeError\<close>: it reports progress on the transfer that does not exist.
\<close>

theorem unknown_chunk_raises:
  assumes "map_of (ft_receiving B) cid = None"
  shows "chunk_received E cid k v has_more B
    = (Some AttributeError, ft_send (ack_packet cid False (PStr (fe_msg E (MsgNotFound cid))) k) B)"
  using assms by (simp add: chunk_received_def chunk_error_def cancel_file_def recv_progress_def Let_def)

theorem unknown_chunk_raises_witness:
  "fst (chunk_received plain_fenv ''c'' 1 (PBytes []) False idle_ft) = Some AttributeError"
  using unknown_chunk_raises [of idle_ft "''c''" plain_fenv 1 "PBytes []" False] by (simp add: idle_ft_def)

text \<open>
  The entry of a transfer that was asked about stays after it is accepted or denied, so a
  second acceptance sends the file a second time.
\<close>

theorem accepted_twice_sends_twice:
  assumes "map_of (ft_pending s) sid = Some spd" and "pd_datatype spd = ''url''"
  shows "data_response E sid ACCEPT s = (None, s1) \<Longrightarrow>
    map_of (ft_pending s1) sid = Some spd
    \<and> ft_out (snd (data_response E sid ACCEPT s1)) = ft_out s
        @ [[str_item ''open-url'', str_item (pd_url spd), str_item sid], [str_item ''open-url'', str_item (pd_url spd), str_item sid]]"
proof -
  have p: "ft_pending (source_remove t u) = ft_pending u" "ft_out (source_remove t u) = ft_out u" for t u
    by (simp_all add: source_remove_def)
  have one: "\<exists>t. data_response E sid ACCEPT u = (None, t) \<and> ft_pending t = ft_pending u
      \<and> ft_out t = ft_out u @ [[str_item ''open-url'', str_item (pd_url spd), str_item sid]]"
    if "map_of (ft_pending u) sid = Some spd" for u
    using that assms(2)
    by (auto simp: data_response_def Let_def response_accepted_def do_send_open_url_def ft_send_def p ACCEPT_def DENY_def
        split: option.splits)
  assume "data_response E sid ACCEPT s = (None, s1)"
  then show ?thesis using one [OF assms(1)] one [of s1] assms(1) by auto
qed

theorem accepted_twice_sends_twice_witness:
  "let s = idle_ft\<lparr>ft_pending := [(''s'', \<lparr>pd_datatype = ''url'', pd_url = ''u'', pd_mimetype = '''', pd_data = [],
      pd_filesize = 0, pd_printit = False, pd_openit = True, pd_options = []\<rparr>)]\<rparr>;
       s1 = snd (data_response plain_fenv ''s'' ACCEPT s)
   in length (ft_out (snd (data_response plain_fenv ''s'' ACCEPT s1))) = 2"
proof -
  let ?d = "\<lparr>pd_datatype = ''url'', pd_url = ''u'', pd_mimetype = '''', pd_data = [],
      pd_filesize = 0, pd_printit = False, pd_openit = True, pd_options = []\<rparr>"
  let ?s = "idle_ft\<lparr>ft_pending := [(''s'', ?d)]\<rparr>"
  have "data_response plain_fenv ''s'' ACCEPT ?s = (None, snd (data_response plain_fenv ''s'' ACCEPT ?s))"
    by (simp add: data_response_def idle_ft_def response_accepted_def DENY_def ACCEPT_def)
  then show ?thesis
    using accepted_twice_sends_twice [of ?s "''s''" ?d plain_fenv "snd (data_response plain_fenv ''s'' ACCEPT ?s)"]
    by (simp add: idle_ft_def)
qed

end
