(* ===== verification/Damage_Plan.thy ===== *)
theory Damage_Plan
  imports Rect_Regions
begin

text \<open>
  How the regions of a screen update become calls to \<^verbatim>\<open>process_damage_region\<close>
  (\<^verbatim>\<open>do_send_regions\<close> of \<^verbatim>\<open>xpra/server/window/compress.py\<close>): as they are, merged into one
  rectangle, or as an update of the whole window.

  The choice of an encoding for a size is the function \<open>sp_enc\<close>. A Python set has no fixed order:
  \<open>sp_order\<close> lists the members of the set of a list in some order. Python integers do not wrap;
  only the operations of the rectangle class do.
\<close>

definition MIN_WINDOW_REGION_SIZE :: int where "MIN_WINDOW_REGION_SIZE = 1024"

text \<open>A call: the region, its encoding, and the number of regions that will follow it.\<close>

type_synonym region_call = "rect \<times> string \<times> nat"

record send_params =
  sp_ww :: int
  sp_wh :: int
  sp_full_frames_only :: bool
  sp_stream :: bool
  sp_max_small_regions :: nat
  sp_max_bytes_percent :: int
  sp_small_packet_cost :: int
  sp_mmap :: bool
  sp_enc :: "int \<Rightarrow> int \<Rightarrow> string"
  sp_order :: "rect list \<Rightarrow> rect list"

definition window_rect :: "send_params \<Rightarrow> rect" where
  "window_rect P = (0, 0, sp_ww P, sp_wh P)"

definition send_full_window_update :: "send_params \<Rightarrow> py_error + region_call list" where
  "send_full_window_update P =
     (let encoding = sp_enc P (sp_ww P) (sp_wh P) in
      if encoding = [] then Inl RuntimeError else Inr [(window_rect P, encoding, 0)])"

definition pixel_count :: "rect list \<Rightarrow> int" where
  "pixel_count regions = sum_list (map (\<lambda>(x, y, w, h). w * h) regions)"

text \<open>The regions outside of the excluded one.\<close>

definition outside :: "rect \<Rightarrow> rect list \<Rightarrow> py_error + rect list" where
  "outside exclude regions = map_sum id concat (seq_results (map (\<lambda>r. rectangle_subtract_rect r exclude) regions))"

text \<open>The regions after merging, or \<open>None\<close> for an update of the whole window.\<close>

definition merge_regions :: "send_params \<Rightarrow> rect option \<Rightarrow> rect list \<Rightarrow> py_error + rect list option" where
  "merge_regions P exclude regions =
     (if length regions \<le> 1 then Inr (Some regions)
      else
        let merge_threshold = (sp_ww P * sp_wh P * sp_max_bytes_percent P) div 100;
            pixels = pixel_count regions;
            packet_cost = pixels + sp_small_packet_cost P * int (length regions)
        in if packet_cost \<ge> merge_threshold \<and> exclude = None then Inr None
           else
             case merge_all regions of
               Inl e \<Rightarrow> Inl e
             | Inr merged \<Rightarrow>
                 (case (case exclude of None \<Rightarrow> Inr [merged] | Some ex \<Rightarrow> rectangle_subtract_rect merged ex) of
                    Inl e \<Rightarrow> Inl e
                  | Inr merged_rects \<Rightarrow>
                      let merged_pixels = pixel_count merged_rects;
                          merged_cost = merged_pixels + sp_small_packet_cost P * int (length merged_rects)
                      in Inr (Some (if sp_mmap P \<or> merged_cost < packet_cost \<or> merged_pixels < pixels
                                    then merged_rects else regions))))"

definition almost_window :: "send_params \<Rightarrow> rect list \<Rightarrow> bool" where
  "almost_window P regions =
     (case regions of
        [(x, y, w, h)] \<Rightarrow> x \<le> 1 \<and> y \<le> 1 \<and> \<bar>sp_ww P - w\<bar> < 2 \<and> \<bar>sp_wh P - h\<bar> < 2
      | _ \<Rightarrow> False)"

text \<open>
  The encoding of every region; one that needs full frames stops and replaces them all. The calls
  run from the last region to the first, which is the one with nothing after it.
\<close>

fun region_calls :: "send_params \<Rightarrow> nat \<Rightarrow> rect list \<Rightarrow> region_call list \<Rightarrow> region_call list" where
  "region_calls P i [] acc = acc"
| "region_calls P i ((x, y, w, h) # regions) acc =
     (let encoding = sp_enc P w h in
      if sp_full_frames_only P then [(window_rect P, encoding, 0)]
      else region_calls P (Suc i) regions (((x, y, w, h), encoding, i) # acc))"

definition send_regions_plan :: "send_params \<Rightarrow> rect list \<Rightarrow> rect option \<Rightarrow> py_error + region_call list" where
  "send_regions_plan P regions exclude =
     (let candidates =
        (case exclude of
           None \<Rightarrow>
             if sp_full_frames_only P \<or> sp_stream P then Inr None
             else if length regions > sp_max_small_regions P then Inr None
             else if sp_ww P * sp_wh P \<le> MIN_WINDOW_REGION_SIZE then Inr None
             else Inr (Some (sp_order P regions))
         | Some ex \<Rightarrow> map_sum id (\<lambda>rs. Some (sp_order P rs)) (outside ex regions))
      in case candidates of
           Inl e \<Rightarrow> Inl e
         | Inr None \<Rightarrow> send_full_window_update P
         | Inr (Some rs) \<Rightarrow>
             (case merge_regions P exclude rs of
                Inl e \<Rightarrow> Inl e
              | Inr None \<Rightarrow> send_full_window_update P
              | Inr (Some rs) \<Rightarrow>
                  if rs = [] then Inr []
                  else if almost_window P rs then send_full_window_update P
                  else Inr (region_calls P 0 rs [])))"

subsection \<open>Coverage\<close>

definition call_pixels :: "region_call list \<Rightarrow> (int \<times> int) set" where
  "call_pixels calls = pixels (map fst calls)"

definition order_ok :: "send_params \<Rightarrow> bool" where
  "order_ok P = (\<forall>rs. set (sp_order P rs) = set rs)"

definition excluded :: "rect option \<Rightarrow> (int \<times> int) set" where
  "excluded exclude = (case exclude of None \<Rightarrow> {} | Some ex \<Rightarrow> points ex)"

lemma call_pixels_simps [simp]:
  "call_pixels [] = {}" "call_pixels (c # calls) = points (fst c) \<union> call_pixels calls"
  by (simp_all add: call_pixels_def)

lemma full_window_covers:
  "send_full_window_update P = Inr calls \<Longrightarrow> call_pixels calls = points (window_rect P)"
  by (auto simp: send_full_window_update_def Let_def split: if_splits)

lemma region_calls_cover:
  "points (window_rect P) \<inter> (pixels regions \<union> call_pixels acc) \<subseteq> call_pixels (region_calls P i regions acc)"
proof (induction P i regions acc rule: region_calls.induct)
  case (2 P i x y w h regions acc)
  show ?case
  proof (cases "sp_full_frames_only P")
    case True then show ?thesis by (auto simp: Let_def simp del: points.simps)
  next
    case False
    then show ?thesis using 2[OF refl False] by (auto simp: Let_def simp del: points.simps)
  qed
qed simp

lemma merge_all_contains:
  assumes "list_all on_screen rects" and "rects \<noteq> []"
  obtains m where "merge_all rects = Inr m" and "pixels rects \<subseteq> points m"
proof -
  let ?l = "Min (edges left_edge rects)" and ?t = "Min (edges top_edge rects)"
  let ?r = "Max (edges right_edge rects)" and ?b = "Max (edges bottom_edge rects)"
  have fin: "finite (edges e rects)" for e by (simp add: edges_def)
  have "points s \<subseteq> points (?l, ?t, ?r - ?l, ?b - ?t)" if "s \<in> set rects" for s
  proof -
    obtain x y w h where s: "s = (x, y, w, h)" by (cases s)
    have "x \<in> edges left_edge rects" "y \<in> edges top_edge rects" "x + w \<in> edges right_edge rects" "y + h \<in> edges bottom_edge rects"
      using that s by (force simp: edge_defs)+
    then have "?l \<le> x" "?t \<le> y" "x + w \<le> ?r" "y + h \<le> ?b" using fin by (simp_all add: Min_le Max_ge)
    then show ?thesis by (auto simp: s)
  qed
  then show ?thesis using merge_all_bounds[OF assms] that by blast
qed

text \<open>Rectangles so near the window that the smallest one around them all is on the screen.\<close>

definition near_window :: "rect \<Rightarrow> bool" where
  "near_window r = (case r of (x, y, w, h) \<Rightarrow>
     - 4096 \<le> x \<and> - 4096 \<le> y \<and> 0 \<le> w \<and> 0 \<le> h \<and> x + w \<le> 28672 \<and> y + h \<le> 28672)"

lemma near_window_on_screen: "near_window r \<Longrightarrow> on_screen r"
  by (cases r) (auto simp: near_window_def on_screen_def)

lemma merge_all_near:
  assumes "list_all near_window rects" and "merge_all rects = Inr m" and "rects \<noteq> []"
  shows "near_window m"
proof -
  have scr: "list_all on_screen rects" using assms(1) near_window_on_screen by (auto simp: list_all_iff)
  have fin: "finite (edges e rects)" "edges e rects \<noteq> {}" for e using assms(3) by (simp_all add: edges_def)
  have near: "- 4096 \<le> left_edge r" "- 4096 \<le> top_edge r" "right_edge r \<le> 28672" "bottom_edge r \<le> 28672"
      "left_edge r \<le> right_edge r" "top_edge r \<le> bottom_edge r" if "r \<in> set rects" for r
    using that assms(1) by (cases r; auto simp: list_all_iff near_window_def edge_defs)+
  obtain r where r: "r \<in> set rects" using assms(3) by (cases rects) auto
  have "Min (edges left_edge rects) \<le> left_edge r" "right_edge r \<le> Max (edges right_edge rects)"
    "Min (edges top_edge rects) \<le> top_edge r" "bottom_edge r \<le> Max (edges bottom_edge rects)"
    using r by (auto simp: edges_def)
  then have "Min (edges left_edge rects) \<le> Max (edges right_edge rects)" "Min (edges top_edge rects) \<le> Max (edges bottom_edge rects)"
    using near(5,6)[OF r] by linarith+
  moreover have "- 4096 \<le> Min (edges left_edge rects)" "- 4096 \<le> Min (edges top_edge rects)"
    "Max (edges right_edge rects) \<le> 28672" "Max (edges bottom_edge rects) \<le> 28672"
    using fin near(1-4) by (auto simp: edges_def)
  ultimately show ?thesis using merge_all_bounds[OF scr assms(3)] assms(2) by (auto simp: near_window_def)
qed

lemma parts_left_near:
  assumes "near_window s" and "points s \<inter> points a \<noteq> {}"
  shows "list_all near_window (parts_left s a)"
proof -
  obtain sx sy sw sh where s: "s = (sx, sy, sw, sh)" by (cases s)
  obtain x y w h where a: "a = (x, y, w, h)" by (cases a)
  define cy where "cy = max sy y"
  define ch where "ch = min (sy + sh) (y + h) - cy"
  have m: "x < sx + sw" "sx < x + w" "y < sy + sh" "sy < y + h" "0 < sw" "0 < w" "0 < sh" "0 < h"
    using assms(2) by (auto simp: s a)
  have c: "sy \<le> cy" "cy + ch \<le> sy + sh" "0 < ch" using m by (auto simp: cy_def ch_def)
  show ?thesis
    unfolding s a parts_left_eq [OF cy_def ch_def c(3)] using assms(1) m c by (auto simp: s near_window_def)
qed

lemma subtract_near:
  assumes "near_window s" and "on_screen a" and "rectangle_subtract_rect s a = Inr ps"
  shows "list_all near_window ps"
proof (cases "points s \<inter> points a = {}")
  case True
  then show ?thesis
    using subtract_rect_disjoint[OF near_window_on_screen[OF assms(1)] assms(2)] assms(1,3) by simp
next
  case False
  then show ?thesis
    using subtract_parts(1)[OF near_window_on_screen[OF assms(1)] assms(2) False] parts_left_near[OF assms(1) False] assms(3)
    by (auto split: if_splits)
qed

lemma outside_ok:
  assumes "list_all near_window regions" and "on_screen ex"
  obtains rs where "outside ex regions = Inr rs" and "pixels rs = pixels regions - points ex" and "list_all near_window rs"
  using assms(1)
proof (induction regions arbitrary: thesis)
  case Nil then show ?case by (simp add: outside_def)
next
  case (Cons r regions)
  have r: "near_window r" using Cons.prems(2) by simp
  obtain ps where ps: "rectangle_subtract_rect r ex = Inr ps" "pixels ps = points r - points ex"
    by (rule subtract_rect_ok[OF near_window_on_screen[OF r] assms(2)])
  then have near: "list_all near_window ps" using subtract_near[OF r assms(2)] by blast
  obtain rs where rs: "outside ex regions = Inr rs" "pixels rs = pixels regions - points ex" "list_all near_window rs"
    using Cons.IH Cons.prems(2) by auto
  have "outside ex (r # regions) = Inr (ps @ rs)" using ps(1) rs(1) by (auto simp: outside_def)
  moreover have "pixels (ps @ rs) = pixels (r # regions) - points ex" using ps(2) rs(2) by (auto simp del: points.simps)
  ultimately show ?case using Cons.prems(1) near rs(3) by simp
qed

text \<open>Merging keeps the pixels, outside of what is excluded, and fails for no list.\<close>

lemma merge_regions_ok:
  assumes scr: "list_all on_screen regions"
    and near: "\<And>ex. exclude = Some ex \<Longrightarrow> on_screen ex \<and> list_all near_window regions"
  obtains "merge_regions P exclude regions = Inr None" "exclude = None"
    | rs where "merge_regions P exclude regions = Inr (Some rs)" "pixels regions - excluded exclude \<subseteq> pixels rs"
proof (cases "length regions \<le> 1")
  case True then show ?thesis using that(2)[of regions] by (simp add: merge_regions_def)
next
  case False
  then have "regions \<noteq> []" by auto
  then obtain m where m: "merge_all regions = Inr m" "pixels regions \<subseteq> points m" using merge_all_contains[OF scr] by blast
  show ?thesis
  proof (cases exclude)
    case None
    have one: "pixels regions \<subseteq> pixels [m]" using m(2) by simp
    have "merge_regions P exclude regions = Inr None \<or> merge_regions P exclude regions = Inr (Some [m])
        \<or> merge_regions P exclude regions = Inr (Some regions)"
      using False m(1) None by (simp add: merge_regions_def Let_def)
    then show ?thesis using that(1) that(2)[of "[m]"] that(2)[of regions] one None by (auto simp: excluded_def simp del: points.simps)
  next
    case (Some ex)
    have "on_screen m" using near[OF Some] merge_all_near[OF _ m(1) \<open>regions \<noteq> []\<close>] near_window_on_screen by blast
    then obtain ms where ms: "rectangle_subtract_rect m ex = Inr ms" "pixels ms = points m - points ex"
      by (rule subtract_rect_ok[of m ex]) (use near[OF Some] that in auto)
    have "pixels regions - points ex \<subseteq> pixels ms" using m(2) ms(2) by blast
    moreover have "merge_regions P exclude regions = Inr (Some ms) \<or> merge_regions P exclude regions = Inr (Some regions)"
      using False m(1) ms(1) Some by (simp add: merge_regions_def Let_def)
    ultimately show ?thesis using that(2)[of ms] that(2)[of regions] Some by (auto simp: excluded_def simp del: points.simps)
  qed
qed

lemma almost_window_empty: "\<not> almost_window P []"
  by (simp add: almost_window_def)

abbreviation plan_covers :: "send_params \<Rightarrow> rect list \<Rightarrow> rect option \<Rightarrow> py_error + region_call list \<Rightarrow> bool" where
  "plan_covers P regions exclude plan \<equiv> (case plan of
      Inl e \<Rightarrow> e = RuntimeError \<and> sp_enc P (sp_ww P) (sp_wh P) = []
    | Inr calls \<Rightarrow> points (window_rect P) \<inter> (pixels regions - excluded exclude) \<subseteq> call_pixels calls)"

lemma plan_from_candidates:
  assumes "pixels regions - excluded exclude = pixels rs - excluded exclude" and "list_all on_screen rs"
    and "\<And>ex. exclude = Some ex \<Longrightarrow> on_screen ex \<and> list_all near_window rs"
  shows "plan_covers P regions exclude (case merge_regions P exclude rs of Inl e \<Rightarrow> Inl e | Inr None \<Rightarrow> send_full_window_update P
      | Inr (Some rs) \<Rightarrow> if rs = [] then Inr [] else if almost_window P rs then send_full_window_update P
          else Inr (region_calls P 0 rs []))"
proof (rule merge_regions_ok[OF assms(2,3), where P = P])
  have full: "plan_covers P regions exclude (send_full_window_update P)"
    using full_window_covers[of P] by (auto simp: send_full_window_update_def Let_def simp del: points.simps)
  then show ?thesis if "merge_regions P exclude rs = Inr None" using that by simp
  fix qs assume qs: "merge_regions P exclude rs = Inr (Some qs)" "pixels rs - excluded exclude \<subseteq> pixels qs"
  have "plan_covers P regions exclude (if qs = [] then Inr [] else if almost_window P qs then send_full_window_update P
      else Inr (region_calls P 0 qs []))"
    using qs(2) assms(1) full region_calls_cover[of P qs "[]" 0] by (auto simp del: points.simps)
  then show ?thesis using qs(1) by simp
qed

lemma send_regions_plan_covers:
  assumes "list_all on_screen regions" and "order_ok P"
    and "\<And>ex. exclude = Some ex \<Longrightarrow> on_screen ex \<and> list_all near_window regions"
  shows "plan_covers P regions exclude (send_regions_plan P regions exclude)"
proof -
  have full: "plan_covers P regions exclude (send_full_window_update P)"
    using full_window_covers[of P] by (auto simp: send_full_window_update_def Let_def simp del: points.simps)
  have order: "set (sp_order P rs) = set rs" "list_all Q (sp_order P rs) = list_all Q rs" for rs Q
    using assms(2) by (simp_all add: order_ok_def list_all_iff)
  show ?thesis
  proof (cases exclude)
    case None
    then show ?thesis
      using full plan_from_candidates[of regions exclude "sp_order P regions" P] assms(1)
      by (simp add: send_regions_plan_def order del: points.simps)
  next
    case (Some ex)
    obtain rs where rs: "outside ex regions = Inr rs" "pixels rs = pixels regions - points ex" "list_all near_window rs"
      using outside_ok[of regions ex] assms(3)[OF Some] by blast
    have scr: "list_all on_screen rs" using rs(3) near_window_on_screen by (auto simp: list_all_iff)
    have "pixels regions - excluded exclude = pixels (sp_order P rs) - excluded exclude"
      using rs(2) Some by (auto simp: order excluded_def simp del: points.simps)
    from plan_from_candidates[OF this, of P] show ?thesis
      using Some rs scr assms(3)[OF Some] by (simp add: send_regions_plan_def order del: points.simps)
  qed
qed

text \<open>
  C14: the calls for a screen update cover every pixel of the window that its regions cover and the
  excluded region does not, whether the regions are sent one by one, merged or replaced by an
  update of the whole window. Only the lack of an encoding for the window can stop them.
\<close>

theorem screen_update_covers_regions:
  assumes "list_all near_window regions" and "order_ok P" and "\<And>ex. exclude = Some ex \<Longrightarrow> on_screen ex"
  shows "case send_regions_plan P regions exclude of
      Inl e \<Rightarrow> e = RuntimeError \<and> sp_enc P (sp_ww P) (sp_wh P) = []
    | Inr calls \<Rightarrow> points (window_rect P) \<inter> (pixels regions - excluded exclude) \<subseteq> call_pixels calls"
  by (rule send_regions_plan_covers) (use assms near_window_on_screen in \<open>auto simp: list_all_iff\<close>)

definition example_params :: send_params where
  "example_params = \<lparr>sp_ww = 200, sp_wh = 100, sp_full_frames_only = False, sp_stream = False, sp_max_small_regions = 40,
     sp_max_bytes_percent = 60, sp_small_packet_cost = 1024, sp_mmap = False, sp_enc = (\<lambda>w h. ''png''), sp_order = remdups\<rparr>"

theorem screen_update_covers_regions_witness:
  "send_regions_plan example_params [(0, 0, 10, 10), (100, 20, 60, 60)] None
     = Inr [((100, 20, 60, 60), ''png'', 1), ((0, 0, 10, 10), ''png'', 0)]
   \<and> points (0, 0, 200, 100) \<inter> pixels [(0, 0, 10, 10), (100, 20, 60, 60)]
     \<subseteq> call_pixels [((100, 20, 60, 60), ''png'', 1), ((0, 0, 10, 10), ''png'', 0)]"
proof -
  have plan: "send_regions_plan example_params [(0, 0, 10, 10), (100, 20, 60, 60)] None
     = Inr [((100, 20, 60, 60), ''png'', 1), ((0, 0, 10, 10), ''png'', 0)]"
    by (simp add: send_regions_plan_def example_params_def merge_regions_def merge_all_def mk_rectangle_def pixel_count_def cint_def
        almost_window_def MIN_WINDOW_REGION_SIZE_def Let_def)
  have near: "list_all near_window [(0, 0, 10, 10), (100, 20, 60, 60)]" and order: "order_ok example_params"
    by (simp_all add: near_window_def order_ok_def example_params_def)
  have window: "window_rect example_params = (0, 0, 200, 100)" by (simp add: window_rect_def example_params_def)
  show ?thesis
    using screen_update_covers_regions[OF near order, of None] unfolding plan window
    by (simp add: excluded_def del: points.simps)
qed

end
