(* ===== verification/Damage_Window.thy ===== *)
theory Damage_Window
  imports Damage_Plan Glib_Loop "HOL-Library.AList" "HOL-Library.Sublist"
begin

text \<open>
  The screen updates of a window on the server (\<^verbatim>\<open>WindowSource\<close> of
  \<^verbatim>\<open>xpra/server/window/compress.py\<close>): damage is collected in a delayed region, timers decide when it
  is sent, the pixels are captured on the main thread and encoded by the encode thread, and the
  client acknowledges the packets.

  Times are milliseconds; what a method reads from the clock and the statistics is a \<open>reading\<close>,
  any of them at every step. Timers are sources of the GLib loop that may fire at any time. The
  choice of an encoding, the capture of pixels and the encoders are in \<open>window_env\<close>. The encode
  thread takes one item at a time, in two steps, before and after its encoder. The ghost fields
  \<open>ws_real\<close>, \<open>ws_sent\<close>, \<open>ws_log\<close> and \<open>ws_bug\<close> hold the true size of the window, the packets
  queued, what became of its pixels, and whether the code found a region without a timer.
\<close>

subsection \<open>The state\<close>

definition MAX_SEQUENCE :: nat where "MAX_SEQUENCE = 2 ^ 64"
definition MAX_WINDOW_SIZE :: int where "MAX_WINDOW_SIZE = 2 ^ 15 - 2 ^ 13"
definition FRAME_OVERHEAD :: int where "FRAME_OVERHEAD = 1"
definition LOCKED_BATCH_DELAY :: int where "LOCKED_BATCH_DELAY = 1000"

text \<open>The options of a screen update: integers, switches and the encoding.\<close>

type_synonym options = "string \<rightharpoonup> pval"

definition opt_int :: "string \<Rightarrow> int \<Rightarrow> options \<Rightarrow> int" where
  "opt_int k d opts = (case opts k of Some (PInt i) \<Rightarrow> i | Some (PBool b) \<Rightarrow> of_bool b | _ \<Rightarrow> d)"

definition opt_flag :: "string \<Rightarrow> options \<Rightarrow> bool" where
  "opt_flag k opts = (case opts k of None \<Rightarrow> False | Some v \<Rightarrow> py_bool v)"

record delayed_regions =
  dr_time :: int
  dr_encoding :: string
  dr_options :: options
  dr_regions :: "rect list"
  dr_expired :: bool

text \<open>An item of the encode queue: the size asked for, the image captured, and how to send it.\<close>

record capture =
  cp_w :: int
  cp_h :: int
  cp_damage_time :: int
  cp_process_time :: int
  cp_image :: rect
  cp_coding :: string
  cp_sequence :: nat
  cp_options :: options
  cp_flush :: nat

record draw_packet =
  dp_rect :: rect
  dp_coding :: string
  dp_data :: bytes
  dp_sequence :: nat
  dp_stride :: int
  dp_options :: options

record ack_pending =
  ap_queued :: int
  ap_coding :: string
  ap_pixels :: int
  ap_bytes :: nat
  ap_options :: options
  ap_damage_time :: int

datatype timer_cb =
    CbExpire int int
  | CbMaySend
  | CbSoft
  | CbTimeout int
  | CbRefresh options
  | CbDecodeRefresh
  | CbAckMaySend

text \<open>What became of pixels: damaged, captured for sending, outside of the window, given up.\<close>

datatype pixel_event = Damaged rect int int | Captured rect | Resized int int | GivenUp

record batch_config =
  bc_delay :: int
  bc_min_delay :: int
  bc_max_delay :: int
  bc_expire_delay :: int
  bc_timeout_delay :: int
  bc_locked :: bool
  bc_saved :: int
  bc_last_event :: int
  bc_last_delay :: "(int \<times> int) option"
  bc_last_actual_delay :: "(int \<times> int) option"

record quality_settings =
  q_fixed_speed :: int
  q_fixed_min_speed :: int
  q_fixed_max_speed :: int
  q_current_speed :: int
  q_fixed_quality :: int
  q_fixed_min_quality :: int
  q_fixed_max_quality :: int
  q_current_quality :: int
  q_content_type :: string
  q_rgb_formats :: "string list"
  q_rgb_lz4 :: bool
  q_transparency :: bool

record window_source =
  ws_managed :: bool
  ws_suspended :: bool
  ws_iconic :: bool
  ws_is_idle :: bool
  ws_full_frames_only :: bool
  ws_encoding :: string
  ws_dims :: "int \<times> int"
  ws_real :: "int \<times> int"
  ws_max_small_regions :: nat
  ws_max_bytes_percent :: int
  ws_small_packet_cost :: int
  ws_mmap :: bool
  ws_bandwidth_limit :: int
  ws_auto_refresh_encodings :: "string list"
  ws_auto_refresh_delay :: int
  ws_base_refresh_delay :: int
  ws_min_refresh_delay :: int
  ws_refresh_quality :: int
  ws_refresh_speed :: int
  ws_speed_quality :: quality_settings
  ws_max_soft_expired :: int
  ws_batch :: batch_config
  ws_loop :: "timer_cb mainloop"
  ws_expire_timer :: nat
  ws_may_send_timer :: nat
  ws_soft_timer :: nat
  ws_timeout_timer :: nat
  ws_refresh_timer :: nat
  ws_decode_timer :: nat
  ws_soft_expired :: int
  ws_delayed :: "delayed_regions option"
  ws_sequence :: nat
  ws_cancelled :: nat
  ws_packet_sequence :: nat
  ws_refresh_regions :: "rect list"
  ws_refresh_event_time :: int
  ws_refresh_target_time :: int
  ws_events_count :: int
  ws_last_resized :: int
  ws_resize_events :: "int list"
  ws_decode_errors :: int
  ws_queue :: "capture list"
  ws_current :: "capture option"
  ws_encoding_pending :: "(nat \<times> int \<times> int \<times> int) list"
  ws_ack_pending :: "(nat \<times> ack_pending) list"
  ws_sent :: "draw_packet list"
  ws_log :: "pixel_event list"
  ws_bug :: bool

text \<open>What is read from the clock and the statistics of the connection.\<close>

record reading =
  rd_now :: int
  rd_latency :: int
  rd_bitrate :: int
  rd_queue_size :: int
  rd_congestion_elapsed :: int
  rd_idle :: int
  rd_congested :: "int \<Rightarrow> int"
  rd_refresh_mult :: "int \<Rightarrow> int"

text \<open>
  The windowing system and the encoders: the encoding for a size, the size of the image that is
  captured for a region, and what an encoder returns, \<open>None\<close> for nothing or an exception.
\<close>

type_synonym encoded = "string \<times> bytes \<times> options \<times> int \<times> int \<times> int"

record window_env =
  we_encoding :: "int \<Rightarrow> int \<Rightarrow> options \<Rightarrow> string \<Rightarrow> string"
  we_refresh_encoding :: "int \<Rightarrow> int \<Rightarrow> options \<Rightarrow> string \<Rightarrow> string"
  we_image :: "int \<Rightarrow> int \<Rightarrow> int \<Rightarrow> int \<Rightarrow> (int \<times> int) option"
  we_encode :: "capture \<Rightarrow> encoded option"
  we_order :: "rect list \<Rightarrow> rect list"

type_synonym w_outcome = "window_source \<times> py_error option"

subsection \<open>Timers\<close>

definition set_expire_timer :: "int \<Rightarrow> int \<Rightarrow> window_source \<Rightarrow> window_source" where
  "set_expire_timer due target s = (let (i, l) = ml_add (CbExpire due target) (ws_loop s) in s\<lparr>ws_expire_timer := i, ws_loop := l\<rparr>)"

definition set_may_send_timer :: "window_source \<Rightarrow> window_source" where
  "set_may_send_timer s = (let (i, l) = ml_add CbMaySend (ws_loop s) in s\<lparr>ws_may_send_timer := i, ws_loop := l\<rparr>)"

definition set_soft_timer :: "window_source \<Rightarrow> window_source" where
  "set_soft_timer s = (let (i, l) = ml_add CbSoft (ws_loop s) in s\<lparr>ws_soft_timer := i, ws_loop := l\<rparr>)"

definition set_timeout_timer :: "int \<Rightarrow> window_source \<Rightarrow> window_source" where
  "set_timeout_timer t s = (let (i, l) = ml_add (CbTimeout t) (ws_loop s) in s\<lparr>ws_timeout_timer := i, ws_loop := l\<rparr>)"

definition set_refresh_timer :: "options \<Rightarrow> window_source \<Rightarrow> window_source" where
  "set_refresh_timer opts s = (let (i, l) = ml_add (CbRefresh opts) (ws_loop s) in s\<lparr>ws_refresh_timer := i, ws_loop := l\<rparr>)"

definition set_decode_timer :: "window_source \<Rightarrow> window_source" where
  "set_decode_timer s = (let (i, l) = ml_add CbDecodeRefresh (ws_loop s) in s\<lparr>ws_decode_timer := i, ws_loop := l\<rparr>)"

definition add_idle_may_send :: "window_source \<Rightarrow> window_source" where
  "add_idle_may_send s = s\<lparr>ws_loop := snd (ml_add CbAckMaySend (ws_loop s))\<rparr>"

definition cancel_expire_timer :: "window_source \<Rightarrow> window_source" where
  "cancel_expire_timer s =
     (if ws_expire_timer s = 0 then s else s\<lparr>ws_expire_timer := 0, ws_loop := ml_remove (ws_expire_timer s) (ws_loop s)\<rparr>)"

definition cancel_may_send_timer :: "window_source \<Rightarrow> window_source" where
  "cancel_may_send_timer s =
     (if ws_may_send_timer s = 0 then s else s\<lparr>ws_may_send_timer := 0, ws_loop := ml_remove (ws_may_send_timer s) (ws_loop s)\<rparr>)"

definition cancel_soft_timer :: "window_source \<Rightarrow> window_source" where
  "cancel_soft_timer s =
     (if ws_soft_timer s = 0 then s else s\<lparr>ws_soft_timer := 0, ws_loop := ml_remove (ws_soft_timer s) (ws_loop s)\<rparr>)"

definition cancel_timeout_timer :: "window_source \<Rightarrow> window_source" where
  "cancel_timeout_timer s =
     (if ws_timeout_timer s = 0 then s else s\<lparr>ws_timeout_timer := 0, ws_loop := ml_remove (ws_timeout_timer s) (ws_loop s)\<rparr>)"

definition cancel_refresh_timer :: "window_source \<Rightarrow> window_source" where
  "cancel_refresh_timer s =
     (if ws_refresh_timer s = 0 then s
      else s\<lparr>ws_refresh_timer := 0, ws_loop := ml_remove (ws_refresh_timer s) (ws_loop s),
             ws_refresh_event_time := 0, ws_refresh_target_time := 0\<rparr>)"

definition cancel_decode_timer :: "window_source \<Rightarrow> window_source" where
  "cancel_decode_timer s =
     (if ws_decode_timer s = 0 then s else s\<lparr>ws_decode_timer := 0, ws_loop := ml_remove (ws_decode_timer s) (ws_loop s)\<rparr>)"

subsection \<open>Cancelling\<close>

definition w_cancelled :: "nat \<Rightarrow> window_source \<Rightarrow> bool" where
  "w_cancelled sequence s = (sequence \<le> ws_cancelled s)"

definition cancel_damage :: "nat \<Rightarrow> window_source \<Rightarrow> window_source" where
  "cancel_damage limit s =
     (let c = (if limit = 0 then ws_sequence s else limit);
          s = cancel_decode_timer (cancel_timeout_timer (cancel_refresh_timer (cancel_soft_timer
                (cancel_may_send_timer (cancel_expire_timer (s\<lparr>ws_cancelled := c\<rparr>))))))
      in s\<lparr>ws_refresh_regions := [], ws_delayed := None,
           ws_encoding_pending := filter (\<lambda>(sequence, _). c < sequence) (ws_encoding_pending s)\<rparr>)"

subsection \<open>Statistics\<close>

text \<open>Packets that should have been acknowledged by now, acknowledgements due, encodings under way.\<close>

definition packets_backlog :: "reading \<Rightarrow> window_source \<Rightarrow> nat" where
  "packets_backlog rd s = length (filter (\<lambda>(_, a). ap_queued a \<le> rd_now rd - rd_latency rd) (ws_ack_pending s))"

definition acks_pending :: "window_source \<Rightarrow> nat" where
  "acks_pending s = length (filter (\<lambda>(_, a). ap_queued a \<noteq> 0) (ws_ack_pending s))"

definition pixels_encoding_backlog :: "window_source \<Rightarrow> int \<times> nat" where
  "pixels_encoding_backlog s = (sum_list (map (\<lambda>(_, _, w, h). w * h) (ws_encoding_pending s)), length (ws_encoding_pending s))"

subsection \<open>Speed and quality\<close>

definition TEXT_QUALITY :: int where "TEXT_QUALITY = 100"

definition assign_sq_options :: "reading \<Rightarrow> options \<Rightarrow> window_source \<Rightarrow> options" where
  "assign_sq_options rd opts s =
     (let Q = ws_speed_quality s;
          backlog = int (packets_backlog rd s);
          speed = opt_int ''speed'' 0 opts;
          speed = (if speed \<noteq> 0 then speed
                   else if q_fixed_speed Q > 0 then q_fixed_speed Q
                   else min (q_fixed_max_speed Q) (max (max 1 (q_fixed_min_speed Q)) (q_current_speed Q - backlog * 20)));
          quality = opt_int ''quality'' 0 opts;
          quality = (if quality \<noteq> 0 then quality
                     else if q_fixed_quality Q > 0 then q_fixed_quality Q
                     else
                       let quality = (if sublist ''text'' (q_content_type Q) then TEXT_QUALITY else q_current_quality Q);
                           quality = (if backlog = 0 then quality + rd_idle rd * 25 div 1000 else quality);
                           discount = (if opts ''scaled-width'' \<noteq> None \<or> opts ''scaled-height'' \<noteq> None then 20 else 0)
                       in min (q_fixed_max_quality Q) (max (max 1 (q_fixed_min_quality Q)) (quality - backlog * 20 - discount)));
          opts = opts(''quality'' \<mapsto> PInt quality, ''speed'' \<mapsto> PInt speed,
                      ''rgb_formats'' \<mapsto> PList (map PStr (q_rgb_formats Q)), ''lz4'' \<mapsto> PBool (q_rgb_lz4 Q));
          opts = (if ws_encoding s = ''grayscale'' then opts(''grayscale'' \<mapsto> PBool True) else opts);
          opts = (if q_transparency Q then opts else opts(''alpha'' \<mapsto> PBool False))
      in if q_content_type Q = [] then opts else opts(''content-type'' \<mapsto> PStr (q_content_type Q)))"

subsection \<open>Capturing\<close>

definition may_update_window_dimensions :: "reading \<Rightarrow> window_source \<Rightarrow> window_source" where
  "may_update_window_dimensions rd s =
     (if ws_dims s = ws_real s then s
      else s\<lparr>ws_last_resized := rd_now rd, ws_dims := ws_real s,
             ws_resize_events := (let es = ws_resize_events s @ [rd_now rd] in drop (length es - 4) es)\<rparr>)"

text \<open>The size of the encode queue is a quotient by the area: noticing that a window has none raises.\<close>

definition resize_raises :: "window_source \<Rightarrow> bool" where
  "resize_raises s = (ws_dims s \<noteq> ws_real s \<and> fst (ws_real s) * snd (ws_real s) = 0)"

text \<open>The part of a region that is in the window; a region past one edge is cut at both.\<close>

definition clip_region :: "int \<times> int \<Rightarrow> rect \<Rightarrow> rect option" where
  "clip_region dims r =
     (case (dims, r) of ((ww, wh), (x, y, w, h)) \<Rightarrow>
        if x + w < 0 \<or> y + h < 0 then None
        else
          let (w, h) = (if x + w > ww \<or> y + h > wh then (ww - x, wh - y) else (w, h))
          in if w \<le> 0 \<or> h \<le> 0 then None else Some (x, y, w, h))"

definition get_damage_image :: "window_env \<Rightarrow> reading \<Rightarrow> rect \<Rightarrow> window_source \<Rightarrow> window_source \<times> rect option" where
  "get_damage_image E rd r s =
     (if \<not> ws_managed s then (s, None)
      else
        let s = may_update_window_dimensions rd s in
        case clip_region (ws_real s) r of
          None \<Rightarrow> (s, None)
        | Some (x, y, w, h) \<Rightarrow>
            let s = s\<lparr>ws_sequence := ws_sequence s + 1\<rparr> in
            if w_cancelled (ws_sequence s) s then (s, None)
            else
              case we_image E x y w h of
                None \<Rightarrow> (s, None)
              | Some (iw, ih) \<Rightarrow> if iw = 0 \<or> ih = 0 then (s, None) else (s, Some (x, y, iw, ih)))"

definition process_damage_region ::
  "window_env \<Rightarrow> reading \<Rightarrow> int \<Rightarrow> options \<Rightarrow> region_call \<Rightarrow> window_source \<Rightarrow> window_source" where
  "process_damage_region E rd damage_time opts call s =
     (case call of (r, coding, flush) \<Rightarrow>
        case get_damage_image E rd r s of
          (s, None) \<Rightarrow> s
        | (s, Some img) \<Rightarrow>
            s\<lparr>ws_queue := ws_queue s @
                [\<lparr>cp_w = fst (snd (snd r)), cp_h = snd (snd (snd r)), cp_damage_time = damage_time, cp_process_time = rd_now rd,
                  cp_image = img, cp_coding = coding, cp_sequence = ws_sequence s, cp_options = opts, cp_flush = flush\<rparr>],
              ws_log := ws_log s @ [Captured img]\<rparr>)"

definition send_params_of :: "(int \<Rightarrow> int \<Rightarrow> options \<Rightarrow> string \<Rightarrow> string) \<Rightarrow> window_env \<Rightarrow> options \<Rightarrow> string \<Rightarrow> window_source \<Rightarrow> send_params" where
  "send_params_of best E opts coding s =
     \<lparr>sp_ww = fst (ws_dims s), sp_wh = snd (ws_dims s), sp_full_frames_only = ws_full_frames_only s,
      sp_stream = (ws_encoding s = ''stream''), sp_max_small_regions = ws_max_small_regions s,
      sp_max_bytes_percent = ws_max_bytes_percent s, sp_small_packet_cost = ws_small_packet_cost s, sp_mmap = ws_mmap s,
      sp_enc = (\<lambda>w h. best w h opts coding), sp_order = we_order E\<rparr>"

text \<open>Only the first call can find the window resized.\<close>

definition do_send_regions ::
  "(int \<Rightarrow> int \<Rightarrow> options \<Rightarrow> string \<Rightarrow> string) \<Rightarrow> window_env \<Rightarrow> reading \<Rightarrow> int \<Rightarrow> rect list \<Rightarrow> string \<Rightarrow> options \<Rightarrow> window_source \<Rightarrow> w_outcome" where
  "do_send_regions best E rd damage_time regions coding opts s =
     (let opts = assign_sq_options rd opts s in
      case send_regions_plan (send_params_of best E opts coding s) regions None of
        Inl e \<Rightarrow> (s, Some e)
      | Inr calls \<Rightarrow>
          if calls \<noteq> [] \<and> ws_managed s \<and> resize_raises s then (may_update_window_dimensions rd s, Some OtherError)
          else (fold (process_damage_region E rd damage_time opts) calls s, None))"

definition send_delayed_regions :: "window_env \<Rightarrow> reading \<Rightarrow> delayed_regions \<Rightarrow> window_source \<Rightarrow> w_outcome" where
  "send_delayed_regions E rd d s =
     (if \<not> ws_managed s then (s, None)
      else
        let s = s\<lparr>ws_batch := (ws_batch s)\<lparr>bc_last_event := rd_now rd\<rparr>\<rparr> in
        if w_cancelled MAX_SEQUENCE s then (s, None)
        else do_send_regions (we_encoding E) E rd (dr_time d) (dr_regions d) (dr_encoding d) (dr_options d) s)"

subsection \<open>Sending delayed regions\<close>

definition do_send_delayed :: "window_env \<Rightarrow> reading \<Rightarrow> window_source \<Rightarrow> w_outcome" where
  "do_send_delayed E rd s =
     (let s = cancel_soft_timer (cancel_timeout_timer s) in
      case ws_delayed s of
        None \<Rightarrow> (s, None)
      | Some d \<Rightarrow>
          let lad = (rd_now rd, rd_now rd - dr_time d);
              s = s\<lparr>ws_delayed := None, ws_batch := (ws_batch s)\<lparr>bc_last_actual_delay := Some lad, bc_last_delay := Some lad\<rparr>\<rparr>
          in send_delayed_regions E rd d s)"

definition may_send_delayed :: "window_env \<Rightarrow> reading \<Rightarrow> window_source \<Rightarrow> w_outcome" where
  "may_send_delayed E rd s =
     (case ws_delayed s of
        None \<Rightarrow> (s, None)
      | Some d \<Rightarrow>
          let actual_delay = rd_now rd - dr_time d; bc = ws_batch s in
          if \<not> dr_expired d then (s, None)
          else if packets_backlog rd s > 0 then
            (if actual_delay > bc_timeout_delay bc then (s\<lparr>ws_ack_pending := []\<rparr>, None) else (s, None))
          else if bc_locked bc then
            (if bc_delay bc > actual_delay then (set_may_send_timer s, None) else do_send_delayed E rd s)
          else if ws_bandwidth_limit s > 0 \<and> rd_bitrate rd \<ge> ws_bandwidth_limit s then (set_may_send_timer s, None)
          else if fst (pixels_encoding_backlog s) \<ge> fst (ws_dims s) * snd (ws_dims s) \<or> snd (pixels_encoding_backlog s) > 10 then
            ((if acks_pending s = 0 then set_may_send_timer s else s), None)
          else do_send_delayed E rd (s\<lparr>ws_soft_expired := 0\<rparr>))"

definition get_refresh_options :: "window_source \<Rightarrow> options" where
  "get_refresh_options s =
     [''optimize'' \<mapsto> PBool False, ''auto_refresh'' \<mapsto> PBool True,
      ''quality'' \<mapsto> PInt (ws_refresh_quality s), ''speed'' \<mapsto> PInt (ws_refresh_speed s)]"

definition full_quality_refresh :: "window_env \<Rightarrow> reading \<Rightarrow> options \<Rightarrow> window_source \<Rightarrow> w_outcome" where
  "full_quality_refresh E rd opts s =
     (if \<not> ws_managed s \<or> ws_auto_refresh_encodings s = [] \<or> w_cancelled MAX_SEQUENCE s then (s, None)
      else
        let s = s\<lparr>ws_refresh_regions := []\<rparr> in
        send_delayed_regions E rd
          \<lparr>dr_time = rd_now rd, dr_encoding = hd (ws_auto_refresh_encodings s), dr_options = opts ++ get_refresh_options s,
           dr_regions = [(0, 0, fst (ws_dims s), snd (ws_dims s))], dr_expired = False\<rparr> s)"

definition expire_delayed_region :: "window_env \<Rightarrow> reading \<Rightarrow> int \<Rightarrow> int \<Rightarrow> window_source \<Rightarrow> w_outcome" where
  "expire_delayed_region E rd due target s =
     (let s = s\<lparr>ws_expire_timer := 0\<rparr> in
      case ws_delayed s of
        None \<Rightarrow> (s, None)
      | Some d \<Rightarrow>
          if ws_soft_timer s \<noteq> 0 then (s, None)
          else
            case may_send_delayed E rd (cancel_may_send_timer (s\<lparr>ws_delayed := Some (d\<lparr>dr_expired := True\<rparr>)\<rparr>)) of
              (s, Some e) \<Rightarrow> (s, Some e)
            | (s, None) \<Rightarrow>
                (case ws_delayed s of
                   None \<Rightarrow> (s, None)
                 | Some d \<Rightarrow>
                     if rd_now rd < due then (set_expire_timer due 100 s, None)
                     else if ws_soft_expired s < min (1 + ws_events_count s div 2) (ws_max_soft_expired s)
                     then (set_soft_timer (s\<lparr>ws_soft_expired := ws_soft_expired s + 1\<rparr>), None)
                     else ((if ws_timeout_timer s = 0 then set_timeout_timer (dr_time d) s else s), None)))"

definition delayed_region_soft_timeout :: "window_env \<Rightarrow> reading \<Rightarrow> window_source \<Rightarrow> w_outcome" where
  "delayed_region_soft_timeout E rd s = do_send_delayed E rd (s\<lparr>ws_soft_timer := 0\<rparr>)"

text \<open>Cancelling drops the captures under way too, so the ghost log counts the window as damaged again.\<close>

definition log_captures_dropped :: "window_source \<Rightarrow> window_source" where
  "log_captures_dropped s =
     s\<lparr>ws_log := ws_log s @ [Damaged (0, 0, fst (ws_dims s), snd (ws_dims s)) (fst (ws_real s)) (snd (ws_real s))]\<rparr>"

definition delayed_region_timeout :: "window_env \<Rightarrow> reading \<Rightarrow> int \<Rightarrow> window_source \<Rightarrow> w_outcome" where
  "delayed_region_timeout E rd region_time s =
     (let s = s\<lparr>ws_timeout_timer := 0\<rparr> in
      case ws_delayed s of
        None \<Rightarrow> (s, None)
      | Some d \<Rightarrow>
          if dr_time d \<noteq> region_time then (s, None)
          else full_quality_refresh E rd (dr_options d) (log_captures_dropped (cancel_damage 0 s)))"

subsection \<open>Damage\<close>

text \<open>The options of a later update join those of the delayed region, or replace them.\<close>

definition merge_options :: "options \<Rightarrow> options \<Rightarrow> options" where
  "merge_options opts existing =
     (\<lambda>k. if k \<noteq> ''override_options'' \<and> opts k \<noteq> None \<and> (opt_flag ''override_options'' opts \<or> existing k = None)
          then opts k else existing k)"

definition postpone_refresh :: "reading \<Rightarrow> options \<Rightarrow> window_source \<Rightarrow> window_source" where
  "postpone_refresh rd opts s =
     (if ws_refresh_timer s \<noteq> 0 \<and> opt_int ''quality'' (q_current_quality (ws_speed_quality s)) opts < ws_refresh_quality s
         \<and> pixel_count (ws_refresh_regions s) > 0 then
        let pct = rd_congested rd (min 100 (100 * pixel_count (ws_refresh_regions s) div (fst (ws_dims s) * snd (ws_dims s))));
            sched_delay = max (ws_min_refresh_delay s) (ws_base_refresh_delay s * pct div 100)
        in s\<lparr>ws_refresh_target_time := max (ws_refresh_target_time s) (rd_now rd + sched_delay)\<rparr>
      else s)"

text \<open>The delay of a new region, what is left of it, and after how long it expires.\<close>

definition damage_delay :: "reading \<Rightarrow> options \<Rightarrow> window_source \<Rightarrow> int" where
  "damage_delay rd opts s =
     (let bc = ws_batch s; now = rd_now rd;
          delay = opt_int ''delay'' (bc_delay bc) opts;
          resize_elapsed = now - ws_last_resized s;
          es = ws_resize_events s;
          delay = (if resize_elapsed < 500 \<and> 2 \<le> length es \<and> now - es ! (length es - 2) < 1000
                   then delay + (500 - resize_elapsed) div 2 else delay);
          delay = (if rd_congestion_elapsed rd < 1000 then delay + (1000 - rd_congestion_elapsed rd) div 4 else delay);
          abs_min_delay = (if opt_flag ''more'' opts then 5 else 0);
          min_delay = max abs_min_delay (bc_min_delay bc * max 2 (rd_queue_size rd) div 2 - FRAME_OVERHEAD)
      in min (opt_int ''max_delay'' (bc_max_delay bc) opts) (max delay (opt_int ''min_delay'' min_delay opts)))"

definition remaining_delay :: "reading \<Rightarrow> options \<Rightarrow> window_source \<Rightarrow> int" where
  "remaining_delay rd opts s =
     max (if opt_flag ''more'' opts then 5 else 0) (damage_delay rd opts s - (rd_now rd - bc_last_event (ws_batch s)))"

definition delay_increase :: "int \<Rightarrow> int \<Rightarrow> (int \<times> int) option \<Rightarrow> int \<Rightarrow> int" where
  "delay_increase now expire_delay v inc =
     (case v of None \<Rightarrow> inc
      | Some (when, d) \<Rightarrow>
          if d > expire_delay \<and> now - when < 5000 then max inc ((d - expire_delay) * (5000 - (now - when)) div 10000) else inc)"

definition new_delayed_region :: "reading \<Rightarrow> rect \<Rightarrow> options \<Rightarrow> window_source \<Rightarrow> w_outcome" where
  "new_delayed_region rd r opts s =
     (case r of (x, y, w, h) \<Rightarrow>
        case mk_rectangle x y w h of
          Inl e \<Rightarrow> (s, Some e)
        | Inr region \<Rightarrow>
            let bc = ws_batch s; now = rd_now rd;
                delay = remaining_delay rd opts s;
                encoding = (case opts ''encoding'' of Some (PStr e) \<Rightarrow> e | _ \<Rightarrow> ws_encoding s);
                expire_delay = min (bc_expire_delay bc) delay;
                inc = delay_increase now expire_delay (bc_last_delay bc) (delay_increase now expire_delay (bc_last_actual_delay bc) 0);
                s = s\<lparr>ws_delayed := Some \<lparr>dr_time = now, dr_encoding = encoding, dr_options = opts, dr_regions = [region], dr_expired = False\<rparr>,
                      ws_batch := bc\<lparr>bc_last_delay := Some (now, delay)\<rparr>\<rparr>
            in (set_expire_timer (now + expire_delay + inc) (damage_delay rd opts s) s, None))"

definition add_to_delayed :: "rect \<Rightarrow> options \<Rightarrow> delayed_regions \<Rightarrow> window_source \<Rightarrow> py_error + delayed_regions" where
  "add_to_delayed r opts d s =
     (case (if ws_full_frames_only s \<or> length (dr_regions d) \<ge> ws_max_small_regions s
            then Inr [(0, 0, fst (ws_dims s), snd (ws_dims s))]
            else
              case r of (x, y, w, h) \<Rightarrow>
                case mk_rectangle x y w h of
                  Inl e \<Rightarrow> Inl e
                | Inr region \<Rightarrow>
                    (case add_rectangle (Suc (nat w * nat h)) (dr_regions d) region of
                       Some (Inr (regions, n)) \<Rightarrow> Inr regions
                     | Some (Inl e) \<Rightarrow> Inl e
                     | None \<Rightarrow> Inl OtherError)) of
        Inl e \<Rightarrow> Inl e
      | Inr regions \<Rightarrow> Inr (d\<lparr>dr_regions := regions, dr_options := merge_options opts (dr_options d)\<rparr>))"

definition do_damage :: "reading \<Rightarrow> rect \<Rightarrow> options \<Rightarrow> window_source \<Rightarrow> w_outcome" where
  "do_damage rd r opts s =
     (let s = postpone_refresh rd opts s in
      case ws_delayed s of
        None \<Rightarrow> new_delayed_region rd r opts s
      | Some d \<Rightarrow>
          (case add_to_delayed r opts d s of
             Inl e \<Rightarrow> (s, Some e)
           | Inr d \<Rightarrow>
               let s = s\<lparr>ws_delayed := Some d\<rparr> in
               if ws_expire_timer s = 0 \<and> ws_soft_timer s = 0 \<and> ws_soft_expired s = 0
               then (set_expire_timer (rd_now rd) 100 (s\<lparr>ws_bug := True\<rparr>), None) else (s, None)))"

definition damage :: "reading \<Rightarrow> rect \<Rightarrow> options \<Rightarrow> window_source \<Rightarrow> w_outcome" where
  "damage rd r opts s =
     (case r of (x, y, w, h) \<Rightarrow>
        if ws_suspended s \<or> w = 0 \<or> h = 0 then (s, None)
        else
          let s = (if opt_flag ''damage'' opts then s\<lparr>ws_events_count := ws_events_count s + 1\<rparr> else s);
              opts = opts(''damage'' := None);
              failed = resize_raises s;
              s = may_update_window_dimensions rd s;
              (ww, wh) = ws_dims s
          in if failed then (s, Some OtherError)
             else if ww = 0 \<or> wh = 0 \<or> ww > MAX_WINDOW_SIZE \<or> wh > MAX_WINDOW_SIZE then (s, None)
             else
               let s = s\<lparr>ws_log := ws_log s @ [Damaged r ww wh]\<rparr>
               in do_damage rd (if ws_full_frames_only s then (0, 0, ww, wh) else r) opts s)"

definition w_refresh :: "reading \<Rightarrow> options \<Rightarrow> window_source \<Rightarrow> w_outcome" where
  "w_refresh rd opts s = damage rd (0, 0, fst (ws_dims s), snd (ws_dims s)) opts s"

subsection \<open>The encode thread\<close>

text \<open>An encoder takes the next item unless it was cancelled; then its result is queued.\<close>

definition encode_start :: "window_source \<Rightarrow> window_source" where
  "encode_start s =
     (case (ws_current s, ws_queue s) of
        (None, item # items) \<Rightarrow>
          let s = s\<lparr>ws_queue := items\<rparr> in
          if w_cancelled (cp_sequence item) s \<or> ws_suspended s then s
          else s\<lparr>ws_current := Some item,
                 ws_encoding_pending := AList.update (cp_sequence item) (cp_damage_time item, cp_w item, cp_h item) (ws_encoding_pending s)\<rparr>
      | _ \<Rightarrow> s)"

definition make_draw_packet :: "rect \<Rightarrow> string \<Rightarrow> bytes \<Rightarrow> int \<Rightarrow> options \<Rightarrow> window_source \<Rightarrow> window_source \<times> draw_packet" where
  "make_draw_packet r coding data stride client_options s =
     (s\<lparr>ws_packet_sequence := ws_packet_sequence s + 1\<rparr>,
      \<lparr>dp_rect = r, dp_coding = coding, dp_data = data, dp_sequence = ws_packet_sequence s, dp_stride = stride,
       dp_options = client_options\<rparr>)"

definition queue_damage_packet :: "reading \<Rightarrow> draw_packet \<Rightarrow> int \<Rightarrow> window_source \<Rightarrow> window_source" where
  "queue_damage_packet rd p damage_time s =
     (case dp_rect p of (x, y, w, h) \<Rightarrow>
        s\<lparr>ws_ack_pending := AList.update (dp_sequence p)
            \<lparr>ap_queued = rd_now rd, ap_coding = dp_coding p, ap_pixels = w * h, ap_bytes = length (dp_data p),
             ap_options = dp_options p, ap_damage_time = damage_time\<rparr> (ws_ack_pending s),
          ws_sent := ws_sent s @ [p]\<rparr>)"

definition make_data_packet :: "window_env \<Rightarrow> capture \<Rightarrow> window_source \<Rightarrow> window_source \<times> draw_packet option" where
  "make_data_packet E item s =
     (case cp_image item of (x, y, w, h) \<Rightarrow>
        if w \<le> 0 \<or> h \<le> 0 then (s, None)
        else
          case we_encode E item of
            None \<Rightarrow> (s, None)
          | Some (coding, data, client_options, outw, outh, stride) \<Rightarrow>
              if coding \<noteq> ''mmap'' \<and> (w_cancelled (cp_sequence item) s \<or> ws_suspended s) then (s, None)
              else
                let (s, p) = make_draw_packet (x, y, outw, outh) coding data stride
                               (client_options(''flush'' \<mapsto> PInt (int (cp_flush item)))) s
                in (s, Some p))"

definition encode_finish :: "window_env \<Rightarrow> reading \<Rightarrow> window_source \<Rightarrow> window_source" where
  "encode_finish E rd s =
     (case ws_current s of
        None \<Rightarrow> s
      | Some item \<Rightarrow>
          let (s, p) = make_data_packet E item (s\<lparr>ws_current := None\<rparr>);
              s = s\<lparr>ws_encoding_pending := AList.delete (cp_sequence item) (ws_encoding_pending s)\<rparr>
          in case p of None \<Rightarrow> s | Some p \<Rightarrow> queue_damage_packet rd p (cp_damage_time item) s)"

subsection \<open>Acknowledgements\<close>

definition WINDOW_DECODE_ERROR :: int where "WINDOW_DECODE_ERROR = -1"

definition client_decode_error :: "window_source \<Rightarrow> window_source" where
  "client_decode_error s =
     (let s = s\<lparr>ws_decode_errors := ws_decode_errors s + 1\<rparr> in
      if ws_decode_timer s = 0 then set_decode_timer s else s)"

definition decode_error_refresh :: "window_env \<Rightarrow> reading \<Rightarrow> window_source \<Rightarrow> w_outcome" where
  "decode_error_refresh E rd s = full_quality_refresh E rd Map.empty (s\<lparr>ws_decode_timer := 0\<rparr>)"

definition damage_packet_acked :: "nat \<Rightarrow> int \<Rightarrow> window_source \<Rightarrow> window_source" where
  "damage_packet_acked sequence decode_time s =
     (let s = (if decode_time = WINDOW_DECODE_ERROR then client_decode_error s else s) in
      if map_of (ws_ack_pending s) sequence = None then s
      else
        let s = s\<lparr>ws_ack_pending := AList.delete sequence (ws_ack_pending s)\<rparr> in
        case ws_delayed s of
          None \<Rightarrow> s\<lparr>ws_soft_expired := 0\<rparr>
        | Some d \<Rightarrow> if dr_expired d then add_idle_may_send s else s)"

definition call_may_send_delayed :: "window_env \<Rightarrow> reading \<Rightarrow> window_source \<Rightarrow> w_outcome" where
  "call_may_send_delayed E rd s = may_send_delayed E rd (cancel_may_send_timer s)"

definition timer_may_send :: "window_env \<Rightarrow> reading \<Rightarrow> window_source \<Rightarrow> w_outcome" where
  "timer_may_send E rd s = may_send_delayed E rd (s\<lparr>ws_may_send_timer := 0\<rparr>)"

subsection \<open>Automatic refresh\<close>

definition can_refresh :: "window_source \<Rightarrow> bool" where
  "can_refresh s = (ws_managed s \<and> ws_auto_refresh_delay s > 0 \<and> \<not> w_cancelled MAX_SEQUENCE s \<and> ws_auto_refresh_encodings s \<noteq> [])"

definition timer_full_refresh :: "window_env \<Rightarrow> reading \<Rightarrow> window_source \<Rightarrow> w_outcome" where
  "timer_full_refresh E rd s =
     (let ret = ws_refresh_event_time s; regions = ws_refresh_regions s;
          s = s\<lparr>ws_refresh_event_time := 0, ws_refresh_regions := []\<rparr>
      in if can_refresh s \<and> regions \<noteq> [] \<and> ret > 0
         then do_send_regions (we_refresh_encoding E) E rd (rd_now rd) regions (hd (ws_auto_refresh_encodings s)) (get_refresh_options s) s
         else (s, None))"

definition refresh_timer_function :: "window_env \<Rightarrow> reading \<Rightarrow> options \<Rightarrow> window_source \<Rightarrow> w_outcome" where
  "refresh_timer_function E rd opts s =
     (let s = s\<lparr>ws_refresh_timer := 0\<rparr> in
      if \<not> can_refresh s then (s\<lparr>ws_refresh_event_time := 0\<rparr>, None)
      else if ws_refresh_event_time s = 0 then (s, None)
      else if ws_refresh_target_time s - rd_now rd < 50 then timer_full_refresh E rd s
      else (set_refresh_timer opts s, None))"

text \<open>Whether an update has to be refreshed: \<open>lossy_formats\<close> are the subsampled pixel formats.\<close>

definition is_lossy :: "string list \<Rightarrow> int \<Rightarrow> string \<Rightarrow> options \<Rightarrow> window_source \<Rightarrow> bool" where
  "is_lossy lossy_formats depth encoding client_options s =
     (if startswith encoding ''png'' then depth > 32 \<or> depth = 30
      else if startswith encoding ''rgb'' \<or> encoding = ''mmap'' then False
      else opt_int ''quality'' 0 client_options < ws_refresh_quality s
        \<or> (\<exists>f \<in> set lossy_formats. client_options ''csc'' = Some (PStr f))
        \<or> client_options ''scaled_size'' \<noteq> None \<and> client_options ''scaled_size'' \<noteq> Some PNone)"

definition remove_refresh_region :: "rect \<Rightarrow> window_source \<Rightarrow> w_outcome" where
  "remove_refresh_region r s =
     (case remove_rectangle (ws_refresh_regions s) r of
        Inl e \<Rightarrow> (s, Some e)
      | Inr rs \<Rightarrow>
          let s = s\<lparr>ws_refresh_regions := rs\<rparr> in
          (if ws_refresh_timer s \<noteq> 0 \<and> rs = [] then cancel_refresh_timer s else s, None))"

text \<open>The latest time adds milliseconds to seconds, so it is a thousand times further away.\<close>

definition schedule_lossy :: "reading \<Rightarrow> rect \<Rightarrow> options \<Rightarrow> window_source \<Rightarrow> w_outcome" where
  "schedule_lossy rd r opts s =
     (case (ws_dims s, r) of ((ww, wh), (x, y, w, h)) \<Rightarrow>
        if ww \<le> 0 \<or> wh \<le> 0 then (cancel_refresh_timer s, None)
        else
          case add_rectangle (Suc (nat w * nat h)) (ws_refresh_regions s) r of
            None \<Rightarrow> (s, Some OtherError)
          | Some (Inl e) \<Rightarrow> (s, Some e)
          | Some (Inr (regions, added)) \<Rightarrow>
              let s = s\<lparr>ws_refresh_regions := regions\<rparr>;
                  now = rd_now rd; bc = ws_batch s;
                  pct = 100 * (w * h) div (ww * wh);
                  s = (if pct = 100 then cancel_refresh_timer s else s)
              in if ws_refresh_timer s = 0 then
                   (if w * h \<le> 0 \<or> regions = [] then (s, None)
                    else
                      let sched = max (bc_delay bc * 5) (max (ws_min_refresh_delay s) (ws_base_refresh_delay s * rd_refresh_mult rd pct))
                      in (set_refresh_timer opts (s\<lparr>ws_refresh_event_time := now, ws_refresh_target_time := now + sched\<rparr>), None))
                 else
                   let due = pixel_count regions;
                       pct = (if added \<ge> due div 2 then 100 * due div (ww * wh) else pct);
                       sched = max (bc_delay bc * 5) (max (ws_min_refresh_delay s) (ws_base_refresh_delay s * pct div 100));
                       max_time = ws_refresh_event_time s + 5000 * ws_base_refresh_delay s
                   in (s\<lparr>ws_refresh_target_time := min max_time (max (ws_refresh_target_time s) (now + sched))\<rparr>, None))"

definition do_schedule_auto_refresh ::
  "reading \<Rightarrow> string list \<Rightarrow> int \<Rightarrow> string \<Rightarrow> rect \<Rightarrow> options \<Rightarrow> options \<Rightarrow> window_source \<Rightarrow> w_outcome" where
  "do_schedule_auto_refresh rd lossy_formats depth encoding r client_options opts s =
     (if ws_encoding s = ''stream'' then (s, None)
      else if \<not> is_lossy lossy_formats depth encoding client_options s \<or> opt_flag ''auto_refresh'' opts
      then remove_refresh_region r s
      else schedule_lossy rd r opts s)"

definition schedule_auto_refresh :: "reading \<Rightarrow> string list \<Rightarrow> int \<Rightarrow> draw_packet \<Rightarrow> options \<Rightarrow> window_source \<Rightarrow> w_outcome" where
  "schedule_auto_refresh rd lossy_formats depth p opts s =
     (if \<not> can_refresh s then (cancel_refresh_timer s, None)
      else do_schedule_auto_refresh rd lossy_formats depth (dp_coding p) (dp_rect p) (dp_options p) opts s)"

subsection \<open>The life of a window\<close>

definition lock_batch_delay :: "int \<Rightarrow> window_source \<Rightarrow> window_source" where
  "lock_batch_delay delay s =
     (let bc = ws_batch s; bc = (if bc_locked bc then bc else bc\<lparr>bc_locked := True, bc_saved := bc_delay bc\<rparr>)
      in s\<lparr>ws_batch := bc\<lparr>bc_delay := max delay (bc_delay bc)\<rparr>\<rparr>)"

definition unlock_batch_delay :: "window_source \<Rightarrow> window_source" where
  "unlock_batch_delay s =
     (let bc = ws_batch s in
      if ws_iconic s \<or> \<not> bc_locked bc then s else s\<lparr>ws_batch := bc\<lparr>bc_locked := False, bc_delay := bc_saved bc\<rparr>\<rparr>)"

definition go_idle :: "window_source \<Rightarrow> window_source" where
  "go_idle s = lock_batch_delay LOCKED_BATCH_DELAY (s\<lparr>ws_is_idle := True\<rparr>)"

definition no_idle :: "window_source \<Rightarrow> window_source" where
  "no_idle s = unlock_batch_delay (s\<lparr>ws_is_idle := False\<rparr>)"

definition iconic_changed :: "bool \<Rightarrow> window_source \<Rightarrow> window_source" where
  "iconic_changed iconic s = (let s = s\<lparr>ws_iconic := iconic\<rparr> in if iconic then go_idle s else no_idle s)"

text \<open>Only what the model holds of the statistics is reset; the ghost log gives the pixels up.\<close>

definition reset_statistics :: "window_source \<Rightarrow> window_source" where
  "reset_statistics s =
     s\<lparr>ws_ack_pending := [], ws_encoding_pending := [], ws_events_count := 0, ws_last_resized := 0, ws_resize_events := []\<rparr>"

definition give_up :: "window_source \<Rightarrow> window_source" where
  "give_up s = s\<lparr>ws_log := ws_log s @ [GivenUp]\<rparr>"

definition unmap_window :: "window_source \<Rightarrow> window_source" where
  "unmap_window s = go_idle (reset_statistics (give_up (cancel_damage 0 s)))"

definition w_suspend :: "window_source \<Rightarrow> window_source" where
  "w_suspend s = (reset_statistics (give_up (cancel_damage 0 s)))\<lparr>ws_suspended := True\<rparr>"

definition w_resume :: "reading \<Rightarrow> window_source \<Rightarrow> w_outcome" where
  "w_resume rd s =
     w_refresh rd [''quality'' \<mapsto> PInt 100] ((reset_statistics (give_up (cancel_damage 0 s)))\<lparr>ws_suspended := False\<rparr>)"

definition w_cleanup :: "window_source \<Rightarrow> window_source" where
  "w_cleanup s =
     (give_up (cancel_damage MAX_SEQUENCE s))\<lparr>ws_encoding := [], ws_auto_refresh_encodings := [], ws_full_frames_only := False,
       ws_suspended := False, ws_decode_timer := 0, ws_may_send_timer := 0, ws_auto_refresh_delay := 0, ws_base_refresh_delay := 0,
       ws_min_refresh_delay := 50, ws_refresh_quality := 100, ws_refresh_speed := 50, ws_refresh_event_time := 0,
       ws_refresh_target_time := 0, ws_refresh_timer := 0, ws_refresh_regions := [], ws_timeout_timer := 0, ws_expire_timer := 0,
       ws_soft_timer := 0, ws_soft_expired := 0, ws_max_soft_expired := 5, ws_dims := (0, 0), ws_bandwidth_limit := 0,
       ws_max_small_regions := 40, ws_max_bytes_percent := 60, ws_small_packet_cost := 1024, ws_delayed := None, ws_sequence := 1,
       ws_cancelled := MAX_SEQUENCE, ws_packet_sequence := 1, ws_mmap := False,
       ws_speed_quality := (ws_speed_quality s)\<lparr>q_fixed_speed := -1, q_fixed_min_speed := 0, q_fixed_max_speed := 100,
         q_fixed_quality := -1, q_fixed_min_quality := 0, q_fixed_max_quality := 100, q_rgb_formats := [], q_rgb_lz4 := False,
         q_transparency := False\<rparr>\<rparr>"

subsection \<open>Runs\<close>

datatype window_event =
    EvDamage rect options
  | EvResize int int
  | EvTimer nat
  | EvEncodeStart
  | EvEncodeFinish
  | EvAck nat int
  | EvRefresh options
  | EvFullRefresh options
  | EvIconic bool
  | EvMap
  | EvUnmap
  | EvSuspend
  | EvResume
  | EvCleanup

definition run_timer :: "window_env \<Rightarrow> reading \<Rightarrow> nat \<Rightarrow> window_source \<Rightarrow> window_source" where
  "run_timer E rd i s =
     (case map_of (ml_sources (ws_loop s)) i of
        None \<Rightarrow> s
      | Some cb \<Rightarrow>
          let s = s\<lparr>ws_loop := ml_remove i (ws_loop s)\<rparr> in
          fst (case cb of
                 CbExpire due target \<Rightarrow> expire_delayed_region E rd due target s
               | CbMaySend \<Rightarrow> timer_may_send E rd s
               | CbSoft \<Rightarrow> delayed_region_soft_timeout E rd s
               | CbTimeout t \<Rightarrow> delayed_region_timeout E rd t s
               | CbRefresh opts \<Rightarrow> refresh_timer_function E rd opts s
               | CbDecodeRefresh \<Rightarrow> decode_error_refresh E rd s
               | CbAckMaySend \<Rightarrow> call_may_send_delayed E rd s))"

definition window_step :: "window_env \<Rightarrow> window_source \<Rightarrow> reading \<times> window_event \<Rightarrow> window_source" where
  "window_step E s e =
     (case e of (rd, ev) \<Rightarrow>
        case ev of
          EvDamage r opts \<Rightarrow> fst (damage rd r opts s)
        | EvResize w h \<Rightarrow> s\<lparr>ws_real := (w, h), ws_log := ws_log s @ [Resized w h]\<rparr>
        | EvTimer i \<Rightarrow> run_timer E rd i s
        | EvEncodeStart \<Rightarrow> encode_start s
        | EvEncodeFinish \<Rightarrow> encode_finish E rd s
        | EvAck sequence decode_time \<Rightarrow> damage_packet_acked sequence decode_time s
        | EvRefresh opts \<Rightarrow> fst (w_refresh rd opts s)
        | EvFullRefresh opts \<Rightarrow> fst (full_quality_refresh E rd opts s)
        | EvIconic b \<Rightarrow> iconic_changed b s
        | EvMap \<Rightarrow> no_idle s
        | EvUnmap \<Rightarrow> unmap_window s
        | EvSuspend \<Rightarrow> w_suspend s
        | EvResume \<Rightarrow> fst (w_resume rd s)
        | EvCleanup \<Rightarrow> w_cleanup s)"

definition window_run :: "window_env \<Rightarrow> window_source \<Rightarrow> (reading \<times> window_event) list \<Rightarrow> window_source" where
  "window_run E s evs = foldl (window_step E) s evs"

text \<open>A window source as its constructor leaves it, whatever its settings.\<close>

definition fresh_source :: "window_source \<Rightarrow> bool" where
  "fresh_source s =
     (ws_managed s \<and> \<not> ws_suspended s \<and> ws_dims s = ws_real s \<and> ws_loop s = ml_init \<and> ws_expire_timer s = 0 \<and> ws_may_send_timer s = 0
      \<and> ws_soft_timer s = 0 \<and> ws_timeout_timer s = 0 \<and> ws_refresh_timer s = 0 \<and> ws_decode_timer s = 0 \<and> ws_soft_expired s = 0
      \<and> ws_delayed s = None \<and> ws_sequence s = 1 \<and> ws_cancelled s = 0 \<and> ws_packet_sequence s = 1 \<and> ws_refresh_regions s = []
      \<and> ws_refresh_event_time s = 0 \<and> ws_queue s = [] \<and> ws_current s = None \<and> ws_encoding_pending s = [] \<and> ws_ack_pending s = []
      \<and> ws_sent s = [] \<and> ws_log s = [] \<and> \<not> ws_bug s \<and> 0 \<le> ws_events_count s)"

end
