(* ===== verification/Damage_Timers.thy ===== *)
theory Damage_Timers
  imports Damage_Window
begin

text \<open>
  The timers of a window source: a delayed region always has a timer that will look at it again,
  every timer the code remembers is a source of the main loop, and nothing ever asks for an
  automatic refresh.
\<close>

subsection \<open>What timers leave alone\<close>

lemma set_expire_timer_frame [simp]:
  "ws_log (set_expire_timer due tgt s) = ws_log s" "ws_delayed (set_expire_timer due tgt s) = ws_delayed s"
  "ws_dims (set_expire_timer due tgt s) = ws_dims s" "ws_real (set_expire_timer due tgt s) = ws_real s"
  "ws_managed (set_expire_timer due tgt s) = ws_managed s" "ws_cancelled (set_expire_timer due tgt s) = ws_cancelled s"
  "ws_sequence (set_expire_timer due tgt s) = ws_sequence s" "ws_suspended (set_expire_timer due tgt s) = ws_suspended s"
  "ws_auto_refresh_encodings (set_expire_timer due tgt s) = ws_auto_refresh_encodings s"
  "ws_sent (set_expire_timer due tgt s) = ws_sent s" "ws_queue (set_expire_timer due tgt s) = ws_queue s"
  "ws_current (set_expire_timer due tgt s) = ws_current s"
  "ws_packet_sequence (set_expire_timer due tgt s) = ws_packet_sequence s"
  by (simp_all add: set_expire_timer_def Let_def split: prod.split)

lemma set_may_send_timer_frame [simp]:
  "ws_log (set_may_send_timer s) = ws_log s" "ws_delayed (set_may_send_timer s) = ws_delayed s"
  "ws_dims (set_may_send_timer s) = ws_dims s" "ws_real (set_may_send_timer s) = ws_real s"
  "ws_managed (set_may_send_timer s) = ws_managed s" "ws_cancelled (set_may_send_timer s) = ws_cancelled s"
  "ws_sequence (set_may_send_timer s) = ws_sequence s" "ws_suspended (set_may_send_timer s) = ws_suspended s"
  "ws_auto_refresh_encodings (set_may_send_timer s) = ws_auto_refresh_encodings s"
  "ws_sent (set_may_send_timer s) = ws_sent s" "ws_queue (set_may_send_timer s) = ws_queue s"
  "ws_current (set_may_send_timer s) = ws_current s" "ws_packet_sequence (set_may_send_timer s) = ws_packet_sequence s"
  by (simp_all add: set_may_send_timer_def Let_def split: prod.split)

lemma set_soft_timer_frame [simp]:
  "ws_log (set_soft_timer s) = ws_log s" "ws_delayed (set_soft_timer s) = ws_delayed s"
  "ws_dims (set_soft_timer s) = ws_dims s" "ws_real (set_soft_timer s) = ws_real s"
  "ws_managed (set_soft_timer s) = ws_managed s" "ws_cancelled (set_soft_timer s) = ws_cancelled s"
  "ws_sequence (set_soft_timer s) = ws_sequence s" "ws_suspended (set_soft_timer s) = ws_suspended s"
  "ws_auto_refresh_encodings (set_soft_timer s) = ws_auto_refresh_encodings s" "ws_sent (set_soft_timer s) = ws_sent s"
  "ws_queue (set_soft_timer s) = ws_queue s" "ws_current (set_soft_timer s) = ws_current s"
  "ws_packet_sequence (set_soft_timer s) = ws_packet_sequence s"
  by (simp_all add: set_soft_timer_def Let_def split: prod.split)

lemma set_timeout_timer_frame [simp]:
  "ws_log (set_timeout_timer t s) = ws_log s" "ws_delayed (set_timeout_timer t s) = ws_delayed s"
  "ws_dims (set_timeout_timer t s) = ws_dims s" "ws_real (set_timeout_timer t s) = ws_real s"
  "ws_managed (set_timeout_timer t s) = ws_managed s" "ws_cancelled (set_timeout_timer t s) = ws_cancelled s"
  "ws_sequence (set_timeout_timer t s) = ws_sequence s" "ws_suspended (set_timeout_timer t s) = ws_suspended s"
  "ws_auto_refresh_encodings (set_timeout_timer t s) = ws_auto_refresh_encodings s"
  "ws_sent (set_timeout_timer t s) = ws_sent s" "ws_queue (set_timeout_timer t s) = ws_queue s"
  "ws_current (set_timeout_timer t s) = ws_current s" "ws_packet_sequence (set_timeout_timer t s) = ws_packet_sequence s"
  by (simp_all add: set_timeout_timer_def Let_def split: prod.split)

lemma set_refresh_timer_frame [simp]:
  "ws_log (set_refresh_timer opts s) = ws_log s" "ws_delayed (set_refresh_timer opts s) = ws_delayed s"
  "ws_dims (set_refresh_timer opts s) = ws_dims s" "ws_real (set_refresh_timer opts s) = ws_real s"
  "ws_managed (set_refresh_timer opts s) = ws_managed s" "ws_cancelled (set_refresh_timer opts s) = ws_cancelled s"
  "ws_sequence (set_refresh_timer opts s) = ws_sequence s" "ws_suspended (set_refresh_timer opts s) = ws_suspended s"
  "ws_auto_refresh_encodings (set_refresh_timer opts s) = ws_auto_refresh_encodings s"
  "ws_sent (set_refresh_timer opts s) = ws_sent s" "ws_queue (set_refresh_timer opts s) = ws_queue s"
  "ws_current (set_refresh_timer opts s) = ws_current s"
  "ws_packet_sequence (set_refresh_timer opts s) = ws_packet_sequence s"
  by (simp_all add: set_refresh_timer_def Let_def split: prod.split)

lemma set_decode_timer_frame [simp]:
  "ws_log (set_decode_timer s) = ws_log s" "ws_delayed (set_decode_timer s) = ws_delayed s"
  "ws_dims (set_decode_timer s) = ws_dims s" "ws_real (set_decode_timer s) = ws_real s"
  "ws_managed (set_decode_timer s) = ws_managed s" "ws_cancelled (set_decode_timer s) = ws_cancelled s"
  "ws_sequence (set_decode_timer s) = ws_sequence s" "ws_suspended (set_decode_timer s) = ws_suspended s"
  "ws_auto_refresh_encodings (set_decode_timer s) = ws_auto_refresh_encodings s" "ws_sent (set_decode_timer s) = ws_sent s"
  "ws_queue (set_decode_timer s) = ws_queue s" "ws_current (set_decode_timer s) = ws_current s"
  "ws_packet_sequence (set_decode_timer s) = ws_packet_sequence s"
  by (simp_all add: set_decode_timer_def Let_def split: prod.split)

lemma add_idle_may_send_frame [simp]:
  "ws_log (add_idle_may_send s) = ws_log s" "ws_delayed (add_idle_may_send s) = ws_delayed s"
  "ws_dims (add_idle_may_send s) = ws_dims s" "ws_real (add_idle_may_send s) = ws_real s"
  "ws_managed (add_idle_may_send s) = ws_managed s" "ws_cancelled (add_idle_may_send s) = ws_cancelled s"
  "ws_sequence (add_idle_may_send s) = ws_sequence s" "ws_suspended (add_idle_may_send s) = ws_suspended s"
  "ws_auto_refresh_encodings (add_idle_may_send s) = ws_auto_refresh_encodings s"
  "ws_sent (add_idle_may_send s) = ws_sent s" "ws_queue (add_idle_may_send s) = ws_queue s"
  "ws_current (add_idle_may_send s) = ws_current s" "ws_packet_sequence (add_idle_may_send s) = ws_packet_sequence s"
  by (simp_all add: add_idle_may_send_def Let_def split: prod.split)

lemma cancel_expire_timer_frame [simp]:
  "ws_log (cancel_expire_timer s) = ws_log s" "ws_delayed (cancel_expire_timer s) = ws_delayed s"
  "ws_dims (cancel_expire_timer s) = ws_dims s" "ws_real (cancel_expire_timer s) = ws_real s"
  "ws_managed (cancel_expire_timer s) = ws_managed s" "ws_cancelled (cancel_expire_timer s) = ws_cancelled s"
  "ws_sequence (cancel_expire_timer s) = ws_sequence s" "ws_suspended (cancel_expire_timer s) = ws_suspended s"
  "ws_auto_refresh_encodings (cancel_expire_timer s) = ws_auto_refresh_encodings s"
  "ws_sent (cancel_expire_timer s) = ws_sent s" "ws_queue (cancel_expire_timer s) = ws_queue s"
  "ws_current (cancel_expire_timer s) = ws_current s" "ws_packet_sequence (cancel_expire_timer s) = ws_packet_sequence s"
  by (simp_all add: cancel_expire_timer_def Let_def split: prod.split)

lemma cancel_may_send_timer_frame [simp]:
  "ws_log (cancel_may_send_timer s) = ws_log s" "ws_delayed (cancel_may_send_timer s) = ws_delayed s"
  "ws_dims (cancel_may_send_timer s) = ws_dims s" "ws_real (cancel_may_send_timer s) = ws_real s"
  "ws_managed (cancel_may_send_timer s) = ws_managed s" "ws_cancelled (cancel_may_send_timer s) = ws_cancelled s"
  "ws_sequence (cancel_may_send_timer s) = ws_sequence s" "ws_suspended (cancel_may_send_timer s) = ws_suspended s"
  "ws_auto_refresh_encodings (cancel_may_send_timer s) = ws_auto_refresh_encodings s"
  "ws_sent (cancel_may_send_timer s) = ws_sent s" "ws_queue (cancel_may_send_timer s) = ws_queue s"
  "ws_current (cancel_may_send_timer s) = ws_current s"
  "ws_packet_sequence (cancel_may_send_timer s) = ws_packet_sequence s"
  by (simp_all add: cancel_may_send_timer_def Let_def split: prod.split)

lemma cancel_soft_timer_frame [simp]:
  "ws_log (cancel_soft_timer s) = ws_log s" "ws_delayed (cancel_soft_timer s) = ws_delayed s"
  "ws_dims (cancel_soft_timer s) = ws_dims s" "ws_real (cancel_soft_timer s) = ws_real s"
  "ws_managed (cancel_soft_timer s) = ws_managed s" "ws_cancelled (cancel_soft_timer s) = ws_cancelled s"
  "ws_sequence (cancel_soft_timer s) = ws_sequence s" "ws_suspended (cancel_soft_timer s) = ws_suspended s"
  "ws_auto_refresh_encodings (cancel_soft_timer s) = ws_auto_refresh_encodings s"
  "ws_sent (cancel_soft_timer s) = ws_sent s" "ws_queue (cancel_soft_timer s) = ws_queue s"
  "ws_current (cancel_soft_timer s) = ws_current s" "ws_packet_sequence (cancel_soft_timer s) = ws_packet_sequence s"
  by (simp_all add: cancel_soft_timer_def Let_def split: prod.split)

lemma cancel_timeout_timer_frame [simp]:
  "ws_log (cancel_timeout_timer s) = ws_log s" "ws_delayed (cancel_timeout_timer s) = ws_delayed s"
  "ws_dims (cancel_timeout_timer s) = ws_dims s" "ws_real (cancel_timeout_timer s) = ws_real s"
  "ws_managed (cancel_timeout_timer s) = ws_managed s" "ws_cancelled (cancel_timeout_timer s) = ws_cancelled s"
  "ws_sequence (cancel_timeout_timer s) = ws_sequence s" "ws_suspended (cancel_timeout_timer s) = ws_suspended s"
  "ws_auto_refresh_encodings (cancel_timeout_timer s) = ws_auto_refresh_encodings s"
  "ws_sent (cancel_timeout_timer s) = ws_sent s" "ws_queue (cancel_timeout_timer s) = ws_queue s"
  "ws_current (cancel_timeout_timer s) = ws_current s" "ws_packet_sequence (cancel_timeout_timer s) = ws_packet_sequence s"
  by (simp_all add: cancel_timeout_timer_def Let_def split: prod.split)

lemma cancel_refresh_timer_frame [simp]:
  "ws_log (cancel_refresh_timer s) = ws_log s" "ws_delayed (cancel_refresh_timer s) = ws_delayed s"
  "ws_dims (cancel_refresh_timer s) = ws_dims s" "ws_real (cancel_refresh_timer s) = ws_real s"
  "ws_managed (cancel_refresh_timer s) = ws_managed s" "ws_cancelled (cancel_refresh_timer s) = ws_cancelled s"
  "ws_sequence (cancel_refresh_timer s) = ws_sequence s" "ws_suspended (cancel_refresh_timer s) = ws_suspended s"
  "ws_auto_refresh_encodings (cancel_refresh_timer s) = ws_auto_refresh_encodings s"
  "ws_sent (cancel_refresh_timer s) = ws_sent s" "ws_queue (cancel_refresh_timer s) = ws_queue s"
  "ws_current (cancel_refresh_timer s) = ws_current s" "ws_packet_sequence (cancel_refresh_timer s) = ws_packet_sequence s"
  by (simp_all add: cancel_refresh_timer_def Let_def split: prod.split)

lemma cancel_decode_timer_frame [simp]:
  "ws_log (cancel_decode_timer s) = ws_log s" "ws_delayed (cancel_decode_timer s) = ws_delayed s"
  "ws_dims (cancel_decode_timer s) = ws_dims s" "ws_real (cancel_decode_timer s) = ws_real s"
  "ws_managed (cancel_decode_timer s) = ws_managed s" "ws_cancelled (cancel_decode_timer s) = ws_cancelled s"
  "ws_sequence (cancel_decode_timer s) = ws_sequence s" "ws_suspended (cancel_decode_timer s) = ws_suspended s"
  "ws_auto_refresh_encodings (cancel_decode_timer s) = ws_auto_refresh_encodings s"
  "ws_sent (cancel_decode_timer s) = ws_sent s" "ws_queue (cancel_decode_timer s) = ws_queue s"
  "ws_current (cancel_decode_timer s) = ws_current s" "ws_packet_sequence (cancel_decode_timer s) = ws_packet_sequence s"
  by (simp_all add: cancel_decode_timer_def Let_def split: prod.split)

lemma cancel_damage_frame [simp]:
  "ws_log (cancel_damage c s) = ws_log s" "ws_delayed (cancel_damage c s) = None" "ws_dims (cancel_damage c s) = ws_dims s"
  "ws_real (cancel_damage c s) = ws_real s" "ws_managed (cancel_damage c s) = ws_managed s"
  "ws_cancelled (cancel_damage c s) = (if c = 0 then ws_sequence s else c)" "ws_sequence (cancel_damage c s) = ws_sequence s"
  "ws_suspended (cancel_damage c s) = ws_suspended s"
  "ws_auto_refresh_encodings (cancel_damage c s) = ws_auto_refresh_encodings s"
  "ws_sent (cancel_damage c s) = ws_sent s" "ws_packet_sequence (cancel_damage c s) = ws_packet_sequence s"
  by (simp_all add: cancel_damage_def Let_def)

lemma postpone_refresh_frame [simp]:
  "ws_log (postpone_refresh rd opts s) = ws_log s" "ws_delayed (postpone_refresh rd opts s) = ws_delayed s"
  "ws_dims (postpone_refresh rd opts s) = ws_dims s" "ws_real (postpone_refresh rd opts s) = ws_real s"
  "ws_managed (postpone_refresh rd opts s) = ws_managed s" "ws_cancelled (postpone_refresh rd opts s) = ws_cancelled s"
  "ws_sequence (postpone_refresh rd opts s) = ws_sequence s"
  "ws_auto_refresh_encodings (postpone_refresh rd opts s) = ws_auto_refresh_encodings s"
  by (simp_all add: postpone_refresh_def Let_def)

lemma update_dimensions_frame [simp]:
  "ws_log (may_update_window_dimensions rd s) = ws_log s" "ws_delayed (may_update_window_dimensions rd s) = ws_delayed s"
  "ws_dims (may_update_window_dimensions rd s) = ws_real s" "ws_real (may_update_window_dimensions rd s) = ws_real s"
  "ws_managed (may_update_window_dimensions rd s) = ws_managed s" "ws_cancelled (may_update_window_dimensions rd s) = ws_cancelled s"
  "ws_sequence (may_update_window_dimensions rd s) = ws_sequence s"
  "ws_auto_refresh_encodings (may_update_window_dimensions rd s) = ws_auto_refresh_encodings s"
  by (simp_all add: may_update_window_dimensions_def)


subsection \<open>The invariant\<close>

text \<open>What the timers depend on; capturing and encoding change none of it.\<close>

definition timer_view where
  "timer_view s = (ws_loop s, ws_expire_timer s, ws_may_send_timer s, ws_soft_timer s, ws_timeout_timer s, ws_refresh_timer s,
     ws_decode_timer s, ws_soft_expired s, ws_delayed s, ws_refresh_regions s, ws_max_soft_expired s, ws_events_count s, ws_bug s)"

abbreviation sources :: "window_source \<Rightarrow> (nat \<times> timer_cb) set" where
  "sources s \<equiv> set (ml_sources (ws_loop s))"

definition timers_known :: "window_source \<Rightarrow> bool" where
  "timers_known s =
     ((ws_expire_timer s \<noteq> 0 \<longrightarrow> (\<exists>due tgt. (ws_expire_timer s, CbExpire due tgt) \<in> sources s))
      \<and> (ws_soft_timer s \<noteq> 0 \<longrightarrow> (ws_soft_timer s, CbSoft) \<in> sources s)
      \<and> (ws_may_send_timer s \<noteq> 0 \<longrightarrow> (ws_may_send_timer s, CbMaySend) \<in> sources s)
      \<and> (ws_decode_timer s \<noteq> 0 \<longrightarrow> (ws_decode_timer s, CbDecodeRefresh) \<in> sources s))"

definition timeout_known :: "window_source \<Rightarrow> bool" where
  "timeout_known s =
     ((ws_timeout_timer s \<noteq> 0 \<longrightarrow> (\<exists>d. ws_delayed s = Some d \<and> (ws_timeout_timer s, CbTimeout (dr_time d)) \<in> sources s))
      \<and> (\<forall>i t. (i, CbTimeout t) \<in> sources s \<longrightarrow> i = ws_timeout_timer s))"

definition no_refresh :: "window_source \<Rightarrow> bool" where
  "no_refresh s = (ws_refresh_timer s = 0 \<and> ws_refresh_regions s = [] \<and> (\<forall>i opts. (i, CbRefresh opts) \<notin> sources s))"

definition timers_ok :: "window_source \<Rightarrow> bool" where
  "timers_ok s = (ml_ok (ws_loop s) \<and> timers_known s \<and> timeout_known s \<and> no_refresh s
     \<and> 1 \<le> ws_max_soft_expired s \<and> 0 \<le> ws_events_count s \<and> \<not> ws_bug s)"

definition region_timed :: "window_source \<Rightarrow> bool" where
  "region_timed s = (ws_delayed s = None \<or> ws_expire_timer s \<noteq> 0 \<or> ws_soft_timer s \<noteq> 0
     \<or> ws_timeout_timer s \<noteq> 0 \<and> 1 \<le> ws_soft_expired s)"

lemmas timers_defs = timers_ok_def timers_known_def timeout_known_def no_refresh_def

lemma timers_cong: "timer_view t = timer_view s \<Longrightarrow> timers_ok t = timers_ok s \<and> region_timed t = region_timed s"
  by (simp add: timer_view_def timers_defs region_timed_def)

text \<open>A new source has a positive number that no other source has.\<close>

lemma fresh_number: "ml_ok m \<Longrightarrow> (i, f) \<in> set (ml_sources m) \<Longrightarrow> i \<noteq> ml_next m"
  using ml_okD by fastforce

lemma set_timers_ok:
  assumes "timers_ok s"
  shows "timers_ok (set_expire_timer due tgt s) \<and> ws_expire_timer (set_expire_timer due tgt s) \<noteq> 0"
    and "timers_ok (set_soft_timer s) \<and> ws_soft_timer (set_soft_timer s) \<noteq> 0"
    and "timers_ok (set_may_send_timer s)" and "timers_ok (set_decode_timer s)" and "timers_ok (add_idle_may_send s)"
  using assms ml_add_ok[of "ws_loop s"] ml_ok_next[of "ws_loop s"]
  by (auto simp: timers_defs set_expire_timer_def set_soft_timer_def set_may_send_timer_def set_decode_timer_def
      add_idle_may_send_def Let_def ml_add_sources[unfolded ml_add_def] ml_add_def split: prod.split)

lemma set_timeout_ok:
  assumes "timers_ok s" and "ws_timeout_timer s = 0" and "ws_delayed s = Some d"
  shows "timers_ok (set_timeout_timer (dr_time d) s) \<and> ws_timeout_timer (set_timeout_timer (dr_time d) s) \<noteq> 0"
proof -
  have none: "(i, CbTimeout t) \<notin> sources s" for i t
    using assms(1,2) ml_okD[of "ws_loop s" i "CbTimeout t"] by (auto simp: timers_defs)
  then show ?thesis
    using assms ml_add_ok[of "ws_loop s"] ml_ok_next[of "ws_loop s"]
    by (auto simp: timers_defs set_timeout_timer_def Let_def ml_add_def)
qed

text \<open>Removing a source of another kind keeps a remembered timer.\<close>

lemma other_source: "\<lbrakk>ml_ok m; (i, f) \<in> set (ml_sources m); (j, g) \<in> set (ml_sources m); f \<noteq> g\<rbrakk> \<Longrightarrow> i \<noteq> j"
  using ml_ok_unique by fastforce

lemma remove_keeps:
  "\<lbrakk>ml_ok m; (i, f) \<in> set (ml_sources m); (j, g) \<in> set (ml_sources m); f \<noteq> g\<rbrakk> \<Longrightarrow> (j, g) \<in> set (ml_sources (ml_remove i m))"
  using other_source[of m i f j g] by auto

text \<open>A source that goes, with the timer that remembers it, leaves the others as they are.\<close>

lemma source_gone:
  assumes ok: "timers_ok s" and i: "(i, f) \<in> sources s" and loop: "ws_loop t = ml_remove i (ws_loop s)"
    and expire: "ws_expire_timer t = 0 \<or> ws_expire_timer t = ws_expire_timer s \<and> (\<forall>due tgt. f \<noteq> CbExpire due tgt)"
    and soft: "ws_soft_timer t = 0 \<or> ws_soft_timer t = ws_soft_timer s \<and> f \<noteq> CbSoft"
    and may: "ws_may_send_timer t = 0 \<or> ws_may_send_timer t = ws_may_send_timer s \<and> f \<noteq> CbMaySend"
    and decode: "ws_decode_timer t = 0 \<or> ws_decode_timer t = ws_decode_timer s \<and> f \<noteq> CbDecodeRefresh"
    and timeout: "ws_timeout_timer t = 0 \<and> (\<exists>m. f = CbTimeout m) \<or> ws_timeout_timer t = ws_timeout_timer s \<and> (\<forall>m. f \<noteq> CbTimeout m)"
    and same: "ws_delayed t = ws_delayed s" "ws_refresh_timer t = ws_refresh_timer s" "ws_refresh_regions t = ws_refresh_regions s"
      "ws_max_soft_expired t = ws_max_soft_expired s" "ws_events_count t = ws_events_count s" "ws_bug t = ws_bug s"
  shows "timers_ok t"
proof -
  have m: "ml_ok (ws_loop s)" and known: "timers_known s" and tk: "timeout_known s" and nr: "no_refresh s"
    using ok by (simp_all add: timers_ok_def)
  note keeps = remove_keeps[OF m i]
  have "timers_known t"
    using known expire soft may decode keeps unfolding timers_known_def loop by (smt (verit) timer_cb.distinct)
  moreover have "timeout_known t"
  proof (cases "\<exists>m. f = CbTimeout m")
    case True
    then have "i = ws_timeout_timer s" using tk i by (auto simp: timeout_known_def)
    then show ?thesis using True timeout tk by (auto simp: timeout_known_def loop)
  next
    case False
    then have "ws_timeout_timer t = ws_timeout_timer s" using timeout by blast
    then show ?thesis using tk False keeps same(1) by (fastforce simp: timeout_known_def loop)
  qed
  moreover have "no_refresh t" using nr same by (simp add: no_refresh_def loop)
  ultimately show ?thesis using ok same m loop by (simp add: timers_ok_def)
qed

lemma cancel_timers_ok:
  assumes "timers_ok s"
  shows "timers_ok (cancel_expire_timer s)" and "timers_ok (cancel_soft_timer s)" and "timers_ok (cancel_may_send_timer s)"
    and "timers_ok (cancel_timeout_timer s)" and "timers_ok (cancel_decode_timer s)"
proof -
  have known: "timers_known s" "timeout_known s" using assms by (simp_all add: timers_ok_def)
  show "timers_ok (cancel_expire_timer s)"
    using assms known(1) source_gone[OF assms, of "ws_expire_timer s" _ "cancel_expire_timer s"]
    by (cases "ws_expire_timer s = 0") (auto simp: cancel_expire_timer_def timers_known_def)
  show "timers_ok (cancel_soft_timer s)"
    using assms known(1) source_gone[OF assms, of "ws_soft_timer s" _ "cancel_soft_timer s"]
    by (cases "ws_soft_timer s = 0") (auto simp: cancel_soft_timer_def timers_known_def)
  show "timers_ok (cancel_may_send_timer s)"
    using assms known(1) source_gone[OF assms, of "ws_may_send_timer s" _ "cancel_may_send_timer s"]
    by (cases "ws_may_send_timer s = 0") (auto simp: cancel_may_send_timer_def timers_known_def)
  show "timers_ok (cancel_timeout_timer s)"
    using assms known(2) source_gone[OF assms, of "ws_timeout_timer s" _ "cancel_timeout_timer s"]
    by (cases "ws_timeout_timer s = 0") (auto simp: cancel_timeout_timer_def timeout_known_def)
  show "timers_ok (cancel_decode_timer s)"
    using assms known(1) source_gone[OF assms, of "ws_decode_timer s" _ "cancel_decode_timer s"]
    by (cases "ws_decode_timer s = 0") (auto simp: cancel_decode_timer_def timers_known_def)
qed

lemma cancel_refresh_noop: "timers_ok s \<Longrightarrow> cancel_refresh_timer s = s"
  by (simp add: timers_defs cancel_refresh_timer_def)

lemma cancelled_timers [simp]:
  "ws_timeout_timer (cancel_timeout_timer s) = 0" "ws_soft_timer (cancel_soft_timer s) = 0"
  "ws_timeout_timer (cancel_soft_timer s) = ws_timeout_timer s" "ws_timeout_timer (cancel_decode_timer s) = ws_timeout_timer s"
  "ws_expire_timer (cancel_may_send_timer s) = ws_expire_timer s" "ws_soft_timer (cancel_may_send_timer s) = ws_soft_timer s"
  "ws_timeout_timer (cancel_may_send_timer s) = ws_timeout_timer s" "ws_soft_expired (cancel_may_send_timer s) = ws_soft_expired s"
  by (simp_all add: cancel_timeout_timer_def cancel_soft_timer_def cancel_decode_timer_def cancel_may_send_timer_def)

text \<open>A region may be dropped when its timeout is cancelled.\<close>

lemma drop_region_ok: "timers_ok s \<Longrightarrow> ws_timeout_timer s = 0 \<Longrightarrow> timers_ok (s\<lparr>ws_delayed := None, ws_batch := b\<rparr>)"
  by (simp add: timers_defs)

lemma region_timed_None: "ws_delayed s = None \<Longrightarrow> region_timed s"
  by (simp add: region_timed_def)

lemma cancel_damage_ok:
  assumes "timers_ok s" shows "timers_ok (cancel_damage c s)"
proof -
  define t where "t = cancel_soft_timer (cancel_may_send_timer (cancel_expire_timer (s\<lparr>ws_cancelled := if c = 0 then ws_sequence s else c\<rparr>)))"
  have "timers_ok (s\<lparr>ws_cancelled := if c = 0 then ws_sequence s else c\<rparr>)" using assms by (simp add: timers_defs)
  then have t: "timers_ok t" unfolding t_def by (intro cancel_timers_ok)
  then have "timers_ok (cancel_decode_timer (cancel_timeout_timer t))" by (intro cancel_timers_ok)
  moreover have "ws_timeout_timer (cancel_decode_timer (cancel_timeout_timer t)) = 0" by simp
  moreover have "cancel_damage c s = (cancel_decode_timer (cancel_timeout_timer t))\<lparr>ws_refresh_regions := [], ws_delayed := None,
      ws_encoding_pending := filter (\<lambda>(sequence, _). (if c = 0 then ws_sequence s else c) < sequence)
        (ws_encoding_pending (cancel_decode_timer (cancel_timeout_timer t)))\<rparr>"
    using cancel_refresh_noop[OF t] by (simp add: cancel_damage_def Let_def t_def)
  ultimately show ?thesis by (simp add: timers_defs)
qed

subsection \<open>Sending and capturing\<close>

lemma process_region_view: "timer_view (process_damage_region E rd dt opts call s) = timer_view s"
  by (cases call) (simp add: process_damage_region_def get_damage_image_def may_update_window_dimensions_def timer_view_def Let_def
      split: option.split prod.split)

lemma process_regions_view: "timer_view (fold (process_damage_region E rd dt opts) calls s) = timer_view s"
  by (induction calls arbitrary: s) (simp_all add: process_region_view)

lemma update_dimensions_view: "timer_view (may_update_window_dimensions rd s) = timer_view s"
  by (simp add: may_update_window_dimensions_def timer_view_def)

lemma do_send_regions_view: "timer_view (fst (do_send_regions best E rd dt regions coding opts s)) = timer_view s"
  by (simp add: do_send_regions_def Let_def process_regions_view update_dimensions_view split: sum.split)

lemma send_delayed_regions_view: "timer_view (fst (send_delayed_regions E rd d s)) = timer_view s"
  using do_send_regions_view[of _ E rd _ _ _ _ "s\<lparr>ws_batch := (ws_batch s)\<lparr>bc_last_event := rd_now rd\<rparr>\<rparr>"]
  by (simp add: send_delayed_regions_def Let_def timer_view_def)

lemma do_send_delayed_ok:
  assumes "timers_ok s" shows "timers_ok (fst (do_send_delayed E rd s)) \<and> ws_delayed (fst (do_send_delayed E rd s)) = None"
proof -
  define t where "t = cancel_soft_timer (cancel_timeout_timer s)"
  have t: "timers_ok t" "ws_timeout_timer t = 0" "ws_delayed t = ws_delayed s" using assms by (simp_all add: t_def cancel_timers_ok)
  have sent: "timers_ok (fst (send_delayed_regions E rd d (t\<lparr>ws_delayed := None, ws_batch := b\<rparr>)))"
    "ws_delayed (fst (send_delayed_regions E rd d (t\<lparr>ws_delayed := None, ws_batch := b\<rparr>))) = None" for d b
    using timers_cong[OF send_delayed_regions_view] drop_region_ok[OF t(1,2)] send_delayed_regions_view[of E rd d "t\<lparr>ws_delayed := None, ws_batch := b\<rparr>"]
    by (simp_all add: timer_view_def)
  show ?thesis
    using t(1,3) sent by (cases "ws_delayed s") (simp_all add: do_send_delayed_def Let_def t_def[symmetric])
qed

text \<open>A region that is not sent yet keeps its timers.\<close>

definition same_timers :: "window_source \<Rightarrow> window_source \<Rightarrow> bool" where
  "same_timers s t = (ws_delayed t = ws_delayed s \<and> ws_expire_timer t = ws_expire_timer s \<and> ws_soft_timer t = ws_soft_timer s
     \<and> ws_timeout_timer t = ws_timeout_timer s \<and> ws_soft_expired t = ws_soft_expired s)"

lemma may_send_delayed_ok:
  assumes "timers_ok s"
  shows "timers_ok (fst (may_send_delayed E rd s))
    \<and> (ws_delayed (fst (may_send_delayed E rd s)) = None \<or> same_timers s (fst (may_send_delayed E rd s)))"
proof -
  let ?Q = "\<lambda>t. timers_ok t \<and> (ws_delayed t = None \<or> same_timers s t)"
  have "same_timers s (set_may_send_timer s)" by (simp add: set_may_send_timer_def same_timers_def Let_def ml_add_def)
  then have keep: "?Q s" "?Q (set_may_send_timer s)" "?Q (s\<lparr>ws_ack_pending := []\<rparr>)"
    using assms set_timers_ok(3)[OF assms] timers_cong[of "s\<lparr>ws_ack_pending := []\<rparr>" s] by (simp_all add: same_timers_def timer_view_def)
  have "timers_ok (s\<lparr>ws_soft_expired := 0\<rparr>)" using assms by (simp add: timers_defs)
  then have send: "?Q (fst (do_send_delayed E rd s))" "?Q (fst (do_send_delayed E rd (s\<lparr>ws_soft_expired := 0\<rparr>)))"
    using do_send_delayed_ok assms by blast+
  show ?thesis using keep send by (cases "ws_delayed s") (simp_all add: may_send_delayed_def Let_def)
qed

lemma may_send_delayed_error:
  assumes "timers_ok s" and "may_send_delayed E rd s = (t, Some e)"
  shows "ws_delayed t = None"
proof -
  have "timers_ok (s\<lparr>ws_soft_expired := 0\<rparr>)" using assms(1) by (simp add: timers_defs)
  then have "ws_delayed (fst (do_send_delayed E rd s)) = None" "ws_delayed (fst (do_send_delayed E rd (s\<lparr>ws_soft_expired := 0\<rparr>))) = None"
    using do_send_delayed_ok assms(1) by blast+
  then show ?thesis
    using assms(2) by (auto simp: may_send_delayed_def Let_def split: option.splits if_splits)
qed

lemma timed_by_may_send:
  assumes "timers_ok s" and "region_timed s"
  shows "timers_ok (fst (may_send_delayed E rd s)) \<and> region_timed (fst (may_send_delayed E rd s))"
  using may_send_delayed_ok[OF assms(1), of E rd] assms(2) by (auto simp: region_timed_def same_timers_def)

lemma full_quality_refresh_view:
  assumes "no_refresh s" shows "timer_view (fst (full_quality_refresh E rd opts s)) = timer_view s"
  using assms send_delayed_regions_view[of E rd _ "s\<lparr>ws_refresh_regions := []\<rparr>"]
  by (simp add: full_quality_refresh_def Let_def) (simp add: timer_view_def no_refresh_def)

abbreviation timed :: "window_source \<Rightarrow> bool" where
  "timed s \<equiv> timers_ok s \<and> region_timed s"

lemma timed_view: "timer_view t = timer_view s \<Longrightarrow> timed s \<Longrightarrow> timed t"
  using timers_cong by blast

lemma timers_fields:
  "timers_ok s \<Longrightarrow> no_refresh s" "timers_ok s \<Longrightarrow> timers_known s" "timers_ok s \<Longrightarrow> timeout_known s"
  by (simp_all add: timers_ok_def)

subsection \<open>Callbacks\<close>

lemma expire_delayed_region_timed:
  assumes ok: "timers_ok (s\<lparr>ws_expire_timer := 0\<rparr>)"
  shows "timed (fst (expire_delayed_region E rd due tgt s))"
proof (cases "ws_delayed s")
  case None
  then show ?thesis using ok by (simp add: expire_delayed_region_def Let_def region_timed_def)
next
  case (Some d)
  show ?thesis
  proof (cases "ws_soft_timer s = 0")
    case False
    then show ?thesis using ok Some by (simp add: expire_delayed_region_def Let_def region_timed_def)
  next
    case soft: True
    define t where "t = cancel_may_send_timer (s\<lparr>ws_expire_timer := 0, ws_delayed := Some (d\<lparr>dr_expired := True\<rparr>)\<rparr>)"
    have "timers_ok (s\<lparr>ws_expire_timer := 0, ws_delayed := Some (d\<lparr>dr_expired := True\<rparr>)\<rparr>)" using ok Some by (simp add: timers_defs)
    then have t: "timers_ok t" unfolding t_def by (rule cancel_timers_ok)
    define r where "r = fst (may_send_delayed E rd t)"
    have r: "timers_ok r" using may_send_delayed_ok[OF t] by (simp add: r_def)
    have "timed (set_expire_timer due 100 r)" using set_timers_ok(1)[OF r] by (auto simp: region_timed_def)
    moreover have "timers_ok (r\<lparr>ws_soft_expired := n\<rparr>)" for n using r by (simp add: timers_defs)
    then have "timed (set_soft_timer (r\<lparr>ws_soft_expired := n\<rparr>))" for n using set_timers_ok(2) by (auto simp: region_timed_def)
    moreover have "timed (if ws_timeout_timer r = 0 then set_timeout_timer (dr_time e) r else r)"
      if e: "ws_delayed r = Some e" and "\<not> ws_soft_expired r < min (1 + ws_events_count r div 2) (ws_max_soft_expired r)" for e
    proof -
      have "0 \<le> ws_events_count r div 2" "1 \<le> ws_max_soft_expired r" using r by (simp_all add: timers_ok_def)
      then have "1 \<le> ws_soft_expired r" using that(2) by linarith
      then show ?thesis
        using r set_timeout_ok[OF r _ e] by (auto simp: region_timed_def set_timeout_timer_def Let_def ml_add_def)
    qed
    ultimately show ?thesis
      using Some soft r
      using may_send_delayed_error[OF t, of E rd]
      by (cases "may_send_delayed E rd t"; cases "snd (may_send_delayed E rd t)"; cases "ws_delayed r")
        (auto simp: expire_delayed_region_def Let_def t_def[symmetric] r_def region_timed_None)
  qed
qed

lemma do_send_delayed_timed: "timers_ok s \<Longrightarrow> timed (fst (do_send_delayed E rd s))"
  using do_send_delayed_ok[of s E rd] region_timed_None by blast

lemma delayed_region_timeout_timed:
  assumes ok: "timers_ok (s\<lparr>ws_timeout_timer := 0\<rparr>)" and d: "\<And>d. ws_delayed s = Some d \<Longrightarrow> dr_time d = t"
  shows "timed (fst (delayed_region_timeout E rd t s))"
proof (cases "ws_delayed s")
  case None
  then show ?thesis using ok by (simp add: delayed_region_timeout_def Let_def region_timed_def)
next
  case (Some e)
  define u where "u = log_captures_dropped (cancel_damage 0 (s\<lparr>ws_timeout_timer := 0\<rparr>))"
  have "timer_view u = timer_view (cancel_damage 0 (s\<lparr>ws_timeout_timer := 0\<rparr>))" by (simp add: u_def log_captures_dropped_def timer_view_def)
  then have u: "timed u"
    by (rule timed_view) (use cancel_damage_ok[OF ok, of 0] in \<open>simp add: region_timed_None\<close>)
  have "timed (fst (full_quality_refresh E rd (dr_options e) u))"
    by (rule timed_view[OF full_quality_refresh_view u]) (use u timers_fields(1) in blast)
  then show ?thesis using Some d by (simp add: delayed_region_timeout_def Let_def u_def)
qed

lemma full_quality_refresh_timed: "timed s \<Longrightarrow> timed (fst (full_quality_refresh E rd opts s))"
  by (rule timed_view[OF full_quality_refresh_view]) (simp_all add: timers_fields(1))

lemma run_timer_timed:
  assumes "timed s" shows "timed (run_timer E rd i s)"
proof (cases "map_of (ml_sources (ws_loop s)) i")
  case None then show ?thesis using assms by (simp add: run_timer_def)
next
  case (Some f)
  have ok: "timers_ok s" "region_timed s" using assms by simp_all
  have i: "(i, f) \<in> sources s" using Some by (rule map_of_SomeD)
  define t where "t = s\<lparr>ws_loop := ml_remove i (ws_loop s)\<rparr>"
  have t: "ws_loop t = ml_remove i (ws_loop s)" "ws_delayed t = ws_delayed s" by (simp_all add: t_def)
  note gone = source_gone[OF ok(1) i]
  have run: "run_timer E rd i s = fst (case f of CbExpire due target \<Rightarrow> expire_delayed_region E rd due target t
      | CbMaySend \<Rightarrow> timer_may_send E rd t | CbSoft \<Rightarrow> delayed_region_soft_timeout E rd t
      | CbTimeout m \<Rightarrow> delayed_region_timeout E rd m t | CbRefresh opts \<Rightarrow> refresh_timer_function E rd opts t
      | CbDecodeRefresh \<Rightarrow> decode_error_refresh E rd t | CbAckMaySend \<Rightarrow> call_may_send_delayed E rd t)"
    unfolding t_def using Some by (simp add: run_timer_def Let_def)
  show ?thesis
  proof (cases f)
    case (CbExpire due tgt)
    have "timers_ok (t\<lparr>ws_expire_timer := 0\<rparr>)" by (rule gone) (simp_all add: t_def CbExpire)
    then show ?thesis using run CbExpire expire_delayed_region_timed by simp
  next
    case CbMaySend
    have "timers_ok (t\<lparr>ws_may_send_timer := 0\<rparr>)" by (rule gone) (simp_all add: t_def CbMaySend)
    then show ?thesis using run CbMaySend timed_by_may_send[of "t\<lparr>ws_may_send_timer := 0\<rparr>" E rd] ok(2)
      by (simp add: timer_may_send_def region_timed_def t_def)
  next
    case CbSoft
    have "timers_ok (t\<lparr>ws_soft_timer := 0\<rparr>)" by (rule gone) (simp_all add: t_def CbSoft)
    then show ?thesis using run CbSoft do_send_delayed_timed by (simp add: delayed_region_soft_timeout_def)
  next
    case (CbTimeout m)
    have "timers_ok (t\<lparr>ws_timeout_timer := 0\<rparr>)" by (rule gone) (simp_all add: t_def CbTimeout)
    moreover have "dr_time d = m" if d: "ws_delayed t = Some d" for d
    proof -
      have known: "timeout_known s" and m: "ml_ok (ws_loop s)" using ok(1) by (simp_all add: timers_ok_def)
      have "i = ws_timeout_timer s" using known i CbTimeout by (auto simp: timeout_known_def)
      moreover have "0 < i" using ml_okD[OF m i] by simp
      ultimately have "(i, CbTimeout (dr_time d)) \<in> sources s" using known d t(2) by (auto simp: timeout_known_def)
      then show ?thesis using ml_ok_unique[OF m i] CbTimeout by auto
    qed
    ultimately show ?thesis using run CbTimeout delayed_region_timeout_timed by simp
  next
    case (CbRefresh opts)
    then show ?thesis using timers_fields(1)[OF ok(1)] i by (auto simp: no_refresh_def)
  next
    case CbDecodeRefresh
    have "timers_ok (t\<lparr>ws_decode_timer := 0\<rparr>)" by (rule gone) (simp_all add: t_def CbDecodeRefresh)
    then show ?thesis using run CbDecodeRefresh full_quality_refresh_timed[of "t\<lparr>ws_decode_timer := 0\<rparr>"] ok(2)
      by (simp add: decode_error_refresh_def region_timed_def t_def)
  next
    case CbAckMaySend
    have "timers_ok t" by (rule gone) (simp_all add: t_def CbAckMaySend)
    then have "timers_ok (cancel_may_send_timer t)" by (rule cancel_timers_ok)
    moreover have "region_timed (cancel_may_send_timer t)" using ok(2) by (simp add: region_timed_def t_def)
    ultimately show ?thesis using run CbAckMaySend timed_by_may_send by (simp add: call_may_send_delayed_def)
  qed
qed

subsection \<open>Events\<close>

lemma postpone_refresh_noop: "timers_ok s \<Longrightarrow> postpone_refresh rd opts s = s"
  by (simp add: timers_defs postpone_refresh_def)

lemma add_to_delayed_time: "add_to_delayed r opts d s = Inr e \<Longrightarrow> dr_time e = dr_time d"
  by (auto simp: add_to_delayed_def split: sum.splits prod.splits)

lemma do_damage_timed:
  assumes "timed s" shows "timed (fst (do_damage rd r opts s))"
proof -
  have ok: "timers_ok s" "region_timed s" using assms by simp_all
  show ?thesis
  proof (cases "ws_delayed s")
    case None
    have "timers_ok (s\<lparr>ws_delayed := d, ws_batch := b\<rparr>)" for d b using ok(1) None by (auto simp: timers_defs)
    then have "timed (set_expire_timer due tgt (s\<lparr>ws_delayed := d, ws_batch := b\<rparr>))" for due tgt d b
      using set_timers_ok(1) by (auto simp: region_timed_def)
    then show ?thesis
      using None ok postpone_refresh_noop[OF ok(1)]
      by (auto simp: do_damage_def new_delayed_region_def Let_def split: prod.split sum.split)
  next
    case (Some d)
    show ?thesis
    proof (cases "add_to_delayed r opts d s")
      case (Inl e)
      then show ?thesis using Some ok postpone_refresh_noop[OF ok(1)] by (simp add: do_damage_def)
    next
      case (Inr e)
      have "dr_time e = dr_time d" by (rule add_to_delayed_time[OF Inr])
      then have "timed (s\<lparr>ws_delayed := Some e\<rparr>)" using ok Some by (auto simp: timers_defs region_timed_def)
      moreover have "\<not> (ws_expire_timer s = 0 \<and> ws_soft_timer s = 0 \<and> ws_soft_expired s = 0)"
        using ok(2) Some by (auto simp: region_timed_def)
      ultimately show ?thesis using Some Inr postpone_refresh_noop[OF ok(1)] unfolding do_damage_def Let_def by auto
    qed
  qed
qed

lemma damage_timed:
  assumes "timed s" shows "timed (fst (damage rd r opts s))"
proof -
  obtain x y w h where r: "r = (x, y, w, h)" by (cases r)
  define v where "v = (if opt_flag ''damage'' opts then s\<lparr>ws_events_count := ws_events_count s + 1\<rparr> else s)"
  define u where "u = may_update_window_dimensions rd v"
  obtain ww wh where dims: "ws_dims u = (ww, wh)" by (cases "ws_dims u")
  have "timed v" using assms by (auto simp: v_def timers_defs region_timed_def)
  moreover have "timer_view u = timer_view v" by (simp add: u_def may_update_window_dimensions_def timer_view_def)
  ultimately have u: "timed u" using timed_view by blast
  have "timed (u\<lparr>ws_log := l\<rparr>)" for l by (rule timed_view[OF _ u]) (simp add: timer_view_def)
  then have "timed (fst (do_damage rd q o' (u\<lparr>ws_log := l\<rparr>)))" for q o' l using do_damage_timed by blast
  then show ?thesis
    using assms u unfolding damage_def r prod.case Let_def v_def[symmetric] u_def[symmetric] dims by simp
qed

lemma encode_start_view: "timer_view (encode_start s) = timer_view s"
  by (simp add: encode_start_def timer_view_def Let_def split: option.split list.split)

lemma encode_finish_view: "timer_view (encode_finish E rd s) = timer_view s"
  by (simp add: encode_finish_def make_data_packet_def make_draw_packet_def queue_damage_packet_def timer_view_def Let_def
      split: option.split prod.split)

lemma damage_packet_acked_timed:
  assumes "timed s" shows "timed (damage_packet_acked n t s)"
proof -
  define u where "u = (if t = WINDOW_DECODE_ERROR then client_decode_error s else s)"
  have "timed (s\<lparr>ws_decode_errors := m\<rparr>)" for m by (rule timed_view[OF _ assms]) (simp add: timer_view_def)
  moreover have "region_timed (set_decode_timer v) = region_timed v" for v
    by (simp add: region_timed_def set_decode_timer_def Let_def ml_add_def)
  ultimately have "timed (client_decode_error s)"
    using set_timers_ok(4) by (simp add: client_decode_error_def Let_def)
  then have u: "timed u" using assms by (simp add: u_def)
  have "timed (u\<lparr>ws_ack_pending := l\<rparr>)" for l by (rule timed_view[OF _ u]) (simp add: timer_view_def)
  moreover have "region_timed (add_idle_may_send v) = region_timed v" for v by (simp add: region_timed_def add_idle_may_send_def)
  ultimately have "timed (add_idle_may_send (u\<lparr>ws_ack_pending := l\<rparr>))" for l using set_timers_ok(5) by simp
  moreover have "timed (u\<lparr>ws_ack_pending := l, ws_soft_expired := 0\<rparr>)" if "ws_delayed u = None" for l
    using u that by (auto simp: timers_defs region_timed_def)
  moreover have "timed (u\<lparr>ws_ack_pending := l\<rparr>)" for l by (rule timed_view[OF _ u]) (simp add: timer_view_def)
  ultimately show ?thesis
    using u by (auto simp: damage_packet_acked_def Let_def u_def[symmetric] split: option.split)
qed

lemma dropped_timed:
  assumes "timers_ok s"
  shows "timed ((reset_statistics (give_up (cancel_damage 0 s)))\<lparr>ws_suspended := b\<rparr>)"
    and "timed (reset_statistics (give_up (cancel_damage 0 s)))"
  using cancel_damage_ok[OF assms, of 0] by (auto simp: reset_statistics_def give_up_def timers_defs region_timed_def)

lemma idle_view: "timer_view (go_idle s) = timer_view s" "timer_view (no_idle s) = timer_view s"
  by (simp_all add: go_idle_def no_idle_def lock_batch_delay_def unlock_batch_delay_def timer_view_def Let_def)

lemma w_cleanup_timed:
  assumes "timers_ok s" shows "timed (w_cleanup s)"
proof -
  have c: "timers_ok (cancel_damage MAX_SEQUENCE s)" by (rule cancel_damage_ok[OF assms])
  have "(i, CbTimeout t) \<notin> sources (cancel_damage MAX_SEQUENCE s)" for i t
  proof
    assume i: "(i, CbTimeout t) \<in> sources (cancel_damage MAX_SEQUENCE s)"
    have "0 < i" using ml_okD[OF _ i] c by (simp add: timers_ok_def)
    then show False using c i cancel_damage_frame(2)[of MAX_SEQUENCE s] by (auto simp: timers_defs simp del: cancel_damage_frame)
  qed
  then show ?thesis using c by (auto simp: w_cleanup_def give_up_def timers_defs region_timed_def)
qed

lemma window_step_timed:
  assumes "timed s" shows "timed (window_step E s e)"
proof -
  obtain rd ev where e: "e = (rd, ev)" by (cases e)
  show ?thesis
  proof (cases ev)
    case (EvResize w h)
    then show ?thesis unfolding e window_step_def by simp (rule timed_view[OF _ assms], simp add: timer_view_def)
  next
    case EvEncodeStart
    then show ?thesis using timed_view[OF encode_start_view assms] by (simp add: e window_step_def)
  next
    case EvEncodeFinish
    then show ?thesis using timed_view[OF encode_finish_view assms] by (simp add: e window_step_def)
  next
    case (EvIconic b)
    have "timed (s\<lparr>ws_iconic := b\<rparr>)" by (rule timed_view[OF _ assms]) (simp add: timer_view_def)
    then show ?thesis using EvIconic timed_view[OF idle_view(1)] timed_view[OF idle_view(2)] by (cases b) (simp_all add: e window_step_def iconic_changed_def Let_def)
  next
    case EvMap
    then show ?thesis using timed_view[OF idle_view(2) assms] by (simp add: e window_step_def)
  next
    case EvUnmap
    then show ?thesis using timed_view[OF idle_view(1)] dropped_timed(2) assms by (simp add: e window_step_def unmap_window_def)
  qed (use assms damage_timed run_timer_timed damage_packet_acked_timed full_quality_refresh_timed dropped_timed w_cleanup_timed
      in \<open>simp_all add: e window_step_def w_refresh_def w_suspend_def w_resume_def\<close>)
qed

lemma fresh_source_timed: "fresh_source s \<Longrightarrow> 1 \<le> ws_max_soft_expired s \<Longrightarrow> timed s"
  by (simp add: fresh_source_def timers_defs region_timed_def ml_init_def ml_ok_def)

lemma window_run_timed: "timed s \<Longrightarrow> timed (window_run E s evs)"
  unfolding window_run_def by (induction evs rule: rev_induct) (simp_all add: window_step_timed)

text \<open>An invariant of the steps that are allowed, on top of the timers, is one of every such run.\<close>

locale window_invariant =
  fixes holds :: "window_source \<Rightarrow> bool" and allowed :: "reading \<times> window_event \<Rightarrow> bool" and E :: window_env
  assumes kept: "\<lbrakk>timed s; holds s; allowed e\<rbrakk> \<Longrightarrow> holds (window_step E s e)"
begin

lemma kept_by_runs: "\<lbrakk>timed s; holds s; list_all allowed evs\<rbrakk> \<Longrightarrow> holds (window_run E s evs)"
proof (induction evs rule: rev_induct)
  case (snoc e evs)
  then show ?case using kept[OF window_run_timed, of s E evs e] by (simp add: window_run_def)
qed (simp add: window_run_def)

end

subsection \<open>Properties\<close>

text \<open>
  C8: in every run of a window source whose limit of soft expiries is at least one, a delayed
  region has a pending source of the main loop that will look at it again: its expiry, the soft
  timer that sends it whatever the backlog, or the timeout of this very region. The code never
  finds a region without a timer.
\<close>

theorem delayed_region_has_timer:
  assumes "fresh_source s" and "1 \<le> ws_max_soft_expired s"
  shows "\<not> ws_bug (window_run E s evs)
    \<and> (ws_delayed (window_run E s evs) = None
       \<or> (\<exists>i cb. (i, cb) \<in> sources (window_run E s evs)
            \<and> (cb = CbSoft \<or> (\<exists>due tgt. cb = CbExpire due tgt)
               \<or> cb = CbTimeout (dr_time (the (ws_delayed (window_run E s evs)))))))"
proof -
  let ?t = "window_run E s evs"
  have t: "timers_known ?t" "timeout_known ?t" "region_timed ?t" "\<not> ws_bug ?t"
    using window_run_timed[OF fresh_source_timed[OF assms], of E evs] by (simp_all add: timers_ok_def)
  show ?thesis
  proof (cases "ws_delayed ?t")
    case (Some d)
    then consider "ws_expire_timer ?t \<noteq> 0" | "ws_soft_timer ?t \<noteq> 0" | "ws_timeout_timer ?t \<noteq> 0"
      using t(3) by (auto simp: region_timed_def)
    then have "\<exists>i cb. (i, cb) \<in> sources ?t \<and> (cb = CbSoft \<or> (\<exists>due tgt. cb = CbExpire due tgt) \<or> cb = CbTimeout (dr_time d))"
      using t(1,2) Some by cases (unfold timers_known_def timeout_known_def, blast, blast, force)
    then show ?thesis using t(4) Some by simp
  qed (simp add: t(4))
qed


end
