(* ===== verification/Damage_Tracking.thy ===== *)
theory Damage_Tracking
  imports Damage_Timers
begin

text \<open>
  No damage is lost: as long as the window is not unmapped, suspended or cleaned up, every pixel
  that was damaged and not captured since is in the delayed region, whatever the timers, the
  encode thread, the acknowledgements and the size of the window do.
\<close>

subsection \<open>Damaged pixels\<close>

fun dirty_step :: "pixel_event \<Rightarrow> (int \<times> int) set \<Rightarrow> (int \<times> int) set" where
  "dirty_step (Damaged r w h) S = S \<union> (points r \<inter> points (0, 0, w, h))"
| "dirty_step (Captured r) S = S - points r"
| "dirty_step (Resized w h) S = S \<inter> points (0, 0, w, h)"
| "dirty_step GivenUp S = {}"

text \<open>The pixels of the window that changed since they were last captured.\<close>

definition dirty :: "window_source \<Rightarrow> (int \<times> int) set" where
  "dirty s = fold dirty_step (ws_log s) {}"

lemma dirty_append: "ws_log t = ws_log s @ [e] \<Longrightarrow> dirty t = dirty_step e (dirty s)"
  by (simp add: dirty_def)

lemma dirty_cong: "ws_log t = ws_log s \<Longrightarrow> dirty t = dirty s"
  by (simp add: dirty_def)

abbreviation window :: "int \<times> int \<Rightarrow> (int \<times> int) set" where
  "window dims \<equiv> points (0, 0, fst dims, snd dims)"

definition size_ok :: "int \<times> int \<Rightarrow> bool" where
  "size_ok dims = (0 \<le> fst dims \<and> fst dims \<le> MAX_WINDOW_SIZE \<and> 0 \<le> snd dims \<and> snd dims \<le> MAX_WINDOW_SIZE)"

lemma size_ok_on_screen: "size_ok dims \<Longrightarrow> on_screen (0, 0, fst dims, snd dims)"
  by (cases dims) (simp add: size_ok_def on_screen_def MAX_WINDOW_SIZE_def)

definition env_ok :: "window_env \<Rightarrow> bool" where
  "env_ok E = ((\<forall>w h opts c. we_encoding E w h opts c \<noteq> [] \<and> we_refresh_encoding E w h opts c \<noteq> [])
     \<and> (\<forall>rs. set (we_order E rs) = set rs)
     \<and> (\<forall>x y w h. 0 < w \<longrightarrow> 0 < h \<longrightarrow> we_image E x y w h = Some (w, h)))"

text \<open>What does not change while regions are captured.\<close>

definition same_frame :: "window_source \<Rightarrow> window_source \<Rightarrow> bool" where
  "same_frame s t = (ws_delayed t = ws_delayed s \<and> ws_real t = ws_real s \<and> ws_managed t = ws_managed s
     \<and> ws_cancelled t = ws_cancelled s \<and> ws_auto_refresh_encodings t = ws_auto_refresh_encodings s
     \<and> (ws_dims t = ws_dims s \<or> ws_dims t = ws_real s) \<and> ws_sequence s \<le> ws_sequence t)"

lemma same_frame_refl [simp]: "same_frame s s"
  by (simp add: same_frame_def)

lemma same_frame_trans: "same_frame s t \<Longrightarrow> same_frame t u \<Longrightarrow> same_frame s u"
  by (auto simp: same_frame_def)

lemma clip_region_points:
  "points r \<inter> window dims \<subseteq> (case clip_region dims r of None \<Rightarrow> {} | Some r' \<Rightarrow> points r')"
  by (cases r; cases dims) (auto simp: clip_region_def Let_def)

lemma clip_region_positive: "clip_region dims r = Some (x, y, w, h) \<Longrightarrow> 0 < w \<and> 0 < h"
  by (cases r; cases dims) (auto simp: clip_region_def Let_def split: if_splits)

lemma process_region_captures:
  assumes "env_ok E" and "ws_managed s" and "ws_cancelled s \<le> ws_sequence s" and "dirty s \<subseteq> window (ws_real s)"
  shows "dirty (process_damage_region E rd dt opts call s) \<subseteq> dirty s - points (fst call)"
    and "same_frame s (process_damage_region E rd dt opts call s)"
proof -
  obtain r coding flush where call: "call = (r, coding, flush)" by (cases call)
  define u where "u = may_update_window_dimensions rd s"
  have u: "ws_log u = ws_log s" "ws_real u = ws_real s" "ws_dims u = ws_real s" "ws_sequence u = ws_sequence s"
    "ws_cancelled u = ws_cancelled s" "ws_managed u = ws_managed s" "ws_delayed u = ws_delayed s"
    "ws_auto_refresh_encodings u = ws_auto_refresh_encodings s" by (simp_all add: u_def)
  have "dirty (process_damage_region E rd dt opts call s) \<subseteq> dirty s - points (fst call)
      \<and> same_frame s (process_damage_region E rd dt opts call s)"
  proof -
    consider "clip_region (ws_real s) r = None" "process_damage_region E rd dt opts call s = u"
      | x y w h item where "clip_region (ws_real s) r = Some (x, y, w, h)"
        "process_damage_region E rd dt opts call s =
          u\<lparr>ws_sequence := ws_sequence s + 1, ws_queue := item, ws_log := ws_log s @ [Captured (x, y, w, h)]\<rparr>"
    proof (cases "clip_region (ws_real s) r")
      case None then show ?thesis using that(1) assms(2) by (simp add: process_damage_region_def get_damage_image_def call Let_def u u_def)
    next
      case (Some c)
      obtain x y w h where c: "c = (x, y, w, h)" by (cases c)
      have img: "we_image E x y w h = Some (w, h)" "w \<noteq> 0" "h \<noteq> 0"
        using clip_region_positive[of "ws_real s" r x y w h] Some c assms(1) by (auto simp: env_ok_def)
      show ?thesis
        by (rule that(2)[of x y w h])
          (use assms(2,3) img Some c u in \<open>simp_all add: process_damage_region_def get_damage_image_def call Let_def w_cancelled_def u_def\<close>)
    qed
    then show ?thesis
    proof cases
      case 1
      then have "points r \<inter> window (ws_real s) = {}" using clip_region_points[of r "ws_real s"] by simp
      then show ?thesis using 1 assms(4) u dirty_cong[of u s] by (auto simp: call same_frame_def simp del: points.simps)
    next
      case 2
      have "dirty (process_damage_region E rd dt opts call s) = dirty s - points (x, y, w, h)"
        using dirty_append[of "process_damage_region E rd dt opts call s" s "Captured (x, y, w, h)"] 2(2) by simp
      moreover have "points r \<inter> window (ws_real s) \<subseteq> points (x, y, w, h)" using clip_region_points[of r "ws_real s"] 2(1) by simp
      ultimately show ?thesis using 2(2) assms(4) u by (auto simp: call same_frame_def simp del: points.simps)
    qed
  qed
  then show "dirty (process_damage_region E rd dt opts call s) \<subseteq> dirty s - points (fst call)"
    and "same_frame s (process_damage_region E rd dt opts call s)" by simp_all
qed

lemma process_regions_capture:
  assumes "env_ok E"
  shows "\<lbrakk>ws_managed s; ws_cancelled s \<le> ws_sequence s; dirty s \<subseteq> window (ws_real s)\<rbrakk> \<Longrightarrow>
    dirty (fold (process_damage_region E rd dt opts) calls s) \<subseteq> dirty s - call_pixels calls
    \<and> same_frame s (fold (process_damage_region E rd dt opts) calls s)"
proof (induction calls arbitrary: s)
  case (Cons c calls)
  let ?t = "process_damage_region E rd dt opts c s"
  note t = process_region_captures[OF assms Cons.prems, of rd dt opts c]
  have "dirty (fold (process_damage_region E rd dt opts) calls ?t) \<subseteq> dirty ?t - call_pixels calls
      \<and> same_frame ?t (fold (process_damage_region E rd dt opts) calls ?t)"
    by (rule Cons.IH) (use t Cons.prems in \<open>auto simp: same_frame_def\<close>)
  then show ?case using t same_frame_trans[OF t(2)] by auto
qed simp

subsection \<open>Sending\<close>

text \<open>A window that can send, and whose changed pixels are known to lie in it.\<close>

definition live_window :: "window_source \<Rightarrow> bool" where
  "live_window s = (ws_managed s \<and> ws_cancelled s \<le> ws_sequence s \<and> size_ok (ws_dims s) \<and> size_ok (ws_real s)
     \<and> ws_auto_refresh_encodings s \<noteq> [] \<and> dirty s \<subseteq> window (ws_dims s) \<inter> window (ws_real s))"

lemma live_window_frame:
  "\<lbrakk>live_window s; same_frame s t; dirty t \<subseteq> dirty s\<rbrakk> \<Longrightarrow> live_window t"
  by (auto simp: live_window_def same_frame_def simp del: points.simps)

lemma live_window_unchanged:
  "\<lbrakk>live_window s; ws_managed t = ws_managed s; ws_cancelled t \<le> ws_sequence t; ws_dims t = ws_dims s; ws_real t = ws_real s;
    ws_auto_refresh_encodings t = ws_auto_refresh_encodings s; ws_log t = ws_log s\<rbrakk> \<Longrightarrow> live_window t"
  using dirty_cong[of t s] by (simp add: live_window_def del: points.simps)

lemma window_empty: "fst d * snd d = 0 \<Longrightarrow> window d = {}"
  by (cases d) auto

lemma do_send_regions_captures:
  assumes E: "env_ok E" and live: "live_window s" and scr: "list_all on_screen regions"
    and best: "\<And>w h o' c. best w h o' c \<noteq> []"
  shows "live_window (fst (do_send_regions best E rd dt regions coding opts s))"
    and "dirty (fst (do_send_regions best E rd dt regions coding opts s)) \<subseteq> dirty s - pixels regions"
    and "same_frame s (fst (do_send_regions best E rd dt regions coding opts s))"
proof -
  let ?o = "assign_sq_options rd opts s"
  let ?P = "send_params_of best E ?o coding s"
  have "plan_covers ?P regions None (send_regions_plan ?P regions None)"
    by (rule send_regions_plan_covers) (use scr E in \<open>simp_all add: order_ok_def env_ok_def send_params_of_def\<close>)
  moreover have "sp_enc ?P (sp_ww ?P) (sp_wh ?P) \<noteq> []" using best by (simp add: send_params_of_def)
  ultimately obtain calls where calls: "send_regions_plan ?P regions None = Inr calls"
      "window (ws_dims s) \<inter> pixels regions \<subseteq> call_pixels calls"
    by (cases "send_regions_plan ?P regions None") (auto simp: excluded_def window_rect_def send_params_of_def simp del: points.simps)
  define t where "t = fst (do_send_regions best E rd dt regions coding opts s)"
  consider "resize_raises s" "t = may_update_window_dimensions rd s" | "t = fold (process_damage_region E rd dt ?o) calls s"
    by (cases "calls \<noteq> [] \<and> ws_managed s \<and> resize_raises s") (auto simp: t_def do_send_regions_def Let_def calls(1))
  then have "dirty t \<subseteq> dirty s - call_pixels calls \<and> same_frame s t"
  proof cases
    case 1
    then have "dirty s = {}" using window_empty[of "ws_real s"] live by (auto simp: resize_raises_def live_window_def simp del: points.simps)
    then show ?thesis using 1(2) dirty_cong[of t s] by (simp add: same_frame_def)
  next
    case 2
    then show ?thesis
      using process_regions_capture[OF E, of s rd dt ?o calls] live by (auto simp: live_window_def simp del: points.simps)
  qed
  moreover have "dirty s \<subseteq> window (ws_dims s)" using live by (simp add: live_window_def del: points.simps)
  ultimately show "dirty (fst (do_send_regions best E rd dt regions coding opts s)) \<subseteq> dirty s - pixels regions"
    and frame: "same_frame s (fst (do_send_regions best E rd dt regions coding opts s))"
    using calls(2) unfolding t_def by blast+
  then show "live_window (fst (do_send_regions best E rd dt regions coding opts s))"
    using live_window_frame[OF live frame] by blast
qed

text \<open>Without delayed regions nothing is dirty; else the regions cover what is.\<close>

definition regions_track :: "window_source \<Rightarrow> bool" where
  "regions_track s = (case ws_delayed s of None \<Rightarrow> dirty s = {} | Some d \<Rightarrow> regions_ok (dr_regions d) \<and> dirty s \<subseteq> pixels (dr_regions d))"

definition tracked :: "window_source \<Rightarrow> bool" where
  "tracked s = (live_window s \<and> regions_track s)"

lemma regions_track_frame:
  "\<lbrakk>regions_track s; ws_delayed t = ws_delayed s; dirty t \<subseteq> dirty s\<rbrakk> \<Longrightarrow> regions_track t"
  by (auto simp: regions_track_def split: option.splits)

lemma tracked_unchanged:
  "\<lbrakk>tracked s; ws_managed t = ws_managed s; ws_cancelled t = ws_cancelled s; ws_sequence t = ws_sequence s; ws_dims t = ws_dims s;
    ws_real t = ws_real s; ws_auto_refresh_encodings t = ws_auto_refresh_encodings s; ws_log t = ws_log s; ws_delayed t = ws_delayed s\<rbrakk>
    \<Longrightarrow> tracked t"
  using dirty_cong[of t s] live_window_unchanged[of s t] regions_track_frame[of s t] by (simp add: tracked_def live_window_def del: points.simps)

lemma uncancelled: "live_window s \<Longrightarrow> ws_sequence s < MAX_SEQUENCE \<Longrightarrow> \<not> w_cancelled MAX_SEQUENCE s"
  by (simp add: live_window_def w_cancelled_def)

lemma send_delayed_regions_captures:
  assumes "env_ok E" and "live_window s" and "list_all on_screen (dr_regions d)" and "ws_sequence s < MAX_SEQUENCE"
  shows "live_window (fst (send_delayed_regions E rd d s))"
    and "dirty (fst (send_delayed_regions E rd d s)) \<subseteq> dirty s - pixels (dr_regions d)"
    and "ws_delayed (fst (send_delayed_regions E rd d s)) = ws_delayed s"
proof -
  define t where "t = s\<lparr>ws_batch := (ws_batch s)\<lparr>bc_last_event := rd_now rd\<rparr>\<rparr>"
  have t: "live_window t" "dirty t = dirty s" "ws_delayed t = ws_delayed s" "\<not> w_cancelled MAX_SEQUENCE t"
    using live_window_unchanged[OF assms(2), of t] dirty_cong[of t s] uncancelled[OF assms(2,4)] assms(2)
    by (simp_all add: t_def live_window_def w_cancelled_def del: points.simps)
  have sent: "send_delayed_regions E rd d s = do_send_regions (we_encoding E) E rd (dr_time d) (dr_regions d) (dr_encoding d) (dr_options d) t"
    using assms(2) t(4) by (simp add: send_delayed_regions_def live_window_def Let_def t_def)
  have best: "we_encoding E w h o' c \<noteq> []" for w h o' c using assms(1) by (simp add: env_ok_def)
  note r = do_send_regions_captures[OF assms(1) t(1) assms(3), of "we_encoding E" rd "dr_time d" "dr_encoding d" "dr_options d", OF best]
  show "live_window (fst (send_delayed_regions E rd d s))"
    and "dirty (fst (send_delayed_regions E rd d s)) \<subseteq> dirty s - pixels (dr_regions d)"
    and "ws_delayed (fst (send_delayed_regions E rd d s)) = ws_delayed s"
    using r t(2,3) unfolding sent by (simp_all add: same_frame_def del: points.simps)
qed

lemma do_send_delayed_tracked:
  assumes "env_ok E" and "tracked s" and "ws_sequence s < MAX_SEQUENCE"
  shows "tracked (fst (do_send_delayed E rd s))"
proof (cases "ws_delayed s")
  case None
  then show ?thesis by (simp add: do_send_delayed_def) (rule tracked_unchanged[OF assms(2)]; simp)
next
  case (Some d)
  define lad where "lad = (rd_now rd, rd_now rd - dr_time d)"
  define u where "u = cancel_soft_timer (cancel_timeout_timer s)"
  define t where "t = u\<lparr>ws_delayed := None, ws_batch := (ws_batch u)\<lparr>bc_last_actual_delay := Some lad, bc_last_delay := Some lad\<rparr>\<rparr>"
  have u: "ws_managed t = ws_managed s" "ws_cancelled t = ws_cancelled s" "ws_sequence t = ws_sequence s" "ws_dims t = ws_dims s"
    "ws_real t = ws_real s" "ws_auto_refresh_encodings t = ws_auto_refresh_encodings s" "ws_log t = ws_log s" "ws_delayed t = None"
    by (simp_all add: t_def u_def)
  have live: "live_window t"
    by (rule live_window_unchanged[of s]) (use assms(2) u in \<open>simp_all add: tracked_def live_window_def\<close>)
  have d: "list_all on_screen (dr_regions d)" "dirty t \<subseteq> pixels (dr_regions d)"
    using assms(2) Some dirty_cong[OF u(7)] by (simp_all add: tracked_def regions_track_def regions_ok_def)
  have "fst (do_send_delayed E rd s) = fst (send_delayed_regions E rd d t)"
    using Some by (simp add: do_send_delayed_def Let_def t_def u_def lad_def)
  then show ?thesis
    using send_delayed_regions_captures[OF assms(1) live d(1), of rd] assms(3) u(3,8) d(2)
    by (auto simp: tracked_def regions_track_def simp del: points.simps)
qed

lemma may_send_delayed_tracked:
  assumes "env_ok E" and "tracked s" and "ws_sequence s < MAX_SEQUENCE"
  shows "tracked (fst (may_send_delayed E rd s))"
proof -
  have same: "tracked t" if "ws_managed t = ws_managed s" "ws_cancelled t = ws_cancelled s" "ws_sequence t = ws_sequence s"
      "ws_dims t = ws_dims s" "ws_real t = ws_real s" "ws_auto_refresh_encodings t = ws_auto_refresh_encodings s"
      "ws_log t = ws_log s" "ws_delayed t = ws_delayed s" for t
    by (rule tracked_unchanged[OF assms(2)]) (use that in simp_all)
  have keep: "tracked s" "tracked (set_may_send_timer s)" "tracked (s\<lparr>ws_ack_pending := []\<rparr>)" using assms(2) same by simp_all
  have send: "tracked (fst (do_send_delayed E rd s))" "tracked (fst (do_send_delayed E rd (s\<lparr>ws_soft_expired := 0\<rparr>)))"
    using do_send_delayed_tracked[OF assms(1)] assms(2,3) same[of "s\<lparr>ws_soft_expired := 0\<rparr>"] by simp_all
  show ?thesis
    using keep send by (cases "ws_delayed s") (simp_all add: may_send_delayed_def Let_def)
qed

lemma full_quality_refresh_tracked:
  assumes "env_ok E" and "live_window s" and "regions_track s \<or> ws_delayed s = None" and "ws_sequence s < MAX_SEQUENCE"
  shows "tracked (fst (full_quality_refresh E rd opts s))"
proof -
  define t where "t = s\<lparr>ws_refresh_regions := []\<rparr>"
  have t: "live_window t" "ws_delayed t = ws_delayed s" "dirty t = dirty s" "ws_sequence t = ws_sequence s"
    using live_window_unchanged[OF assms(2), of t] assms(2) dirty_cong[of t s] by (simp_all add: t_def live_window_def del: points.simps)
  define d where "d = \<lparr>dr_time = rd_now rd, dr_encoding = hd (ws_auto_refresh_encodings t), dr_options = opts ++ get_refresh_options t,
    dr_regions = [(0, 0, fst (ws_dims t), snd (ws_dims t))], dr_expired = False\<rparr>"
  have scr: "list_all on_screen (dr_regions d)"
    using t(1) size_ok_on_screen by (simp add: d_def live_window_def del: points.simps)
  have sent: "full_quality_refresh E rd opts s = send_delayed_regions E rd d t"
    using assms(2) uncancelled[OF assms(2,4)] by (simp add: full_quality_refresh_def live_window_def Let_def t_def d_def)
  have "dirty t - pixels (dr_regions d) = {}" using t(1) by (simp add: d_def live_window_def del: points.simps)
  then show ?thesis
    using send_delayed_regions_captures[OF assms(1) t(1) scr, of rd] assms(3,4) t(2,4) unfolding sent
    by (auto simp: tracked_def regions_track_def simp del: points.simps split: option.splits)
qed

lemma expire_delayed_region_tracked:
  assumes "env_ok E" and "tracked s" and "ws_sequence s < MAX_SEQUENCE"
  shows "tracked (fst (expire_delayed_region E rd due target s))"
proof (cases "ws_delayed s = None \<or> ws_soft_timer s \<noteq> 0")
  case True
  have "tracked (s\<lparr>ws_expire_timer := 0\<rparr>)" by (rule tracked_unchanged[OF assms(2)]) simp_all
  then show ?thesis using True by (auto simp: expire_delayed_region_def Let_def split: option.split)
next
  case False
  then obtain d where d: "ws_delayed s = Some d" "ws_soft_timer s = 0" by auto
  define t where "t = cancel_may_send_timer (s\<lparr>ws_expire_timer := 0, ws_delayed := Some (d\<lparr>dr_expired := True\<rparr>)\<rparr>)"
  have f: "ws_log t = ws_log s" "ws_delayed t = Some (d\<lparr>dr_expired := True\<rparr>)" "ws_dims t = ws_dims s" "ws_real t = ws_real s"
    "ws_managed t = ws_managed s" "ws_cancelled t = ws_cancelled s" "ws_sequence t = ws_sequence s"
    "ws_auto_refresh_encodings t = ws_auto_refresh_encodings s" by (simp_all add: t_def)
  have t: "tracked t"
    using assms(2) live_window_unchanged[of s t] dirty_cong[OF f(1)] f d by (auto simp: tracked_def regions_track_def live_window_def)
  define r where "r = may_send_delayed E rd t"
  have r: "tracked (fst r)" unfolding r_def by (rule may_send_delayed_tracked[OF assms(1) t]) (use assms(3) f in simp)
  have keep: "tracked (set_expire_timer due 100 (fst r))" "tracked (set_soft_timer ((fst r)\<lparr>ws_soft_expired := n\<rparr>))"
    "tracked (set_timeout_timer m (fst r))" for n m
    by (rule tracked_unchanged[OF r]; simp)+
  show ?thesis
    using d r keep by (cases r; cases "snd r"; cases "ws_delayed (fst r)")
      (auto simp: expire_delayed_region_def Let_def r_def[symmetric] t_def[symmetric])
qed

lemma delayed_region_timeout_tracked:
  assumes "env_ok E" and "tracked s" and "ws_sequence s < MAX_SEQUENCE"
  shows "tracked (fst (delayed_region_timeout E rd t s))"
proof (cases "\<exists>d. ws_delayed s = Some d \<and> dr_time d = t")
  case False
  have "tracked (s\<lparr>ws_timeout_timer := 0\<rparr>)" by (rule tracked_unchanged[OF assms(2)]) simp_all
  then show ?thesis using False by (auto simp: delayed_region_timeout_def Let_def split: option.split)
next
  case True
  then obtain d where d: "ws_delayed s = Some d" "dr_time d = t" by blast
  define u where "u = log_captures_dropped (cancel_damage 0 (s\<lparr>ws_timeout_timer := 0\<rparr>))"
  have f: "ws_log u = ws_log s @ [Damaged (0, 0, fst (ws_dims s), snd (ws_dims s)) (fst (ws_real s)) (snd (ws_real s))]"
    "ws_delayed u = None" "ws_dims u = ws_dims s" "ws_real u = ws_real s" "ws_managed u = ws_managed s"
    "ws_cancelled u = ws_sequence s" "ws_sequence u = ws_sequence s" "ws_auto_refresh_encodings u = ws_auto_refresh_encodings s"
    by (simp_all add: u_def log_captures_dropped_def)
  have "dirty u = dirty s \<union> (window (ws_dims s) \<inter> window (ws_real s))" using dirty_append[OF f(1)] by simp
  then have "live_window u"
    using assms(2) f by (auto simp: tracked_def live_window_def simp del: points.simps)
  then have "tracked (fst (full_quality_refresh E rd (dr_options d) u))"
    by (rule full_quality_refresh_tracked[OF assms(1)]) (use f assms(3) in simp_all)
  then show ?thesis using d by (simp add: delayed_region_timeout_def Let_def u_def)
qed

subsection \<open>Damage\<close>

lemma add_rectangle_pixels:
  assumes "regions_ok regions" and "on_screen (x, y, w, h)"
  obtains rs n where "add_rectangle (Suc (nat w * nat h)) regions (x, y, w, h) = Some (Inr (rs, n))"
    and "regions_ok rs" and "pixels rs = pixels regions \<union> points (x, y, w, h)"
proof -
  have "grown regions (points (x, y, w, h)) 0 (add_rectangle (Suc (nat w * nat h)) regions (x, y, w, h))"
    by (rule add_rectangle_grown[OF assms]) (simp add: card_points del: points.simps)
  then obtain new n where "add_rectangle (Suc (nat w * nat h)) regions (x, y, w, h) = Some (Inr (regions @ new, n))"
      "regions_ok (regions @ new)" "pixels new = points (x, y, w, h) - pixels regions"
    by (auto simp: grown_def)
  then show ?thesis using that[of "regions @ new"] by (auto simp del: points.simps)
qed

lemma on_screen_positive: "on_screen (x, y, w, h) \<Longrightarrow> mk_rectangle x y w h = Inr (x, y, w, h)"
  by (simp add: on_screen_def mk_rectangle_def)

text \<open>The state between the ghost event and the regions: they cover all but the new damage.\<close>

lemma do_damage_tracked:
  assumes live: "live_window s" and r: "on_screen r"
    and track: "case ws_delayed s of None \<Rightarrow> dirty s \<subseteq> points r
      | Some d \<Rightarrow> regions_ok (dr_regions d) \<and> dirty s \<subseteq> pixels (dr_regions d) \<union> points r"
  shows "tracked (fst (do_damage rd r opts s))"
proof -
  obtain x y w h where xywh: "r = (x, y, w, h)" by (cases r)
  define t where "t = postpone_refresh rd opts s"
  have t: "ws_log t = ws_log s" "ws_delayed t = ws_delayed s" "ws_dims t = ws_dims s" "ws_real t = ws_real s" "ws_managed t = ws_managed s"
    "ws_cancelled t = ws_cancelled s" "ws_sequence t = ws_sequence s" "ws_auto_refresh_encodings t = ws_auto_refresh_encodings s"
    by (simp_all add: t_def)
  have tracked: "tracked u"
    if "ws_log u = ws_log t" "ws_dims u = ws_dims t" "ws_real u = ws_real t" "ws_managed u = ws_managed t" "ws_cancelled u = ws_cancelled t"
      "ws_sequence u = ws_sequence t" "ws_auto_refresh_encodings u = ws_auto_refresh_encodings t"
      "ws_delayed u = Some d" "regions_ok (dr_regions d)" "dirty s \<subseteq> pixels (dr_regions d)" for u d
    using that live_window_unchanged[OF live, of u] dirty_cong[of u s] live t
    by (simp add: tracked_def regions_track_def live_window_def del: points.simps)
  show ?thesis
  proof (cases "ws_delayed s")
    case None
    have ok: "regions_ok [r]" using r by (simp add: regions_ok_def)
    have new: "fst (new_delayed_region rd r opts t) = set_expire_timer due tgt (t\<lparr>ws_delayed := Some d, ws_batch := b\<rparr>)
        \<Longrightarrow> dr_regions d = [r] \<Longrightarrow> tracked (fst (new_delayed_region rd r opts t))" for due tgt d b
      using tracked[of "set_expire_timer due tgt (t\<lparr>ws_delayed := Some d, ws_batch := b\<rparr>)" d] ok track None
      by (simp del: points.simps)
    have "tracked (fst (new_delayed_region rd r opts t))"
      by (rule new) (use on_screen_positive[of x y w h] r in \<open>simp add: new_delayed_region_def xywh Let_def\<close>, simp add: xywh)
    then show ?thesis using None t by (simp add: do_damage_def Let_def t_def)
  next
    case (Some d)
    have ok: "regions_ok (dr_regions d)" "dirty s \<subseteq> pixels (dr_regions d) \<union> points r" using track Some by simp_all
    have win: "dirty s \<subseteq> window (ws_dims s)" "on_screen (0, 0, fst (ws_dims s), snd (ws_dims s))"
      using live size_ok_on_screen by (simp_all add: live_window_def del: points.simps)
    obtain rs n where rs: "add_rectangle (Suc (nat w * nat h)) (dr_regions d) (x, y, w, h) = Some (Inr (rs, n))"
        "regions_ok rs" "pixels rs = pixels (dr_regions d) \<union> points (x, y, w, h)"
      by (rule add_rectangle_pixels[OF ok(1)]) (use r xywh in auto)
    obtain e where e: "add_to_delayed r opts d t = Inr e" "regions_ok (dr_regions e)" "dirty s \<subseteq> pixels (dr_regions e)"
    proof (cases "ws_full_frames_only t \<or> length (dr_regions d) \<ge> ws_max_small_regions t")
      case True
      show ?thesis
        by (rule that[of "d\<lparr>dr_regions := [(0, 0, fst (ws_dims t), snd (ws_dims t))], dr_options := merge_options opts (dr_options d)\<rparr>"])
          (use True win t in \<open>simp_all add: add_to_delayed_def regions_ok_def del: points.simps\<close>)
    next
      case False
      show ?thesis
        by (rule that[of "d\<lparr>dr_regions := rs, dr_options := merge_options opts (dr_options d)\<rparr>"])
          (use False rs ok(2) on_screen_positive[of x y w h] r in \<open>simp_all add: add_to_delayed_def xywh del: points.simps\<close>)
    qed
    have "tracked (t\<lparr>ws_delayed := Some e\<rparr>)" "tracked (set_expire_timer due tgt (t\<lparr>ws_delayed := Some e, ws_bug := True\<rparr>))" for due tgt
      by (rule tracked[of _ e]; use e t in \<open>simp add: t_def\<close>)+
    then show ?thesis using Some e(1) t(2) by (simp add: do_damage_def Let_def t_def[symmetric])
  qed
qed

lemma damage_tracked:
  assumes "tracked s" and r: "on_screen r"
  shows "tracked (fst (damage rd r opts s))"
proof -
  obtain x y w h where xywh: "r = (x, y, w, h)" by (cases r)
  define v where "v = (if opt_flag ''damage'' opts then s\<lparr>ws_events_count := ws_events_count s + 1\<rparr> else s)"
  define u where "u = may_update_window_dimensions rd v"
  have u: "ws_log u = ws_log s" "ws_delayed u = ws_delayed s" "ws_dims u = ws_real s" "ws_real u = ws_real s" "ws_managed u = ws_managed s"
    "ws_cancelled u = ws_cancelled s" "ws_sequence u = ws_sequence s" "ws_auto_refresh_encodings u = ws_auto_refresh_encodings s"
    by (simp_all add: u_def v_def)
  have live_u: "live_window u" "regions_track u"
    using assms(1) u dirty_cong[OF u(1)] regions_track_frame[of s u] by (simp_all add: tracked_def live_window_def del: points.simps)
  obtain ww wh where dims: "ws_dims u = (ww, wh)" by (cases "ws_dims u")
  define t where "t = u\<lparr>ws_log := ws_log u @ [Damaged r ww wh]\<rparr>"
  define q where "q = (if ws_full_frames_only t then (0, 0, ww, wh) else r)"
  have dirty_t: "dirty t = dirty u \<union> (points r \<inter> window (ws_dims u))" using dirty_append[of t u "Damaged r ww wh"] by (simp add: t_def dims)
  have t: "live_window t" "ws_delayed t = ws_delayed u" "ws_dims t = ws_dims u"
    using live_u(1) dirty_t u(3,4) by (auto simp: t_def live_window_def simp del: points.simps)
  have q: "on_screen q" using r live_u(1) size_ok_on_screen[of "ws_dims u"] by (simp add: q_def live_window_def dims del: points.simps)
  have new: "points r \<inter> window (ws_dims u) \<subseteq> points q" by (auto simp: q_def dims simp del: points.simps)
  have "tracked (fst (do_damage rd q (opts(''damage'' := None)) t))"
  proof (rule do_damage_tracked[OF t(1) q])
    show "case ws_delayed t of None \<Rightarrow> dirty t \<subseteq> points q
      | Some d \<Rightarrow> regions_ok (dr_regions d) \<and> dirty t \<subseteq> pixels (dr_regions d) \<union> points q"
      using live_u(2) new dirty_t t(2) by (cases "ws_delayed u") (auto simp: regions_track_def simp del: points.simps)
  qed
  moreover have "tracked u" using live_u by (simp add: tracked_def)
  ultimately show ?thesis
    using assms(1) unfolding damage_def xywh prod.case Let_def v_def[symmetric] u_def[symmetric] dims
    by (cases "ws_full_frames_only u") (simp_all add: t_def q_def dims xywh del: points.simps)
qed

subsection \<open>Every step\<close>

lemma given_up_tracked:
  fixes s t :: window_source
  assumes "ws_log t = ws_log s @ [GivenUp]" and "ws_delayed t = None" and "ws_managed t" and "ws_cancelled t \<le> ws_sequence t"
    and "size_ok (ws_dims t)" and "size_ok (ws_real t)" and "ws_auto_refresh_encodings t \<noteq> []"
  shows "tracked t"
  using assms dirty_append[OF assms(1)] by (simp add: tracked_def live_window_def regions_track_def del: points.simps)

text \<open>Damage lies on the screen, the window has a size Xpra accepts and is not cleaned up.\<close>

definition event_ok :: "reading \<times> window_event \<Rightarrow> bool" where
  "event_ok e = (case snd e of
     EvDamage r opts \<Rightarrow> on_screen r
   | EvResize w h \<Rightarrow> size_ok (w, h)
   | EvCleanup \<Rightarrow> False
   | _ \<Rightarrow> True)"

text \<open>Sequence numbers only grow.\<close>

lemma process_region_grows: "ws_sequence s \<le> ws_sequence (process_damage_region E rd dt opts call s)"
  by (cases call) (simp add: process_damage_region_def get_damage_image_def may_update_window_dimensions_def Let_def
      split: option.split prod.split)

lemma process_regions_grow: "ws_sequence s \<le> ws_sequence (fold (process_damage_region E rd dt opts) calls s)"
  by (induction calls arbitrary: s) (auto intro: order_trans[OF process_region_grows])

lemma do_send_regions_grows: "ws_sequence s \<le> ws_sequence (fst (do_send_regions best E rd dt regions coding opts s))"
  by (simp add: do_send_regions_def Let_def process_regions_grow split: sum.split)

lemma send_delayed_regions_grows: "ws_sequence s \<le> ws_sequence (fst (send_delayed_regions E rd d s))"
  using do_send_regions_grows[of "s\<lparr>ws_batch := (ws_batch s)\<lparr>bc_last_event := rd_now rd\<rparr>\<rparr>"]
  by (simp add: send_delayed_regions_def Let_def)

lemma do_send_delayed_grows: "ws_sequence s \<le> ws_sequence (fst (do_send_delayed E rd s))"
  using send_delayed_regions_grows[of "(cancel_soft_timer (cancel_timeout_timer s))\<lparr>ws_delayed := None, ws_batch := b\<rparr>" E rd for b]
  by (simp add: do_send_delayed_def Let_def split: option.split)

lemma may_send_delayed_grows: "ws_sequence s \<le> ws_sequence (fst (may_send_delayed E rd s))"
  using do_send_delayed_grows[of s E rd] do_send_delayed_grows[of "s\<lparr>ws_soft_expired := 0\<rparr>" E rd]
  by (simp add: may_send_delayed_def Let_def split: option.split)

lemma full_quality_refresh_grows: "ws_sequence s \<le> ws_sequence (fst (full_quality_refresh E rd opts s))"
  using send_delayed_regions_grows[of "s\<lparr>ws_refresh_regions := []\<rparr>" E rd] by (simp add: full_quality_refresh_def Let_def)

lemma expire_delayed_region_grows: "ws_sequence s \<le> ws_sequence (fst (expire_delayed_region E rd due tgt s))"
proof -
  have "ws_sequence s \<le> ws_sequence (fst (may_send_delayed E rd (cancel_may_send_timer (s\<lparr>ws_expire_timer := 0, ws_delayed := d\<rparr>))))" for d
    using may_send_delayed_grows[of "cancel_may_send_timer (s\<lparr>ws_expire_timer := 0, ws_delayed := d\<rparr>)" E rd] by simp
  then show ?thesis
    unfolding expire_delayed_region_def Let_def by (auto split: option.split prod.split) (metis fst_conv)+
qed

lemma do_damage_sequence: "ws_sequence (fst (do_damage rd r opts s)) = ws_sequence s"
  by (simp add: do_damage_def new_delayed_region_def Let_def split: option.split sum.split prod.split)

lemma damage_sequence: "ws_sequence (fst (damage rd r opts s)) = ws_sequence s"
  by (cases r) (simp add: damage_def Let_def do_damage_sequence split: prod.split)

lemma damage_packet_acked_sequence: "ws_sequence (damage_packet_acked n t s) = ws_sequence s"
  by (simp add: damage_packet_acked_def client_decode_error_def Let_def split: option.split)

lemma encode_sequence: "ws_sequence (encode_start s) = ws_sequence s" "ws_sequence (encode_finish E rd s) = ws_sequence s"
  by (simp_all add: encode_start_def encode_finish_def make_data_packet_def make_draw_packet_def queue_damage_packet_def Let_def
      split: option.split list.split prod.split)

lemma idle_sequence: "ws_sequence (go_idle s) = ws_sequence s" "ws_sequence (no_idle s) = ws_sequence s"
  by (simp_all add: go_idle_def no_idle_def lock_batch_delay_def unlock_batch_delay_def Let_def)

lemma dropped_sequence: "ws_sequence (reset_statistics (give_up (cancel_damage c s))) = ws_sequence s"
  by (simp add: reset_statistics_def give_up_def)

lemma run_timer_grows:
  assumes "no_refresh s" shows "ws_sequence s \<le> ws_sequence (run_timer E rd i s)"
proof (cases "map_of (ml_sources (ws_loop s)) i")
  case (Some f)
  have "(i, f) \<in> sources s" using Some by (rule map_of_SomeD)
  then have "\<nexists>opts. f = CbRefresh opts" using assms by (auto simp: no_refresh_def)
  moreover define t where "t = s\<lparr>ws_loop := ml_remove i (ws_loop s)\<rparr>"
  have t: "ws_sequence t = ws_sequence s" by (simp add: t_def)
  have "ws_sequence t \<le> ws_sequence (fst (expire_delayed_region E rd due tgt t))"
    "ws_sequence t \<le> ws_sequence (fst (timer_may_send E rd t))"
    "ws_sequence t \<le> ws_sequence (fst (delayed_region_soft_timeout E rd t))"
    "ws_sequence t \<le> ws_sequence (fst (decode_error_refresh E rd t))"
    "ws_sequence t \<le> ws_sequence (fst (call_may_send_delayed E rd t))" for due tgt
    using expire_delayed_region_grows may_send_delayed_grows[of "t\<lparr>ws_may_send_timer := 0\<rparr>"]
      do_send_delayed_grows[of "t\<lparr>ws_soft_timer := 0\<rparr>"] full_quality_refresh_grows[of "t\<lparr>ws_decode_timer := 0\<rparr>"]
      may_send_delayed_grows[of "cancel_may_send_timer t"]
    by (simp_all add: timer_may_send_def delayed_region_soft_timeout_def decode_error_refresh_def call_may_send_delayed_def)
  moreover have "ws_sequence t \<le> ws_sequence (fst (delayed_region_timeout E rd m t))" for m
    using full_quality_refresh_grows[of "log_captures_dropped (cancel_damage 0 (t\<lparr>ws_timeout_timer := 0\<rparr>))" E rd]
    by (simp add: delayed_region_timeout_def Let_def log_captures_dropped_def split: option.split)
  ultimately show ?thesis
    using Some t by (cases f) (simp_all add: run_timer_def Let_def t_def[symmetric])
qed (simp add: run_timer_def)

lemma window_step_grows:
  assumes "no_refresh s" and "event_ok e" shows "ws_sequence s \<le> ws_sequence (window_step E s e)"
proof -
  obtain rd ev where e: "e = (rd, ev)" by (cases e)
  show ?thesis
    using assms
    by (cases ev) (simp_all add: e window_step_def event_ok_def run_timer_grows damage_sequence damage_packet_acked_sequence encode_sequence
        full_quality_refresh_grows idle_sequence dropped_sequence w_refresh_def iconic_changed_def unmap_window_def
        w_suspend_def w_resume_def Let_def)
qed

text \<open>What does not touch the regions keeps them tracked.\<close>

definition tracking_view where
  "tracking_view s = (ws_log s, ws_dims s, ws_real s, ws_managed s, ws_cancelled s, ws_sequence s, ws_auto_refresh_encodings s, ws_delayed s)"

lemma tracked_view: "tracking_view t = tracking_view s \<Longrightarrow> tracked s \<Longrightarrow> tracked t"
  by (rule tracked_unchanged) (simp_all add: tracking_view_def)

lemma acked_view: "tracking_view (damage_packet_acked n t s) = tracking_view s"
  by (simp add: damage_packet_acked_def client_decode_error_def Let_def tracking_view_def split: option.split)

lemma encode_view: "tracking_view (encode_start s) = tracking_view s" "tracking_view (encode_finish E rd s) = tracking_view s"
  by (simp_all add: encode_start_def encode_finish_def make_data_packet_def make_draw_packet_def queue_damage_packet_def Let_def
      tracking_view_def split: option.split list.split prod.split)

lemma idle_tracking_view: "tracking_view (go_idle s) = tracking_view s" "tracking_view (no_idle s) = tracking_view s"
  by (simp_all add: go_idle_def no_idle_def lock_batch_delay_def unlock_batch_delay_def Let_def tracking_view_def)

lemma dropped_tracked:
  assumes "tracked s" shows "tracked ((reset_statistics (give_up (cancel_damage 0 s)))\<lparr>ws_suspended := b\<rparr>)"
  by (rule given_up_tracked[of _ s]) (use assms in \<open>simp_all add: reset_statistics_def give_up_def tracked_def live_window_def\<close>)

lemma run_timer_tracked:
  assumes "env_ok E" and "tracked s" and "ws_sequence s < MAX_SEQUENCE" and "no_refresh s"
  shows "tracked (run_timer E rd i s)"
proof (cases "map_of (ml_sources (ws_loop s)) i")
  case (Some f)
  have "(i, f) \<in> sources s" using Some by (rule map_of_SomeD)
  then have "\<nexists>opts. f = CbRefresh opts" using assms(4) by (auto simp: no_refresh_def)
  moreover define t where "t = s\<lparr>ws_loop := ml_remove i (ws_loop s)\<rparr>"
  have t: "tracked u" if "tracking_view u = tracking_view s" for u using tracked_view[OF that assms(2)] .
  have seq: "ws_sequence t < MAX_SEQUENCE" using assms(3) by (simp add: t_def)
  have live: "live_window u \<and> regions_track u" if "tracking_view u = tracking_view s" for u using t[OF that] by (simp add: tracked_def)
  have "tracked (fst (expire_delayed_region E rd due tgt t))" "tracked (fst (delayed_region_timeout E rd m t))" for due tgt m
    using expire_delayed_region_tracked[OF assms(1) _ seq] delayed_region_timeout_tracked[OF assms(1) _ seq] t[of t]
    by (simp_all add: t_def tracking_view_def)
  moreover have "tracked (fst (timer_may_send E rd t))" "tracked (fst (call_may_send_delayed E rd t))"
      "tracked (fst (delayed_region_soft_timeout E rd t))"
    unfolding timer_may_send_def call_may_send_delayed_def delayed_region_soft_timeout_def
    by (intro may_send_delayed_tracked do_send_delayed_tracked assms(1) t; use seq in \<open>simp add: t_def tracking_view_def\<close>)+
  moreover have "tracked (fst (decode_error_refresh E rd t))"
    unfolding decode_error_refresh_def
    by (intro full_quality_refresh_tracked assms(1)) (use live[of "t\<lparr>ws_decode_timer := 0\<rparr>"] seq in \<open>simp_all add: t_def tracking_view_def\<close>)
  ultimately show ?thesis
    using Some by (cases f) (simp_all add: run_timer_def Let_def t_def[symmetric])
qed (simp add: run_timer_def assms(2))

lemma tracked_screen: "tracked s \<Longrightarrow> on_screen (0, 0, fst (ws_dims s), snd (ws_dims s))"
  unfolding tracked_def live_window_def by (blast intro: size_ok_on_screen)

lemma full_refresh_step_tracked:
  "\<lbrakk>env_ok E; tracked s; ws_sequence s < MAX_SEQUENCE\<rbrakk> \<Longrightarrow> tracked (fst (full_quality_refresh E rd opts s))"
  by (rule full_quality_refresh_tracked) (simp_all add: tracked_def)

lemma window_step_tracked:
  assumes "env_ok E" and "tracked s" and "ws_sequence s < MAX_SEQUENCE" and "no_refresh s" and "event_ok e"
  shows "tracked (window_step E s e)"
proof -
  obtain rd ev where e: "e = (rd, ev)" by (cases e)
  show ?thesis
  proof (cases ev)
    case (EvDamage r opts)
    then show ?thesis using damage_tracked[OF assms(2)] assms(5) by (simp add: e window_step_def event_ok_def)
  next
    case (EvResize w h)
    define t where "t = s\<lparr>ws_real := (w, h), ws_log := ws_log s @ [Resized w h]\<rparr>"
    have d: "dirty t = dirty s \<inter> points (0, 0, w, h)" using dirty_append[of t s "Resized w h"] by (simp add: t_def)
    have f: "ws_managed t = ws_managed s" "ws_cancelled t = ws_cancelled s" "ws_sequence t = ws_sequence s" "ws_dims t = ws_dims s"
      "ws_real t = (w, h)" "ws_auto_refresh_encodings t = ws_auto_refresh_encodings s" "ws_delayed t = ws_delayed s"
      by (simp_all add: t_def)
    have "size_ok (w, h)" using assms(5) by (simp add: e EvResize event_ok_def)
    then have "live_window t"
      using assms(2) unfolding tracked_def live_window_def f d fst_conv snd_conv by blast
    moreover have "regions_track t"
      using assms(2) by (intro regions_track_frame[of s t] f(7)) (simp_all only: tracked_def d Int_lower1)
    ultimately have "tracked t" by (simp only: tracked_def)
    moreover have "window_step E s e = t" by (simp add: e EvResize window_step_def t_def)
    ultimately show ?thesis by simp
  next
    case (EvTimer i) then show ?thesis using run_timer_tracked[OF assms(1-4)] by (simp add: e window_step_def)
  next
    case EvEncodeStart then show ?thesis using tracked_view[OF encode_view(1) assms(2)] by (simp add: e window_step_def)
  next
    case EvEncodeFinish then show ?thesis using tracked_view[OF encode_view(2) assms(2)] by (simp add: e window_step_def)
  next
    case (EvAck n t) then show ?thesis using tracked_view[OF acked_view assms(2)] by (simp add: e window_step_def)
  next
    case (EvRefresh opts)
    then show ?thesis using damage_tracked[OF assms(2) tracked_screen[OF assms(2)]] by (simp add: e window_step_def w_refresh_def)
  next
    case (EvFullRefresh opts) then show ?thesis using full_refresh_step_tracked[OF assms(1-3)] by (simp add: e window_step_def)
  next
    case (EvIconic b)
    have "tracked (s\<lparr>ws_iconic := b\<rparr>)" by (rule tracked_view[OF _ assms(2)]) (simp add: tracking_view_def)
    then show ?thesis using EvIconic tracked_view[OF idle_tracking_view(1)] tracked_view[OF idle_tracking_view(2)]
      by (cases b) (simp_all add: e window_step_def iconic_changed_def Let_def)
  next
    case EvMap then show ?thesis using tracked_view[OF idle_tracking_view(2) assms(2)] by (simp add: e window_step_def)
  next
    case EvUnmap
    have "tracked (reset_statistics (give_up (cancel_damage 0 s)))"
      by (rule tracked_view[OF _ dropped_tracked[OF assms(2), of "ws_suspended (reset_statistics (give_up (cancel_damage 0 s)))"]])
        (simp add: tracking_view_def)
    then show ?thesis using EvUnmap tracked_view[OF idle_tracking_view(1)] by (simp add: e window_step_def unmap_window_def)
  next
    case EvSuspend then show ?thesis using dropped_tracked[OF assms(2)] by (simp add: e window_step_def w_suspend_def)
  next
    case EvResume
    let ?t = "(reset_statistics (give_up (cancel_damage 0 s)))\<lparr>ws_suspended := False\<rparr>"
    have t: "tracked ?t" by (rule dropped_tracked[OF assms(2)])
    show ?thesis using EvResume damage_tracked[OF t tracked_screen[OF t]] by (simp add: e window_step_def w_resume_def w_refresh_def)
  next
    case EvCleanup then show ?thesis using assms(5) by (simp add: e event_ok_def)
  qed
qed

lemma window_run_tracked:
  assumes "env_ok E" and "timed s" and "tracked s"
  shows "\<lbrakk>list_all event_ok evs; ws_sequence (window_run E s evs) < MAX_SEQUENCE\<rbrakk> \<Longrightarrow> tracked (window_run E s evs)"
proof (induction evs rule: rev_induct)
  case Nil then show ?case using assms by (simp add: window_run_def)
next
  case (snoc e evs)
  let ?t = "window_run E s evs"
  have nr: "no_refresh ?t" using window_run_timed[OF assms(2)] timers_fields(1) by blast
  have step: "window_run E s (evs @ [e]) = window_step E ?t e" by (simp add: window_run_def)
  have seq: "ws_sequence ?t < MAX_SEQUENCE"
    using window_step_grows[OF nr, of e E] snoc.prems unfolding step by simp
  then have "tracked ?t" using snoc by simp
  then show ?case using window_step_tracked[OF assms(1) _ seq nr, of e] snoc.prems(1) unfolding step by simp
qed


end
