(* ===== verification/Damage_Packets.thy ===== *)
theory Damage_Packets
  imports Damage_Tracking
begin

text \<open>
  The packets of a window source: their numbers, what is recorded of them until the client
  acknowledges them, and what is sent while the window is suspended. The last part shows what is
  lost when automatic refresh is off.
\<close>

subsection \<open>Packets and acknowledgements\<close>

text \<open>Only the encode thread sends; only it and acknowledgements touch what is recorded.\<close>

definition packet_view where
  "packet_view s = (ws_sent s, ws_packet_sequence s, ws_ack_pending s)"

definition sent_by :: "draw_packet \<Rightarrow> ack_pending \<Rightarrow> bool" where
  "sent_by p a = (ap_coding a = dp_coding p \<and> ap_bytes a = length (dp_data p) \<and> ap_options a = dp_options p
     \<and> ap_pixels a = fst (snd (snd (dp_rect p))) * snd (snd (snd (dp_rect p))))"

definition packets_ok :: "window_source \<Rightarrow> bool" where
  "packets_ok s = (1 \<le> ws_packet_sequence s \<and> map dp_sequence (ws_sent s) = [1..<ws_packet_sequence s]
     \<and> distinct (map fst (ws_ack_pending s))
     \<and> (\<forall>(n, a) \<in> set (ws_ack_pending s). \<exists>p \<in> set (ws_sent s). dp_sequence p = n \<and> sent_by p a))"

lemma packets_cong:
  "\<lbrakk>packets_ok s; ws_sent t = ws_sent s; ws_packet_sequence t = ws_packet_sequence s; set (ws_ack_pending t) \<subseteq> set (ws_ack_pending s);
    distinct (map fst (ws_ack_pending t))\<rbrakk> \<Longrightarrow> packets_ok t"
  by (auto simp: packets_ok_def)

text \<open>What leaves packets as they are, or forgets what was recorded.\<close>

definition packets_kept :: "window_source \<Rightarrow> window_source \<Rightarrow> bool" where
  "packets_kept s t = (ws_sent t = ws_sent s \<and> ws_packet_sequence t = ws_packet_sequence s
     \<and> (ws_ack_pending t = ws_ack_pending s \<or> ws_ack_pending t = [])
     \<and> ws_suspended t = ws_suspended s \<and> ws_current t = ws_current s)"

lemma packets_kept_refl [simp]: "packets_kept s s"
  by (simp add: packets_kept_def)

lemma packets_kept_trans: "packets_kept s t \<Longrightarrow> packets_kept t u \<Longrightarrow> packets_kept s u"
  by (auto simp: packets_kept_def)

lemma packets_kept_ok: "packets_ok s \<Longrightarrow> packets_kept s t \<Longrightarrow> packets_ok t"
  by (auto simp: packets_ok_def packets_kept_def)

lemma timers_keep_acks [simp]:
  "ws_ack_pending (set_expire_timer due tgt s) = ws_ack_pending s" "ws_ack_pending (set_may_send_timer s) = ws_ack_pending s"
  "ws_ack_pending (set_soft_timer s) = ws_ack_pending s" "ws_ack_pending (set_timeout_timer t s) = ws_ack_pending s"
  "ws_ack_pending (set_refresh_timer opts s) = ws_ack_pending s" "ws_ack_pending (set_decode_timer s) = ws_ack_pending s"
  "ws_ack_pending (add_idle_may_send s) = ws_ack_pending s" "ws_ack_pending (cancel_expire_timer s) = ws_ack_pending s"
  "ws_ack_pending (cancel_may_send_timer s) = ws_ack_pending s" "ws_ack_pending (cancel_soft_timer s) = ws_ack_pending s"
  "ws_ack_pending (cancel_timeout_timer s) = ws_ack_pending s" "ws_ack_pending (cancel_refresh_timer s) = ws_ack_pending s"
  "ws_ack_pending (cancel_decode_timer s) = ws_ack_pending s"
  by (simp_all add: set_expire_timer_def set_may_send_timer_def set_soft_timer_def set_timeout_timer_def set_refresh_timer_def
      set_decode_timer_def add_idle_may_send_def cancel_expire_timer_def cancel_may_send_timer_def cancel_soft_timer_def
      cancel_timeout_timer_def cancel_refresh_timer_def cancel_decode_timer_def ml_add_def Let_def)

lemma cancel_damage_keeps_acks [simp]: "ws_ack_pending (cancel_damage c s) = ws_ack_pending s" "ws_current (cancel_damage c s) = ws_current s"
  by (simp_all add: cancel_damage_def Let_def)

lemma process_region_packets: "packets_kept s (process_damage_region E rd dt opts call s)"
  by (cases call) (simp add: process_damage_region_def get_damage_image_def may_update_window_dimensions_def packets_kept_def Let_def
      split: option.split prod.split)

lemma process_regions_packets: "packets_kept s (fold (process_damage_region E rd dt opts) calls s)"
  by (induction calls arbitrary: s) (auto intro: packets_kept_trans[OF process_region_packets])

lemma update_dimensions_packets: "packets_kept s (may_update_window_dimensions rd s)"
  by (simp add: may_update_window_dimensions_def packets_kept_def)

lemma do_send_regions_packets: "packets_kept s (fst (do_send_regions best E rd dt regions coding opts s))"
  by (simp add: do_send_regions_def Let_def process_regions_packets update_dimensions_packets split: sum.split)

lemma send_delayed_regions_packets: "packets_kept s (fst (send_delayed_regions E rd d s))"
  using do_send_regions_packets[of "s\<lparr>ws_batch := (ws_batch s)\<lparr>bc_last_event := rd_now rd\<rparr>\<rparr>"]
  by (simp add: send_delayed_regions_def Let_def packets_kept_def)

lemma do_send_delayed_packets: "packets_kept s (fst (do_send_delayed E rd s))"
  using send_delayed_regions_packets[of "(cancel_soft_timer (cancel_timeout_timer s))\<lparr>ws_delayed := None, ws_batch := b\<rparr>" E rd for b]
  by (simp add: do_send_delayed_def Let_def packets_kept_def split: option.split)

lemma may_send_delayed_packets: "packets_kept s (fst (may_send_delayed E rd s))"
proof -
  have "packets_kept s (set_may_send_timer s)" "packets_kept s (s\<lparr>ws_ack_pending := []\<rparr>)"
    "packets_kept s (fst (do_send_delayed E rd (s\<lparr>ws_soft_expired := 0\<rparr>)))"
    using do_send_delayed_packets[of "s\<lparr>ws_soft_expired := 0\<rparr>" E rd] by (simp_all add: packets_kept_def)
  then show ?thesis
    using do_send_delayed_packets[of s E rd] by (simp add: may_send_delayed_def Let_def split: option.split)
qed

lemma full_quality_refresh_packets: "packets_kept s (fst (full_quality_refresh E rd opts s))"
  using send_delayed_regions_packets[of "s\<lparr>ws_refresh_regions := []\<rparr>" E rd] by (simp add: full_quality_refresh_def Let_def packets_kept_def)

lemma expire_delayed_region_packets: "packets_kept s (fst (expire_delayed_region E rd due tgt s))"
proof -
  let ?t = "\<lambda>d. cancel_may_send_timer (s\<lparr>ws_expire_timer := 0, ws_delayed := d\<rparr>)"
  have r: "packets_kept s (fst (may_send_delayed E rd (?t d)))" for d
    using may_send_delayed_packets[of "?t d" E rd] by (simp add: packets_kept_def)
  have set_ones: "packets_kept s u \<Longrightarrow> packets_kept s (set_expire_timer due 100 u)"
    "packets_kept s u \<Longrightarrow> packets_kept s (set_soft_timer (u\<lparr>ws_soft_expired := n\<rparr>))"
    "packets_kept s u \<Longrightarrow> packets_kept s (set_timeout_timer m u)" "packets_kept s (s\<lparr>ws_expire_timer := 0\<rparr>)" for u n m
    by (auto simp: packets_kept_def)
  show ?thesis
  proof (cases "ws_delayed s")
    case (Some d)
    let ?r = "may_send_delayed E rd (?t (Some (d\<lparr>dr_expired := True\<rparr>)))"
    show ?thesis
      using Some r[of "Some (d\<lparr>dr_expired := True\<rparr>)"] set_ones
      by (cases ?r; cases "snd ?r"; cases "ws_delayed (fst ?r)") (auto simp: expire_delayed_region_def Let_def)
  qed (simp add: expire_delayed_region_def Let_def set_ones)
qed

lemma run_timer_packets:
  assumes "no_refresh s" shows "packets_kept s (run_timer E rd i s)"
proof (cases "map_of (ml_sources (ws_loop s)) i")
  case (Some f)
  have "(i, f) \<in> sources s" using Some by (rule map_of_SomeD)
  then have nr: "\<nexists>opts. f = CbRefresh opts" using assms by (auto simp: no_refresh_def)
  define t where "t = s\<lparr>ws_loop := ml_remove i (ws_loop s)\<rparr>"
  have t: "packets_kept s u" if "packets_kept t u" for u using that by (simp add: packets_kept_def t_def)
  have "packets_kept t (fst (expire_delayed_region E rd due tgt t))" for due tgt by (rule expire_delayed_region_packets)
  moreover have "packets_kept t (fst (timer_may_send E rd t))" "packets_kept t (fst (delayed_region_soft_timeout E rd t))"
    "packets_kept t (fst (decode_error_refresh E rd t))" "packets_kept t (fst (call_may_send_delayed E rd t))"
    using may_send_delayed_packets[of "t\<lparr>ws_may_send_timer := 0\<rparr>" E rd] do_send_delayed_packets[of "t\<lparr>ws_soft_timer := 0\<rparr>" E rd]
      full_quality_refresh_packets[of "t\<lparr>ws_decode_timer := 0\<rparr>" E rd] may_send_delayed_packets[of "cancel_may_send_timer t" E rd]
    by (simp_all add: timer_may_send_def delayed_region_soft_timeout_def decode_error_refresh_def call_may_send_delayed_def packets_kept_def)
  moreover have "packets_kept t (fst (delayed_region_timeout E rd m t))" for m
    using full_quality_refresh_packets[of "log_captures_dropped (cancel_damage 0 (t\<lparr>ws_timeout_timer := 0\<rparr>))" E rd]
    by (simp add: delayed_region_timeout_def Let_def log_captures_dropped_def packets_kept_def split: option.split)
  ultimately show ?thesis
    using Some nr by (intro t) (cases f; auto simp: run_timer_def Let_def t_def[symmetric])
qed (simp add: run_timer_def)

text \<open>Damage, the life of the window and the start of an encoding.\<close>

lemma postpone_refresh_packets: "packets_kept s (postpone_refresh rd opts s)"
  by (simp add: postpone_refresh_def packets_kept_def Let_def)

lemma new_delayed_region_packets: "packets_kept s (fst (new_delayed_region rd r opts s))"
proof -
  have "packets_kept s (set_expire_timer due tgt (s\<lparr>ws_delayed := d, ws_batch := b\<rparr>))" for due tgt d b
    by (simp add: packets_kept_def)
  then show ?thesis by (cases r) (simp add: new_delayed_region_def Let_def split: sum.split)
qed

lemma do_damage_packets: "packets_kept s (fst (do_damage rd r opts s))"
proof -
  define t where "t = postpone_refresh rd opts s"
  have t: "packets_kept s t" unfolding t_def by (rule postpone_refresh_packets)
  have "packets_kept s (t\<lparr>ws_delayed := d\<rparr>)"
    "packets_kept s (set_expire_timer due tgt (t\<lparr>ws_delayed := d, ws_bug := b\<rparr>))" for due tgt d b
    using t by (simp_all add: packets_kept_def)
  then show ?thesis
    using t packets_kept_trans[OF t new_delayed_region_packets]
    by (simp add: do_damage_def Let_def t_def[symmetric] split: option.split sum.split)
qed

lemma damage_packets: "packets_kept s (fst (damage rd r opts s))"
proof -
  define s' where "s' = (if opt_flag ''damage'' opts then s\<lparr>ws_events_count := ws_events_count s + 1\<rparr> else s)"
  define t where "t = may_update_window_dimensions rd s'"
  have t: "packets_kept s t" and u: "packets_kept s (t\<lparr>ws_log := l\<rparr>)" for l
    by (simp_all add: t_def s'_def may_update_window_dimensions_def packets_kept_def Let_def)
  have "packets_kept s (fst (do_damage rd q o' (t\<lparr>ws_log := l\<rparr>)))" for q o' l
    using packets_kept_trans[OF u do_damage_packets] .
  then show ?thesis
    using t by (cases r) (simp add: damage_def Let_def s'_def[symmetric] t_def[symmetric] split: prod.split)
qed

lemma idle_packets: "packets_kept s (go_idle s)" "packets_kept s (no_idle s)"
  by (simp_all add: go_idle_def no_idle_def lock_batch_delay_def unlock_batch_delay_def Let_def packets_kept_def)

lemma dropped_packets: "packets_kept s (reset_statistics (give_up (cancel_damage c s)))"
  by (simp add: reset_statistics_def give_up_def packets_kept_def)

lemma suspended_packets_ok: "packets_ok s \<Longrightarrow> packets_ok (s\<lparr>ws_suspended := b\<rparr>)"
  by (simp add: packets_ok_def)

lemma encode_start_packets_ok: "packets_ok s \<Longrightarrow> packets_ok (encode_start s)"
  by (simp add: encode_start_def Let_def packets_ok_def split: option.split list.split)

lemma encode_start_suspended: "ws_suspended s \<Longrightarrow> packets_kept s (encode_start s)"
  by (simp add: encode_start_def Let_def packets_kept_def split: option.split list.split)

text \<open>Most steps neither send, nor start an encoding, nor suspend or resume.\<close>

definition ev_other :: "window_event \<Rightarrow> bool" where
  "ev_other ev = (case ev of EvEncodeStart \<Rightarrow> False | EvEncodeFinish \<Rightarrow> False | EvAck n t \<Rightarrow> False | EvSuspend \<Rightarrow> False
     | EvResume \<Rightarrow> False | EvCleanup \<Rightarrow> False | _ \<Rightarrow> True)"

lemma window_step_packets_kept:
  assumes "no_refresh s" and "ev_other ev" shows "packets_kept s (window_step E s (rd, ev))"
proof (cases ev)
  case (EvIconic b)
  have "packets_kept s (s\<lparr>ws_iconic := b\<rparr>)" by (simp add: packets_kept_def)
  then have "packets_kept s (go_idle (s\<lparr>ws_iconic := b\<rparr>))" "packets_kept s (no_idle (s\<lparr>ws_iconic := b\<rparr>))"
    by (blast intro: packets_kept_trans idle_packets)+
  then show ?thesis using EvIconic by (cases b) (simp_all add: window_step_def iconic_changed_def)
next
  case EvUnmap
  then show ?thesis
    using packets_kept_trans[OF dropped_packets idle_packets(1)] by (simp add: window_step_def unmap_window_def)
next
  case (EvResize w h)
  then show ?thesis by (simp add: window_step_def packets_kept_def)
qed (use assms in \<open>simp_all add: window_step_def ev_other_def run_timer_packets damage_packets idle_packets
    full_quality_refresh_packets w_refresh_def\<close>)

lemma suspend_packets: "ws_suspended s \<Longrightarrow> packets_kept s (w_suspend s)"
  using dropped_packets[of s 0] by (simp add: w_suspend_def packets_kept_def)

text \<open>A packet is recorded when it is queued and forgotten when it is acknowledged.\<close>

lemma encode_finish_cases:
  obtains "packets_kept (s\<lparr>ws_current := None\<rparr>) (encode_finish E rd s)"
  | item x y w h coding data opts outw outh stride p where "ws_current s = Some item" "cp_image item = (x, y, w, h)"
    "we_encode E item = Some (coding, data, opts, outw, outh, stride)"
    "coding = ''mmap'' \<or> \<not> w_cancelled (cp_sequence item) s \<and> \<not> ws_suspended s"
    "p = \<lparr>dp_rect = (x, y, outw, outh), dp_coding = coding, dp_data = data, dp_sequence = ws_packet_sequence s, dp_stride = stride,
       dp_options = opts(''flush'' \<mapsto> PInt (int (cp_flush item)))\<rparr>"
    "ws_sent (encode_finish E rd s) = ws_sent s @ [p]" "ws_packet_sequence (encode_finish E rd s) = ws_packet_sequence s + 1"
    "ws_ack_pending (encode_finish E rd s) = AList.update (ws_packet_sequence s)
       \<lparr>ap_queued = rd_now rd, ap_coding = coding, ap_pixels = outw * outh, ap_bytes = length data,
        ap_options = dp_options p, ap_damage_time = cp_damage_time item\<rparr> (ws_ack_pending s)"
proof (cases "ws_current s")
  case (Some item)
  obtain x y w h where im: "cp_image item = (x, y, w, h)" by (cases "cp_image item")
  show ?thesis
  proof (cases "w \<le> 0 \<or> h \<le> 0 \<or> we_encode E item = None")
    case False
    then obtain c dd oo ow oh st where en: "we_encode E item = Some (c, dd, oo, ow, oh, st)" by auto
    show ?thesis
    proof (cases "c \<noteq> ''mmap'' \<and> (w_cancelled (cp_sequence item) s \<or> ws_suspended s)")
      case True
      then have "packets_kept (s\<lparr>ws_current := None\<rparr>) (encode_finish E rd s)"
        using Some im en False by (simp add: encode_finish_def make_data_packet_def packets_kept_def Let_def w_cancelled_def)
      then show ?thesis by (rule that(1))
    next
      case sent: False
      then show ?thesis
        by (intro that(2)[OF Some im en])
          (use Some im en False in \<open>auto simp: encode_finish_def make_data_packet_def make_draw_packet_def queue_damage_packet_def
             Let_def w_cancelled_def\<close>)
    qed
  next
    case True
    then have "packets_kept (s\<lparr>ws_current := None\<rparr>) (encode_finish E rd s)"
      using Some im by (auto simp add: encode_finish_def make_data_packet_def packets_kept_def Let_def)
    then show ?thesis by (rule that(1))
  qed
qed (use that(1) in \<open>simp add: encode_finish_def packets_kept_def\<close>)

lemma encode_finish_packets:
  assumes "packets_ok s" shows "packets_ok (encode_finish E rd s)"
proof (cases rule: encode_finish_cases[where E = E and rd = rd and s = s])
  case 1
  then show ?thesis using assms by (auto simp: packets_ok_def packets_kept_def)
next
  case (2 item x y w h coding data opts outw outh stride p)
  have old: "1 \<le> ws_packet_sequence s" "map dp_sequence (ws_sent s) = [1..<ws_packet_sequence s]"
    "\<And>n a. (n, a) \<in> set (ws_ack_pending s) \<Longrightarrow> \<exists>q \<in> set (ws_sent s). dp_sequence q = n \<and> sent_by q a"
    "distinct (map fst (ws_ack_pending s))"
    using assms by (auto simp: packets_ok_def)
  have keys: "(n, a) \<in> set (AList.update k v xs) \<Longrightarrow> (n, a) = (k, v) \<or> (n, a) \<in> set xs" for n a k v and xs :: "(nat \<times> ack_pending) list"
    by (induction xs) (auto split: if_splits)
  have new: "\<exists>q \<in> set (ws_sent s @ [p]). dp_sequence q = n \<and> sent_by q a"
    if "(n, a) \<in> set (ws_ack_pending (encode_finish E rd s))" for n a
    using keys[OF that[unfolded 2(8)]] old(3)[of n a] by (auto simp: 2(5) sent_by_def)
  show ?thesis
    unfolding packets_ok_def 2(6,7) using new old distinct_update[OF old(4)] by (auto simp: 2(5,8))
qed

lemma acked_packets: "packets_ok s \<Longrightarrow> packets_ok (damage_packet_acked n t s)"
proof (rule packets_cong)
  assume "packets_ok s"
  then have d: "distinct (map fst (ws_ack_pending s))" by (simp add: packets_ok_def)
  have e: "ws_sent (client_decode_error s) = ws_sent s" "ws_packet_sequence (client_decode_error s) = ws_packet_sequence s"
    "ws_ack_pending (client_decode_error s) = ws_ack_pending s"
    by (simp_all add: client_decode_error_def Let_def)
  show "ws_sent (damage_packet_acked n t s) = ws_sent s" "ws_packet_sequence (damage_packet_acked n t s) = ws_packet_sequence s"
    using e by (simp_all add: damage_packet_acked_def Let_def split: option.split)
  have p: "ws_ack_pending (damage_packet_acked n t s) = ws_ack_pending s
    \<or> ws_ack_pending (damage_packet_acked n t s) = AList.delete n (ws_ack_pending s)"
    using e by (simp add: damage_packet_acked_def Let_def split: option.split)
  show "set (ws_ack_pending (damage_packet_acked n t s)) \<subseteq> set (ws_ack_pending s)"
    using p by (auto simp: AList.delete_eq)
  show "distinct (map fst (ws_ack_pending (damage_packet_acked n t s)))"
    using p distinct_delete[OF d, of n] d by auto
qed

lemma window_step_packets_ok:
  assumes "packets_ok s" and "no_refresh s" and "snd e \<noteq> EvCleanup" shows "packets_ok (window_step E s e)"
proof -
  obtain rd ev where e: "e = (rd, ev)" by (cases e)
  have d: "packets_ok ((reset_statistics (give_up (cancel_damage 0 s)))\<lparr>ws_suspended := b\<rparr>)" for b
    by (rule suspended_packets_ok[OF packets_kept_ok[OF assms(1) dropped_packets]])
  show ?thesis
  proof (cases "ev_other ev")
    case True
    then show ?thesis using packets_kept_ok[OF assms(1) window_step_packets_kept[OF assms(2)]] e by blast
  next
    case False
    then show ?thesis
      using assms d packets_kept_ok[OF d damage_packets]
      by (cases ev) (simp_all add: e ev_other_def window_step_def encode_start_packets_ok encode_finish_packets acked_packets
          w_suspend_def w_resume_def w_refresh_def)
  qed
qed

interpretation numbered: window_invariant packets_ok "\<lambda>e. snd e \<noteq> EvCleanup" E for E
  by unfold_locales (use window_step_packets_ok in \<open>auto simp: timers_ok_def\<close>)

text \<open>While the window is suspended no encoding starts; one under way sends a packet only with mmap.\<close>

definition only_mmap :: "window_source \<Rightarrow> window_source \<Rightarrow> bool" where
  "only_mmap s t = (ws_suspended t \<and> (\<exists>ps. ws_sent t = ws_sent s @ ps \<and> (\<forall>p \<in> set ps. dp_coding p = ''mmap'')
     \<and> length ps + (if ws_current t = None then 0 else 1) \<le> 1))"

lemma only_mmap_kept: "only_mmap s t \<Longrightarrow> packets_kept t u \<Longrightarrow> only_mmap s u"
  by (simp add: only_mmap_def packets_kept_def)

lemma encode_finish_current: "ws_current (encode_finish E rd s) = None \<and> ws_suspended (encode_finish E rd s) = ws_suspended s"
proof (cases "ws_current s")
  case (Some item)
  have "ws_suspended (fst (make_data_packet E item t)) = ws_suspended t" "ws_current (fst (make_data_packet E item t)) = ws_current t" for t
    by (simp_all add: make_data_packet_def make_draw_packet_def Let_def split: option.split prod.split)
  from this[of "s\<lparr>ws_current := None\<rparr>"] show ?thesis
    using Some by (cases "make_data_packet E item (s\<lparr>ws_current := None\<rparr>)")
      (simp add: encode_finish_def Let_def queue_damage_packet_def split: prod.split option.split)
qed (simp add: encode_finish_def)

lemma encode_finish_only_mmap:
  assumes "only_mmap s t" shows "only_mmap s (encode_finish E rd t)"
proof (cases rule: encode_finish_cases[where E = E and rd = rd and s = t])
  case 1
  then show ?thesis using assms by (auto simp: only_mmap_def packets_kept_def)
next
  case (2 item x y w h coding data opts outw outh stride p)
  then have "coding = ''mmap''" and "ws_current t \<noteq> None" using assms by (auto simp: only_mmap_def)
  then show ?thesis
    using assms encode_finish_current[of E rd t] 2(5,6) by (auto simp: only_mmap_def)
qed

lemma window_step_only_mmap:
  assumes "only_mmap s t" and "no_refresh t" and "snd e \<noteq> EvCleanup" and "snd e \<noteq> EvResume"
  shows "only_mmap s (window_step E t e)"
proof -
  obtain rd ev where e: "e = (rd, ev)" by (cases e)
  have t: "ws_suspended t" using assms(1) by (simp add: only_mmap_def)
  have ack: "ws_sent (damage_packet_acked n d t) = ws_sent t" "ws_suspended (damage_packet_acked n d t) = ws_suspended t"
    "ws_current (damage_packet_acked n d t) = ws_current t" for n d
    by (simp_all add: damage_packet_acked_def client_decode_error_def Let_def split: option.split)
  show ?thesis
  proof (cases "ev_other ev")
    case True
    then show ?thesis using only_mmap_kept[OF assms(1) window_step_packets_kept[OF assms(2)]] e by blast
  next
    case False
    then show ?thesis
      using assms only_mmap_kept[OF assms(1) suspend_packets[OF t]] only_mmap_kept[OF assms(1) encode_start_suspended[OF t]]
        encode_finish_only_mmap[OF assms(1)] ack
      by (cases ev) (simp_all add: e ev_other_def window_step_def only_mmap_def)
  qed
qed

interpretation silent: window_invariant "only_mmap s" "\<lambda>e. snd e \<noteq> EvCleanup \<and> snd e \<noteq> EvResume" E for s E
  by unfold_locales (use window_step_only_mmap in \<open>auto simp: timers_ok_def\<close>)

lemma w_suspend_only_mmap: "only_mmap s (w_suspend s)"
  by (simp add: only_mmap_def w_suspend_def reset_statistics_def give_up_def)

subsection \<open>Damage lost without automatic refresh\<close>

lemma cancel_timers_only:
  "ws_expire_timer (cancel_expire_timer s) = 0" "ws_may_send_timer (cancel_expire_timer s) = ws_may_send_timer s" "ws_soft_timer (cancel_expire_timer s) = ws_soft_timer s" "ws_timeout_timer (cancel_expire_timer s) = ws_timeout_timer s"
  "ws_expire_timer (cancel_may_send_timer s) = ws_expire_timer s" "ws_may_send_timer (cancel_may_send_timer s) = 0" "ws_soft_timer (cancel_may_send_timer s) = ws_soft_timer s" "ws_timeout_timer (cancel_may_send_timer s) = ws_timeout_timer s"
  "ws_expire_timer (cancel_soft_timer s) = ws_expire_timer s" "ws_may_send_timer (cancel_soft_timer s) = ws_may_send_timer s" "ws_soft_timer (cancel_soft_timer s) = 0" "ws_timeout_timer (cancel_soft_timer s) = ws_timeout_timer s"
  "ws_expire_timer (cancel_timeout_timer s) = ws_expire_timer s" "ws_may_send_timer (cancel_timeout_timer s) = ws_may_send_timer s" "ws_soft_timer (cancel_timeout_timer s) = ws_soft_timer s" "ws_timeout_timer (cancel_timeout_timer s) = 0"
  "ws_expire_timer (cancel_refresh_timer s) = ws_expire_timer s" "ws_may_send_timer (cancel_refresh_timer s) = ws_may_send_timer s" "ws_soft_timer (cancel_refresh_timer s) = ws_soft_timer s" "ws_timeout_timer (cancel_refresh_timer s) = ws_timeout_timer s"
  "ws_expire_timer (cancel_decode_timer s) = ws_expire_timer s" "ws_may_send_timer (cancel_decode_timer s) = ws_may_send_timer s" "ws_soft_timer (cancel_decode_timer s) = ws_soft_timer s" "ws_timeout_timer (cancel_decode_timer s) = ws_timeout_timer s"
  by (simp_all add: cancel_expire_timer_def cancel_may_send_timer_def cancel_soft_timer_def
      cancel_timeout_timer_def cancel_refresh_timer_def cancel_decode_timer_def)

text \<open>
  The timeout of a delayed region cancels everything and asks for a full refresh, which does nothing
  when no encoding can refresh: the damage, the captures waiting and every timer are gone.
\<close>

lemma timeout_drops_damage:
  assumes "ws_delayed s = Some d" and "ws_auto_refresh_encodings s = []"
  shows "\<exists>t. fst (delayed_region_timeout E rd (dr_time d) s) = t \<and> ws_delayed t = None \<and> ws_queue t = ws_queue s
    \<and> (\<forall>item \<in> set (ws_queue t). cp_sequence item \<le> ws_sequence s \<longrightarrow> w_cancelled (cp_sequence item) t)
    \<and> ws_expire_timer t = 0 \<and> ws_soft_timer t = 0 \<and> ws_timeout_timer t = 0 \<and> ws_may_send_timer t = 0"
proof -
  define t where "t = cancel_damage 0 (s\<lparr>ws_timeout_timer := 0\<rparr>)"
  have q: "ws_queue t = ws_queue s" by (simp add: t_def cancel_damage_def Let_def)
  have "fst (delayed_region_timeout E rd (dr_time d) s) = log_captures_dropped t"
    using assms by (simp add: delayed_region_timeout_def full_quality_refresh_def t_def log_captures_dropped_def)
  moreover have "w_cancelled n (log_captures_dropped t)" if "n \<le> ws_sequence s" for n
    using that by (simp add: w_cancelled_def log_captures_dropped_def t_def)
  moreover have "ws_expire_timer t = 0" "ws_soft_timer t = 0" "ws_timeout_timer t = 0" "ws_may_send_timer t = 0" "ws_delayed t = None"
    by (simp_all add: t_def cancel_damage_def Let_def cancel_timers_only)
  ultimately show ?thesis using q by (simp add: log_captures_dropped_def)
qed

text \<open>Nor does a client that could not decode a frame ever see it again.\<close>

lemma decode_error_ignored:
  "ws_auto_refresh_encodings s = [] \<Longrightarrow> fst (decode_error_refresh E rd s) = s\<lparr>ws_decode_timer := 0\<rparr>"
  by (simp add: decode_error_refresh_def full_quality_refresh_def)

subsection \<open>Properties\<close>

text \<open>
  C15: the packets of a window are numbered from 1 in the order they are queued, and what is recorded
  of a packet until it is acknowledged, its encoding, size and options, is what was queued under
  that number: whatever is damaged, captured, cancelled, encoded, acknowledged or suspended, in
  any order, until the window is cleaned up.
\<close>

theorem acks_match_packets:
  assumes "fresh_source s" and "1 \<le> ws_max_soft_expired s" and "list_all (\<lambda>e. snd e \<noteq> EvCleanup) evs"
  shows "map dp_sequence (ws_sent (window_run E s evs)) = [1..<ws_packet_sequence (window_run E s evs)]
    \<and> distinct (map fst (ws_ack_pending (window_run E s evs)))
    \<and> list_all (\<lambda>(n, a). \<exists>p \<in> set (ws_sent (window_run E s evs)). dp_sequence p = n \<and> sent_by p a)
        (ws_ack_pending (window_run E s evs))"
proof -
  have "packets_ok s" using assms(1) by (simp add: fresh_source_def packets_ok_def)
  then have "packets_ok (window_run E s evs)"
    using numbered.kept_by_runs[OF fresh_source_timed[OF assms(1,2)] _ assms(3)] by blast
  then show ?thesis by (simp add: packets_ok_def list_all_iff)
qed


end
