(* ===== verification/Damage_Examples.thy ===== *)
theory Damage_Examples
  imports Damage_Packets
begin

text \<open>
  The properties of a window source at work: a window of 200 by 100 pixels is damaged, the region
  expires, its pixels are captured, encoded, and the client acknowledges the packet.
\<close>

definition example_env :: window_env where
  "example_env = \<lparr>we_encoding = (\<lambda>w h opts c. ''png''), we_refresh_encoding = (\<lambda>w h opts c. ''png''),
     we_image = (\<lambda>x y w h. Some (w, h)), we_encode = (\<lambda>c. Some (''png'', [1, 2, 3], Map.empty, cp_w c, cp_h c, 40)),
     we_order = remdups\<rparr>"

definition example_reading :: "int \<Rightarrow> reading" where
  "example_reading now = \<lparr>rd_now = now, rd_latency = 10, rd_bitrate = 0, rd_queue_size = 0, rd_congestion_elapsed = 5000,
     rd_idle = 0, rd_congested = (\<lambda>p. p), rd_refresh_mult = (\<lambda>p. p)\<rparr>"

definition example_batch :: batch_config where
  "example_batch = \<lparr>bc_delay = 20, bc_min_delay = 5, bc_max_delay = 500, bc_expire_delay = 15, bc_timeout_delay = 15000,
     bc_locked = False, bc_saved = 0, bc_last_event = 0, bc_last_delay = None, bc_last_actual_delay = None\<rparr>"

definition example_quality :: quality_settings where
  "example_quality = \<lparr>q_fixed_speed = 0, q_fixed_min_speed = 0, q_fixed_max_speed = 100, q_current_speed = 50,
     q_fixed_quality = 0, q_fixed_min_quality = 0, q_fixed_max_quality = 100, q_current_quality = 80,
     q_content_type = [], q_rgb_formats = [''BGRX''], q_rgb_lz4 = True, q_transparency = False\<rparr>"

definition example_source :: window_source where
  "example_source = \<lparr>ws_managed = True, ws_suspended = False, ws_iconic = False, ws_is_idle = False, ws_full_frames_only = False,
     ws_encoding = ''auto'', ws_dims = (200, 100), ws_real = (200, 100), ws_max_small_regions = 40, ws_max_bytes_percent = 60,
     ws_small_packet_cost = 1024, ws_mmap = False, ws_bandwidth_limit = 0, ws_auto_refresh_encodings = [''png''],
     ws_auto_refresh_delay = 150, ws_base_refresh_delay = 150, ws_min_refresh_delay = 50, ws_refresh_quality = 95,
     ws_refresh_speed = 50, ws_speed_quality = example_quality, ws_max_soft_expired = 5, ws_batch = example_batch,
     ws_loop = ml_init, ws_expire_timer = 0, ws_may_send_timer = 0, ws_soft_timer = 0, ws_timeout_timer = 0, ws_refresh_timer = 0,
     ws_decode_timer = 0, ws_soft_expired = 0, ws_delayed = None, ws_sequence = 1, ws_cancelled = 0, ws_packet_sequence = 1,
     ws_refresh_regions = [], ws_refresh_event_time = 0, ws_refresh_target_time = 0, ws_events_count = 0, ws_last_resized = 0,
     ws_resize_events = [], ws_decode_errors = 0, ws_queue = [], ws_current = None, ws_encoding_pending = [],
     ws_ack_pending = [], ws_sent = [], ws_log = [], ws_bug = False\<rparr>"

lemma example_source_fresh: "fresh_source example_source" "1 \<le> ws_max_soft_expired example_source"
  by (simp_all add: fresh_source_def example_source_def)

lemma example_env_ok: "env_ok example_env"
  by (simp add: env_ok_def example_env_def)

definition example_damaged :: window_source where
  "example_damaged = window_step example_env example_source (example_reading 1000, EvDamage (10, 10, 20, 30) Map.empty)"

definition example_expired :: window_source where
  "example_expired = window_step example_env example_damaged (example_reading 1020, EvTimer 1)"

lemmas example_defs = example_env_def example_reading_def example_batch_def example_quality_def example_source_def

lemma example_damaged_eq: "example_damaged = example_source\<lparr>
    ws_delayed := Some \<lparr>dr_time = 1000, dr_encoding = ''auto'', dr_options = Map.empty, dr_regions = [(10, 10, 20, 30)], dr_expired = False\<rparr>,
    ws_batch := example_batch\<lparr>bc_last_delay := Some (1000, 0)\<rparr>, ws_expire_timer := 1,
    ws_loop := \<lparr>ml_next = 2, ml_sources = [(1, CbExpire 1000 20)]\<rparr>, ws_log := [Damaged (10, 10, 20, 30) 200 100]\<rparr>"
  by (simp add: example_damaged_def window_step_def damage_def resize_raises_def may_update_window_dimensions_def do_damage_def postpone_refresh_def
      new_delayed_region_def mk_rectangle_def cint_def remaining_delay_def damage_delay_def opt_int_def opt_flag_def delay_increase_def
      set_expire_timer_def ml_add_def ml_init_def example_defs MAX_WINDOW_SIZE_def FRAME_OVERHEAD_def Let_def)

lemma example_expired_eq: "ws_delayed example_expired = None \<and> ws_sequence example_expired = 2
   \<and> ws_log example_expired = [Damaged (10, 10, 20, 30) 200 100, Captured (10, 10, 20, 30)]
   \<and> map (\<lambda>c. (cp_image c, cp_coding c, cp_sequence c, cp_w c, cp_h c)) (ws_queue example_expired)
        = [((10, 10, 20, 30), ''png'', 2, 20, 30)]
   \<and> ws_refresh_timer example_expired = 0 \<and> ws_current example_expired = None \<and> \<not> ws_suspended example_expired
   \<and> ws_cancelled example_expired = 0 \<and> ws_packet_sequence example_expired = 1 \<and> ws_sent example_expired = []
   \<and> ws_ack_pending example_expired = []"
  by (simp add: example_expired_def window_step_def run_timer_def example_damaged_eq ml_remove_def expire_delayed_region_def
      cancel_may_send_timer_def may_send_delayed_def packets_backlog_def pixels_encoding_backlog_def do_send_delayed_def
      cancel_timeout_timer_def cancel_soft_timer_def send_delayed_regions_def do_send_regions_def w_cancelled_def MAX_SEQUENCE_def
      send_regions_plan_def send_params_of_def merge_regions_def almost_window_def MIN_WINDOW_REGION_SIZE_def
      process_damage_region_def get_damage_image_def resize_raises_def may_update_window_dimensions_def clip_region_def example_defs Let_def)

lemma example_runs:
  "window_run example_env example_source [(example_reading 1000, EvDamage (10, 10, 20, 30) Map.empty)] = example_damaged"
  "window_run example_env example_source
     [(example_reading 1000, EvDamage (10, 10, 20, 30) Map.empty), (example_reading 1020, EvTimer 1)] = example_expired"
  by (simp_all add: window_run_def example_damaged_def example_expired_def)

theorem delayed_region_has_timer_witness:
  "ws_delayed example_damaged \<noteq> None \<and> \<not> ws_bug example_damaged
   \<and> (\<exists>i cb. (i, cb) \<in> sources example_damaged
        \<and> (cb = CbSoft \<or> (\<exists>due tgt. cb = CbExpire due tgt) \<or> cb = CbTimeout (dr_time (the (ws_delayed example_damaged)))))"
proof -
  have d: "ws_delayed example_damaged \<noteq> None" by (simp add: example_damaged_eq)
  show ?thesis
    using delayed_region_has_timer[OF example_source_fresh, of example_env
        "[(example_reading 1000, EvDamage (10, 10, 20, 30) Map.empty)]", unfolded example_runs] d by blast
qed


lemma example_events_ok: "list_all event_ok [(example_reading 1000, EvDamage (10, 10, 20, 30) Map.empty), (example_reading 1020, EvTimer 1)]"
  "list_all event_ok [(example_reading 1000, EvDamage (10, 10, 20, 30) Map.empty)]"
  by (simp_all add: event_ok_def on_screen_def)


definition example_sent :: window_source where
  "example_sent = window_step example_env (window_step example_env example_expired (example_reading 1020, EvEncodeStart))
     (example_reading 1025, EvEncodeFinish)"

lemma example_sent_eq: "map (\<lambda>p. (dp_rect p, dp_coding p, dp_sequence p)) (ws_sent example_sent) = [((10, 10, 20, 30), ''png'', 1)]
   \<and> map fst (ws_ack_pending example_sent) = [1] \<and> ws_packet_sequence example_sent = 2"
proof -
  obtain c where c: "ws_queue example_expired = [c]" "cp_image c = (10, 10, 20, 30)" "cp_sequence c = 2" "cp_w c = 20" "cp_h c = 30"
    using example_expired_eq by auto
  show ?thesis
    using c example_expired_eq
    by (simp add: example_sent_def window_step_def encode_start_def encode_finish_def make_data_packet_def make_draw_packet_def
        queue_damage_packet_def w_cancelled_def example_env_def Let_def)
qed

definition example_run :: "(reading \<times> window_event) list" where
  "example_run = [(example_reading 1000, EvDamage (10, 10, 20, 30) Map.empty), (example_reading 1020, EvTimer 1),
     (example_reading 1020, EvEncodeStart), (example_reading 1025, EvEncodeFinish)]"

lemma example_run_eq: "window_run example_env example_source example_run = example_sent"
  by (simp add: window_run_def example_run_def example_damaged_def example_expired_def example_sent_def)

theorem acks_match_packets_witness:
  "map dp_sequence (ws_sent example_sent) = [1] \<and> map fst (ws_ack_pending example_sent) = [1]
   \<and> list_all (\<lambda>(n, a). \<exists>p \<in> set (ws_sent example_sent). dp_sequence p = n \<and> sent_by p a) (ws_ack_pending example_sent)"
proof -
  have "list_all (\<lambda>e. snd e \<noteq> EvCleanup) example_run" by (simp add: example_run_def)
  from acks_match_packets[OF example_source_fresh this, of example_env, unfolded example_run_eq] show ?thesis
    using example_sent_eq by (simp add: upt_conv_Cons)
qed


end
